(* ===== verification/Prelude.thy ===== *)
theory Prelude
  imports Main "HOL-Library.Word" "HOL-Library.Char_ord" "HOL-Library.List_Lexorder"
    "HOL-Library.AList" "HOL-Library.Sublist"
begin

text \<open>
  Shared material of the AgentFlow development: the result types of the C++ code
  (\<open>absl::Status\<close>, \<open>absl::StatusOr\<close>, exceptions), byte-string
  operations of \<open>std::string_view\<close> and abseil that the sources use (\<open>find\<close>,
  \<open>rfind\<close>, ASCII classification, decimal rendering), association lists standing for the
  standard containers, and the locales the components instantiate: a keyed store, an
  incremental stream decoder and a transition system with an invariant.

  A \<open>std::string\<close> is a \<^typ>\<open>string\<close>, that is a list of bytes.
\<close>

named_theorems status_simps \<open>unfolding of result combinators\<close>
named_theorems str_simps \<open>rewriting of byte-string operations\<close>

section \<open>Results and errors\<close>

datatype status_code = InvalidArgument | NotFound | FailedPrecondition | ResourceExhausted
  | Unavailable | Internal | Cancelled | DataLoss | Unknown | DeadlineExceeded | Unimplemented | PermissionDenied

datatype status = Status (code: status_code) (message: string)

type_synonym 'a status_or = "status + 'a"

text \<open>
  The exceptions that cross component boundaries: the two classes of \<open>core/errors.h\<close> the code tells apart,
  any other \<open>std::exception\<close>, and what \<open>catch (...)\<close> alone catches.
\<close>

datatype exn = GraphCompileError string | AgentflowError string | OtherException string | NonStdException

type_synonym 'a exn_or = "exn + 'a"

fun exn_what :: "exn \<Rightarrow> string option" where
  "exn_what (GraphCompileError m) = Some m"
| "exn_what (AgentflowError m) = Some m"
| "exn_what (OtherException m) = Some m"
| "exn_what NonStdException = None"

text \<open>Sequencing that stops at the first error, as an early \<open>return status\<close> does.\<close>

definition bind_status :: "'e + 'a \<Rightarrow> ('a \<Rightarrow> 'e + 'b) \<Rightarrow> 'e + 'b" where
  "bind_status r f = (case r of Inl e \<Rightarrow> Inl e | Inr x \<Rightarrow> f x)"

lemma bind_status_simps [simp, status_simps]:
  "bind_status (Inl e) f = Inl e"
  "bind_status (Inr x) f = f x"
  by (simp_all add: bind_status_def)

lemma bind_status_Inr_iff [status_simps]:
  "bind_status r f = Inr y \<longleftrightarrow> (\<exists>x. r = Inr x \<and> f x = Inr y)"
  by (cases r) simp_all

text \<open>A loop over a container whose body may return early with an error.\<close>

fun fold_status :: "('s \<Rightarrow> 'x \<Rightarrow> 'e + 's) \<Rightarrow> 's \<Rightarrow> 'x list \<Rightarrow> 'e + 's" where
  "fold_status f s [] = Inr s"
| "fold_status f s (x # xs) = bind_status (f s x) (\<lambda>s'. fold_status f s' xs)"

lemma fold_status_append:
  "fold_status f s (xs @ ys) = bind_status (fold_status f s xs) (\<lambda>s'. fold_status f s' ys)"
  by (induction xs arbitrary: s) (auto simp: bind_status_def split: sum.splits)

lemma fold_status_inv:
  assumes "fold_status f s xs = Inr t" and "I s"
    and "\<And>u x v. I u \<Longrightarrow> x \<in> set xs \<Longrightarrow> f u x = Inr v \<Longrightarrow> I v"
  shows "I t"
  using assms
proof (induction xs arbitrary: s)
  case Nil
  then show ?case by simp
next
  case (Cons x xs)
  from Cons.prems(1) obtain u where u: "f s x = Inr u" "fold_status f u xs = Inr t"
    by (auto simp: bind_status_Inr_iff)
  have "I u" by (rule Cons.prems(3)[OF Cons.prems(2) _ u(1)]) simp
  then show ?case by (rule Cons.IH[OF u(2)]) (auto intro: Cons.prems(3))
qed

text \<open>A loop that only checks: the state is \<^typ>\<open>unit\<close>.\<close>

fun check_all :: "('x \<Rightarrow> 'e option) \<Rightarrow> 'x list \<Rightarrow> 'e option" where
  "check_all f [] = None"
| "check_all f (x # xs) = (case f x of Some e \<Rightarrow> Some e | None \<Rightarrow> check_all f xs)"

lemma check_all_None [simp]: "check_all f xs = None \<longleftrightarrow> (\<forall>x\<in>set xs. f x = None)"
  by (induction xs) (auto split: option.splits)

lemma check_all_Some: "check_all f xs = Some e \<Longrightarrow> \<exists>x\<in>set xs. f x = Some e"
  by (induction xs) (auto split: option.splits)

section \<open>Byte strings\<close>

text \<open>\<open>std::string_view::find(pat)\<close>: the first position where \<open>pat\<close> starts.\<close>

fun find_sub :: "'a list \<Rightarrow> 'a list \<Rightarrow> nat option" where
  "find_sub pat [] = (if pat = [] then Some 0 else None)"
| "find_sub pat (x # xs) =
     (if prefix pat (x # xs) then Some 0 else map_option Suc (find_sub pat xs))"

lemma find_sub_Some_prefix: "find_sub pat s = Some i \<Longrightarrow> prefix pat (drop i s)"
  by (induction pat s arbitrary: i rule: find_sub.induct) (auto split: if_splits)

lemma find_sub_Some_le: "find_sub pat s = Some i \<Longrightarrow> i + length pat \<le> length s"
proof (induction pat s arbitrary: i rule: find_sub.induct)
  case (2 pat x xs)
  then show ?case
    by (auto split: if_splits dest: prefix_length_le)
qed (auto split: if_splits)

lemma find_sub_Some_split:
  assumes "find_sub pat s = Some i"
  shows "s = take i s @ pat @ drop (i + length pat) s"
proof -
  from find_sub_Some_prefix[OF assms] obtain zs where zs: "drop i s = pat @ zs"
    by (auto simp: prefix_def)
  then have "drop (i + length pat) s = zs"
    by (metis add.commute append_eq_conv_conj drop_drop)
  with zs show ?thesis by (metis append_take_drop_id)
qed

lemma find_sub_minimal: "find_sub pat s = Some i \<Longrightarrow> j < i \<Longrightarrow> \<not> prefix pat (drop j s)"
proof (induction pat s arbitrary: i j rule: find_sub.induct)
  case (2 pat x xs)
  then show ?case by (cases j) (auto split: if_splits)
qed (auto split: if_splits)

lemma find_sub_None: "find_sub pat s = None \<Longrightarrow> \<not> prefix pat (drop j s)"
proof (induction pat s arbitrary: j rule: find_sub.induct)
  case (2 pat x xs)
  then show ?case by (cases j) (auto split: if_splits)
qed (auto split: if_splits)

lemma find_sub_SomeI:
  assumes "prefix pat (drop i s)" and "i \<le> length s" and "\<And>j. j < i \<Longrightarrow> \<not> prefix pat (drop j s)"
  shows "find_sub pat s = Some i"
proof (cases "find_sub pat s")
  case None
  with find_sub_None assms(1) show ?thesis by blast
next
  case (Some k)
  have "\<not> k < i" using assms(3) find_sub_Some_prefix[OF Some] by blast
  moreover have "\<not> i < k" using find_sub_minimal[OF Some] assms(1) by blast
  ultimately show ?thesis using Some by simp
qed

lemma find_sub_append: "find_sub pat s = Some i \<Longrightarrow> find_sub pat (s @ t) = Some i"
proof (induction pat s arbitrary: i rule: find_sub.induct)
  case (1 pat)
  then show ?case by (cases t) (auto split: if_splits)
next
  case (2 pat x xs)
  show ?case
  proof (cases "prefix pat (x # xs)")
    case True
    with 2 show ?thesis by (auto dest: prefix_prefix)
  next
    case False
    with 2 obtain k where k: "find_sub pat xs = Some k" "i = Suc k" by auto
    have "\<not> prefix pat (x # xs @ t)"
    proof
      assume "prefix pat (x # xs @ t)"
      moreover have "length pat \<le> length (x # xs)" using find_sub_Some_le[OF k(1)] by simp
      ultimately have "prefix pat (x # xs)"
        by (metis append_Cons prefix_def prefix_length_prefix)
      with False show False ..
    qed
    with 2 False k show ?thesis by simp
  qed
qed

text \<open>A match in a longer buffer that was not complete before ends in the new part.\<close>

lemma find_sub_append_new:
  assumes "find_sub pat s = None" and "find_sub pat (s @ t) = Some i"
  shows "length s < i + length pat"
proof (rule ccontr)
  assume "\<not> length s < i + length pat"
  then have le: "i + length pat \<le> length s" by simp
  have "prefix pat (drop i (s @ t))" by (rule find_sub_Some_prefix[OF assms(2)])
  moreover have "prefix (drop i s) (drop i (s @ t))" by simp
  ultimately have "prefix pat (drop i s)"
    by (rule prefix_length_prefix) (use le in simp)
  with find_sub_None[OF assms(1)] show False by blast
qed

text \<open>\<open>absl::StrJoin\<close> and its hand-written relatives.\<close>

fun join_with :: "'a list \<Rightarrow> 'a list list \<Rightarrow> 'a list" where
  "join_with sep [] = []"
| "join_with sep [l] = l"
| "join_with sep (l # l' # ls) = l @ sep @ join_with sep (l' # ls)"

text \<open>\<open>std::string_view::find(c)\<close> and \<open>rfind(c)\<close> for one byte.\<close>

fun find_char :: "'a \<Rightarrow> 'a list \<Rightarrow> nat option" where
  "find_char c [] = None"
| "find_char c (x # xs) = (if x = c then Some 0 else map_option Suc (find_char c xs))"

definition rfind_char :: "'a \<Rightarrow> 'a list \<Rightarrow> nat option" where
  "rfind_char c s = map_option (\<lambda>i. length s - Suc i) (find_char c (rev s))"

lemma find_char_None [simp]: "find_char c s = None \<longleftrightarrow> c \<notin> set s"
  by (induction s) auto

lemma find_char_append [simp]:
  "c \<notin> set xs \<Longrightarrow> find_char c (xs @ c # ys) = Some (length xs)"
  by (induction xs) auto

lemma find_char_SomeD:
  "find_char c s = Some i \<Longrightarrow> i < length s \<and> s ! i = c \<and> c \<notin> set (take i s)"
  by (induction s arbitrary: i) (auto split: if_splits)

lemma rfind_char_None [simp]: "rfind_char c s = None \<longleftrightarrow> c \<notin> set s"
  by (simp add: rfind_char_def)

lemma rfind_char_append [simp]:
  "c \<notin> set ys \<Longrightarrow> rfind_char c (xs @ c # ys) = Some (length xs)"
  by (simp add: rfind_char_def)

subsection \<open>ASCII classes\<close>

definition byte_val :: "char \<Rightarrow> nat" where
  "byte_val c = of_char c"

text \<open>\<open>absl::ascii_isspace\<close> and \<open>std::isspace\<close> in the C locale.\<close>

definition ascii_isspace :: "char \<Rightarrow> bool" where
  "ascii_isspace c \<longleftrightarrow> byte_val c = 32 \<or> (9 \<le> byte_val c \<and> byte_val c \<le> 13)"

definition ascii_isdigit :: "char \<Rightarrow> bool" where
  "ascii_isdigit c \<longleftrightarrow> 48 \<le> byte_val c \<and> byte_val c \<le> 57"

definition ascii_tolower :: "char \<Rightarrow> char" where
  "ascii_tolower c =
     (if 65 \<le> byte_val c \<and> byte_val c \<le> 90 then char_of (byte_val c + 32) else c)"

definition str_tolower :: "string \<Rightarrow> string" where
  "str_tolower s = map ascii_tolower s"

definition drop_suffix_while :: "('a \<Rightarrow> bool) \<Rightarrow> 'a list \<Rightarrow> 'a list" where
  "drop_suffix_while P s = rev (dropWhile P (rev s))"

definition trim_with :: "('a \<Rightarrow> bool) \<Rightarrow> 'a list \<Rightarrow> 'a list" where
  "trim_with P s = drop_suffix_while P (dropWhile P s)"

lemma drop_suffix_while_id: "s = [] \<or> \<not> P (last s) \<Longrightarrow> drop_suffix_while P s = s"
  by (cases s rule: rev_cases) (auto simp: drop_suffix_while_def)

lemma trim_with_id:
  "s = [] \<or> (\<not> P (hd s) \<and> \<not> P (last s)) \<Longrightarrow> trim_with P s = s"
  by (cases s) (auto simp: trim_with_def drop_suffix_while_id)

lemma set_drop_suffix_while: "set (drop_suffix_while P s) \<subseteq> set s"
  unfolding drop_suffix_while_def by (auto dest: set_dropWhileD)

lemma set_trim_with: "set (trim_with P s) \<subseteq> set s"
  unfolding trim_with_def using set_drop_suffix_while by (fastforce dest: set_dropWhileD)

lemma last_drop_suffix_while:
  "drop_suffix_while P s \<noteq> [] \<Longrightarrow> \<not> P (last (drop_suffix_while P s))"
  unfolding drop_suffix_while_def
  by (simp add: last_rev hd_dropWhile)

subsection \<open>Decimal rendering\<close>

text \<open>\<open>absl::StrCat\<close> and \<open>std::to_string\<close> on integers.\<close>

definition digit_char :: "nat \<Rightarrow> char" where
  "digit_char d = char_of (48 + d)"

fun nat_to_dec :: "nat \<Rightarrow> string" where
  "nat_to_dec n = (if n < 10 then [digit_char n] else nat_to_dec (n div 10) @ [digit_char (n mod 10)])"

declare nat_to_dec.simps [simp del]

definition int_to_dec :: "int \<Rightarrow> string" where
  "int_to_dec i = (if i < 0 then CHR ''-'' # nat_to_dec (nat (- i)) else nat_to_dec (nat i))"

definition digit_value :: "char \<Rightarrow> nat" where
  "digit_value c = byte_val c - 48"

definition dec_value :: "string \<Rightarrow> nat" where
  "dec_value s = foldl (\<lambda>n c. n * 10 + digit_value c) 0 s"

lemma byte_val_less [simp]: "byte_val c < 256"
  by (simp add: byte_val_def)

lemma byte_val_inj [simp]: "byte_val c = byte_val d \<longleftrightarrow> c = d"
  by (simp add: byte_val_def)

lemma byte_val_digit_char [simp]: "d < 10 \<Longrightarrow> byte_val (digit_char d) = 48 + d"
  by (simp add: byte_val_def digit_char_def)

lemma ascii_isdigit_digit_char [simp]: "d < 10 \<Longrightarrow> ascii_isdigit (digit_char d)"
  by (simp add: ascii_isdigit_def)

lemma nat_to_dec_digits: "\<forall>c\<in>set (nat_to_dec n). ascii_isdigit c"
proof (induction n rule: nat_to_dec.induct)
  case (1 n)
  show ?case
  proof (cases "n < 10")
    case True
    then show ?thesis by (simp add: nat_to_dec.simps[of n])
  next
    case False
    with 1 show ?thesis by (simp add: nat_to_dec.simps[of n])
  qed
qed

lemma nat_to_dec_nonempty [simp]: "nat_to_dec n \<noteq> []"
  by (subst nat_to_dec.simps) simp

lemma dec_value_snoc: "dec_value (s @ [c]) = dec_value s * 10 + digit_value c"
  by (simp add: dec_value_def)

lemma dec_value_nat_to_dec [simp]: "dec_value (nat_to_dec n) = n"
proof (induction n rule: nat_to_dec.induct)
  case (1 n)
  show ?case
  proof (cases "n < 10")
    case True
    then show ?thesis
      by (simp add: nat_to_dec.simps[of n] dec_value_def digit_value_def)
  next
    case False
    with 1 show ?thesis
      by (simp add: nat_to_dec.simps[of n] dec_value_snoc digit_value_def)
  qed
qed

section \<open>Association lists for the standard maps\<close>

text \<open>
  An \<open>unordered_map\<close> or \<open>std::map\<close> is an association list with distinct keys,
  read by \<^const>\<open>map_of\<close> and written by \<^const>\<open>AList.update\<close> and
  \<^const>\<open>AList.delete\<close>. The order of the list is the order of iteration, which
  matters only where the source fixes it.
\<close>

definition alist_get :: "'v \<Rightarrow> ('k \<times> 'v) list \<Rightarrow> 'k \<Rightarrow> 'v" where
  "alist_get d m k = (case map_of m k of None \<Rightarrow> d | Some v \<Rightarrow> v)"

definition has_key :: "('k \<times> 'v) list \<Rightarrow> 'k \<Rightarrow> bool" where
  "has_key m k \<longleftrightarrow> map_of m k \<noteq> None"

lemma has_key_iff: "has_key m k \<longleftrightarrow> k \<in> fst ` set m"
  by (simp add: has_key_def map_of_eq_None_iff)

lemma alist_get_update [simp]:
  "alist_get d (AList.update k v m) k' = (if k' = k then v else alist_get d m k')"
  by (simp add: alist_get_def update_conv')

lemma map_of_update [simp]: "map_of (AList.update k v m) = (map_of m)(k \<mapsto> v)"
  by (simp add: update_conv')

lemma map_of_delete [simp]: "map_of (AList.delete k m) = (map_of m)(k := None)"
  by (simp add: delete_conv')

lemma has_key_update [simp]: "has_key (AList.update k v m) k' \<longleftrightarrow> k' = k \<or> has_key m k'"
  by (simp add: has_key_def)

text \<open>A \<open>std::map\<close> iterates in key order: insertion keeps the list sorted.\<close>

fun sorted_insert :: "'k::linorder \<Rightarrow> 'v \<Rightarrow> ('k \<times> 'v) list \<Rightarrow> ('k \<times> 'v) list" where
  "sorted_insert k v [] = [(k, v)]"
| "sorted_insert k v ((k', v') # m) =
     (if k = k' then (k, v) # m
      else if k < k' then (k, v) # (k', v') # m
      else (k', v') # sorted_insert k v m)"

lemma map_of_sorted_insert [simp]: "map_of (sorted_insert k v m) = (map_of m)(k \<mapsto> v)"
  by (induction m) (auto simp: fun_eq_iff)

lemma keys_sorted_insert [simp]: "fst ` set (sorted_insert k v m) = insert k (fst ` set m)"
proof (induction m)
  case (Cons p m)
  then show ?case by (cases p) (auto simp: insert_commute)
qed simp

lemma sorted_sorted_insert:
  "sorted (map fst m) \<Longrightarrow> distinct (map fst m) \<Longrightarrow>
     sorted (map fst (sorted_insert k v m)) \<and> distinct (map fst (sorted_insert k v m))"
proof (induction m)
  case (Cons p m)
  obtain k' v' where p: "p = (k', v')" by (cases p)
  have keys: "set (map fst (sorted_insert k v m)) = insert k (set (map fst m))"
    using keys_sorted_insert[of k v m] by simp
  show ?case
    using Cons p keys by (auto simp del: keys_sorted_insert)
qed simp

section \<open>Interfaces shared by the components\<close>

text \<open>
  A keyed store: what a client of a registry relies on. \<open>put\<close> replaces, \<open>drop\<close>
  removes, \<open>get\<close> reads.
\<close>

locale keyed_store =
  fixes get :: "'s \<Rightarrow> 'k \<Rightarrow> 'v option"
    and put :: "'k \<Rightarrow> 'v \<Rightarrow> 's \<Rightarrow> 's"
    and invar :: "'s \<Rightarrow> bool"
  assumes get_put: "invar s \<Longrightarrow> get (put k v s) k' = (if k' = k then Some v else get s k')"
    and invar_put: "invar s \<Longrightarrow> invar (put k v s)"
begin

definition put_all :: "('k \<times> 'v) list \<Rightarrow> 's \<Rightarrow> 's" where
  "put_all kvs s = fold (\<lambda>(k, v). put k v) kvs s"

lemma invar_put_all: "invar s \<Longrightarrow> invar (put_all kvs s)"
  by (induction kvs arbitrary: s) (auto simp: put_all_def invar_put)

lemma get_put_all:
  "invar s \<Longrightarrow> get (put_all kvs s) k = (case map_of (rev kvs) k of Some v \<Rightarrow> Some v | None \<Rightarrow> get s k)"
proof (induction kvs arbitrary: s)
  case Nil
  then show ?case by (simp add: put_all_def)
next
  case (Cons kv kvs)
  obtain k' v' where kv: "kv = (k', v')" by (cases kv)
  have "put_all (kv # kvs) s = put_all kvs (put k' v' s)"
    by (simp add: put_all_def kv)
  then show ?case
    using Cons.IH[OF invar_put[OF Cons.prems]] Cons.prems
    by (auto simp: kv get_put map_add_def split: option.splits)
qed

lemma put_overwrites: "invar s \<Longrightarrow> get (put k v (put k w s)) k' = get (put k v s) k'"
  by (simp add: get_put invar_put)

end

text \<open>
  An incremental decoder: input arrives in pieces of any size, each \<open>feed\<close> returns the
  outputs that became complete. The single law says that cutting the input differently
  changes nothing; feeding a list of pieces is then feeding their concatenation.
\<close>

locale stream_decoder =
  fixes feed :: "'s \<Rightarrow> 'i list \<Rightarrow> 's \<times> 'o list"
    and invar :: "'s \<Rightarrow> bool"
  assumes feed_nil: "invar s \<Longrightarrow> feed s [] = (s, [])"
    and feed_append: "invar s \<Longrightarrow>
      feed s (xs @ ys) = (let (s', o1) = feed s xs; (s'', o2) = feed s' ys in (s'', o1 @ o2))"
    and invar_feed: "invar s \<Longrightarrow> invar (fst (feed s xs))"
begin

fun feed_pieces :: "'s \<Rightarrow> 'i list list \<Rightarrow> 's \<times> 'o list" where
  "feed_pieces s [] = (s, [])"
| "feed_pieces s (p # ps) =
     (let (s', o1) = feed s p; (s'', o2) = feed_pieces s' ps in (s'', o1 @ o2))"

lemma feed_pieces_concat: "invar s \<Longrightarrow> feed_pieces s ps = feed s (concat ps)"
proof (induction ps arbitrary: s)
  case Nil
  then show ?case by (simp add: feed_nil)
next
  case (Cons p ps)
  have "invar (fst (feed s p))" by (rule invar_feed[OF Cons.prems])
  with Cons show ?case
    by (auto simp: feed_append Let_def split: prod.splits)
qed

lemma feed_pieces_cong:
  "invar s \<Longrightarrow> concat ps = concat qs \<Longrightarrow> feed_pieces s ps = feed_pieces s qs"
  by (simp add: feed_pieces_concat)

end

text \<open>
  The same for a decoder that may fail: an error ends the decoding, and cutting the input
  differently changes neither the result nor whether there is one.
\<close>

locale fallible_decoder =
  fixes feed :: "'s \<Rightarrow> 'i list \<Rightarrow> 'e + ('s \<times> 'o list)"
    and invar :: "'s \<Rightarrow> bool"
  assumes feed_nil: "invar s \<Longrightarrow> feed s [] = Inr (s, [])"
    and feed_append: "invar s \<Longrightarrow>
      feed s (xs @ ys) = bind_status (feed s xs) (\<lambda>(s', o1). map_sum id (\<lambda>(s'', o2). (s'', o1 @ o2)) (feed s' ys))"
    and invar_feed: "invar s \<Longrightarrow> feed s xs = Inr (s', out) \<Longrightarrow> invar s'"
begin

fun feed_pieces :: "'s \<Rightarrow> 'i list list \<Rightarrow> 'e + ('s \<times> 'o list)" where
  "feed_pieces s [] = Inr (s, [])"
| "feed_pieces s (p # ps) =
     bind_status (feed s p) (\<lambda>(s', o1). map_sum id (\<lambda>(s'', o2). (s'', o1 @ o2)) (feed_pieces s' ps))"

lemma feed_pieces_concat: "invar s \<Longrightarrow> feed_pieces s ps = feed s (concat ps)"
proof (induction ps arbitrary: s)
  case Nil
  then show ?case by (simp add: feed_nil)
next
  case (Cons p ps)
  show ?case
  proof (cases "feed s p")
    case (Inl e)
    then show ?thesis using Cons.prems by (simp add: feed_append)
  next
    case (Inr r)
    then obtain s' o1 where r: "feed s p = Inr (s', o1)" by (cases r) auto
    then have "feed_pieces s' ps = feed s' (concat ps)"
      using Cons invar_feed by blast
    with r Cons.prems show ?thesis by (simp add: feed_append)
  qed
qed

end

sublocale stream_decoder < infallible: fallible_decoder "\<lambda>s xs. Inr (feed s xs)" invar
proof
  fix s s' xs ys out
  assume inv: "invar s"
  show "Inr (feed s []) = Inr (s, [])" by (simp add: feed_nil inv)
  show "Inr (feed s (xs @ ys)) = bind_status (Inr (feed s xs))
      (\<lambda>(s', o1). map_sum id (\<lambda>(s'', o2). (s'', o1 @ o2)) (Inr (feed s' ys)))"
    by (simp add: feed_append inv Let_def split: prod.splits)
  show "invar s'" if "Inr (feed s xs) = Inr (s', out)"
    using invar_feed[OF inv, of xs] that by simp
qed

text \<open>
  A labelled transition system with an invariant that every step keeps.
\<close>

locale invariant_system =
  fixes init :: "'s \<Rightarrow> bool"
    and step :: "'s \<Rightarrow> 'e \<Rightarrow> 's \<Rightarrow> bool"
    and inv :: "'s \<Rightarrow> bool"
  assumes inv_init: "init s \<Longrightarrow> inv s"
    and inv_step: "inv s \<Longrightarrow> step s e t \<Longrightarrow> inv t"
begin

inductive run :: "'s \<Rightarrow> 'e list \<Rightarrow> 's \<Rightarrow> bool" where
  run_nil: "run s [] s"
| run_snoc: "run s es t \<Longrightarrow> step t e u \<Longrightarrow> run s (es @ [e]) u"

lemma run_inv: "run s es t \<Longrightarrow> inv s \<Longrightarrow> inv t"
  by (induction rule: run.induct) (auto intro: inv_step)

lemma run_from_init: "init s \<Longrightarrow> run s es t \<Longrightarrow> inv t"
  by (blast intro: run_inv inv_init)

end

text \<open>
  A system whose steps use up a rank, apart from the steps of its environment: the number of
  its own steps is bounded by the rank it starts with.
\<close>

locale ranked_system = invariant_system +
  fixes rank :: "'a \<Rightarrow> nat"
    and idle :: "'b \<Rightarrow> bool"
  assumes rank_step: "inv s \<Longrightarrow> step s e t \<Longrightarrow> \<not> idle e \<Longrightarrow> rank t < rank s"
    and rank_idle: "inv s \<Longrightarrow> step s e t \<Longrightarrow> idle e \<Longrightarrow> rank t \<le> rank s"
begin

lemma run_bounded:
  "run s es t \<Longrightarrow> inv s \<Longrightarrow> length (filter (\<lambda>e. \<not> idle e) es) + rank t \<le> rank s"
proof (induction rule: run.induct)
  case (run_snoc s es t e u)
  have "inv t" using run_snoc by (blast intro: run_inv)
  then show ?case
    using rank_step[OF _ run_snoc.hyps(2)] rank_idle[OF _ run_snoc.hyps(2)] run_snoc by fastforce
qed simp

end

text \<open>
  A data type whose operations, on states that satisfy an invariant, commute with an abstraction
  function: any history of operations then does.
\<close>

locale refinement =
  fixes step :: "'s \<Rightarrow> 'o \<Rightarrow> 's"
    and spec_step :: "'a \<Rightarrow> 'o \<Rightarrow> 'a"
    and abstr :: "'s \<Rightarrow> 'a"
    and invar :: "'s \<Rightarrow> bool"
  assumes step_inv: "invar s \<Longrightarrow> invar (step s op)"
    and step_refines: "invar s \<Longrightarrow> abstr (step s op) = spec_step (abstr s) op"
begin

lemma run_inv: "invar s \<Longrightarrow> invar (foldl step s ops)"
  by (induction ops arbitrary: s) (simp_all add: step_inv)

lemma run_refines: "invar s \<Longrightarrow> abstr (foldl step s ops) = foldl spec_step (abstr s) ops"
  by (induction ops arbitrary: s) (simp_all add: step_inv step_refines)

end

lemma sum_list_map_decr:
  fixes f :: "'a \<Rightarrow> nat"
  assumes "v \<in> set xs" and "distinct xs" and "\<And>x. x \<noteq> v \<Longrightarrow> f x \<le> g x" and "f v < g v"
  shows "(\<Sum>x\<leftarrow>xs. f x) < (\<Sum>x\<leftarrow>xs. g x)"
  using assms(1,2)
proof (induction xs)
  case (Cons x xs)
  have le: "(\<Sum>x\<leftarrow>xs. f x) \<le> (\<Sum>x\<leftarrow>xs. g x)"
    by (rule sum_list_mono) (use assms(3,4) in \<open>metis less_imp_le_nat\<close>)
  show ?case
  proof (cases "x = v")
    case True
    with le assms(4) show ?thesis by simp
  next
    case False
    with Cons assms(3)[of x] show ?thesis by (simp add: add_le_less_mono)
  qed
qed simp

end
