(* ===== verification/Cancel.thy ===== *)
theory Cancel
  imports Prelude
begin

text \<open>
  Cooperative cancellation, \<open>agentflow/core/cancel.{h,cc}\<close>. The shared state behind a
  \<open>CancelSource\<close> and its tokens is a record; a token is empty (default constructed) or refers to
  that state. Every operation holds the state's mutex for its whole effect on the state, so a
  concurrent execution is a sequence of operations; the callbacks an operation invokes after it
  released the mutex are its second result.
\<close>

record 'cb cancel_state =
  cancelled :: bool
  on_cancel_cbs :: "'cb list"

definition new_cancel_state :: "'cb cancel_state" where
  "new_cancel_state = \<lparr>cancelled = False, on_cancel_cbs = []\<rparr>"

definition CancelSource_Cancel :: "'cb cancel_state \<Rightarrow> 'cb cancel_state \<times> 'cb list" where
  "CancelSource_Cancel s =
     (if cancelled s then (s, [])
      else (s\<lparr>cancelled := True, on_cancel_cbs := []\<rparr>, on_cancel_cbs s))"

definition CancelSource_IsCancelled :: "'cb cancel_state \<Rightarrow> bool" where
  "CancelSource_IsCancelled s = cancelled s"

text \<open>A token without state is never cancelled and ignores registrations.\<close>

definition CancelToken_IsCancelled :: "'cb cancel_state option \<Rightarrow> bool" where
  "CancelToken_IsCancelled tok = (case tok of None \<Rightarrow> False | Some s \<Rightarrow> cancelled s)"

definition CancelToken_OnCancel ::
    "'cb \<Rightarrow> 'cb cancel_state option \<Rightarrow> 'cb cancel_state option \<times> 'cb list" where
  "CancelToken_OnCancel cb tok =
     (case tok of
        None \<Rightarrow> (None, [])
      | Some s \<Rightarrow> if cancelled s then (Some s, [cb])
                  else (Some (s\<lparr>on_cancel_cbs := on_cancel_cbs s @ [cb]\<rparr>), []))"

text \<open>
  \<open>WaitCancelled\<close> polls every 50 ms. \<open>reads\<close> are the values of the flag at the successive
  polls; the result is the number of timer waits, \<^const>\<open>None\<close> while it is still waiting.
\<close>

fun WaitCancelled :: "bool list \<Rightarrow> nat option" where
  "WaitCancelled [] = None"
| "WaitCancelled (c # cs) = (if c then Some 0 else map_option Suc (WaitCancelled cs))"

section \<open>Sequences of operations\<close>

datatype 'cb cancel_op = DoCancel | Register 'cb

fun cancel_step :: "'cb cancel_state \<Rightarrow> 'cb cancel_op \<Rightarrow> 'cb cancel_state \<times> 'cb list" where
  "cancel_step s DoCancel = CancelSource_Cancel s"
| "cancel_step s (Register cb) =
     (case CancelToken_OnCancel cb (Some s) of (Some s', fired) \<Rightarrow> (s', fired) | (None, fired) \<Rightarrow> (s, fired))"

fun cancel_run :: "'cb cancel_state \<Rightarrow> 'cb cancel_op list \<Rightarrow> 'cb cancel_state \<times> 'cb list" where
  "cancel_run s [] = (s, [])"
| "cancel_run s (x # xs) =
     (let (s', f1) = cancel_step s x; (s'', f2) = cancel_run s' xs in (s'', f1 @ f2))"

fun registered :: "'cb cancel_op list \<Rightarrow> 'cb list" where
  "registered [] = []"
| "registered (DoCancel # xs) = registered xs"
| "registered (Register cb # xs) = cb # registered xs"

definition cancel_inv :: "'cb cancel_state \<Rightarrow> bool" where
  "cancel_inv s \<longleftrightarrow> (cancelled s \<longrightarrow> on_cancel_cbs s = [])"

lemma cancel_step_inv: "cancel_inv s \<Longrightarrow> cancel_inv (fst (cancel_step s x))"
  by (cases x) (auto simp: cancel_inv_def CancelSource_Cancel_def CancelToken_OnCancel_def)

lemma cancel_run_cancelled:
  "cancelled s \<Longrightarrow> on_cancel_cbs s = [] \<Longrightarrow> cancel_run s xs = (s, registered xs)"
proof (induction xs arbitrary: s)
  case (Cons x xs)
  then show ?case
    by (cases x) (auto simp: CancelSource_Cancel_def CancelToken_OnCancel_def)
qed simp

lemma cancel_run_pending:
  "\<not> cancelled s \<Longrightarrow>
     cancel_run s xs =
       (if DoCancel \<in> set xs
        then (s\<lparr>cancelled := True, on_cancel_cbs := []\<rparr>, on_cancel_cbs s @ registered xs)
        else (s\<lparr>on_cancel_cbs := on_cancel_cbs s @ registered xs\<rparr>, []))"
proof (induction xs arbitrary: s)
  case (Cons x xs)
  show ?case
  proof (cases x)
    case DoCancel
    with Cons.prems show ?thesis
      by (simp add: CancelSource_Cancel_def cancel_run_cancelled)
  next
    case (Register cb)
    with Cons show ?thesis
      by (auto simp: CancelToken_OnCancel_def)
  qed
qed simp

interpretation cancel_sys: invariant_system "\<lambda>s. s = new_cancel_state"
    "\<lambda>s x t. t = fst (cancel_step s x)" cancel_inv
proof unfold_locales
  show "s = new_cancel_state \<Longrightarrow> cancel_inv s" for s :: "'a cancel_state"
    by (simp add: cancel_inv_def new_cancel_state_def)
  show "cancel_inv s \<Longrightarrow> t = fst (cancel_step s x) \<Longrightarrow> cancel_inv t" for s t :: "'a cancel_state" and x
    by (simp add: cancel_step_inv)
qed

lemma WaitCancelled_polls:
  "WaitCancelled cs = Some n \<Longrightarrow> n < length cs \<and> cs ! n \<and> (\<forall>i<n. \<not> cs ! i)"
proof (induction cs arbitrary: n)
  case (Cons c cs)
  then show ?case by (cases n) (auto split: if_splits simp: less_Suc_eq_0_disj)
qed simp

section \<open>Properties\<close>

text \<open>
  Callbacks registered on a cancellation token run exactly once, in the order of their
  registration, if and only if the source is cancelled, no matter how registrations and
  cancellations are interleaved and how often the source is cancelled.
\<close>

lemma callbacks_run_once:
  "snd (cancel_run new_cancel_state xs) = (if DoCancel \<in> set xs then registered xs else []) \<and>
   CancelSource_IsCancelled (fst (cancel_run new_cancel_state xs)) = (DoCancel \<in> set xs) \<and>
   on_cancel_cbs (fst (cancel_run new_cancel_state xs)) = (if DoCancel \<in> set xs then [] else registered xs)"
  by (simp add: cancel_run_pending new_cancel_state_def CancelSource_IsCancelled_def)

end
