(* ===== verification/Graph.thy ===== *)
theory Graph
  imports Prelude
begin

text \<open>
  The compiled workflow graph, \<open>agentflow/core/edge.h\<close> and \<open>agentflow/core/graph.{h,cc}\<close>.
  A node is known to the graph by its id and its kind only. Hash maps keyed by id are
  association lists.
\<close>

datatype condition = CondAll | CondAny

record edge =
  edge_from :: string
  edge_to :: string
  edge_group :: int
  edge_cond :: condition

record node_ref =
  node_id :: string
  node_kind :: string

record graph_builder =
  b_nodes :: "node_ref list"
  b_edges :: "edge list"

record graph =
  g_nodes :: "node_ref list"
  g_edges :: "edge list"
  g_index :: "(string \<times> nat) list"
  g_entries :: "string list"

definition new_builder :: graph_builder where
  "new_builder = \<lparr>b_nodes = [], b_edges = []\<rparr>"

definition AddNode :: "node_ref \<Rightarrow> graph_builder \<Rightarrow> graph_builder" where
  "AddNode n b = b\<lparr>b_nodes := b_nodes b @ [n]\<rparr>"

definition AddEdge :: "string \<Rightarrow> string \<Rightarrow> condition \<Rightarrow> graph_builder \<Rightarrow> graph_builder" where
  "AddEdge f t c b =
     b\<lparr>b_edges := b_edges b @ [\<lparr>edge_from = f, edge_to = t, edge_group = 0, edge_cond = c\<rparr>]\<rparr>"

definition AddEdgeGroup ::
    "string \<Rightarrow> string \<Rightarrow> int \<Rightarrow> condition \<Rightarrow> graph_builder \<Rightarrow> graph_builder exn_or" where
  "AddEdgeGroup f t user_group c b =
     (if user_group \<le> 0
      then Inl (GraphCompileError ''user_group must be > 0 (use 0-arg overload for non-cycle edges)'')
      else Inr (b\<lparr>b_edges := b_edges b @ [\<lparr>edge_from = f, edge_to = t, edge_group = user_group, edge_cond = c\<rparr>]\<rparr>))"

section \<open>Compilation\<close>

text \<open>The index of ids; a duplicate stops the compilation.\<close>

definition build_index :: "node_ref list \<Rightarrow> (string \<times> nat) list exn_or" where
  "build_index ns =
     fold_status (\<lambda>m (i, n).
        if has_key m (node_id n) then Inl (GraphCompileError (''duplicate node id: '' @ node_id n))
        else Inr (m @ [(node_id n, i)])) [] (enumerate 0 ns)"

definition check_endpoints :: "(string \<times> nat) list \<Rightarrow> edge list \<Rightarrow> exn option" where
  "check_endpoints idx es =
     check_all (\<lambda>e. if \<not> has_key idx (edge_from e) \<or> \<not> has_key idx (edge_to e)
                    then Some (GraphCompileError
                      (''edge references unknown node: '' @ edge_from e @ '' -> '' @ edge_to e))
                    else None) es"

text \<open>One condition per node and activation group; the first edge of a group decides it.\<close>

type_synonym cond_map = "(string \<times> (int \<times> condition) list) list"

definition check_condition_step :: "cond_map \<Rightarrow> edge \<Rightarrow> cond_map exn_or" where
  "check_condition_step cm e =
     (let m = alist_get [] cm (edge_to e) in
      case map_of m (edge_group e) of
        None \<Rightarrow> Inr (AList.update (edge_to e) (AList.update (edge_group e) (edge_cond e) m) cm)
      | Some c \<Rightarrow>
          if c \<noteq> edge_cond e
          then Inl (GraphCompileError
                 (''node '' @ [CHR 0x27] @ edge_to e @ [CHR 0x27] @
                  '' has conflicting Condition (ALL vs ANY) for activation_group '' @
                  int_to_dec (edge_group e)))
          else Inr (AList.update (edge_to e) m cm))"

definition check_conditions :: "edge list \<Rightarrow> cond_map exn_or" where
  "check_conditions es = fold_status check_condition_step [] es"

definition entry_nodes :: "node_ref list \<Rightarrow> edge list \<Rightarrow> string list" where
  "entry_nodes ns es =
     filter (\<lambda>id. id \<notin> set (map edge_to (filter (\<lambda>e. edge_group e = 0) es))) (map node_id ns)"

definition Build :: "graph_builder \<Rightarrow> graph exn_or" where
  "Build b =
     bind_status (build_index (b_nodes b)) (\<lambda>idx.
       case check_endpoints idx (b_edges b) of
         Some e \<Rightarrow> Inl e
       | None \<Rightarrow>
          bind_status (check_conditions (b_edges b)) (\<lambda>_.
            let entries = entry_nodes (b_nodes b) (b_edges b) in
            if entries = []
            then Inl (GraphCompileError
                   ''graph has no entry node (every node has a group=0 incoming edge)'')
            else Inr \<lparr>g_nodes = b_nodes b, g_edges = b_edges b, g_index = idx, g_entries = entries\<rparr>))"

definition FindNode :: "graph \<Rightarrow> string \<Rightarrow> node_ref option" where
  "FindNode g nid =
     (case map_of (g_index g) nid of
        None \<Rightarrow> None
      | Some i \<Rightarrow> if i < length (g_nodes g) then Some (g_nodes g ! i) else None)"

definition newline :: string where
  "newline = [CHR 0x0A]"

definition quoted :: "string \<Rightarrow> string" where
  "quoted s = [CHR 0x22] @ s @ [CHR 0x22]"

definition condition_name :: "condition \<Rightarrow> string" where
  "condition_name c = (case c of CondAll \<Rightarrow> ''ALL'' | CondAny \<Rightarrow> ''ANY'')"

definition dot_node :: "node_ref \<Rightarrow> string" where
  "dot_node n = ''  '' @ quoted (node_id n) @ '' [label='' @ [CHR 0x22] @ node_id n @ [CHR 0x5C] @ ''n('' @
                node_kind n @ '')'' @ [CHR 0x22] @ ''];'' @ newline"

definition dot_edge :: "edge \<Rightarrow> string" where
  "dot_edge e = ''  '' @ quoted (edge_from e) @ '' -> '' @ quoted (edge_to e) @ '' [label='' @ [CHR 0x22] @ ''g='' @
                int_to_dec (edge_group e) @ '' '' @ condition_name (edge_cond e) @ [CHR 0x22] @ ''];'' @ newline"

definition ToDotString :: "graph \<Rightarrow> string" where
  "ToDotString g = ''digraph G {'' @ newline @ concat (map dot_node (g_nodes g)) @
                   concat (map dot_edge (g_edges g)) @ ''}'' @ newline"

section \<open>What a compiled graph satisfies\<close>

definition same_group_same_condition :: "edge list \<Rightarrow> bool" where
  "same_group_same_condition es \<longleftrightarrow>
     (\<forall>e\<in>set es. \<forall>f\<in>set es. edge_to e = edge_to f \<and> edge_group e = edge_group f \<longrightarrow> edge_cond e = edge_cond f)"

definition wf_graph :: "graph \<Rightarrow> bool" where
  "wf_graph g \<longleftrightarrow>
     distinct (map node_id (g_nodes g)) \<and>
     g_index g = zip (map node_id (g_nodes g)) [0..<length (g_nodes g)] \<and>
     (\<forall>e\<in>set (g_edges g). edge_from e \<in> node_id ` set (g_nodes g) \<and> edge_to e \<in> node_id ` set (g_nodes g)) \<and>
     same_group_same_condition (g_edges g) \<and>
     g_entries g = entry_nodes (g_nodes g) (g_edges g) \<and> g_entries g \<noteq> []"

lemma has_key_zip_upt [simp]: "has_key (zip xs [k..<k + length xs]) x \<longleftrightarrow> x \<in> set xs"
  by (simp add: has_key_iff flip: set_map)

lemma fold_status_index_distinct:
  assumes "distinct (map node_id ns)" and "node_id ` set ns \<inter> fst ` set acc = {}"
  shows "fold_status (\<lambda>m (i, n).
        if has_key m (node_id n) then Inl (GraphCompileError (''duplicate node id: '' @ node_id n))
        else Inr (m @ [(node_id n, i)])) acc (enumerate k ns) =
     Inr (acc @ zip (map node_id ns) [k..<k + length ns])"
  using assms
proof (induction ns arbitrary: acc k)
  case (Cons n ns)
  have "\<not> has_key acc (node_id n)" using Cons.prems(2) by (auto simp: has_key_iff)
  moreover have "[k..<k + length (n # ns)] = k # [Suc k..<Suc k + length ns]"
    by (simp add: upt_rec)
  moreover have "node_id ` set ns \<inter> fst ` set (acc @ [(node_id n, k)]) = {}"
    using Cons.prems by auto
  ultimately show ?case
    using Cons.IH[of "acc @ [(node_id n, k)]" "Suc k"] Cons.prems(1) by simp
qed simp

lemma fold_status_index_dup:
  assumes "\<not> (distinct (map node_id ns) \<and> node_id ` set ns \<inter> fst ` set acc = {})"
  shows "\<exists>x \<in> node_id ` set ns. fold_status (\<lambda>m (i, n).
        if has_key m (node_id n) then Inl (GraphCompileError (''duplicate node id: '' @ node_id n))
        else Inr (m @ [(node_id n, i)])) acc (enumerate k ns) =
     Inl (GraphCompileError (''duplicate node id: '' @ x))"
  using assms
proof (induction ns arbitrary: acc k)
  case (Cons n ns)
  show ?case
  proof (cases "has_key acc (node_id n)")
    case True
    then show ?thesis by simp
  next
    case False
    then have "\<not> (distinct (map node_id ns) \<and> node_id ` set ns \<inter> fst ` set (acc @ [(node_id n, k)]) = {})"
      using Cons.prems by (auto simp: has_key_iff)
    from Cons.IH[OF this, of "Suc k"] False show ?thesis by auto
  qed
qed simp

lemma build_index_Inr_iff:
  "build_index ns = Inr idx \<longleftrightarrow>
     distinct (map node_id ns) \<and> idx = zip (map node_id ns) [0..<length ns]"
  using fold_status_index_distinct[of ns "[]" 0] fold_status_index_dup[of ns "[]" 0]
  by (cases "distinct (map node_id ns)") (auto simp: build_index_def)

lemma check_endpoints_None_iff:
  "check_endpoints (zip (map node_id ns) [0..<length ns]) es = None \<longleftrightarrow>
     (\<forall>e\<in>set es. edge_from e \<in> node_id ` set ns \<and> edge_to e \<in> node_id ` set ns)"
  using has_key_zip_upt[of "map node_id ns" 0] by (auto simp: check_endpoints_def)

text \<open>The condition map after a successful pass holds exactly the conditions of the edges seen.\<close>

definition cond_of :: "cond_map \<Rightarrow> string \<Rightarrow> int \<Rightarrow> condition option" where
  "cond_of cm v g = map_of (alist_get [] cm v) g"

lemma check_condition_step_Inr_iff:
  "check_condition_step cm e = Inr cm' \<Longrightarrow>
     cond_of cm' = (\<lambda>v g. if v = edge_to e \<and> g = edge_group e then Some (edge_cond e) else cond_of cm v g) \<and>
     cond_of cm (edge_to e) (edge_group e) \<in> {None, Some (edge_cond e)}"
  by (auto simp: check_condition_step_def cond_of_def Let_def fun_eq_iff split: option.splits if_splits)

lemma check_condition_step_ok:
  "cond_of cm (edge_to e) (edge_group e) \<in> {None, Some (edge_cond e)} \<Longrightarrow>
     \<exists>cm'. check_condition_step cm e = Inr cm'"
  by (auto simp: check_condition_step_def cond_of_def Let_def)

definition conds_agree :: "cond_map \<Rightarrow> edge list \<Rightarrow> bool" where
  "conds_agree cm es \<longleftrightarrow> same_group_same_condition es \<and>
     (\<forall>e\<in>set es. cond_of cm (edge_to e) (edge_group e) \<in> {None, Some (edge_cond e)})"

lemma conds_agree_Cons:
  assumes "check_condition_step cm e = Inr cm'"
  shows "conds_agree cm (e # es) \<longleftrightarrow> conds_agree cm' es"
proof -
  define same where "same f \<longleftrightarrow> edge_to f = edge_to e \<and> edge_group f = edge_group e" for f :: edge
  have new: "cond_of cm' (edge_to f) (edge_group f) =
      (if same f then Some (edge_cond e) else cond_of cm (edge_to f) (edge_group f))" for f
    using check_condition_step_Inr_iff[OF assms] by (simp add: same_def)
  have old: "cond_of cm (edge_to f) (edge_group f) \<in> {None, Some (edge_cond e)}" if "same f" for f
    using check_condition_step_Inr_iff[OF assms] that by (simp add: same_def)
  have split: "same_group_same_condition (e # es) \<longleftrightarrow>
      same_group_same_condition es \<and> (\<forall>f\<in>set es. same f \<longrightarrow> edge_cond f = edge_cond e)"
    unfolding same_group_same_condition_def same_def by auto
  have olde: "cond_of cm (edge_to e) (edge_group e) \<in> {None, Some (edge_cond e)}"
    by (rule old) (simp add: same_def)
  have each: "cond_of cm' (edge_to f) (edge_group f) \<in> {None, Some (edge_cond f)} \<longleftrightarrow>
      cond_of cm (edge_to f) (edge_group f) \<in> {None, Some (edge_cond f)} \<and>
      (same f \<longrightarrow> edge_cond f = edge_cond e)" for f
    using old[of f] by (auto simp: new)
  show ?thesis
    unfolding conds_agree_def split each using olde by auto
qed

lemma check_conditions_from:
  "(\<exists>cm'. fold_status check_condition_step cm es = Inr cm') \<longleftrightarrow> conds_agree cm es"
proof (induction es arbitrary: cm)
  case Nil
  then show ?case by (simp add: conds_agree_def same_group_same_condition_def)
next
  case (Cons e es)
  show ?case
  proof (cases "check_condition_step cm e")
    case (Inl x)
    then have "cond_of cm (edge_to e) (edge_group e) \<notin> {None, Some (edge_cond e)}"
      using check_condition_step_ok[of cm e] by force
    with Inl show ?thesis by (auto simp: conds_agree_def)
  next
    case (Inr cm')
    with Cons conds_agree_Cons[OF Inr] show ?thesis by simp
  qed
qed

lemma check_conditions_Inr_iff:
  "(\<exists>cm. check_conditions es = Inr cm) \<longleftrightarrow> same_group_same_condition es"
  by (simp add: check_conditions_def check_conditions_from conds_agree_def cond_of_def alist_get_def)

lemma Build_wf: "Build b = Inr g \<Longrightarrow> wf_graph g \<and> g_nodes g = b_nodes b \<and> g_edges g = b_edges b"
  using check_conditions_Inr_iff[of "b_edges b"]
  by (auto simp: Build_def bind_status_Inr_iff build_index_Inr_iff check_endpoints_None_iff
      wf_graph_def Let_def split: option.splits if_splits)

lemma Build_complete:
  assumes "distinct (map node_id (b_nodes b))"
    and "\<forall>e\<in>set (b_edges b). edge_from e \<in> node_id ` set (b_nodes b) \<and> edge_to e \<in> node_id ` set (b_nodes b)"
    and "same_group_same_condition (b_edges b)"
    and "entry_nodes (b_nodes b) (b_edges b) \<noteq> []"
  shows "\<exists>g. Build b = Inr g"
proof -
  obtain cm where "check_conditions (b_edges b) = Inr cm"
    using assms(3) check_conditions_Inr_iff by blast
  moreover have "build_index (b_nodes b) = Inr (zip (map node_id (b_nodes b)) [0..<length (b_nodes b)])"
    using assms(1) by (simp add: build_index_Inr_iff)
  moreover have "check_endpoints (zip (map node_id (b_nodes b)) [0..<length (b_nodes b)]) (b_edges b) = None"
    using assms(2) by (simp add: check_endpoints_None_iff)
  ultimately show ?thesis
    using assms(4) by (simp add: Build_def Let_def)
qed

lemma FindNode_wf:
  assumes "wf_graph g"
  shows "FindNode g nid = Some n \<longleftrightarrow> n \<in> set (g_nodes g) \<and> node_id n = nid"
proof -
  let ?ids = "map node_id (g_nodes g)"
  have idx: "g_index g = zip ?ids [0..<length ?ids]" and dist: "distinct ?ids"
    using assms by (simp_all add: wf_graph_def)
  have key: "map_of (g_index g) (?ids ! i) = Some i" if "i < length ?ids" for i
    using map_of_zip_nth[of ?ids "[0..<length ?ids]" i] that dist idx by simp
  show ?thesis
  proof
    assume a: "FindNode g nid = Some n"
    then obtain i where i: "map_of (g_index g) nid = Some i" "i < length (g_nodes g)" "n = g_nodes g ! i"
      by (auto simp: FindNode_def split: option.splits if_splits)
    from map_of_SomeD[OF i(1)] i(2) have "nid = ?ids ! i"
      by (auto simp: idx set_zip)
    with i show "n \<in> set (g_nodes g) \<and> node_id n = nid" by simp
  next
    assume "n \<in> set (g_nodes g) \<and> node_id n = nid"
    then obtain i where "i < length (g_nodes g)" "n = g_nodes g ! i" "nid = ?ids ! i"
      by (auto simp: in_set_conv_nth)
    with key[of i] show "FindNode g nid = Some n" by (simp add: FindNode_def)
  qed
qed

lemma FindNode_None:
  assumes "wf_graph g"
  shows "FindNode g nid = None \<longleftrightarrow> nid \<notin> node_id ` set (g_nodes g)"
proof -
  have "FindNode g nid = None \<longleftrightarrow> (\<forall>n. FindNode g nid \<noteq> Some n)" by auto
  then show ?thesis by (auto simp: FindNode_wf[OF assms])
qed

end
