(* ===== verification/Json_Value.thy ===== *)
theory Json_Value
  imports Prelude "HOL-Library.Countable"
begin

text \<open>
  The values of the JSON library the sources are written against (\<open>nlohmann::json\<close> and
  \<open>nlohmann::ordered_json\<close>) and the accessors they call, with the documented behaviour of
  each on the wrong kind of value. The library itself is not part of the repository: its parser
  and its printer are never defined here, every definition that calls \<open>parse\<close> or
  \<open>dump\<close> takes them as arguments.

  Numbers keep the library's three representations: \<open>number_integer\<close> and
  \<open>number_unsigned\<close> are 64-bit words, a double is its bit pattern. An object is an
  association list; \<open>nlohmann::json\<close> keeps it sorted by key, \<open>ordered_json\<close> in insertion
  order, which is the only difference between the two setters.
\<close>

datatype json =
    JNull
  | JBool bool
  | JInt "64 word"
  | JUInt "64 word"
  | JFloat "64 word"
  | JStr string
  | JArr "json list"
  | JObj "(string \<times> json) list"

type_synonym json_parser = "string \<Rightarrow> json option"
type_synonym json_dumper = "json \<Rightarrow> string"

section \<open>Type tests and readers\<close>

fun is_object :: "json \<Rightarrow> bool" where
  "is_object (JObj m) = True"
| "is_object _ = False"

fun is_array :: "json \<Rightarrow> bool" where
  "is_array (JArr xs) = True"
| "is_array _ = False"

fun is_string :: "json \<Rightarrow> bool" where
  "is_string (JStr s) = True"
| "is_string _ = False"

fun is_number_integer :: "json \<Rightarrow> bool" where
  "is_number_integer (JInt w) = True"
| "is_number_integer (JUInt w) = True"
| "is_number_integer _ = False"

fun is_boolean :: "json \<Rightarrow> bool" where
  "is_boolean (JBool b) = True"
| "is_boolean _ = False"

text \<open>\<open>find(key)\<close>: no entry when the value is not an object.\<close>

fun jfind :: "json \<Rightarrow> string \<Rightarrow> json option" where
  "jfind (JObj m) k = map_of m k"
| "jfind _ k = None"

definition contains :: "json \<Rightarrow> string \<Rightarrow> bool" where
  "contains j k \<longleftrightarrow> jfind j k \<noteq> None"

text \<open>\<open>contains(k) && j[k].is_string()\<close> followed by \<open>get<std::string>()\<close>.\<close>

definition jstring :: "json \<Rightarrow> string \<Rightarrow> string option" where
  "jstring j k = (case jfind j k of Some (JStr s) \<Rightarrow> Some s | _ \<Rightarrow> None)"

definition jarray :: "json \<Rightarrow> string \<Rightarrow> json list option" where
  "jarray j k = (case jfind j k of Some (JArr xs) \<Rightarrow> Some xs | _ \<Rightarrow> None)"

definition jobject :: "json \<Rightarrow> string \<Rightarrow> json option" where
  "jobject j k = (case jfind j k of Some (JObj m) \<Rightarrow> Some (JObj m) | _ \<Rightarrow> None)"

fun as_string :: "json \<Rightarrow> string option" where
  "as_string (JStr s) = Some s"
| "as_string _ = None"

text \<open>\<open>get<int>()\<close>, \<open>get<long long>()\<close>, \<open>get<uint32_t>()\<close>: conversion of the stored 64-bit number.\<close>

fun get_int32 :: "json \<Rightarrow> 32 word" where
  "get_int32 (JInt w) = ucast w"
| "get_int32 (JUInt w) = ucast w"
| "get_int32 _ = 0"

fun get_int64 :: "json \<Rightarrow> 64 word" where
  "get_int64 (JInt w) = w"
| "get_int64 (JUInt w) = w"
| "get_int64 _ = 0"

text \<open>\<open>value(key, "")\<close>: \<open>type_error.306\<close> on a non-object, \<open>type_error.302\<close> on a present key of another type.\<close>

definition value_string :: "json \<Rightarrow> string \<Rightarrow> string \<Rightarrow> string exn_or" where
  "value_string j k d =
     (case j of
        JObj m \<Rightarrow> (case map_of m k of
           None \<Rightarrow> Inr d
         | Some (JStr s) \<Rightarrow> Inr s
         | Some _ \<Rightarrow> Inl (OtherException ''type_error.302''))
      | _ \<Rightarrow> Inl (OtherException ''type_error.306''))"

section \<open>Writers\<close>

text \<open>\<open>j[key] = v\<close>: null becomes an object first, any other non-object throws \<open>type_error.305\<close>.\<close>

definition jset :: "string \<Rightarrow> json \<Rightarrow> json \<Rightarrow> json exn_or" where
  "jset k v j =
     (case j of
        JObj m \<Rightarrow> Inr (JObj (sorted_insert k v m))
      | JNull \<Rightarrow> Inr (JObj [(k, v)])
      | _ \<Rightarrow> Inl (OtherException ''type_error.305''))"

text \<open>The same on a value known to be an object: sorted for \<open>json\<close>, in place or at the end for \<open>ordered_json\<close>.\<close>

fun jput :: "string \<Rightarrow> json \<Rightarrow> json \<Rightarrow> json" where
  "jput k v (JObj m) = JObj (sorted_insert k v m)"
| "jput k v j = j"

fun oput :: "string \<Rightarrow> json \<Rightarrow> json \<Rightarrow> json" where
  "oput k v (JObj m) = JObj (AList.update k v m)"
| "oput k v j = j"

text \<open>An initializer list of pairs, as \<open>json\<close> builds it.\<close>

definition jobj :: "(string \<times> json) list \<Rightarrow> json" where
  "jobj kvs = JObj (foldl (\<lambda>m (k, v). sorted_insert k v m) [] kvs)"

definition text_item :: "string \<Rightarrow> json" where
  "text_item t = jobj [(''type'', JStr ''text''), (''text'', JStr t)]"

lemma jfind_jput [simp]:
  "is_object j \<Longrightarrow> jfind (jput k v j) k' = (if k' = k then Some v else jfind j k')"
  by (cases j) auto

lemma jfind_oput [simp]:
  "is_object j \<Longrightarrow> jfind (oput k v j) k' = (if k' = k then Some v else jfind j k')"
  by (cases j) auto

lemma is_object_jput [simp]: "is_object (jput k v j) = is_object j"
  by (cases j) auto

lemma is_object_oput [simp]: "is_object (oput k v j) = is_object j"
  by (cases j) auto

text \<open>Both kinds of object are keyed stores.\<close>

interpretation json_object: keyed_store jfind jput is_object
  by unfold_locales simp_all

interpretation ordered_object: keyed_store jfind oput is_object
  by unfold_locales simp_all

lemma is_objectE: "is_object j \<Longrightarrow> (\<And>m. j = JObj m \<Longrightarrow> P) \<Longrightarrow> P"
  by (cases j) auto

lemma map_of_foldl_sorted_insert:
  "map_of (foldl (\<lambda>m (k, v). sorted_insert k v m) m0 kvs) k =
     (case map_of (rev kvs) k of Some v \<Rightarrow> Some v | None \<Rightarrow> map_of m0 k)"
  by (induction kvs arbitrary: m0) (auto simp: map_add_def split: option.splits)

lemma jfind_jobj: "jfind (jobj kvs) k = map_of (rev kvs) k"
  by (simp add: jobj_def map_of_foldl_sorted_insert split: option.splits)

lemma is_object_jobj [simp]: "is_object (jobj kvs)"
  by (simp add: jobj_def)

lemma jstring_text_item [simp]:
  "jstring (text_item t) ''type'' = Some ''text''"
  "jstring (text_item t) ''text'' = Some t"
  by (simp_all add: text_item_def jstring_def jfind_jobj)

lemma is_object_text_item [simp]: "is_object (text_item t)"
  by (simp add: text_item_def)

lemma contains_iff: "contains j k \<longleftrightarrow> (\<exists>v. jfind j k = Some v)"
  by (simp add: contains_def)

lemma jstring_Some_iff: "jstring j k = Some s \<longleftrightarrow> jfind j k = Some (JStr s)"
  by (auto simp: jstring_def split: option.splits json.splits)

lemma jarray_Some_iff: "jarray j k = Some xs \<longleftrightarrow> jfind j k = Some (JArr xs)"
  by (auto simp: jarray_def split: option.splits json.splits)

lemma jobject_Some_iff: "jobject j k = Some v \<longleftrightarrow> jfind j k = Some v \<and> is_object v"
  by (auto simp: jobject_def split: option.splits json.splits)

lemma jfind_Some_object: "jfind j k = Some v \<Longrightarrow> is_object j"
  by (cases j) auto

section \<open>A printer and its parser\<close>

text \<open>
  An instance of the two parameters that satisfies what the sources rely on: values are enumerated, a
  value prints as that many bytes.
\<close>

instance json :: countable
  by countable_datatype

definition counting_dump :: json_dumper where
  "counting_dump v = replicate (to_nat v) CHR ''x''"

definition counting_parse :: json_parser where
  "counting_parse s = Some (from_nat (length s))"

lemma counting_roundtrip [simp]: "counting_parse (counting_dump v) = Some v"
  by (simp add: counting_dump_def counting_parse_def)

lemma inj_counting_dump: "inj_on counting_dump A"
  by (rule inj_onI) (metis counting_roundtrip option.inject)

end
