(* ===== verification/Graph_State.thy ===== *)
theory Graph_State
  imports Json_Value
begin

text \<open>
  The type-erased graph state, \<open>agentflow/core/state.{h,cc}\<close>: a protobuf message or a JSON
  value, each behind a pointer that may be null, plus the descriptor pool that keeps a dynamic
  message alive. Protobuf is a library: a message is a value of the type variable \<open>'m\<close> and the
  reflection calls the code makes are the fields of \<open>proto_api\<close>, an argument of the definitions.
  A descriptor pool is the function that gives the prototype of a message type it knows.
\<close>

record 'm proto_api =
  has_string_field :: "'m \<Rightarrow> string \<Rightarrow> bool"
    \<comment> \<open>\<open>FindFieldByName\<close> succeeds and the field is \<open>TYPE_STRING\<close>\<close>
  get_string :: "'m \<Rightarrow> string \<Rightarrow> string"
  set_string :: "'m \<Rightarrow> string \<Rightarrow> string \<Rightarrow> 'm"
  serialize :: "'m \<Rightarrow> string"
  parse_from :: "'m \<Rightarrow> string \<Rightarrow> 'm option"
  type_name :: "'m \<Rightarrow> string"

type_synonym 'm descriptor_pool = "string \<Rightarrow> 'm option"

datatype 'm backing = ProtoArm "'m option" | JsonArm "json option"

record 'm gstate =
  st_pool :: "'m descriptor_pool option"
  st_backing :: "'m backing"

datatype state_kind = KindProto | KindJson | KindProtoDynamic

definition State :: "'m gstate" where
  "State = \<lparr>st_pool = None, st_backing = ProtoArm None\<rparr>"

definition FromMessage :: "'m option \<Rightarrow> 'm gstate" where
  "FromMessage msg = State\<lparr>st_backing := ProtoArm msg\<rparr>"

section \<open>Construction\<close>

definition InitFromSpec :: "json \<Rightarrow> json" where
  "InitFromSpec spec =
     (case jfind spec ''default'' of
        Some d \<Rightarrow> d
      | None \<Rightarrow>
         (case jstring spec ''type'' of
            None \<Rightarrow> JNull
          | Some t \<Rightarrow>
              if t = ''string'' then JStr []
              else if t = ''integer'' then JInt 0
              else if t = ''number'' then JFloat 0
              else if t = ''boolean'' then JBool False
              else if t = ''array'' then JArr []
              else if t = ''object'' then JObj []
              else JNull))"

fun split_path_loop :: "string \<Rightarrow> string \<Rightarrow> string list" where
  "split_path_loop current [] = [current]"
| "split_path_loop current (c # cs) =
     (if c = CHR ''.'' then current # split_path_loop [] cs
      else split_path_loop (current @ [c]) cs)"

definition SplitPath :: "string \<Rightarrow> string list" where
  "SplitPath path = split_path_loop [] path"

definition FromJson :: "json \<Rightarrow> 'm gstate" where
  "FromJson fields_decl =
     State\<lparr>st_backing := JsonArm (Some
       (case fields_decl of
          JObj m \<Rightarrow> foldl (\<lambda>acc (k, v). oput k (InitFromSpec v) acc) (JObj []) m
        | _ \<Rightarrow> JObj []))\<rparr>"

definition kind :: "'m gstate \<Rightarrow> state_kind" where
  "kind s = (case st_backing s of
       JsonArm _ \<Rightarrow> KindJson
     | ProtoArm _ \<Rightarrow> (case st_pool s of Some _ \<Rightarrow> KindProtoDynamic | None \<Rightarrow> KindProto))"

definition FromDynamicProto :: "'m descriptor_pool option \<Rightarrow> string \<Rightarrow> 'm gstate" where
  "FromDynamicProto pool message_type =
     (case pool of
        None \<Rightarrow> State
      | Some p \<Rightarrow>
         (case p message_type of
            None \<Rightarrow> State
          | Some prototype \<Rightarrow> \<lparr>st_pool = Some p, st_backing = ProtoArm (Some prototype)\<rparr>))"

section \<open>Observers and copies\<close>

definition IsEmpty :: "'m gstate \<Rightarrow> bool" where
  "IsEmpty s = (case st_backing s of ProtoArm p \<Rightarrow> p = None | JsonArm j \<Rightarrow> j = None)"

definition UnsafeMessage :: "'m gstate \<Rightarrow> 'm option" where
  "UnsafeMessage s = (case st_backing s of ProtoArm p \<Rightarrow> p | JsonArm _ \<Rightarrow> None)"

definition SerializeAsString :: "'m proto_api \<Rightarrow> json_dumper \<Rightarrow> 'm gstate \<Rightarrow> string" where
  "SerializeAsString api dump s =
     (case st_backing s of
        ProtoArm None \<Rightarrow> []
      | ProtoArm (Some m) \<Rightarrow> serialize api m
      | JsonArm None \<Rightarrow> []
      | JsonArm (Some j) \<Rightarrow> dump j)"

definition ParseFromString ::
    "'m proto_api \<Rightarrow> json_parser \<Rightarrow> string \<Rightarrow> 'm gstate \<Rightarrow> bool \<times> 'm gstate" where
  "ParseFromString api parse data s =
     (case st_backing s of
        ProtoArm None \<Rightarrow> (False, s)
      | ProtoArm (Some m) \<Rightarrow>
          (case parse_from api m data of
             None \<Rightarrow> (False, s)
           | Some m' \<Rightarrow> (True, s\<lparr>st_backing := ProtoArm (Some m')\<rparr>))
      | JsonArm None \<Rightarrow> (False, s)
      | JsonArm (Some j) \<Rightarrow>
          (case parse data of
             None \<Rightarrow> (False, s)
           | Some j' \<Rightarrow> (True, s\<lparr>st_backing := JsonArm (Some j')\<rparr>)))"

text \<open>A null JSON arm clones to the default state, whose arm is the (null) message.\<close>

definition Clone :: "'m gstate \<Rightarrow> 'm gstate" where
  "Clone s =
     (case st_backing s of
        ProtoArm p \<Rightarrow> State\<lparr>st_backing := ProtoArm p, st_pool := st_pool s\<rparr>
      | JsonArm (Some j) \<Rightarrow> State\<lparr>st_backing := JsonArm (Some j)\<rparr>
      | JsonArm None \<Rightarrow> State)"

section \<open>Field access\<close>

definition ReadProtoField :: "'m proto_api \<Rightarrow> 'm \<Rightarrow> string \<Rightarrow> string" where
  "ReadProtoField api msg path = (if has_string_field api msg path then get_string api msg path else [])"

definition WriteProtoField :: "'m proto_api \<Rightarrow> 'm \<Rightarrow> string \<Rightarrow> string \<Rightarrow> 'm" where
  "WriteProtoField api msg path v = (if has_string_field api msg path then set_string api msg path v else msg)"

fun read_parts :: "json_dumper \<Rightarrow> json \<Rightarrow> string list \<Rightarrow> string" where
  "read_parts dump cur [] = (case cur of JStr s \<Rightarrow> s | _ \<Rightarrow> dump cur)"
| "read_parts dump cur (p # ps) =
     (case jfind cur p of None \<Rightarrow> [] | Some next \<Rightarrow> read_parts dump next ps)"

definition ReadJsonField :: "json_dumper \<Rightarrow> json \<Rightarrow> string \<Rightarrow> string" where
  "ReadJsonField dump root path = read_parts dump root (SplitPath path)"

fun force_object :: "json \<Rightarrow> json" where
  "force_object (JObj m) = JObj m"
| "force_object _ = JObj []"

fun write_parts :: "json \<Rightarrow> string list \<Rightarrow> string \<Rightarrow> json" where
  "write_parts cur [] v = cur"
| "write_parts cur [p] v = oput p (JStr v) (force_object cur)"
| "write_parts cur (p # q # ps) v =
     (let obj = force_object cur;
          child = (case jfind obj p of Some (JObj m) \<Rightarrow> JObj m | _ \<Rightarrow> JObj [])
      in oput p (write_parts child (q # ps) v) obj)"

definition WriteJsonField :: "json \<Rightarrow> string \<Rightarrow> string \<Rightarrow> json" where
  "WriteJsonField root path v = write_parts root (SplitPath path) v"

definition ReadStringField :: "'m proto_api \<Rightarrow> json_dumper \<Rightarrow> 'm gstate \<Rightarrow> string \<Rightarrow> string" where
  "ReadStringField api dump s path =
     (case st_backing s of
        ProtoArm None \<Rightarrow> []
      | ProtoArm (Some m) \<Rightarrow> ReadProtoField api m path
      | JsonArm None \<Rightarrow> []
      | JsonArm (Some j) \<Rightarrow> ReadJsonField dump j path)"

definition WriteStringField :: "'m proto_api \<Rightarrow> 'm gstate \<Rightarrow> string \<Rightarrow> string \<Rightarrow> 'm gstate" where
  "WriteStringField api s path v =
     (case st_backing s of
        ProtoArm None \<Rightarrow> s
      | ProtoArm (Some m) \<Rightarrow> s\<lparr>st_backing := ProtoArm (Some (WriteProtoField api m path v))\<rparr>
      | JsonArm None \<Rightarrow> s\<lparr>st_backing := JsonArm (Some (WriteJsonField (JObj []) path v))\<rparr>
      | JsonArm (Some j) \<Rightarrow> s\<lparr>st_backing := JsonArm (Some (WriteJsonField j path v))\<rparr>)"

definition AsJson :: "'m gstate \<Rightarrow> json option" where
  "AsJson s = (case st_backing s of JsonArm j \<Rightarrow> j | ProtoArm _ \<Rightarrow> None)"

section \<open>Typed access\<close>

text \<open>
  A reference the code hands out is the value for reading and a function on states for writing through it. \<open>is_a\<close> is the
  \<open>dynamic_cast\<close> to the class that is asked for, which a message of another class fails whatever its type name.
\<close>

definition MutableJson :: "(json \<Rightarrow> json) \<Rightarrow> 'm gstate \<Rightarrow> 'm gstate option" where
  "MutableJson f s = (case st_backing s of JsonArm (Some j) \<Rightarrow> Some (s\<lparr>st_backing := JsonArm (Some (f j))\<rparr>) | _ \<Rightarrow> None)"

definition State_From :: "'m \<Rightarrow> 'm gstate" where
  "State_From msg = State\<lparr>st_backing := ProtoArm (Some msg)\<rparr>"

definition type_mismatch :: "string \<Rightarrow> 'm proto_api \<Rightarrow> 'm option \<Rightarrow> exn" where
  "type_mismatch what api raw =
     AgentflowError (''State::'' @ what @ ''<>: type mismatch (have '' @ (case raw of Some m \<Rightarrow> type_name api m | None \<Rightarrow> ''null'') @ '')'')"

definition State_As :: "'m proto_api \<Rightarrow> ('m \<Rightarrow> bool) \<Rightarrow> 'm gstate \<Rightarrow> 'm exn_or" where
  "State_As api is_a s =
     (let raw = (case st_backing s of ProtoArm p \<Rightarrow> p | JsonArm _ \<Rightarrow> None)
      in case raw of
           Some m \<Rightarrow> if is_a m then Inr m else Inl (type_mismatch ''As'' api raw)
         | None \<Rightarrow> Inl (type_mismatch ''As'' api raw))"

definition State_Mutable :: "'m proto_api \<Rightarrow> ('m \<Rightarrow> bool) \<Rightarrow> ('m \<Rightarrow> 'm) \<Rightarrow> 'm gstate \<Rightarrow> 'm gstate exn_or" where
  "State_Mutable api is_a f s =
     (let raw = (case st_backing s of ProtoArm p \<Rightarrow> p | JsonArm _ \<Rightarrow> None)
      in case raw of
           Some m \<Rightarrow> if is_a m then Inr (s\<lparr>st_backing := ProtoArm (Some (f m))\<rparr>) else Inl (type_mismatch ''Mutable'' api raw)
         | None \<Rightarrow> Inl (type_mismatch ''Mutable'' api raw))"

section \<open>Lemmas\<close>

lemma split_path_loop_nonempty [simp]: "split_path_loop cur s \<noteq> []"
  by (induction cur s rule: split_path_loop.induct) auto

lemma SplitPath_nonempty [simp]: "SplitPath path \<noteq> []"
  by (simp add: SplitPath_def)

lemma split_path_loop_plain:
  "CHR ''.'' \<notin> set xs \<Longrightarrow> split_path_loop cur xs = [cur @ xs]"
  by (induction xs arbitrary: cur) auto

lemma split_path_loop_dot:
  "CHR ''.'' \<notin> set xs \<Longrightarrow>
     split_path_loop cur (xs @ CHR ''.'' # ys) = (cur @ xs) # split_path_loop [] ys"
  by (induction xs arbitrary: cur) auto

text \<open>Joining with dots, the inverse of \<^const>\<open>SplitPath\<close>.\<close>

fun join_path :: "string list \<Rightarrow> string" where
  "join_path [] = []"
| "join_path [p] = p"
| "join_path (p # q # ps) = p @ CHR ''.'' # join_path (q # ps)"

lemma SplitPath_join:
  "ps \<noteq> [] \<Longrightarrow> \<forall>p\<in>set ps. CHR ''.'' \<notin> set p \<Longrightarrow> SplitPath (join_path ps) = ps"
  unfolding SplitPath_def
  by (induction ps rule: join_path.induct) (auto simp: split_path_loop_plain split_path_loop_dot)

lemma is_object_force_object [simp]: "is_object (force_object j)"
  by (cases j) auto

lemma force_object_id [simp]: "is_object j \<Longrightarrow> force_object j = j"
  by (cases j) auto

lemma jfind_force_object [simp]: "jfind (force_object j) k = jfind j k"
  by (cases j) auto

lemma read_write_parts: "ps \<noteq> [] \<Longrightarrow> read_parts dump (write_parts cur ps v) ps = v"
  by (induction cur ps v rule: write_parts.induct) (auto simp: Let_def)

text \<open>A write is invisible along any path that neither extends nor is extended by the written one.\<close>

lemma read_parts_nonobject: "ps \<noteq> [] \<Longrightarrow> \<not> is_object cur \<Longrightarrow> read_parts dump cur ps = []"
  by (cases ps; cases cur) auto

lemma write_parts_frame:
  "\<not> prefix ps qs \<Longrightarrow> \<not> prefix qs ps \<Longrightarrow>
     read_parts dump (write_parts cur ps v) qs = read_parts dump cur qs"
proof (induction cur ps v arbitrary: qs rule: write_parts.induct)
  case (2 cur p v)
  then obtain q qs' where qs: "qs = q # qs'" by (cases qs) auto
  with 2 have "q \<noteq> p" by auto
  with qs show ?case by simp
next
  case (3 cur p q ps v)
  then obtain r rs where qs: "qs = r # rs" by (cases qs) auto
  define child where
    "child = (case jfind (force_object cur) p of Some (JObj m) \<Rightarrow> JObj m | _ \<Rightarrow> JObj [])"
  show ?case
  proof (cases "r = p")
    case False
    with qs show ?thesis by (simp add: Let_def)
  next
    case True
    with 3 qs have np: "\<not> prefix (q # ps) rs" "\<not> prefix rs (q # ps)" by auto
    then have rs: "rs \<noteq> []" by auto
    have "read_parts dump (write_parts child (q # ps) v) rs = read_parts dump child rs"
      unfolding child_def by (rule 3(1)[OF refl refl np])
    moreover have "read_parts dump child rs = read_parts dump cur qs"
    proof (cases "jfind cur p")
      case None
      then show ?thesis using qs True rs by (cases rs) (auto simp: child_def)
    next
      case (Some j)
      show ?thesis
      proof (cases "is_object j")
        case True
        then show ?thesis using qs \<open>r = p\<close> Some by (auto simp: child_def elim: is_objectE)
      next
        case False
        then have "child = JObj []" using Some by (cases j) (auto simp: child_def)
        then show ?thesis using qs \<open>r = p\<close> Some rs False
          by (cases rs; cases j) auto
      qed
    qed
    ultimately show ?thesis using qs True by (simp add: Let_def child_def)
  qed
qed auto

lemma backing_WriteStringField_Json:
  "st_backing s = JsonArm j \<Longrightarrow>
     st_backing (WriteStringField api s path v) =
       JsonArm (Some (WriteJsonField (case j of Some j' \<Rightarrow> j' | None \<Rightarrow> JObj []) path v))"
  by (auto simp: WriteStringField_def split: option.splits)

lemma ReadStringField_Clone: "ReadStringField api dump (Clone s) path = ReadStringField api dump s path"
  by (auto simp: ReadStringField_def Clone_def State_def split: backing.splits option.splits)

lemma Clone_Clone: "Clone (Clone s) = Clone s"
  by (auto simp: Clone_def State_def split: backing.splits option.splits)

lemma UnsafeMessage_Clone [simp]: "UnsafeMessage (Clone s) = UnsafeMessage s"
  by (auto simp: UnsafeMessage_def Clone_def State_def split: backing.splits option.splits)

text \<open>What is written through a typed reference is read back through one; both are refused on the same states.\<close>

lemma As_Clone [simp]: "State_As api is_a (Clone s) = State_As api is_a s"
  by (auto simp: State_As_def Clone_def State_def Let_def split: backing.splits option.splits)

lemma As_Mutable:
  "State_Mutable api is_a f s = Inr s' \<Longrightarrow> \<exists>m. State_As api is_a s = Inr m \<and> (is_a (f m) \<longrightarrow> State_As api is_a s' = Inr (f m))"
  by (auto simp: State_As_def State_Mutable_def Let_def split: option.splits if_splits)

lemma Mutable_refuses: "(\<exists>e. State_Mutable api is_a f s = Inl e) \<longleftrightarrow> (\<exists>e. State_As api is_a s = Inl e)"
  by (auto simp: State_As_def State_Mutable_def Let_def split: option.splits)

lemma As_From [simp]: "State_As api is_a (State_From m) = (if is_a m then Inr m else Inl (type_mismatch ''As'' api (Some m)))"
  by (simp add: State_As_def State_From_def State_def)

text \<open>Through the text interface: a string field of the class can be written and read with its own accessors.\<close>

lemma As_WriteStringField:
  assumes "State_As api is_a s = Inr m" "has_string_field api m f" "is_a (set_string api m f v)"
  shows "State_As api is_a (WriteStringField api s f v) = Inr (set_string api m f v)"
  using assms by (auto simp: State_As_def WriteStringField_def WriteProtoField_def Let_def split: backing.splits option.splits if_splits)

lemma jfind_foldl_oput:
  assumes "distinct (map fst m)" and "is_object acc"
  shows "jfind (foldl (\<lambda>acc (k, v). oput k (f v) acc) acc m) k =
           (case map_of m k of Some v \<Rightarrow> Some (f v) | None \<Rightarrow> jfind acc k)"
  using assms
proof (induction m arbitrary: acc)
  case (Cons p m)
  obtain a b where p: "p = (a, b)" by (cases p)
  with Cons.prems have "map_of m a = None"
    by (auto simp: map_of_eq_None_iff)
  with Cons p show ?case by (auto split: option.splits)
qed simp

section \<open>Properties\<close>

text \<open>
  String fields of a JSON state: what was written along a dotted path is read back along it,
  whatever stood in the way, and a read along any path that neither extends the written one nor is
  extended by it is not affected; a clone reads the same everywhere.
\<close>

lemma json_field_write:
  assumes arm: "st_backing s = JsonArm j"
  shows "ReadStringField api dump (WriteStringField api s p v) p = v \<and>
     (\<not> prefix (SplitPath p) (SplitPath q) \<and> \<not> prefix (SplitPath q) (SplitPath p) \<longrightarrow>
        ReadStringField api dump (WriteStringField api s p v) q = ReadStringField api dump s q) \<and>
     ReadStringField api dump (Clone (WriteStringField api s p v)) q = ReadStringField api dump (WriteStringField api s p v) q"
proof -
  have empty: "read_parts dump (JObj []) (SplitPath q) = []"
    using SplitPath_nonempty[of q] by (cases "SplitPath q") auto
  have "ReadStringField api dump (WriteStringField api s p v) x =
      read_parts dump (write_parts (case j of Some j' \<Rightarrow> j' | None \<Rightarrow> JObj []) (SplitPath p) v) (SplitPath x)" for x
    using backing_WriteStringField_Json[OF arm] by (simp add: ReadStringField_def ReadJsonField_def WriteJsonField_def)
  moreover have "ReadStringField api dump s q =
      read_parts dump (case j of Some j' \<Rightarrow> j' | None \<Rightarrow> JObj []) (SplitPath q)"
    using arm empty by (auto simp: ReadStringField_def ReadJsonField_def split: option.splits)
  ultimately show ?thesis
    by (simp add: read_write_parts write_parts_frame ReadStringField_Clone)
qed

definition sample_api :: "string proto_api" where
  "sample_api = \<lparr>has_string_field = (\<lambda>_ _. False), get_string = (\<lambda>_ _. []), set_string = (\<lambda>m _ _. m),
     serialize = (\<lambda>m. m), parse_from = (\<lambda>_ s. Some s), type_name = (\<lambda>_. [])\<rparr>"

end
