(* ===== verification/Runner.thy ===== *)
theory Runner
  imports Graph Graph_State
begin

text \<open>
  The graph runner, \<open>agentflow/core/runner.{h,cc}\<close>. The record \<open>runner\<close> holds the members of
  \<open>Runner::Impl\<close>, the coroutines in flight, the token's cancellation flag, and what the runner
  sends outside: the trace events it emits and the checkpoints it hands to the writer.

  The runner is scheduled on a single-threaded executor, as the comments of \<open>runner.cc\<close> say: the
  code between two suspension points is atomic. The suspension points are the start of a node's
  coroutine, the return of \<open>node->Run\<close>, and the wait of the main loop. Which of them comes next
  is not determined, nor is the iteration order of the hash map of activations, so the runner is
  a step relation (\<open>runner_step\<close>) over four kinds of steps of the runner itself and one of its
  environment (the token being cancelled). What a node computes is arbitrary: the event of the end
  of a node carries its outcome, and the readings of the cancellation flag its coroutine makes,
  since another thread may cancel between two readings.

  The counters \<open>times_fired\<close>, \<open>remaining_all\<close> and \<open>in_flight_count_\<close> are C++ \<open>int\<close>s; the model
  has them unbounded.
\<close>

section \<open>Data\<close>

record 'm node_activation =
  remaining_all :: "(int \<times> int) list"
  conditions :: "(int \<times> condition) list"
  any_fired :: "(int \<times> bool) list"
  pending_inputs :: "'m gstate list"
  times_fired :: nat
  in_flight :: bool

definition new_activation :: "'m node_activation" where
  "new_activation = \<lparr>remaining_all = [], conditions = [], any_fired = [], pending_inputs = [],
     times_fired = 0, in_flight = False\<rparr>"

datatype trace_event =
    NodeStart string
  | NodeFailed string string string
  | NodeEnd string bool bool
  | EdgeFire string string int
  | GraphDone bool

datatype checkpoint_policy = Off | AfterEachNode | AfterTerminalNode

record checkpoint =
  cp_state_bytes :: string
  cp_state_type :: string
  cp_completed_nodes :: "string list"
  cp_unix_micros :: int
  cp_schema_version :: nat

definition kCurrentCheckpointSchemaVersion :: nat where
  "kCurrentCheckpointSchemaVersion = 1"

datatype phase = Spawned | Started

record 'm runner =
  graph_of :: graph
  policy :: checkpoint_policy
  activations :: "(string \<times> 'm node_activation) list"
  baseline :: "(string \<times> (int \<times> int) list) list"
  terminal_state :: "'m gstate option"
  in_flight_count :: nat
  first_error :: "exn option"
  completed_node_ids :: "string list"
  coroutines :: "(string \<times> phase \<times> 'm gstate) list"
  cancel_flag :: bool
  trace :: "trace_event list"
  checkpoints :: "checkpoint list"
  result :: "'m gstate exn_or option"

definition Runner_Impl :: "graph \<Rightarrow> checkpoint_policy \<Rightarrow> bool \<Rightarrow> 'm runner exn_or" where
  "Runner_Impl g pol has_writer =
     (if pol \<noteq> Off \<and> \<not> has_writer
      then Inl (AgentflowError ''Runner: checkpoint_writer required when policy != Off'')
      else Inr \<lparr>graph_of = g, policy = pol, activations = [], baseline = [], terminal_state = None,
        in_flight_count = 0, first_error = None, completed_node_ids = [], coroutines = [],
        cancel_flag = False, trace = [], checkpoints = [], result = None\<rparr>)"

section \<open>Activation bookkeeping\<close>

definition act :: "'m runner \<Rightarrow> string \<Rightarrow> 'm node_activation" where
  "act r v = alist_get new_activation (activations r) v"

definition set_act :: "string \<Rightarrow> 'm node_activation \<Rightarrow> 'm runner \<Rightarrow> 'm runner" where
  "set_act v na r = r\<lparr>activations := AList.update v na (activations r)\<rparr>"

definition init_node :: "(string \<times> 'm node_activation) list \<Rightarrow> node_ref \<Rightarrow> (string \<times> 'm node_activation) list" where
  "init_node acts n =
     (if has_key acts (node_id n) then acts else acts @ [(node_id n, new_activation)])"

definition count_edge :: "edge \<Rightarrow> 'm node_activation \<Rightarrow> 'm node_activation" where
  "count_edge e na = na\<lparr>
     conditions := (if has_key (conditions na) (edge_group e) then conditions na
                    else AList.update (edge_group e) (edge_cond e) (conditions na)),
     remaining_all := AList.update (edge_group e) (alist_get 0 (remaining_all na) (edge_group e) + 1) (remaining_all na),
     any_fired := (if has_key (any_fired na) (edge_group e) then any_fired na
                   else AList.update (edge_group e) False (any_fired na))\<rparr>"

definition init_edge :: "(string \<times> 'm node_activation) list \<Rightarrow> edge \<Rightarrow> (string \<times> 'm node_activation) list" where
  "init_edge acts e =
     AList.update (edge_to e) (count_edge e (alist_get new_activation acts (edge_to e))) acts"

definition InitActivations :: "'m runner \<Rightarrow> 'm runner" where
  "InitActivations r =
     (let acts1 = foldl init_node (activations r) (g_nodes (graph_of r));
          acts2 = foldl init_edge acts1 (g_edges (graph_of r))
      in r\<lparr>activations := acts2, baseline := map (\<lambda>(v, na). (v, remaining_all na)) acts2\<rparr>)"

definition group_ready :: "'m node_activation \<Rightarrow> int \<times> condition \<Rightarrow> bool" where
  "group_ready na gc =
     (case gc of (g, cond) \<Rightarrow>
        (g > 0 \<and> times_fired na = 0) \<or>
        (case cond of
           CondAll \<Rightarrow> alist_get 0 (remaining_all na) g \<le> 0
         | CondAny \<Rightarrow> alist_get False (any_fired na) g))"

definition NodeReady :: "'m node_activation \<Rightarrow> bool" where
  "NodeReady na = list_all (group_ready na) (conditions na)"

definition MergeInputs :: "'m gstate list \<Rightarrow> 'm gstate" where
  "MergeInputs inputs = (if inputs = [] then State else last inputs)"

definition MaybeWriteCheckpoint ::
    "'m proto_api \<Rightarrow> json_dumper \<Rightarrow> int \<Rightarrow> 'm gstate \<Rightarrow> bool \<Rightarrow> 'm runner \<Rightarrow> 'm runner" where
  "MaybeWriteCheckpoint api dump now current_state terminal r =
     (if policy r = Off then r
      else if policy r = AfterTerminalNode \<and> \<not> terminal then r
      else r\<lparr>checkpoints := checkpoints r @
        [\<lparr>cp_state_bytes = SerializeAsString api dump current_state,
          cp_state_type = (case UnsafeMessage current_state of Some m \<Rightarrow> type_name api m | None \<Rightarrow> []),
          cp_completed_nodes = completed_node_ids r,
          cp_unix_micros = now,
          cp_schema_version = kCurrentCheckpointSchemaVersion\<rparr>]\<rparr>)"

section \<open>The node coroutine\<close>

text \<open>What \<open>launch\<close> does to the activation under the lock.\<close>

definition fire_activation :: "(int \<times> int) list \<Rightarrow> 'm node_activation \<Rightarrow> 'm node_activation" where
  "fire_activation base na = na\<lparr>
     pending_inputs := [],
     in_flight := True,
     times_fired := times_fired na + 1,
     remaining_all := map (\<lambda>(g, rem). (g, if g = 0 then rem else alist_get 0 base g)) (remaining_all na),
     any_fired := map (\<lambda>(g, fired). (g, if g = 0 then fired else False)) (any_fired na)\<rparr>"

definition launch :: "string \<Rightarrow> 'm runner \<Rightarrow> 'm runner" where
  "launch v r =
     (let na = act r v;
          input = MergeInputs (pending_inputs na)
      in (set_act v (fire_activation (alist_get [] (baseline r) v) na) r)
           \<lparr>in_flight_count := in_flight_count r + 1,
            coroutines := coroutines r @ [(v, Spawned, input)]\<rparr>)"

definition begin_node :: "string \<Rightarrow> 'm runner \<Rightarrow> 'm runner" where
  "begin_node v r = r\<lparr>
     coroutines := map (\<lambda>(w, ph, inp). if w = v then (w, Started, inp) else (w, ph, inp)) (coroutines r),
     trace := trace r @ [NodeStart v]\<rparr>"

datatype 'm outcome = Returned "'m gstate" | Threw exn

definition failed :: "'m outcome \<Rightarrow> bool" where
  "failed out = (case out of Threw _ \<Rightarrow> True | Returned _ \<Rightarrow> False)"

text \<open>The readings of \<open>cancel.IsCancelled()\<close> in the order the coroutine makes them.\<close>

record cancel_reads =
  at_end :: bool
  at_track :: bool
  at_fanout :: bool
  at_checkpoint :: bool

definition record_error :: "string \<Rightarrow> 'm outcome \<Rightarrow> 'm runner \<Rightarrow> 'm runner" where
  "record_error v out r =
     (case out of
        Returned _ \<Rightarrow> r
      | Threw e \<Rightarrow> r\<lparr>first_error := (case first_error r of None \<Rightarrow> Some e | Some e' \<Rightarrow> Some e'),
                     trace := trace r @ [NodeFailed v ''Exception'' ''node threw'']\<rparr>)"

definition deliver :: "'m gstate \<Rightarrow> edge \<Rightarrow> 'm node_activation \<Rightarrow> 'm node_activation" where
  "deliver out e na =
     (let na' = na\<lparr>pending_inputs := pending_inputs na @ [Clone out]\<rparr> in
      case edge_cond e of
        CondAll \<Rightarrow> na'\<lparr>remaining_all :=
                     AList.update (edge_group e) (alist_get 0 (remaining_all na) (edge_group e) - 1) (remaining_all na)\<rparr>
      | CondAny \<Rightarrow> na'\<lparr>any_fired := AList.update (edge_group e) True (any_fired na)\<rparr>)"

definition fire_edge :: "'m gstate \<Rightarrow> edge \<Rightarrow> 'm runner \<Rightarrow> 'm runner" where
  "fire_edge out e r =
     (set_act (edge_to e) (deliver out e (act r (edge_to e))) r)
       \<lparr>trace := trace r @ [EdgeFire (edge_from e) (edge_to e) (edge_group e)]\<rparr>"

definition has_outgoing :: "graph \<Rightarrow> string \<Rightarrow> bool" where
  "has_outgoing g v \<longleftrightarrow> (\<exists>e\<in>set (g_edges g). edge_from e = v)"

definition fire_edges :: "string \<Rightarrow> 'm gstate \<Rightarrow> edge list \<Rightarrow> 'm runner \<Rightarrow> 'm runner" where
  "fire_edges v out es r = foldl (\<lambda>r e. if edge_from e = v then fire_edge out e r else r) r es"

definition fan_out :: "string \<Rightarrow> 'm gstate \<Rightarrow> 'm runner \<Rightarrow> 'm runner" where
  "fan_out v out r =
     (let r' = fire_edges v out (g_edges (graph_of r)) r in
      if has_outgoing (graph_of r) v then r' else r'\<lparr>terminal_state := Some (Clone out)\<rparr>)"

definition retire :: "string \<Rightarrow> 'm runner \<Rightarrow> 'm runner" where
  "retire v r = (set_act v ((act r v)\<lparr>in_flight := False\<rparr>) r)
     \<lparr>in_flight_count := in_flight_count r - 1,
      coroutines := filter (\<lambda>t. fst t \<noteq> v) (coroutines r)\<rparr>"

definition output_of :: "'m outcome \<Rightarrow> 'm gstate" where
  "output_of out = (case out of Returned s \<Rightarrow> s | Threw _ \<Rightarrow> State)"

text \<open>The tail of the coroutine spawned by \<open>Run\<close>, from the return of \<open>node->Run\<close> on.\<close>

definition finish_node ::
    "'m proto_api \<Rightarrow> json_dumper \<Rightarrow> int \<Rightarrow> string \<Rightarrow> 'm outcome \<Rightarrow> cancel_reads \<Rightarrow> 'm runner \<Rightarrow> 'm runner" where
  "finish_node api dump now v out c r =
     (let r1 = record_error v out r;
          r2 = r1\<lparr>trace := trace r1 @ [NodeEnd v (at_end c) (failed out)]\<rparr>;
          r3 = (if \<not> failed out \<and> \<not> at_track c
                then r2\<lparr>completed_node_ids := completed_node_ids r2 @ [v]\<rparr> else r2);
          r4 = (if \<not> failed out \<and> \<not> at_fanout c then fan_out v (output_of out) r3 else r3);
          r5 = (if \<not> failed out \<and> \<not> at_checkpoint c
                then MaybeWriteCheckpoint api dump now (output_of out) (\<not> has_outgoing (graph_of r) v) r4 else r4)
      in retire v r5)"

text \<open>The tail of the coroutine spawned by \<open>RunInner\<close>: the checkpoint hangs off the fan-out test.\<close>

definition finish_node_inner ::
    "'m proto_api \<Rightarrow> json_dumper \<Rightarrow> int \<Rightarrow> string \<Rightarrow> 'm outcome \<Rightarrow> cancel_reads \<Rightarrow> 'm runner \<Rightarrow> 'm runner" where
  "finish_node_inner api dump now v out c r =
     (let r1 = record_error v out r;
          r2 = r1\<lparr>trace := trace r1 @ [NodeEnd v (at_end c) (failed out)]\<rparr>;
          r3 = (if \<not> failed out \<and> \<not> at_track c
                then r2\<lparr>completed_node_ids := completed_node_ids r2 @ [v]\<rparr> else r2);
          r4 = (if \<not> failed out \<and> \<not> at_fanout c
                then MaybeWriteCheckpoint api dump now (output_of out) (\<not> has_outgoing (graph_of r) v)
                       (fan_out v (output_of out) r3)
                else r3)
      in retire v r4)"

section \<open>Scheduling\<close>

definition deliver_initial :: "'m gstate \<Rightarrow> string \<Rightarrow> 'm runner \<Rightarrow> 'm runner" where
  "deliver_initial s v r =
     set_act v ((act r v)\<lparr>pending_inputs := pending_inputs (act r v) @ [Clone s]\<rparr>) r"

text \<open>\<open>Run\<close> up to the first launch: the initial state reaches every entry node.\<close>

definition Run_boot :: "'m gstate \<Rightarrow> 'm runner \<Rightarrow> 'm runner" where
  "Run_boot initial r =
     (let r' = InitActivations r in foldl (\<lambda>r v. deliver_initial initial v r) r' (g_entries (graph_of r)))"

definition launchable :: "'m runner \<Rightarrow> string \<Rightarrow> bool" where
  "launchable r v \<longleftrightarrow> has_key (activations r) v \<and> \<not> in_flight (act r v) \<and>
     pending_inputs (act r v) \<noteq> [] \<and> NodeReady (act r v)"

definition next_nodes :: "'m runner \<Rightarrow> string list" where
  "next_nodes r = filter (launchable r) (map fst (activations r))"

text \<open>
  The two exits of the main loop: nothing is in flight and the drain found nothing to launch, or
  the wake-up after a completion finds an error and nothing in flight.
\<close>

definition loop_exits :: "'m runner \<Rightarrow> bool" where
  "loop_exits r \<longleftrightarrow> in_flight_count r = 0 \<and> (next_nodes r = [] \<or> first_error r \<noteq> None)"

definition Run_return :: "'m runner \<Rightarrow> 'm runner" where
  "Run_return r =
     (case first_error r of
        Some e \<Rightarrow> r\<lparr>trace := trace r @ [GraphDone True], result := Some (Inl e)\<rparr>
      | None \<Rightarrow> r\<lparr>trace := trace r @ [GraphDone False],
                 result := Some (Inr (case terminal_state r of Some s \<Rightarrow> s | None \<Rightarrow> State))\<rparr>)"

datatype 'm runner_event =
    ELaunch string
  | EBegin string
  | EFinish string "'m outcome" cancel_reads int
  | ECancel
  | EReturn

text \<open>A reading never un-cancels: the flag is monotone over the readings of one coroutine.\<close>

definition reads_from :: "bool \<Rightarrow> cancel_reads \<Rightarrow> bool" where
  "reads_from f c \<longleftrightarrow> (f \<longrightarrow> at_end c) \<and> (at_end c \<longrightarrow> at_track c) \<and> (at_track c \<longrightarrow> at_fanout c) \<and>
     (at_fanout c \<longrightarrow> at_checkpoint c)"

inductive runner_step ::
    "'m proto_api \<Rightarrow> json_dumper \<Rightarrow> bool \<Rightarrow> 'm runner \<Rightarrow> 'm runner_event \<Rightarrow> 'm runner \<Rightarrow> bool"
  for api dump inner where
  step_launch: "result r = None \<Longrightarrow> launchable r v \<Longrightarrow>
     runner_step api dump inner r (ELaunch v) (launch v r)"
| step_begin: "(v, Spawned, inp) \<in> set (coroutines r) \<Longrightarrow>
     runner_step api dump inner r (EBegin v) (begin_node v r)"
| step_finish: "(v, Started, inp) \<in> set (coroutines r) \<Longrightarrow> reads_from (cancel_flag r) c \<Longrightarrow>
     runner_step api dump inner r (EFinish v out c now)
       ((if inner then finish_node_inner api dump now v out c r else finish_node api dump now v out c r)
          \<lparr>cancel_flag := at_checkpoint c\<rparr>)"
| step_cancel: "runner_step api dump inner r ECancel (r\<lparr>cancel_flag := True\<rparr>)"
| step_return: "result r = None \<Longrightarrow> loop_exits r \<Longrightarrow>
     runner_step api dump inner r EReturn (Run_return r)"

inductive_cases step_launchE: "runner_step api dump inner r (ELaunch v) r'"
inductive_cases step_finishE: "runner_step api dump inner r (EFinish v out c now) r'"
inductive_cases step_returnE: "runner_step api dump inner r EReturn r'"

inductive runner_run ::
    "'m proto_api \<Rightarrow> json_dumper \<Rightarrow> bool \<Rightarrow> 'm runner \<Rightarrow> 'm runner_event list \<Rightarrow> 'm runner \<Rightarrow> bool"
  for api dump inner where
  run_refl: "runner_run api dump inner r [] r"
| run_step: "runner_run api dump inner r es s \<Longrightarrow> runner_step api dump inner s e t \<Longrightarrow>
     runner_run api dump inner r (es @ [e]) t"

section \<open>Resume\<close>

definition replay_completed :: "string \<Rightarrow> 'm runner \<Rightarrow> 'm runner" where
  "replay_completed v r =
     (set_act v ((act r v)\<lparr>times_fired := 1, in_flight := False\<rparr>) r)
       \<lparr>completed_node_ids := completed_node_ids r @ [v]\<rparr>"

definition seed_edge :: "string list \<Rightarrow> 'm gstate \<Rightarrow> string \<Rightarrow> 'm runner \<Rightarrow> edge \<Rightarrow> 'm runner" where
  "seed_edge completed target v r e =
     (if edge_from e \<noteq> v then r
      else if edge_to e \<in> set completed then r
      else set_act (edge_to e) (deliver target e (act r (edge_to e))) r)"

definition seed_successors :: "string list \<Rightarrow> 'm gstate \<Rightarrow> 'm runner \<Rightarrow> 'm runner" where
  "seed_successors completed target r =
     foldl (\<lambda>r v. foldl (seed_edge completed target v) r (g_edges (graph_of r))) r completed"

definition Resume_seed :: "checkpoint \<Rightarrow> 'm gstate \<Rightarrow> 'm runner \<Rightarrow> 'm runner" where
  "Resume_seed cp target r =
     (let completed = cp_completed_nodes cp; g = graph_of r in
      if completed = []
      then foldl (\<lambda>r v. deliver_initial target v r) r (g_entries g)
      else
        (let r1 = foldl (\<lambda>r v. replay_completed v r) r completed;
             r2 = seed_successors completed target r1;
             any_outgoing_alive = (\<exists>v\<in>set completed. has_outgoing g v)
         in if \<not> any_outgoing_alive \<or> card (set completed) = length (g_nodes g)
            then r2\<lparr>terminal_state := Some (Clone target)\<rparr> else r2))"

definition Resume ::
    "'m proto_api \<Rightarrow> json_parser \<Rightarrow> checkpoint \<Rightarrow> 'm gstate \<Rightarrow> 'm runner \<Rightarrow> 'm runner exn_or" where
  "Resume api parse cp target r =
     (case UnsafeMessage target of
        None \<Rightarrow> Inl (AgentflowError
          ''Runner::Resume: target State has no underlying message; construct via State::From<YourProto>{}'')
      | Some m \<Rightarrow>
         if cp_state_type cp \<noteq> [] \<and> cp_state_type cp \<noteq> type_name api m
         then Inl (AgentflowError
                (''Runner::Resume: checkpoint state_type='' @ [CHR 0x27] @ cp_state_type cp @ [CHR 0x27] @
                 '' does not match target='' @ [CHR 0x27] @ type_name api m @ [CHR 0x27]))
         else
           (case ParseFromString api parse (cp_state_bytes cp) target of
              (False, _) \<Rightarrow> Inl (AgentflowError ''Runner::Resume: ParseFromString failed'')
            | (True, target') \<Rightarrow>
               (case check_all (\<lambda>v. if FindNode (graph_of r) v = None
                                    then Some (AgentflowError
                                      (''Runner::Resume: unknown node id in checkpoint: '' @ v))
                                    else None) (cp_completed_nodes cp) of
                  Some e \<Rightarrow> Inl e
                | None \<Rightarrow> Inr (Resume_seed cp target' (InitActivations r)))))"

end
