(* ===== verification/Runner_Safety.thy ===== *)
theory Runner_Safety
  imports Runner
begin

text \<open>
  What holds of the runner on every compiled graph, cyclic ones included: how the operations act
  on each activation, the scheduling invariant \<open>runner_inv\<close> (a node is never in flight twice, the
  in-flight counter is the number of live coroutines, the trace brackets every execution), that
  every step keeps it, and what cancellation and errors do to a run.
\<close>

section \<open>How the operations act on an activation\<close>

lemma act_set_act [simp]: "act (set_act v na r) w = (if w = v then na else act r w)"
  by (simp add: act_def set_act_def)

lemma set_act_fields [simp]:
  "graph_of (set_act v na r) = graph_of r" "policy (set_act v na r) = policy r"
  "baseline (set_act v na r) = baseline r" "terminal_state (set_act v na r) = terminal_state r"
  "in_flight_count (set_act v na r) = in_flight_count r" "first_error (set_act v na r) = first_error r"
  "completed_node_ids (set_act v na r) = completed_node_ids r" "coroutines (set_act v na r) = coroutines r"
  "cancel_flag (set_act v na r) = cancel_flag r" "trace (set_act v na r) = trace r"
  "checkpoints (set_act v na r) = checkpoints r" "result (set_act v na r) = result r"
  by (simp_all add: set_act_def)

lemma keys_set_act:
  "map fst (activations (set_act v na r)) =
     (if v \<in> set (map fst (activations r)) then map fst (activations r) else map fst (activations r) @ [v])"
  by (simp add: set_act_def update_keys)

lemma act_update_other [simp]:
  "act (r\<lparr>in_flight_count := n\<rparr>) v = act r v" "act (r\<lparr>coroutines := cs\<rparr>) v = act r v"
  "act (r\<lparr>trace := tr\<rparr>) v = act r v" "act (r\<lparr>first_error := fe\<rparr>) v = act r v"
  "act (r\<lparr>completed_node_ids := cn\<rparr>) v = act r v" "act (r\<lparr>terminal_state := ts\<rparr>) v = act r v"
  "act (r\<lparr>checkpoints := cps\<rparr>) v = act r v" "act (r\<lparr>cancel_flag := cf\<rparr>) v = act r v"
  "act (r\<lparr>result := res\<rparr>) v = act r v"
  by (simp_all add: act_def)

definition edges_between :: "string \<Rightarrow> string \<Rightarrow> edge list \<Rightarrow> edge list" where
  "edges_between v w es = filter (\<lambda>e. edge_from e = v \<and> edge_to e = w) es"

lemma fire_edges_Cons:
  "fire_edges v out (e # es) r = fire_edges v out es (if edge_from e = v then fire_edge out e r else r)"
  by (simp add: fire_edges_def)

lemma fire_edges_Nil [simp]: "fire_edges v out [] r = r"
  by (simp add: fire_edges_def)

lemma act_fire_edges:
  "act (fire_edges v out es r) w = foldl (\<lambda>na e. deliver out e na) (act r w) (edges_between v w es)"
proof (induction es arbitrary: r)
  case Nil
  then show ?case by (simp add: edges_between_def)
next
  case (Cons e es)
  have IH: "act (fire_edges v out es r') w = foldl (\<lambda>na e. deliver out e na) (act r' w) (edges_between v w es)" for r'
    by (rule Cons.IH)
  have "edges_between v w (e # es) =
      (if edge_from e = v \<and> edge_to e = w then e # edges_between v w es else edges_between v w es)"
    by (simp add: edges_between_def)
  then show ?case
    by (auto simp: fire_edges_Cons IH fire_edge_def)
qed

lemma fire_edges_fields [simp]:
  "graph_of (fire_edges v out es r) = graph_of r" "policy (fire_edges v out es r) = policy r"
  "baseline (fire_edges v out es r) = baseline r" "terminal_state (fire_edges v out es r) = terminal_state r"
  "in_flight_count (fire_edges v out es r) = in_flight_count r" "first_error (fire_edges v out es r) = first_error r"
  "completed_node_ids (fire_edges v out es r) = completed_node_ids r"
  "coroutines (fire_edges v out es r) = coroutines r"
  "cancel_flag (fire_edges v out es r) = cancel_flag r"
  "checkpoints (fire_edges v out es r) = checkpoints r" "result (fire_edges v out es r) = result r"
  by (induction es arbitrary: r) (simp_all add: fire_edges_Cons fire_edge_def)

lemma trace_fire_edges:
  "trace (fire_edges v out es r) =
     trace r @ map (\<lambda>e. EdgeFire (edge_from e) (edge_to e) (edge_group e)) (filter (\<lambda>e. edge_from e = v) es)"
  by (induction es arbitrary: r) (simp_all add: fire_edges_Cons fire_edge_def)

lemma keys_fire_edges:
  "\<forall>e\<in>set es. edge_to e \<in> set (map fst (activations r)) \<Longrightarrow>
     map fst (activations (fire_edges v out es r)) = map fst (activations r)"
proof (induction es arbitrary: r)
  case (Cons e es)
  have keys: "map fst (activations (fire_edge out e r)) = map fst (activations r)"
    using Cons.prems keys_set_act[of "edge_to e" _ r] by (simp add: fire_edge_def)
  have "fst ` set (activations (fire_edge out e r)) = fst ` set (activations r)"
    using arg_cong[OF keys, of set] by simp
  with Cons keys show ?case by (simp add: fire_edges_Cons)
qed simp

lemma deliver_fields [simp]:
  "conditions (deliver out e na) = conditions na" "times_fired (deliver out e na) = times_fired na"
  "in_flight (deliver out e na) = in_flight na"
  "pending_inputs (deliver out e na) = pending_inputs na @ [Clone out]"
  by (simp_all add: deliver_def Let_def split: condition.splits)

lemma deliver_fold_fields [simp]:
  "conditions (foldl (\<lambda>na e. deliver out e na) na es) = conditions na"
  "times_fired (foldl (\<lambda>na e. deliver out e na) na es) = times_fired na"
  "in_flight (foldl (\<lambda>na e. deliver out e na) na es) = in_flight na"
  "pending_inputs (foldl (\<lambda>na e. deliver out e na) na es) = pending_inputs na @ replicate (length es) (Clone out)"
  by (induction es arbitrary: na) (simp_all add: replicate_app_Cons_same)

lemma fan_out_fields [simp]:
  "graph_of (fan_out v out r) = graph_of r" "policy (fan_out v out r) = policy r"
  "baseline (fan_out v out r) = baseline r"
  "in_flight_count (fan_out v out r) = in_flight_count r" "first_error (fan_out v out r) = first_error r"
  "completed_node_ids (fan_out v out r) = completed_node_ids r" "coroutines (fan_out v out r) = coroutines r"
  "cancel_flag (fan_out v out r) = cancel_flag r"
  "checkpoints (fan_out v out r) = checkpoints r" "result (fan_out v out r) = result r"
  "terminal_state (fan_out v out r) =
     (if has_outgoing (graph_of r) v then terminal_state r else Some (Clone out))"
  "act (fan_out v out r) w =
     foldl (\<lambda>na e. deliver out e na) (act r w) (edges_between v w (g_edges (graph_of r)))"
  "activations (fan_out v out r) = activations (fire_edges v out (g_edges (graph_of r)) r)"
  "trace (fan_out v out r) = trace (fire_edges v out (g_edges (graph_of r)) r)"
  by (simp_all add: fan_out_def Let_def act_fire_edges)

lemma MaybeWriteCheckpoint_fields [simp]:
  "graph_of (MaybeWriteCheckpoint api dump now s b r) = graph_of r"
  "policy (MaybeWriteCheckpoint api dump now s b r) = policy r"
  "activations (MaybeWriteCheckpoint api dump now s b r) = activations r"
  "baseline (MaybeWriteCheckpoint api dump now s b r) = baseline r"
  "terminal_state (MaybeWriteCheckpoint api dump now s b r) = terminal_state r"
  "in_flight_count (MaybeWriteCheckpoint api dump now s b r) = in_flight_count r"
  "first_error (MaybeWriteCheckpoint api dump now s b r) = first_error r"
  "completed_node_ids (MaybeWriteCheckpoint api dump now s b r) = completed_node_ids r"
  "coroutines (MaybeWriteCheckpoint api dump now s b r) = coroutines r"
  "cancel_flag (MaybeWriteCheckpoint api dump now s b r) = cancel_flag r"
  "trace (MaybeWriteCheckpoint api dump now s b r) = trace r"
  "result (MaybeWriteCheckpoint api dump now s b r) = result r"
  "act (MaybeWriteCheckpoint api dump now s b r) w = act r w"
  by (simp_all add: MaybeWriteCheckpoint_def act_def)

lemma record_error_fields [simp]:
  "graph_of (record_error v out r) = graph_of r" "policy (record_error v out r) = policy r"
  "activations (record_error v out r) = activations r" "baseline (record_error v out r) = baseline r"
  "terminal_state (record_error v out r) = terminal_state r"
  "in_flight_count (record_error v out r) = in_flight_count r"
  "completed_node_ids (record_error v out r) = completed_node_ids r"
  "coroutines (record_error v out r) = coroutines r" "cancel_flag (record_error v out r) = cancel_flag r"
  "checkpoints (record_error v out r) = checkpoints r" "result (record_error v out r) = result r"
  "act (record_error v out r) w = act r w"
  by (simp_all add: record_error_def act_def split: outcome.splits)

lemma act_retire [simp]:
  "act (retire v r) w = (if w = v then (act r v)\<lparr>in_flight := False\<rparr> else act r w)"
  by (simp add: retire_def)

lemma retire_fields [simp]:
  "graph_of (retire v r) = graph_of r" "policy (retire v r) = policy r" "baseline (retire v r) = baseline r"
  "terminal_state (retire v r) = terminal_state r" "first_error (retire v r) = first_error r"
  "completed_node_ids (retire v r) = completed_node_ids r" "cancel_flag (retire v r) = cancel_flag r"
  "trace (retire v r) = trace r" "checkpoints (retire v r) = checkpoints r" "result (retire v r) = result r"
  "in_flight_count (retire v r) = in_flight_count r - 1"
  "coroutines (retire v r) = filter (\<lambda>t. fst t \<noteq> v) (coroutines r)"
  by (simp_all add: retire_def)

lemma launch_fields [simp]:
  "graph_of (launch v r) = graph_of r" "policy (launch v r) = policy r" "baseline (launch v r) = baseline r"
  "terminal_state (launch v r) = terminal_state r" "first_error (launch v r) = first_error r"
  "completed_node_ids (launch v r) = completed_node_ids r" "cancel_flag (launch v r) = cancel_flag r"
  "trace (launch v r) = trace r" "checkpoints (launch v r) = checkpoints r" "result (launch v r) = result r"
  "in_flight_count (launch v r) = in_flight_count r + 1"
  "coroutines (launch v r) = coroutines r @ [(v, Spawned, MergeInputs (pending_inputs (act r v)))]"
  "act (launch v r) w = (if w = v then fire_activation (alist_get [] (baseline r) v) (act r v) else act r w)"
  by (simp_all add: launch_def Let_def)

lemma begin_node_fields [simp]:
  "graph_of (begin_node v r) = graph_of r" "policy (begin_node v r) = policy r"
  "activations (begin_node v r) = activations r" "baseline (begin_node v r) = baseline r"
  "terminal_state (begin_node v r) = terminal_state r" "in_flight_count (begin_node v r) = in_flight_count r"
  "first_error (begin_node v r) = first_error r" "completed_node_ids (begin_node v r) = completed_node_ids r"
  "cancel_flag (begin_node v r) = cancel_flag r" "checkpoints (begin_node v r) = checkpoints r"
  "result (begin_node v r) = result r" "trace (begin_node v r) = trace r @ [NodeStart v]"
  "act (begin_node v r) w = act r w"
  by (simp_all add: begin_node_def act_def)

lemma fire_activation_fields [simp]:
  "pending_inputs (fire_activation b na) = []" "in_flight (fire_activation b na)"
  "times_fired (fire_activation b na) = Suc (times_fired na)"
  "conditions (fire_activation b na) = conditions na"
  by (simp_all add: fire_activation_def)


lemma Run_return_fields [simp]:
  "graph_of (Run_return r) = graph_of r" "policy (Run_return r) = policy r" "baseline (Run_return r) = baseline r"
  "activations (Run_return r) = activations r" "terminal_state (Run_return r) = terminal_state r"
  "in_flight_count (Run_return r) = in_flight_count r" "first_error (Run_return r) = first_error r"
  "completed_node_ids (Run_return r) = completed_node_ids r" "coroutines (Run_return r) = coroutines r"
  "cancel_flag (Run_return r) = cancel_flag r" "checkpoints (Run_return r) = checkpoints r"
  "trace (Run_return r) = trace r @ [GraphDone (first_error r \<noteq> None)]" "act (Run_return r) v = act r v"
  "result (Run_return r) = Some (case first_error r of Some e \<Rightarrow> Inl e
     | None \<Rightarrow> Inr (case terminal_state r of Some s \<Rightarrow> s | None \<Rightarrow> State))"
  by (simp_all add: Run_return_def act_def split: option.splits)

section \<open>The end of a node\<close>

text \<open>Both coroutine tails differ only in which reading of the token guards the checkpoint.\<close>

definition finish :: "'m proto_api \<Rightarrow> json_dumper \<Rightarrow> bool \<Rightarrow> int \<Rightarrow> string \<Rightarrow> 'm outcome \<Rightarrow> cancel_reads \<Rightarrow>
    'm runner \<Rightarrow> 'm runner" where
  "finish api dump inner now v out c r =
     (if inner then finish_node_inner api dump now v out c r else finish_node api dump now v out c r)"

definition tracked :: "'m outcome \<Rightarrow> cancel_reads \<Rightarrow> bool" where
  "tracked out c \<longleftrightarrow> \<not> failed out \<and> \<not> at_track c"

definition fans_out :: "'m outcome \<Rightarrow> cancel_reads \<Rightarrow> bool" where
  "fans_out out c \<longleftrightarrow> \<not> failed out \<and> \<not> at_fanout c"

definition first_of :: "exn option \<Rightarrow> 'm outcome \<Rightarrow> exn option" where
  "first_of fe out = (case out of Returned _ \<Rightarrow> fe | Threw e \<Rightarrow> (case fe of None \<Rightarrow> Some e | Some e' \<Rightarrow> Some e'))"

definition end_events :: "graph \<Rightarrow> string \<Rightarrow> 'm outcome \<Rightarrow> cancel_reads \<Rightarrow> trace_event list" where
  "end_events g v out c =
     (if failed out then [NodeFailed v ''Exception'' ''node threw''] else []) @
     [NodeEnd v (at_end c) (failed out)] @
     (if fans_out out c
      then map (\<lambda>e. EdgeFire (edge_from e) (edge_to e) (edge_group e)) (filter (\<lambda>e. edge_from e = v) (g_edges g))
      else [])"

definition received :: "graph \<Rightarrow> string \<Rightarrow> 'm outcome \<Rightarrow> cancel_reads \<Rightarrow> string \<Rightarrow> 'm node_activation \<Rightarrow> 'm node_activation" where
  "received g v out c w na =
     (if fans_out out c then foldl (\<lambda>na e. deliver (output_of out) e na) na (edges_between v w (g_edges g)) else na)"

lemma received_fields [simp]:
  "conditions (received g v out c w na) = conditions na"
  "times_fired (received g v out c w na) = times_fired na"
  "in_flight (received g v out c w na) = in_flight na"
  by (simp_all add: received_def)

lemmas finish_defs = finish_def finish_node_def finish_node_inner_def Let_def

lemma finish_fields [simp]:
  "graph_of (finish api dump inner now v out c r) = graph_of r"
  "policy (finish api dump inner now v out c r) = policy r"
  "baseline (finish api dump inner now v out c r) = baseline r"
  "in_flight_count (finish api dump inner now v out c r) = in_flight_count r - 1"
  "coroutines (finish api dump inner now v out c r) = filter (\<lambda>t. fst t \<noteq> v) (coroutines r)"
  "cancel_flag (finish api dump inner now v out c r) = cancel_flag r"
  "result (finish api dump inner now v out c r) = result r"
  by (simp_all add: finish_defs)

lemma finish_completed [simp]:
  "completed_node_ids (finish api dump inner now v out c r) =
     completed_node_ids r @ (if tracked out c then [v] else [])"
  by (simp add: finish_defs tracked_def)

lemma finish_terminal [simp]:
  "terminal_state (finish api dump inner now v out c r) =
     (if fans_out out c \<and> \<not> has_outgoing (graph_of r) v then Some (Clone (output_of out)) else terminal_state r)"
  by (simp add: finish_defs fans_out_def)

lemma finish_error [simp]:
  "first_error (finish api dump inner now v out c r) = first_of (first_error r) out"
  by (cases out) (simp_all add: finish_defs first_of_def record_error_def failed_def)

lemma finish_trace [simp]:
  "trace (finish api dump inner now v out c r) = trace r @ end_events (graph_of r) v out c"
  by (cases out) (simp_all add: finish_defs end_events_def record_error_def failed_def fans_out_def trace_fire_edges)

lemma finish_act [simp]:
  "act (finish api dump inner now v out c r) w =
     (if w = v then (received (graph_of r) v out c v (act r v))\<lparr>in_flight := False\<rparr>
      else received (graph_of r) v out c w (act r w))"
  by (simp add: finish_defs received_def fans_out_def)

lemma keys_retire:
  "v \<in> set (map fst (activations r)) \<Longrightarrow> map fst (activations (retire v r)) = map fst (activations r)"
  using keys_set_act[of v _ r] by (simp add: retire_def)

lemma finish_keys:
  assumes "\<forall>e\<in>set (g_edges (graph_of r)). edge_to e \<in> set (map fst (activations r))"
    and "v \<in> set (map fst (activations r))"
  shows "map fst (activations (finish api dump inner now v out c r)) = map fst (activations r)"
proof -
  have fan: "map fst (activations (fire_edges v s (g_edges (graph_of r)) r')) = map fst (activations r)"
    if "activations r' = activations r" for s r'
    using keys_fire_edges[of "g_edges (graph_of r)" r' v s] that assms(1) by simp
  have in_keys: "v \<in> set (map fst (activations r'))" if "map fst (activations r') = map fst (activations r)" for r' :: "'a runner"
    using that assms(2) by simp
  have "map fst (activations (finish_node api dump now v out c r)) = map fst (activations r)"
    unfolding finish_node_def Let_def by (subst keys_retire; (rule in_keys)?) (simp_all add: fan)
  moreover have "map fst (activations (finish_node_inner api dump now v out c r)) = map fst (activations r)"
    unfolding finish_node_inner_def Let_def by (subst keys_retire; (rule in_keys)?) (simp_all add: fan)
  ultimately show ?thesis by (simp add: finish_def)
qed

section \<open>The scheduling invariant\<close>

definition node_ids :: "graph \<Rightarrow> string list" where
  "node_ids g = map node_id (g_nodes g)"

abbreviation live :: "'m runner \<Rightarrow> string set" where
  "live r \<equiv> fst ` set (coroutines r)"

definition starts :: "string \<Rightarrow> trace_event list \<Rightarrow> nat" where
  "starts v tr = count_list tr (NodeStart v)"

definition ends :: "string \<Rightarrow> trace_event list \<Rightarrow> nat" where
  "ends v tr = length (filter (\<lambda>ev. case ev of NodeEnd w _ _ \<Rightarrow> w = v | _ \<Rightarrow> False) tr)"

definition runner_inv :: "'m runner \<Rightarrow> bool" where
  "runner_inv r \<longleftrightarrow>
     wf_graph (graph_of r) \<and>
     map fst (activations r) = node_ids (graph_of r) \<and>
     distinct (map fst (coroutines r)) \<and>
     live r \<subseteq> set (node_ids (graph_of r)) \<and>
     in_flight_count r = length (coroutines r) \<and>
     (\<forall>v. in_flight (act r v) \<longleftrightarrow> v \<in> live r) \<and>
     (result r \<noteq> None \<longrightarrow> coroutines r = [])"

lemma runner_invD:
  assumes "runner_inv r"
  shows "wf_graph (graph_of r)" "map fst (activations r) = node_ids (graph_of r)"
    "distinct (map fst (coroutines r))" "live r \<subseteq> set (node_ids (graph_of r))"
    "in_flight_count r = length (coroutines r)" "in_flight (act r v) \<longleftrightarrow> v \<in> live r"
    "result r \<noteq> None \<Longrightarrow> coroutines r = []"
  using assms by (simp_all add: runner_inv_def)

lemma has_key_activations: "runner_inv r \<Longrightarrow> has_key (activations r) v \<longleftrightarrow> v \<in> set (node_ids (graph_of r))"
  using arg_cong[OF runner_invD(2), of r set] by (simp add: has_key_iff)

lemma wf_graph_targets:
  "wf_graph g \<Longrightarrow> e \<in> set (g_edges g) \<Longrightarrow> edge_to e \<in> set (node_ids g) \<and> edge_from e \<in> set (node_ids g)"
  by (auto simp: wf_graph_def node_ids_def)

lemma live_begin [simp]: "live (begin_node v r) = live r"
  by (force simp: begin_node_def split: prod.splits)

lemma keys_begin [simp]: "map fst (coroutines (begin_node v r)) = map fst (coroutines r)"
  by (induction "coroutines r") (auto simp: begin_node_def)

lemma length_filter_distinct_key:
  "distinct (map fst xs) \<Longrightarrow> v \<in> fst ` set xs \<Longrightarrow> length (filter (\<lambda>t. fst t \<noteq> v) xs) = length xs - 1"
proof (induction xs)
  case (Cons x xs)
  show ?case
  proof (cases "fst x = v")
    case True
    with Cons.prems(1) have "\<forall>y\<in>set xs. fst y \<noteq> v" by (auto simp: image_iff)
    then have "filter (\<lambda>t. fst t \<noteq> v) xs = xs" by (auto intro!: filter_True)
    with True show ?thesis by (cases x) simp
  next
    case False
    with Cons have "length (filter (\<lambda>t. fst t \<noteq> v) xs) = length xs - 1" and "xs \<noteq> []" by auto
    with False show ?thesis by (cases x) (auto simp: neq_Nil_conv)
  qed
qed simp

lemma live_filter: "fst ` set (filter (\<lambda>t. fst t \<noteq> v) xs) = fst ` set xs - {v}"
  by force

lemma distinct_filter_key: "distinct (map fst xs) \<Longrightarrow> distinct (map fst (filter P xs))"
  by (simp add: distinct_map_filter)

lemma runner_inv_launch:
  assumes inv: "runner_inv r" and "result r = None" and l: "launchable r v"
  shows "runner_inv (launch v r)"
proof -
  have v: "v \<in> set (node_ids (graph_of r))" "v \<notin> live r"
    using l has_key_activations[OF inv] runner_invD(6)[OF inv] by (auto simp: launchable_def)
  have keys: "map fst (activations (launch v r)) = map fst (activations r)"
    using v(1) runner_invD(2)[OF inv] keys_set_act[of v _ r] by (auto simp: launch_def Let_def simp flip: set_map)
  show ?thesis
    unfolding runner_inv_def keys
    using inv v assms(2) by (auto simp: runner_inv_def)
qed

lemma runner_inv_begin: "runner_inv r \<Longrightarrow> runner_inv (begin_node v r)"
  unfolding runner_inv_def live_begin keys_begin by (simp add: begin_node_def act_def)

lemma runner_inv_finish:
  assumes inv: "runner_inv r" and v: "v \<in> live r"
  shows "runner_inv ((finish api dump inner now v out c r)\<lparr>cancel_flag := b\<rparr>)"
proof -
  note I = runner_invD[OF inv]
  have keys: "map fst (activations (finish api dump inner now v out c r)) = map fst (activations r)"
    by (rule finish_keys) (use I v wf_graph_targets[OF I(1)] in auto)
  have "coroutines r \<noteq> []" using v by auto
  then have "result r = None" using I(7) by blast
  then show ?thesis
    unfolding runner_inv_def using keys I(1-5) v
    by (auto simp add: live_filter length_filter_distinct_key distinct_filter_key I(6))
qed

lemma finish_eq:
  "(if inner then finish_node_inner api dump now v out c r else finish_node api dump now v out c r) =
     finish api dump inner now v out c r"
  by (simp add: finish_def)

lemma runner_inv_step: "runner_step api dump inner r e r' \<Longrightarrow> runner_inv r \<Longrightarrow> runner_inv r'"
proof (induction rule: runner_step.induct)
  case (step_finish v inp r c out now)
  then show ?case unfolding finish_eq by (intro runner_inv_finish) (auto intro: rev_image_eqI)
next
  case (step_return r)
  then show ?case
    by (auto simp: runner_inv_def Run_return_def loop_exits_def act_def split: option.splits)
next
  case (step_cancel r)
  then show ?case by (simp add: runner_inv_def)
qed (auto intro: runner_inv_launch runner_inv_begin)

section \<open>The boot of a run\<close>

lemma foldl_init_node:
  "distinct (map node_id ns) \<Longrightarrow> fst ` set acts \<inter> node_id ` set ns = {} \<Longrightarrow>
     foldl init_node acts ns = acts @ map (\<lambda>n. (node_id n, new_activation)) ns"
proof (induction ns arbitrary: acts)
  case (Cons n ns)
  have "init_node acts n = acts @ [(node_id n, new_activation)]"
    using Cons.prems(2) by (auto simp: init_node_def has_key_iff)
  moreover have "fst ` set (acts @ [(node_id n, new_activation)]) \<inter> node_id ` set ns = {}"
    using Cons.prems by auto
  ultimately show ?case using Cons by simp
qed simp

lemma foldl_init_node_wf:
  "wf_graph g \<Longrightarrow> foldl init_node [] (g_nodes g) = map (\<lambda>n. (node_id n, new_activation)) (g_nodes g)"
  using foldl_init_node[of "g_nodes g" "[]"] by (simp add: wf_graph_def)

lemma foldl_init_edge_get:
  "alist_get new_activation (foldl init_edge acts es) v =
     foldl (\<lambda>na e. count_edge e na) (alist_get new_activation acts v) (filter (\<lambda>e. edge_to e = v) es)"
  by (induction es arbitrary: acts) (auto simp: init_edge_def)

lemma foldl_init_edge_keys:
  "\<forall>e\<in>set es. edge_to e \<in> set (map fst acts) \<Longrightarrow> map fst (foldl init_edge acts es) = map fst acts"
proof (induction es arbitrary: acts)
  case (Cons e es)
  have keys: "map fst (init_edge acts e) = map fst acts"
    using Cons.prems by (simp add: init_edge_def update_keys)
  have "fst ` set (init_edge acts e) = fst ` set acts"
    using arg_cong[OF keys, of set] by simp
  with Cons keys show ?case by simp
qed simp

lemma alist_get_new [simp]: "alist_get new_activation (map (\<lambda>n. (f n, new_activation)) ns) v = new_activation"
  by (induction ns) (auto simp: alist_get_def)

lemma Runner_Impl_fields:
  assumes "Runner_Impl g pol w = Inr r"
  shows "graph_of r = g" "policy r = pol" "activations r = []" "terminal_state r = None"
    "in_flight_count r = 0" "first_error r = None" "completed_node_ids r = []" "coroutines r = []"
    "cancel_flag r = False" "trace r = []" "checkpoints r = []" "result r = None" "baseline r = []"
  using assms by (auto simp: Runner_Impl_def split: if_splits)

lemma InitActivations_fields [simp]:
  "graph_of (InitActivations r) = graph_of r" "policy (InitActivations r) = policy r"
  "terminal_state (InitActivations r) = terminal_state r"
  "in_flight_count (InitActivations r) = in_flight_count r"
  "first_error (InitActivations r) = first_error r"
  "completed_node_ids (InitActivations r) = completed_node_ids r"
  "coroutines (InitActivations r) = coroutines r"
  "cancel_flag (InitActivations r) = cancel_flag r" "trace (InitActivations r) = trace r"
  "checkpoints (InitActivations r) = checkpoints r" "result (InitActivations r) = result r"
  by (simp_all add: InitActivations_def Let_def)

lemma InitActivations_keys:
  assumes "wf_graph (graph_of r)" and "activations r = []"
  shows "map fst (activations (InitActivations r)) = node_ids (graph_of r)"
proof -
  let ?acts = "map (\<lambda>n. (node_id n, new_activation :: 'a node_activation)) (g_nodes (graph_of r))"
  have 1: "foldl init_node [] (g_nodes (graph_of r)) = ?acts"
    by (rule foldl_init_node_wf[OF assms(1)])
  have 2: "map fst ?acts = node_ids (graph_of r)" by (simp add: node_ids_def comp_def)
  have "map fst (foldl init_edge ?acts (g_edges (graph_of r))) = map fst ?acts"
    by (rule foldl_init_edge_keys, unfold 2) (use assms(1) in \<open>auto simp: wf_graph_def node_ids_def\<close>)
  then show ?thesis by (simp add: InitActivations_def Let_def assms(2) 1 node_ids_def comp_def)
qed

lemma InitActivations_act:
  assumes "wf_graph (graph_of r)" and "activations r = []"
  shows "act (InitActivations r) v =
     foldl (\<lambda>na e. count_edge e na) new_activation (filter (\<lambda>e. edge_to e = v) (g_edges (graph_of r)))"
  using assms by (simp add: InitActivations_def Let_def act_def foldl_init_edge_get foldl_init_node_wf)

lemma count_edge_fields [simp]:
  "pending_inputs (count_edge e na) = pending_inputs na" "times_fired (count_edge e na) = times_fired na"
  "in_flight (count_edge e na) = in_flight na"
  by (simp_all add: count_edge_def)

lemma count_edge_fold_fields [simp]:
  "pending_inputs (foldl (\<lambda>na e. count_edge e na) na es) = pending_inputs na"
  "times_fired (foldl (\<lambda>na e. count_edge e na) na es) = times_fired na"
  "in_flight (foldl (\<lambda>na e. count_edge e na) na es) = in_flight na"
  by (induction es arbitrary: na) simp_all

lemma new_activation_fields [simp]:
  "pending_inputs new_activation = []" "times_fired new_activation = 0" "\<not> in_flight new_activation"
  "conditions new_activation = []" "remaining_all new_activation = []" "any_fired new_activation = []"
  by (simp_all add: new_activation_def)

definition deliver_initials :: "'m gstate \<Rightarrow> string list \<Rightarrow> 'm runner \<Rightarrow> 'm runner" where
  "deliver_initials s vs r = foldl (\<lambda>r v. deliver_initial s v r) r vs"

lemma deliver_initials_fields [simp]:
  "graph_of (deliver_initials s vs r) = graph_of r" "policy (deliver_initials s vs r) = policy r"
  "terminal_state (deliver_initials s vs r) = terminal_state r"
  "in_flight_count (deliver_initials s vs r) = in_flight_count r"
  "first_error (deliver_initials s vs r) = first_error r"
  "completed_node_ids (deliver_initials s vs r) = completed_node_ids r"
  "coroutines (deliver_initials s vs r) = coroutines r"
  "cancel_flag (deliver_initials s vs r) = cancel_flag r" "trace (deliver_initials s vs r) = trace r"
  "checkpoints (deliver_initials s vs r) = checkpoints r" "result (deliver_initials s vs r) = result r"
  by (induction vs arbitrary: r) (simp_all add: deliver_initials_def deliver_initial_def)

lemma act_deliver_initials:
  "distinct vs \<Longrightarrow> act (deliver_initials s vs r) v =
     (if v \<in> set vs then (act r v)\<lparr>pending_inputs := pending_inputs (act r v) @ [Clone s]\<rparr> else act r v)"
  by (induction vs arbitrary: r) (auto simp: deliver_initials_def deliver_initial_def)

lemma keys_deliver_initials:
  "set vs \<subseteq> set (map fst (activations r)) \<Longrightarrow>
     map fst (activations (deliver_initials s vs r)) = map fst (activations r)"
proof (induction vs arbitrary: r)
  case (Cons v vs)
  have keys: "map fst (activations (deliver_initial s v r)) = map fst (activations r)"
    using Cons.prems keys_set_act[of v _ r] by (simp add: deliver_initial_def)
  have "fst ` set (activations (deliver_initial s v r)) = fst ` set (activations r)"
    using arg_cong[OF keys, of set] by simp
  with Cons keys show ?case by (simp add: deliver_initials_def)
qed (simp add: deliver_initials_def)

lemma Run_boot_alt: "Run_boot s r = deliver_initials s (g_entries (graph_of r)) (InitActivations r)"
  by (simp add: Run_boot_def deliver_initials_def Let_def)

lemma wf_graph_entries:
  assumes "wf_graph g"
  shows "distinct (g_entries g)" "set (g_entries g) \<subseteq> set (node_ids g)"
  using assms by (auto simp: wf_graph_def entry_nodes_def node_ids_def)

definition booted :: "graph \<Rightarrow> 'm gstate \<Rightarrow> 'm runner \<Rightarrow> bool" where
  "booted g initial r \<longleftrightarrow> wf_graph g \<and> (\<exists>pol w r0. Runner_Impl g pol w = Inr r0 \<and> r = Run_boot initial r0)"

lemma bootedE:
  assumes "booted g s r"
  obtains r0 where "wf_graph g" "graph_of r0 = g" "activations r0 = []" "r = deliver_initials s (g_entries g) (InitActivations r0)"
    "terminal_state r0 = None" "in_flight_count r0 = 0" "first_error r0 = None" "completed_node_ids r0 = []"
    "coroutines r0 = []" "\<not> cancel_flag r0" "trace r0 = []" "checkpoints r0 = []" "result r0 = None"
  using assms Runner_Impl_fields unfolding booted_def Run_boot_alt by metis

lemma booted_fields:
  assumes "booted g s r"
  shows "graph_of r = g" "coroutines r = []" "in_flight_count r = 0" "first_error r = None"
    "completed_node_ids r = []" "\<not> cancel_flag r" "trace r = []" "checkpoints r = []" "result r = None"
    "terminal_state r = None" "times_fired (act r v) = 0" "\<not> in_flight (act r v)"
    "pending_inputs (act r v) = (if v \<in> set (g_entries g) then [Clone s] else [])"
  using assms
  by (auto elim!: bootedE simp: act_deliver_initials[OF wf_graph_entries(1)] InitActivations_act split: if_splits)

lemma runner_inv_booted:
  assumes "booted g s r"
  shows "runner_inv r"
proof -
  from assms obtain r0 where r0: "wf_graph g" "graph_of r0 = g" "activations r0 = []"
      "r = deliver_initials s (g_entries g) (InitActivations r0)"
    by (rule bootedE)
  have "map fst (activations (InitActivations r0)) = node_ids g"
    using InitActivations_keys[of r0] r0 by simp
  then have "map fst (activations r) = node_ids g"
    using keys_deliver_initials[of "g_entries g" "InitActivations r0" s] wf_graph_entries[OF r0(1)] r0(4) by simp
  then show ?thesis
    using booted_fields[OF assms] r0(1) by (simp add: runner_inv_def)
qed

interpretation runner_sys: invariant_system "\<lambda>r. \<exists>g s. booted g s r" "runner_step api dump inner" runner_inv
  by unfold_locales (auto intro: runner_inv_booted runner_inv_step)

lemma runner_run_sys: "runner_run api dump inner r es t \<Longrightarrow> runner_sys.run api dump inner r es t"
  by (induction rule: runner_run.induct) (auto intro: runner_sys.run.intros)

lemma runner_run_inv: "runner_run api dump inner r es t \<Longrightarrow> runner_inv r \<Longrightarrow> runner_inv t"
  by (blast intro: runner_sys.run_inv runner_run_sys)

section \<open>Executions are bracketed in the trace\<close>

lemma starts_simps [simp]:
  "starts v [] = 0" "starts v (tr @ tr') = starts v tr + starts v tr'"
  "starts v [NodeStart w] = (if v = w then 1 else 0)" "starts v [GraphDone b] = 0"
  by (simp_all add: starts_def)

lemma ends_simps [simp]:
  "ends v [] = 0" "ends v (tr @ tr') = ends v tr + ends v tr'"
  "ends v [NodeStart w] = 0" "ends v [GraphDone b] = 0"
  by (simp_all add: ends_def)

lemma starts_end_events [simp]: "starts v (end_events g w out c) = 0"
  by (auto simp: starts_def end_events_def count_list_0_iff)

lemma ends_end_events [simp]: "ends v (end_events g w out c) = (if v = w then 1 else 0)"
  by (auto simp: ends_def end_events_def filter_empty_conv)

definition spawned :: "'m runner \<Rightarrow> string set" where
  "spawned r = {v. \<exists>inp. (v, Spawned, inp) \<in> set (coroutines r)}"

lemma spawned_live: "spawned r \<subseteq> live r"
  by (force simp: spawned_def)

lemma spawned_launch: "spawned (launch v r) = insert v (spawned r)"
  by (auto simp: spawned_def)

lemma spawned_begin: "spawned (begin_node v r) = spawned r - {v}"
  by (fastforce simp: spawned_def begin_node_def image_iff split: if_splits)

lemma spawned_finish:
  assumes "distinct (map fst (coroutines r))" and "(v, Started, inp) \<in> set (coroutines r)"
  shows "v \<notin> spawned r"
    and "spawned ((finish api dump inner now v out c r)\<lparr>cancel_flag := b\<rparr>) = spawned r"
proof -
  show v: "v \<notin> spawned r"
    using assms eq_key_imp_eq_value[OF assms] by (fastforce simp: spawned_def)
  then show "spawned ((finish api dump inner now v out c r)\<lparr>cancel_flag := b\<rparr>) = spawned r"
    by (auto simp: spawned_def)
qed

definition trace_inv :: "'m runner \<Rightarrow> bool" where
  "trace_inv r \<longleftrightarrow> (\<forall>v.
     starts v (trace r) + (if v \<in> spawned r then 1 else 0) = times_fired (act r v) \<and>
     ends v (trace r) + (if v \<in> live r then 1 else 0) = times_fired (act r v))"

lemma trace_invD:
  assumes "trace_inv r"
  shows "starts w (trace r) + (if w \<in> spawned r then 1 else 0) = times_fired (act r w)"
    "ends w (trace r) + (if w \<in> live r then 1 else 0) = times_fired (act r w)"
  using assms by (simp_all add: trace_inv_def)

lemma trace_inv_step:
  "runner_step api dump inner r e r' \<Longrightarrow> runner_inv r \<Longrightarrow> trace_inv r \<Longrightarrow> trace_inv r'"
proof (induction rule: runner_step.induct)
  case (step_launch r v)
  have nl: "v \<notin> live r"
    using step_launch runner_invD(6)[OF step_launch(3)] by (auto simp: launchable_def)
  then have ns: "v \<notin> spawned r" using spawned_live by blast
  have lv: "live (launch v r) = insert v (live r)" by simp
  note old = trace_invD[OF step_launch(4)]
  show ?case
    unfolding trace_inv_def spawned_launch lv
  proof (intro allI conjI)
    fix w
    show "starts w (trace (launch v r)) + (if w \<in> insert v (spawned r) then 1 else 0) = times_fired (act (launch v r) w)"
      using old(1)[of w] ns by (cases "w = v") simp_all
    show "ends w (trace (launch v r)) + (if w \<in> insert v (live r) then 1 else 0) = times_fired (act (launch v r) w)"
      using old(2)[of w] nl by (cases "w = v") simp_all
  qed
next
  case (step_begin v inp r)
  have sp: "v \<in> spawned r" using step_begin(1) by (auto simp: spawned_def)
  note old = trace_invD[OF step_begin(3)]
  show ?case
    unfolding trace_inv_def live_begin spawned_begin
  proof (intro allI conjI)
    fix w
    show "starts w (trace (begin_node v r)) + (if w \<in> spawned r - {v} then 1 else 0) = times_fired (act (begin_node v r) w)"
      using old(1)[of w] sp by (cases "w = v") simp_all
    show "ends w (trace (begin_node v r)) + (if w \<in> live r then 1 else 0) = times_fired (act (begin_node v r) w)"
      using old(2)[of w] by simp
  qed
next
  case (step_finish v inp r c out now)
  have "v \<in> live r" using step_finish(1) by force
  note old = trace_invD[OF step_finish(4)]
  let ?r' = "(finish api dump inner now v out c r)\<lparr>cancel_flag := at_checkpoint c\<rparr>"
  have lv: "live ?r' = live r - {v}" by (simp add: live_filter del: set_filter)
  show ?case
    unfolding finish_eq trace_inv_def spawned_finish(2)[OF runner_invD(3)[OF step_finish(3)] step_finish(1)] lv
  proof (intro allI conjI)
    fix w
    show "starts w (trace ?r') + (if w \<in> spawned r then 1 else 0) = times_fired (act ?r' w)"
      using old(1)[of w] by simp
    show "ends w (trace ?r') + (if w \<in> live r - {v} then 1 else 0) = times_fired (act ?r' w)"
      using old(2)[of w] \<open>v \<in> live r\<close> by (cases "w = v") simp_all
  qed
next
  case (step_return r)
  then show ?case by (simp add: trace_inv_def spawned_def)
qed (simp add: trace_inv_def spawned_def)

lemma trace_inv_booted: "booted g s r \<Longrightarrow> trace_inv r"
  by (simp add: trace_inv_def spawned_def booted_fields)

interpretation trace_sys: invariant_system "\<lambda>r. \<exists>g s. booted g s r" "runner_step api dump inner"
    "\<lambda>r. runner_inv r \<and> trace_inv r"
  by unfold_locales (auto intro: runner_inv_booted runner_inv_step trace_inv_booted trace_inv_step)

lemma runner_run_trace_sys: "runner_run api dump inner r es t \<Longrightarrow> trace_sys.run api dump inner r es t"
  by (induction rule: runner_run.induct) (auto intro: trace_sys.run.intros)

end
