(* ===== verification/Runner_Live.thy ===== *)
theory Runner_Live
  imports Runner_Safety
begin

text \<open>
  Progress of the runner on every compiled graph: a node that is ready stays ready until it is
  launched, the runner is never stuck before it returns, the first error is the one reported, and
  after a cancellation nothing is delivered, recorded or checkpointed any more and the run
  comes to its end within a number of steps that depends on the graph only.
\<close>

section \<open>Ready nodes stay ready\<close>

lemma group_ready_deliver: "group_ready na gc \<Longrightarrow> group_ready (deliver out e na) gc"
  by (auto simp: group_ready_def deliver_def Let_def split: prod.splits condition.splits)

lemma group_ready_deliver_fold:
  "group_ready na gc \<Longrightarrow> group_ready (foldl (\<lambda>na e. deliver out e na) na es) gc"
  by (induction es arbitrary: na) (auto simp: group_ready_deliver)

lemma NodeReady_received: "NodeReady na \<Longrightarrow> NodeReady (received g v out c w na)"
  by (auto simp: NodeReady_def received_def list_all_iff group_ready_deliver_fold)

lemma pending_received:
  "pending_inputs (received g v out c w na) =
     pending_inputs na @ (if fans_out out c then replicate (length (edges_between v w (g_edges g))) (Clone (output_of out)) else [])"
  by (simp add: received_def)

lemma launchable_iff:
  "runner_inv r \<Longrightarrow> launchable r v \<longleftrightarrow>
     v \<in> set (node_ids (graph_of r)) \<and> v \<notin> live r \<and> pending_inputs (act r v) \<noteq> [] \<and> NodeReady (act r v)"
  by (simp add: launchable_def has_key_activations runner_invD(6))

lemma step_graph: "runner_step api dump inner r e r' \<Longrightarrow> graph_of r' = graph_of r"
  by (induction rule: runner_step.induct) (simp_all add: finish_eq)

lemma launchable_stable:
  assumes "runner_step api dump inner r e r'" and "runner_inv r" and "launchable r v" and "e \<noteq> ELaunch v"
  shows "launchable r' v"
proof -
  have inv': "runner_inv r'" using assms by (blast intro: runner_inv_step)
  have v: "v \<in> set (node_ids (graph_of r))" "v \<notin> live r" "pending_inputs (act r v) \<noteq> []" "NodeReady (act r v)"
    using assms(3) launchable_iff[OF assms(2)] by auto
  from assms(1,4) have "v \<notin> live r' \<and> pending_inputs (act r' v) \<noteq> [] \<and> NodeReady (act r' v)"
  proof (cases rule: runner_step.cases)
    case (step_launch w)
    with assms(4) v show ?thesis by auto
  next
    case (step_begin w inp)
    then have "live r' = live r" "act r' v = act r v" by (simp_all add: live_begin del: set_map)
    with v show ?thesis by simp
  next
    case (step_finish w inp c out now)
    have "w \<in> live r" using step_finish(3) by force
    then have "w \<noteq> v" using v(2) by blast
    then have "act r' v = received (graph_of r) w out c v (act r v)" "live r' \<subseteq> live r"
      using step_finish(2) by (auto simp: finish_eq)
    with v show ?thesis by (auto simp: NodeReady_received pending_received)
  qed (use v in auto)
  then show ?thesis
    using v(1) step_graph[OF assms(1)] by (simp add: launchable_iff[OF inv'])
qed

section \<open>The runner is never stuck\<close>

lemma runner_progress:
  assumes inv: "runner_inv r" and "result r = None"
  shows "\<exists>e r'. e \<noteq> ECancel \<and> runner_step api dump inner r e r'"
proof (cases "coroutines r")
  case Nil
  show ?thesis
  proof (cases "next_nodes r")
    case Nil
    then have "loop_exits r"
      using runner_invD(5)[OF inv] \<open>coroutines r = []\<close> by (simp add: loop_exits_def)
    then show ?thesis using step_return[of r api dump inner] assms(2) by blast
  next
    case (Cons v vs)
    then have "launchable r v" by (auto simp: next_nodes_def filter_eq_Cons_iff)
    then show ?thesis using step_launch[of r v api dump inner] assms(2) by blast
  qed
next
  case (Cons t ts)
  obtain v ph inp where t: "t = (v, ph, inp)" by (cases t) auto
  let ?c = "\<lparr>at_end = True, at_track = True, at_fanout = True, at_checkpoint = True\<rparr>"
  show ?thesis
  proof (cases ph)
    case Spawned
    with Cons t have "(v, Spawned, inp) \<in> set (coroutines r)" by simp
    then show ?thesis using step_begin by blast
  next
    case Started
    with Cons t have "(v, Started, inp) \<in> set (coroutines r)" by simp
    moreover have "reads_from (cancel_flag r) ?c" by (simp add: reads_from_def)
    ultimately show ?thesis using step_finish by blast
  qed
qed

section \<open>Errors\<close>

fun finish_error_of :: "'m runner_event \<Rightarrow> exn option" where
  "finish_error_of (EFinish v (Threw e) c now) = Some e"
| "finish_error_of _ = None"

definition thrown :: "'m runner_event list \<Rightarrow> exn list" where
  "thrown es = List.map_filter finish_error_of es"

lemma thrown_snoc: "thrown (es @ [e]) = thrown es @ (case finish_error_of e of None \<Rightarrow> [] | Some x \<Rightarrow> [x])"
  by (simp add: thrown_def List.map_filter_def split: option.splits)

lemma first_error_step:
  "runner_step api dump inner r e r' \<Longrightarrow>
     first_error r' = (case first_error r of Some x \<Rightarrow> Some x | None \<Rightarrow> finish_error_of e)"
proof (induction rule: runner_step.induct)
  case (step_finish v inp r c out now)
  then show ?case by (cases out) (auto simp: finish_eq first_of_def split: option.splits)
qed (auto split: option.splits)

lemma first_error_run:
  "runner_run api dump inner r es t \<Longrightarrow>
     first_error t = (case first_error r of Some x \<Rightarrow> Some x | None \<Rightarrow> (case thrown es of [] \<Rightarrow> None | x # _ \<Rightarrow> Some x))"
proof (induction rule: runner_run.induct)
  case (run_refl r)
  then show ?case by (simp add: thrown_def List.map_filter_def split: option.splits)
next
  case (run_step r es s e t)
  then show ?case
    by (auto simp: first_error_step[OF run_step.hyps(2)] thrown_snoc split: option.splits list.splits)
qed

definition returns :: "'m runner \<Rightarrow> 'm gstate exn_or" where
  "returns r = (case first_error r of Some e \<Rightarrow> Inl e
     | None \<Rightarrow> Inr (case terminal_state r of Some s \<Rightarrow> s | None \<Rightarrow> State))"

lemma result_step:
  assumes "runner_step api dump inner r e r'" and "runner_inv r"
    and "result r = None \<or> result r = Some (returns r)"
  shows "result r' = None \<or> result r' = Some (returns r')"
  using assms(1)
proof (cases rule: runner_step.cases)
  case (step_begin v inp)
  then have "result r = None" using runner_invD(7)[OF assms(2)] by fastforce
  with step_begin show ?thesis by simp
next
  case (step_finish v inp c out now)
  then have "result r = None" using runner_invD(7)[OF assms(2)] by fastforce
  with step_finish show ?thesis by (simp add: finish_eq)
qed (use assms(3) in \<open>auto simp: returns_def split: option.splits\<close>)

lemma result_run:
  "runner_run api dump inner r es t \<Longrightarrow> runner_inv r \<Longrightarrow> result r = None \<Longrightarrow>
     result t = None \<or> result t = Some (returns t)"
proof (induction rule: runner_run.induct)
  case (run_step r es s e t)
  then show ?case
    using result_step[OF run_step.hyps(2) runner_run_inv[OF run_step.hyps(1)]] by blast
qed simp

section \<open>Cancellation\<close>

fun is_edge_fire :: "trace_event \<Rightarrow> bool" where
  "is_edge_fire (EdgeFire _ _ _) = True"
| "is_edge_fire _ = False"

text \<open>What the outside sees of the outputs of nodes.\<close>

definition outputs_seen :: "'m runner \<Rightarrow> string list \<times> checkpoint list \<times> 'm gstate option \<times> trace_event list" where
  "outputs_seen r = (completed_node_ids r, checkpoints r, terminal_state r, filter is_edge_fire (trace r))"

lemma reads_cancelled: "reads_from True c \<Longrightarrow> at_end c \<and> at_track c \<and> at_fanout c \<and> at_checkpoint c"
  by (simp add: reads_from_def)

lemma finish_checkpoints:
  "checkpoints (finish api dump inner now v out c r) =
     (if \<not> failed out \<and> \<not> (if inner then at_fanout c else at_checkpoint c)
      then checkpoints (MaybeWriteCheckpoint api dump now (output_of out) (\<not> has_outgoing (graph_of r) v)
                         (r\<lparr>completed_node_ids := completed_node_ids r @ (if tracked out c then [v] else [])\<rparr>))
      else checkpoints r)"
  by (simp add: finish_defs MaybeWriteCheckpoint_def tracked_def)

lemma cancelled_finish:
  assumes "reads_from True c"
  shows "outputs_seen ((finish api dump inner now v out c r)\<lparr>cancel_flag := b\<rparr>) = outputs_seen r"
    and "received g v out c w na = na"
  using reads_cancelled[OF assms]
  by (auto simp: outputs_seen_def tracked_def fans_out_def received_def end_events_def finish_checkpoints)

lemma cancelled_step:
  "runner_step api dump inner r e r' \<Longrightarrow> cancel_flag r \<Longrightarrow> cancel_flag r' \<and> outputs_seen r' = outputs_seen r"
proof (induction rule: runner_step.induct)
  case (step_finish v inp r c out now)
  then have "reads_from True c" by simp
  then show ?case unfolding finish_eq cancelled_finish(1)[OF \<open>reads_from True c\<close>] by (simp add: reads_cancelled)
qed (auto simp: outputs_seen_def)

lemma cancelled_run:
  "runner_run api dump inner r es t \<Longrightarrow> cancel_flag r \<Longrightarrow> cancel_flag t \<and> outputs_seen t = outputs_seen r"
  by (induction rule: runner_run.induct) (simp_all add: cancelled_step)

section \<open>The rank of a state\<close>

text \<open>
  A launch moves a node from its \<open>work\<close> (3 units) to a spawned coroutine (2), a begin to a started
  one (1), the end of the node to none, and the return of the runner uses the last unit.
\<close>

definition phase_weight :: "'m runner \<Rightarrow> string \<Rightarrow> nat" where
  "phase_weight r v = (if v \<in> spawned r then 2 else if v \<in> live r then 1 else 0)"

definition node_rank :: "('m node_activation \<Rightarrow> bool) \<Rightarrow> 'm runner \<Rightarrow> string \<Rightarrow> nat" where
  "node_rank work r v = (if work (act r v) then 3 else 0) + phase_weight r v"

definition rank_of :: "('m node_activation \<Rightarrow> bool) \<Rightarrow> 'm runner \<Rightarrow> nat" where
  "rank_of work r = (\<Sum>v\<leftarrow>node_ids (graph_of r). node_rank work r v) + (if result r = None then 1 else 0)"

lemma node_rank_le: "node_rank work r v \<le> 5"
  by (simp add: node_rank_def phase_weight_def)

lemma sum_list_le_const: "(\<And>x. x \<in> set xs \<Longrightarrow> f x \<le> (k::nat)) \<Longrightarrow> (\<Sum>x\<leftarrow>xs. f x) \<le> k * length xs"
  by (induction xs) (auto simp: add_le_mono)

lemma rank_of_le: "rank_of work r \<le> 5 * length (g_nodes (graph_of r)) + 1"
  using sum_list_le_const[of "node_ids (graph_of r)" "node_rank work r" 5] node_rank_le
  by (auto simp: rank_of_def node_ids_def)

text \<open>A step of the runner that leaves other nodes' work alone and moves its own node forward.\<close>

lemma rank_of_decr:
  assumes "runner_inv r" and "graph_of r' = graph_of r" and "result r' = result r"
    and "v \<in> set (node_ids (graph_of r))"
    and "\<And>w. w \<noteq> v \<Longrightarrow> node_rank work r' w \<le> node_rank work r w"
    and "node_rank work r' v < node_rank work r v"
  shows "rank_of work r' < rank_of work r"
proof -
  have "distinct (node_ids (graph_of r))"
    using runner_invD(1)[OF assms(1)] by (simp add: wf_graph_def node_ids_def)
  then have "(\<Sum>v\<leftarrow>node_ids (graph_of r). node_rank work r' v) < (\<Sum>v\<leftarrow>node_ids (graph_of r). node_rank work r v)"
    using assms(4-6) by (intro sum_list_map_decr) auto
  then show ?thesis using assms(2,3) by (simp add: rank_of_def)
qed

lemma rank_of_launch:
  assumes inv: "runner_inv r" and l: "launchable r v" and "work (act r v)"
    and "\<And>b. \<not> work (fire_activation b (act r v))"
  shows "rank_of work (launch v r) < rank_of work r"
proof (rule rank_of_decr[OF inv])
  show v: "v \<in> set (node_ids (graph_of r))" using l launchable_iff[OF inv] by simp
  have nl: "v \<notin> live r" using l launchable_iff[OF inv] by simp
  have sets: "spawned (launch v r) = insert v (spawned r)" "live (launch v r) = insert v (live r)"
    by (simp_all add: spawned_launch)
  show "node_rank work (launch v r) w \<le> node_rank work r w" if "w \<noteq> v" for w
    unfolding node_rank_def phase_weight_def sets using that by simp
  show "node_rank work (launch v r) v < node_rank work r v"
    unfolding node_rank_def phase_weight_def sets using assms(3,4) by simp
qed simp_all

lemma rank_of_begin:
  assumes inv: "runner_inv r" and sp: "(v, Spawned, inp) \<in> set (coroutines r)"
  shows "rank_of work (begin_node v r) < rank_of work r"
proof (rule rank_of_decr[OF inv])
  have v: "v \<in> live r" "v \<in> spawned r" using sp by (force simp: spawned_def)+
  show "v \<in> set (node_ids (graph_of r))" using v runner_invD(4)[OF inv] by blast
  show "node_rank work (begin_node v r) w \<le> node_rank work r w" if "w \<noteq> v" for w
    unfolding node_rank_def phase_weight_def spawned_begin live_begin using that by simp
  show "node_rank work (begin_node v r) v < node_rank work r v"
    unfolding node_rank_def phase_weight_def spawned_begin live_begin using v by simp
qed simp_all

lemma rank_of_finish:
  assumes inv: "runner_inv r" and st: "(v, Started, inp) \<in> set (coroutines r)"
    and "\<And>w. work (act (finish api dump inner now v out c r) w) \<Longrightarrow> work (act r w)"
  shows "rank_of work ((finish api dump inner now v out c r)\<lparr>cancel_flag := b\<rparr>) < rank_of work r"
proof (rule rank_of_decr[OF inv])
  let ?f = "finish api dump inner now v out c r" let ?r' = "?f\<lparr>cancel_flag := b\<rparr>"
  have v: "v \<in> live r" using st by force
  note sp = spawned_finish[OF runner_invD(3)[OF inv] st]
  have lv: "live ?r' = live r - {v}" by (simp add: live_filter del: set_filter)
  have work: "work (act ?r' w) \<Longrightarrow> work (act r w)" for w
    using assms(3)[of w] by (simp del: finish_act)
  show "v \<in> set (node_ids (graph_of r))" using v runner_invD(4)[OF inv] by blast
  show "node_rank work ?r' w \<le> node_rank work r w" if "w \<noteq> v" for w
    unfolding node_rank_def phase_weight_def sp(2) lv using that work[of w] by simp
  show "node_rank work ?r' v < node_rank work r v"
    unfolding node_rank_def phase_weight_def sp(2) lv using sp(1) v work[of v] by simp
qed simp_all

lemma rank_of_return: "result r = None \<Longrightarrow> rank_of work (Run_return r) < rank_of work r"
  by (simp add: rank_of_def node_rank_def[abs_def] phase_weight_def spawned_def cong: if_cong)

lemma rank_of_cancel: "rank_of work (r\<lparr>cancel_flag := b\<rparr>) = rank_of work r"
  by (simp add: rank_of_def node_rank_def[abs_def] phase_weight_def spawned_def cong: if_cong)

section \<open>A cancelled run comes to its end\<close>

definition has_input :: "'m node_activation \<Rightarrow> bool" where
  "has_input na \<longleftrightarrow> pending_inputs na \<noteq> []"

lemma cancelled_rank_step:
  assumes "runner_step api dump inner r e r'" and inv: "runner_inv r" and "cancel_flag r" and "e \<noteq> ECancel"
  shows "rank_of has_input r' < rank_of has_input r"
  using assms(1)
proof (cases rule: runner_step.cases)
  case (step_launch v)
  then show ?thesis
    using rank_of_launch[OF inv, of v has_input] launchable_iff[OF inv] by (simp add: has_input_def)
next
  case (step_begin v inp)
  then show ?thesis using rank_of_begin[OF inv] by blast
next
  case (step_finish v inp c out now)
  then have "reads_from True c" using assms(3) by simp
  note keep = cancelled_finish(2)[OF this]
  show ?thesis
    unfolding step_finish(2) finish_eq
    by (rule rank_of_finish[OF inv step_finish(3)]) (simp add: keep has_input_def split: if_splits)
next
  case step_return
  then show ?thesis using rank_of_return by blast
qed (use assms(4) in simp)

interpretation cancelled_sys: ranked_system "\<lambda>r. \<exists>r0. runner_inv r0 \<and> r = r0\<lparr>cancel_flag := True\<rparr>"
    "runner_step api dump inner" "\<lambda>r. runner_inv r \<and> cancel_flag r" "rank_of has_input" "\<lambda>e. e = ECancel"
proof unfold_locales
  fix r r' :: "'a runner" and e
  show "\<exists>r0. runner_inv r0 \<and> r = r0\<lparr>cancel_flag := True\<rparr> \<Longrightarrow> runner_inv r \<and> cancel_flag r"
    by (elim exE conjE) (simp add: runner_inv_def)
  assume a: "runner_inv r \<and> cancel_flag r" "runner_step api dump inner r e r'"
  then show "runner_inv r' \<and> cancel_flag r'"
    using runner_inv_step cancelled_step by blast
  show "rank_of has_input r' < rank_of has_input r" if "e \<noteq> ECancel"
    using cancelled_rank_step[OF a(2)] a(1) that by blast
  show "rank_of has_input r' \<le> rank_of has_input r" if "e = ECancel"
    using a(2) that by (auto elim: runner_step.cases simp: rank_of_cancel)
qed

lemma runner_run_cancelled_sys: "runner_run api dump inner r es t \<Longrightarrow> cancelled_sys.run api dump inner r es t"
  by (induction rule: runner_run.induct) (auto intro: cancelled_sys.run.intros)

lemma cancelled_run_bounded:
  assumes "runner_run api dump inner r es t" and "runner_inv r" and "cancel_flag r"
  shows "length (filter (\<lambda>e. e \<noteq> ECancel) es) \<le> 5 * length (g_nodes (graph_of r)) + 1"
  using cancelled_sys.run_bounded[OF runner_run_cancelled_sys[OF assms(1)]] assms(2,3)
    rank_of_le[of has_input r] by fastforce

end
