(* ===== verification/Runner_Dag.thy ===== *)
theory Runner_Dag
  imports Runner_Live
begin

text \<open>
  The runner on graphs whose edges are plain joins, that is activation group 0 with condition ALL,
  as every workflow of the loader produces. With \<open>F\<close> the nodes whose output has been fanned out,
  \<open>dag_inv F\<close> ties each activation's counter and inbox to the incoming edges whose source is in
  \<open>F\<close>. From it: a node fires at most once, only after all its predecessors have completed, a run
  ends within three steps per node, and on an acyclic graph a run without error and cancellation
  completes every node exactly once and returns a terminal node's output.
\<close>

section \<open>Joins\<close>

definition all_joins :: "graph \<Rightarrow> bool" where
  "all_joins g \<longleftrightarrow> (\<forall>e\<in>set (g_edges g). edge_group e = 0 \<and> edge_cond e = CondAll)"

definition in_edges :: "graph \<Rightarrow> string \<Rightarrow> edge list" where
  "in_edges g v = filter (\<lambda>e. edge_to e = v) (g_edges g)"

definition edge_rel :: "graph \<Rightarrow> (string \<times> string) set" where
  "edge_rel g = (\<lambda>e. (edge_from e, edge_to e)) ` set (g_edges g)"

definition node_ok :: "graph \<Rightarrow> string set \<Rightarrow> string \<Rightarrow> 'm node_activation \<Rightarrow> bool" where
  "node_ok g F v na \<longleftrightarrow>
     conditions na = (if in_edges g v = [] then [] else [(0, CondAll)]) \<and>
     (if times_fired na = 0
      then alist_get 0 (remaining_all na) 0 = int (length (filter (\<lambda>e. edge_from e \<notin> F) (in_edges g v))) \<and>
           length (pending_inputs na) =
             (if in_edges g v = [] then 1 else length (filter (\<lambda>e. edge_from e \<in> F) (in_edges g v)))
      else times_fired na = 1 \<and> pending_inputs na = [] \<and> (\<forall>e\<in>set (in_edges g v). edge_from e \<in> F))"

definition dag_inv :: "string set \<Rightarrow> 'm runner \<Rightarrow> bool" where
  "dag_inv F r \<longleftrightarrow>
     runner_inv r \<and> all_joins (graph_of r) \<and>
     F \<subseteq> set (completed_node_ids r) \<and> distinct (completed_node_ids r) \<and>
     set (completed_node_ids r) \<subseteq> set (node_ids (graph_of r)) \<and>
     (\<forall>v\<in>set (completed_node_ids r). times_fired (act r v) = 1 \<and> v \<notin> live r) \<and>
     (\<forall>v\<in>live r. times_fired (act r v) = 1) \<and>
     (\<forall>v\<in>set (node_ids (graph_of r)). node_ok (graph_of r) F v (act r v)) \<and>
     (first_error r = None \<and> \<not> cancel_flag r \<longrightarrow>
        (\<forall>v\<in>set (node_ids (graph_of r)). times_fired (act r v) = 1 \<and> v \<notin> live r \<longrightarrow> v \<in> F))"

lemma dag_invD:
  assumes "dag_inv F r"
  shows "runner_inv r" "all_joins (graph_of r)" "F \<subseteq> set (completed_node_ids r)"
    "distinct (completed_node_ids r)" "set (completed_node_ids r) \<subseteq> set (node_ids (graph_of r))"
    "v \<in> set (completed_node_ids r) \<Longrightarrow> times_fired (act r v) = 1"
    "v \<in> set (completed_node_ids r) \<Longrightarrow> v \<notin> live r"
    "v \<in> live r \<Longrightarrow> times_fired (act r v) = 1"
    "v \<in> set (node_ids (graph_of r)) \<Longrightarrow> node_ok (graph_of r) F v (act r v)"
    "first_error r = None \<Longrightarrow> \<not> cancel_flag r \<Longrightarrow> v \<in> set (node_ids (graph_of r)) \<Longrightarrow>
       times_fired (act r v) = 1 \<Longrightarrow> v \<notin> live r \<Longrightarrow> v \<in> F"
  using assms unfolding dag_inv_def by blast+

lemma node_ok_in_flight [simp]: "node_ok g F v (na\<lparr>in_flight := b\<rparr>) = node_ok g F v na"
  by (simp add: node_ok_def)

lemma node_ok_fires_once: "node_ok g F v na \<Longrightarrow> times_fired na \<le> 1"
  by (auto simp: node_ok_def split: if_splits)

lemma node_ok_launchable:
  assumes "node_ok g F v na" and "pending_inputs na \<noteq> []" and "NodeReady na"
  shows "times_fired na = 0" and "\<forall>e\<in>set (in_edges g v). edge_from e \<in> F"
proof -
  show 0: "times_fired na = 0" using assms(1,2) by (auto simp: node_ok_def split: if_splits)
  show "\<forall>e\<in>set (in_edges g v). edge_from e \<in> F"
  proof (cases "in_edges g v")
    case (Cons e es)
    then have "alist_get 0 (remaining_all na) 0 \<le> 0"
      using assms(1,3) by (simp add: node_ok_def NodeReady_def group_ready_def)
    then have "filter (\<lambda>e. edge_from e \<notin> F) (in_edges g v) = []"
      using assms(1) 0 by (auto simp: node_ok_def)
    then show ?thesis by (simp add: filter_empty_conv)
  qed simp
qed

lemma node_ok_ready:
  assumes "node_ok g F v na" and "times_fired na = 0" and "\<forall>e\<in>set (in_edges g v). edge_from e \<in> F"
  shows "pending_inputs na \<noteq> []" and "NodeReady na"
proof -
  have "filter (\<lambda>e. edge_from e \<notin> F) (in_edges g v) = []" "filter (\<lambda>e. edge_from e \<in> F) (in_edges g v) = in_edges g v"
    using assms(3) by (auto simp: filter_empty_conv)
  with assms(1,2) show "pending_inputs na \<noteq> []" and "NodeReady na"
    by (auto simp: node_ok_def NodeReady_def group_ready_def split: if_splits)
qed

lemma node_ok_fire:
  assumes "node_ok g F v na" and "pending_inputs na \<noteq> []" and "NodeReady na"
  shows "node_ok g F v (fire_activation b na)"
  using node_ok_launchable[OF assms] assms(1) by (simp add: node_ok_def)

lemma deliver_fold_remaining:
  "\<forall>e\<in>set es. edge_group e = 0 \<and> edge_cond e = CondAll \<Longrightarrow>
     alist_get 0 (remaining_all (foldl (\<lambda>na e. deliver out e na) na es)) 0 =
       alist_get 0 (remaining_all na) 0 - int (length es)"
  by (induction es arbitrary: na) (simp_all add: deliver_def Let_def)

lemma edges_between_in: "edges_between v w (g_edges g) = filter (\<lambda>e. edge_from e = v) (in_edges g w)"
  by (simp add: edges_between_def in_edges_def conj_commute)

lemma length_filter_insert:
  "v \<notin> F \<Longrightarrow> length (filter (\<lambda>e. f e \<in> insert v F) es) =
     length (filter (\<lambda>e. f e \<in> F) es) + length (filter (\<lambda>e. f e = v) es)"
  "v \<notin> F \<Longrightarrow> length (filter (\<lambda>e. f e \<notin> F) es) =
     length (filter (\<lambda>e. f e \<notin> insert v F) es) + length (filter (\<lambda>e. f e = v) es)"
  by (induction es) auto

lemma node_ok_received:
  assumes ok: "node_ok g F w na" and joins: "all_joins g" and v: "v \<notin> F" and fan: "fans_out out c"
  shows "node_ok g (insert v F) w (received g v out c w na)"
proof (cases "times_fired na = 0")
  case True
  let ?k = "length (filter (\<lambda>e. edge_from e = v) (in_edges g w))"
  have "\<forall>e\<in>set (edges_between v w (g_edges g)). edge_group e = 0 \<and> edge_cond e = CondAll"
    using joins by (auto simp: all_joins_def edges_between_def)
  from deliver_fold_remaining[OF this, of "output_of out" na]
  have "alist_get 0 (remaining_all (received g v out c w na)) 0 = alist_get 0 (remaining_all na) 0 - int ?k"
    using fan by (simp add: received_def edges_between_in)
  moreover have "length (pending_inputs (received g v out c w na)) = length (pending_inputs na) + ?k"
    using fan by (simp add: pending_received edges_between_in)
  ultimately show ?thesis
    using ok True length_filter_insert[OF v, of edge_from "in_edges g w"]
    by (auto simp: node_ok_def simp del: insert_iff)
next
  case False
  with ok have from_F: "\<forall>e\<in>set (in_edges g w). edge_from e \<in> F" by (simp add: node_ok_def)
  then have "edges_between v w (g_edges g) = []"
    using v by (auto simp: edges_between_in filter_empty_conv)
  then have "received g v out c w na = na" by (simp add: received_def)
  with ok False from_F show ?thesis by (simp add: node_ok_def)
qed

section \<open>Every step keeps the invariant\<close>

lemma dag_inv_launch:
  assumes inv: "dag_inv F r" and "result r = None" and l: "launchable r v"
  shows "dag_inv F (launch v r)"
proof -
  note D = dag_invD[OF inv]
  have v: "v \<in> set (node_ids (graph_of r))" "v \<notin> live r" "pending_inputs (act r v) \<noteq> []" "NodeReady (act r v)"
    using l launchable_iff[OF D(1)] by auto
  note fired = node_ok_launchable(1)[OF D(9)[OF v(1)] v(3,4)]
  have "v \<notin> set (completed_node_ids r)" using D(6)[of v] fired by auto
  moreover have "node_ok (graph_of r) F w (act (launch v r) w)" if "w \<in> set (node_ids (graph_of r))" for w
    using node_ok_fire[OF D(9)[OF v(1)] v(3,4)] D(9)[OF that] by simp
  moreover have "live (launch v r) = insert v (live r)" by simp
  ultimately show ?thesis
    unfolding dag_inv_def using D runner_inv_launch[OF D(1) assms(2) l] fired by auto
qed

lemma dag_inv_begin: "dag_inv F r \<Longrightarrow> dag_inv F (begin_node v r)"
  unfolding dag_inv_def live_begin by (simp add: runner_inv_begin)

definition fanned :: "'m outcome \<Rightarrow> cancel_reads \<Rightarrow> string \<Rightarrow> string set \<Rightarrow> string set" where
  "fanned out c v F = (if fans_out out c then insert v F else F)"

lemma dag_inv_finish:
  assumes inv: "dag_inv F r" and st: "(v, Started, inp) \<in> set (coroutines r)" and c: "reads_from (cancel_flag r) c"
  shows "dag_inv (fanned out c v F) ((finish api dump inner now v out c r)\<lparr>cancel_flag := at_checkpoint c\<rparr>)"
    (is "dag_inv ?F ?r'")
proof -
  note D = dag_invD[OF inv]
  have v: "v \<in> live r" using st by force
  then have vn: "v \<in> set (node_ids (graph_of r))" using runner_invD(4)[OF D(1)] by blast
  have vc: "v \<notin> set (completed_node_ids r)" using D(7) v by blast
  then have vF: "v \<notin> F" using D(3) by blast
  have lv: "live ?r' = live r - {v}" by (simp add: live_filter del: set_filter)
  have track: "fans_out out c \<Longrightarrow> tracked out c"
    using c by (auto simp: fans_out_def tracked_def reads_from_def)
  have act: "times_fired (act ?r' w) = times_fired (act r w)" for w by simp
  have ok: "node_ok (graph_of r) ?F w (act ?r' w)" if "w \<in> set (node_ids (graph_of r))" for w
    using node_ok_received[OF D(9)[OF that] D(2) vF] D(9)[OF that]
    by (auto simp: fanned_def received_def)
  have all_F: "w \<in> ?F"
    if "first_error ?r' = None" "\<not> cancel_flag ?r'" "w \<in> set (node_ids (graph_of r))" "times_fired (act r w) = 1"
      "w \<notin> live r - {v}" for w
  proof -
    have "first_error r = None" "\<not> failed out"
      using that(1) by (auto simp: first_of_def failed_def split: outcome.splits option.splits)
    moreover have "\<not> cancel_flag r" "\<not> at_fanout c"
      using that(2) c by (auto simp: reads_from_def)
    ultimately show ?thesis
      using D(10)[of w] that by (auto simp: fanned_def fans_out_def)
  qed
  show ?thesis
    unfolding dag_inv_def lv act
    using D runner_inv_finish[OF D(1) v] vn vc vF track ok all_F v
    by (auto simp: fanned_def)
qed

lemma dag_inv_step:
  assumes "runner_step api dump inner r e r'" and "dag_inv F r"
  shows "\<exists>F'. F \<subseteq> F' \<and> dag_inv F' r'"
  using assms(1)
proof (cases rule: runner_step.cases)
  case (step_finish v inp c out now)
  have "F \<subseteq> fanned out c v F" by (auto simp: fanned_def)
  then show ?thesis
    using dag_inv_finish[OF assms(2) step_finish(3,4)] step_finish(2) by (auto simp: finish_eq)
next
  case step_cancel
  then have "dag_inv F r'"
    using assms(2) runner_inv_step[OF assms(1)] by (simp add: dag_inv_def)
  then show ?thesis by blast
next
  case step_return
  then have "dag_inv F r'"
    using assms(2) runner_inv_step[OF assms(1)] by (simp add: dag_inv_def)
  then show ?thesis by blast
qed (use assms(2) dag_inv_launch dag_inv_begin in blast)+

section \<open>The boot satisfies it\<close>

lemma count_edge_fold_joins:
  assumes "\<forall>e\<in>set es. edge_group e = 0 \<and> edge_cond e = CondAll"
  shows "conditions (foldl (\<lambda>na e. count_edge e na) new_activation es) = (if es = [] then [] else [(0, CondAll)]) \<and>
         alist_get 0 (remaining_all (foldl (\<lambda>na e. count_edge e na) new_activation es)) 0 = int (length es)"
  using assms
proof (induction es rule: rev_induct)
  case Nil
  then show ?case by (simp add: alist_get_def)
next
  case (snoc e es)
  then show ?case by (cases "es = []") (simp_all add: count_edge_def has_key_def alist_get_def)
qed

lemma entry_iff:
  assumes "wf_graph g" and "all_joins g"
  shows "v \<in> set (g_entries g) \<longleftrightarrow> v \<in> set (node_ids g) \<and> in_edges g v = []"
proof -
  have "filter (\<lambda>e. edge_group e = 0) (g_edges g) = g_edges g"
    using assms(2) by (simp add: all_joins_def)
  then show ?thesis
    using assms(1)
    by (simp add: wf_graph_def entry_nodes_def node_ids_def in_edges_def filter_empty_conv image_iff) metis
qed

lemma node_ok_init:
  assumes "wf_graph (graph_of r)" and "all_joins (graph_of r)" and "activations r = []"
  shows "conditions (act (InitActivations r) v) = (if in_edges (graph_of r) v = [] then [] else [(0, CondAll)])"
    and "alist_get 0 (remaining_all (act (InitActivations r) v)) 0 = int (length (in_edges (graph_of r) v))"
proof -
  have h: "\<forall>e\<in>set (in_edges (graph_of r) v). edge_group e = 0 \<and> edge_cond e = CondAll"
    using assms(2) by (auto simp: all_joins_def in_edges_def)
  have a: "act (InitActivations r) v = foldl (\<lambda>na e. count_edge e na) new_activation (in_edges (graph_of r) v)"
    using InitActivations_act[OF assms(1,3)] by (simp add: in_edges_def)
  show "conditions (act (InitActivations r) v) = (if in_edges (graph_of r) v = [] then [] else [(0, CondAll)])"
    and "alist_get 0 (remaining_all (act (InitActivations r) v)) 0 = int (length (in_edges (graph_of r) v))"
    unfolding a by (simp_all add: count_edge_fold_joins[OF h])
qed

lemma dag_inv_booted:
  assumes b: "booted g s r" and joins: "all_joins g"
  shows "dag_inv {} r"
proof -
  from b obtain r0 where r0: "wf_graph g" "graph_of r0 = g" "activations r0 = []"
      "r = deliver_initials s (g_entries g) (InitActivations r0)"
    by (rule bootedE)
  have "node_ok g {} v (act r v)" if v: "v \<in> set (node_ids g)" for v
  proof -
    have "conditions (act r v) = conditions (act (InitActivations r0) v)"
      "remaining_all (act r v) = remaining_all (act (InitActivations r0) v)"
      using r0(4) by (simp_all add: act_deliver_initials[OF wf_graph_entries(1)[OF r0(1)]])
    moreover have "v \<in> set (g_entries g) \<longleftrightarrow> in_edges g v = []"
      using entry_iff[OF r0(1) joins] v by simp
    ultimately show ?thesis
      using node_ok_init[of r0 v] r0(1-3) joins booted_fields[OF b] by (simp add: node_ok_def)
  qed
  then show ?thesis
    unfolding dag_inv_def using runner_inv_booted[OF b] booted_fields[OF b] joins by simp
qed

section \<open>Termination\<close>

definition unfired :: "'m node_activation \<Rightarrow> bool" where
  "unfired na \<longleftrightarrow> times_fired na = 0"

lemma dag_rank_step:
  assumes "runner_step api dump inner r e r'" and inv: "dag_inv F r" and "e \<noteq> ECancel"
  shows "rank_of unfired r' < rank_of unfired r"
  using assms(1)
proof (cases rule: runner_step.cases)
  case (step_launch v)
  then have "v \<in> set (node_ids (graph_of r))" "pending_inputs (act r v) \<noteq> []" "NodeReady (act r v)"
    using launchable_iff[OF dag_invD(1)[OF inv]] by auto
  then have "times_fired (act r v) = 0"
    using node_ok_launchable(1)[OF dag_invD(9)[OF inv]] by blast
  then show ?thesis
    using rank_of_launch[OF dag_invD(1)[OF inv], of v unfired] step_launch by (simp add: unfired_def)
next
  case (step_begin v inp)
  then show ?thesis using rank_of_begin[OF dag_invD(1)[OF inv]] by blast
next
  case (step_finish v inp c out now)
  show ?thesis
    unfolding step_finish(2) finish_eq
    by (rule rank_of_finish[OF dag_invD(1)[OF inv] step_finish(3)]) (simp add: unfired_def split: if_splits)
next
  case step_return
  then show ?thesis using rank_of_return by blast
qed (use assms(3) in simp)

interpretation dag_sys: ranked_system "\<lambda>r. \<exists>g s. booted g s r \<and> all_joins g"
    "runner_step api dump inner" "\<lambda>r. \<exists>F. dag_inv F r" "rank_of unfired" "\<lambda>e. e = ECancel"
proof unfold_locales
  fix r r' :: "'a runner" and e
  show "\<exists>g s. booted g s r \<and> all_joins g \<Longrightarrow> \<exists>F. dag_inv F r"
    using dag_inv_booted by blast
  assume a: "\<exists>F. dag_inv F r" "runner_step api dump inner r e r'"
  then show "\<exists>F. dag_inv F r'" using dag_inv_step by blast
  show "rank_of unfired r' < rank_of unfired r" if "e \<noteq> ECancel"
    using dag_rank_step[OF a(2)] a(1) that by blast
  show "rank_of unfired r' \<le> rank_of unfired r" if "e = ECancel"
    using a(2) that by (auto elim: runner_step.cases simp: rank_of_cancel)
qed

lemma runner_run_dag_sys: "runner_run api dump inner r es t \<Longrightarrow> dag_sys.run api dump inner r es t"
  by (induction rule: runner_run.induct) (auto intro: dag_sys.run.intros)

lemma dag_run_inv:
  "booted g s r \<Longrightarrow> all_joins g \<Longrightarrow> runner_run api dump inner r es t \<Longrightarrow> \<exists>F. dag_inv F t"
  by (rule dag_sys.run_from_init) (auto intro: runner_run_dag_sys)

lemma runner_run_graph: "runner_run api dump inner r es t \<Longrightarrow> graph_of t = graph_of r"
  by (induction rule: runner_run.induct) (auto dest: step_graph)

lemma rank_of_booted: "booted g s r \<Longrightarrow> rank_of unfired r = 3 * length (g_nodes g) + 1"
  by (simp add: rank_of_def node_rank_def[abs_def] phase_weight_def spawned_def booted_fields unfired_def
      node_ids_def sum_list_triv comp_def)

lemma dag_run_bounded:
  assumes "booted g s r" and "all_joins g" and "runner_run api dump inner r es t"
  shows "length (filter (\<lambda>e. e \<noteq> ECancel) es) + rank_of unfired t \<le> 3 * length (g_nodes g) + 1"
  using dag_sys.run_bounded[OF runner_run_dag_sys[OF assms(3)]] dag_inv_booted[OF assms(1,2)]
    rank_of_booted[OF assms(1)] by metis

section \<open>Completeness on acyclic graphs\<close>

lemma finite_edge_rel: "finite (edge_rel g)"
  by (simp add: edge_rel_def)

lemma dag_exit_complete:
  assumes inv: "dag_inv F r" and "loop_exits r" and "first_error r = None" and "\<not> cancel_flag r"
    and "acyclic (edge_rel (graph_of r))"
  shows "set (node_ids (graph_of r)) \<subseteq> F"
proof
  note D = dag_invD[OF inv]
  let ?g = "graph_of r"
  have none: "coroutines r = []" "next_nodes r = []"
    using assms(2,3) runner_invD(5)[OF D(1)] by (auto simp: loop_exits_def)
  have wf: "wf (edge_rel ?g)" by (rule finite_acyclic_wf[OF finite_edge_rel assms(5)])
  fix v
  show "v \<in> set (node_ids ?g) \<Longrightarrow> v \<in> F"
    using wf
  proof (induction v rule: wf_induct_rule)
    case (less v)
    have "edge_from e \<in> F" if "e \<in> set (in_edges ?g v)" for e
    proof (rule less.IH)
      show "(edge_from e, v) \<in> edge_rel ?g" using that by (force simp: edge_rel_def in_edges_def)
      show "edge_from e \<in> set (node_ids ?g)"
        using that wf_graph_targets[OF runner_invD(1)[OF D(1)]] by (auto simp: in_edges_def)
    qed
    then have preds: "\<forall>e\<in>set (in_edges ?g v). edge_from e \<in> F" by blast
    have "times_fired (act r v) \<noteq> 0"
    proof
      assume "times_fired (act r v) = 0"
      then have "launchable r v"
        using node_ok_ready[OF D(9)[OF less.prems] _ preds] launchable_iff[OF D(1)] less.prems none(1) by simp
      then have "v \<in> set (next_nodes r)"
        using runner_invD(2)[OF D(1)] less.prems by (simp add: next_nodes_def flip: set_map)
      with none(2) show False by simp
    qed
    then have "times_fired (act r v) = 1"
      using node_ok_fires_once[OF D(9)[OF less.prems]] by linarith
    then show ?case using D(10)[OF assms(3,4) less.prems] none(1) by simp
  qed
qed

lemma result_returned:
  "runner_run api dump inner r es t \<Longrightarrow> result r = None \<Longrightarrow> runner_inv r \<Longrightarrow> result t \<noteq> None \<Longrightarrow>
     in_flight_count t = 0 \<and> (next_nodes t = [] \<or> first_error t \<noteq> None)"
proof (induction rule: runner_run.induct)
  case (run_step r es s e t)
  have inv: "runner_inv s" using runner_run_inv run_step by blast
  show ?case
    using run_step.hyps(2)
  proof (cases rule: runner_step.cases)
    case (step_begin v inp)
    then show ?thesis using run_step inv runner_invD(7)[OF inv] by force
  next
    case (step_finish v inp c out now)
    then show ?thesis using run_step inv runner_invD(7)[OF inv] by (force simp: finish_eq)
  next
    case step_cancel
    then have "next_nodes t = next_nodes s" by (simp add: next_nodes_def launchable_def[abs_def])
    with step_cancel run_step show ?thesis by simp
  next
    case step_return
    then have "next_nodes t = next_nodes s" by (simp add: next_nodes_def launchable_def[abs_def])
    with step_return show ?thesis by (simp add: loop_exits_def)
  qed (use run_step in simp)
qed simp

end
