(* ===== verification/Runner_Flow.thy ===== *)
theory Runner_Flow
  imports Runner_Dag
begin

text \<open>
  What flows along the edges, on every compiled graph: the input of a node is a clone of the
  initial state (entry nodes) or of what a predecessor returned, the terminal state is a clone of
  what a node without outgoing edges returned, a node is logged as completed only by the end of
  its own coroutine. The section on the order of completion is about graphs of joins.
\<close>

section \<open>Provenance of inputs\<close>

definition produced :: "graph \<Rightarrow> 'm gstate \<Rightarrow> 'm runner_event list \<Rightarrow> string \<Rightarrow> 'm gstate \<Rightarrow> bool" where
  "produced g initial es v s \<longleftrightarrow>
     (v \<in> set (g_entries g) \<and> s = Clone initial) \<or>
     (\<exists>e\<in>set (g_edges g). edge_to e = v \<and>
        (\<exists>out c now. EFinish (edge_from e) (Returned out) c now \<in> set es \<and> s = Clone out))"

definition sink_output :: "graph \<Rightarrow> 'm runner_event list \<Rightarrow> 'm gstate \<Rightarrow> bool" where
  "sink_output g es s \<longleftrightarrow>
     (\<exists>v out c now. EFinish v (Returned out) c now \<in> set es \<and> \<not> has_outgoing g v \<and> s = Clone out)"

definition inbox :: "'m runner \<Rightarrow> string \<Rightarrow> 'm gstate set" where
  "inbox r v = set (pending_inputs (act r v)) \<union> {inp. \<exists>ph. (v, ph, inp) \<in> set (coroutines r)}"

definition flow_inv :: "graph \<Rightarrow> 'm gstate \<Rightarrow> 'm runner_event list \<Rightarrow> 'm runner \<Rightarrow> bool" where
  "flow_inv g initial es r \<longleftrightarrow> graph_of r = g \<and>
     (\<forall>v. \<forall>s\<in>inbox r v. produced g initial es v s) \<and>
     (\<forall>s. terminal_state r = Some s \<longrightarrow> sink_output g es s)"

lemma subset_snoc: "set es \<subseteq> set (es @ [e])"
  by auto

lemma produced_mono: "produced g i es v s \<Longrightarrow> set es \<subseteq> set es' \<Longrightarrow> produced g i es' v s"
  by (force simp: produced_def)

lemma sink_output_mono: "sink_output g es s \<Longrightarrow> set es \<subseteq> set es' \<Longrightarrow> sink_output g es' s"
  by (force simp: sink_output_def)

lemma inbox_launch: "pending_inputs (act r v) \<noteq> [] \<Longrightarrow> inbox (launch v r) w \<subseteq> inbox r w"
  by (auto simp: inbox_def MergeInputs_def last_in_set)

lemma inbox_begin: "inbox (begin_node v r) w = inbox r w"
proof -
  have "(w, ph, inp) \<in> set (coroutines (begin_node v r)) \<longleftrightarrow>
      (if w = v then ph = Started \<and> (\<exists>p. (w, p, inp) \<in> set (coroutines r)) else (w, ph, inp) \<in> set (coroutines r))" for ph inp
    by (force simp: begin_node_def split: if_splits)
  then have "(\<exists>ph. (w, ph, inp) \<in> set (coroutines (begin_node v r))) \<longleftrightarrow> (\<exists>ph. (w, ph, inp) \<in> set (coroutines r))" for inp
    by (cases "w = v") auto
  then show ?thesis by (simp add: inbox_def)
qed

lemma fans_out_returned: "fans_out out c \<Longrightarrow> out = Returned (output_of out)"
  by (cases out) (auto simp: fans_out_def failed_def output_of_def)

lemma inbox_finish:
  assumes "s \<in> inbox ((finish api dump inner now v out c r)\<lparr>cancel_flag := b\<rparr>) w"
  shows "s \<in> inbox r w \<or>
     (fans_out out c \<and> (\<exists>e\<in>set (g_edges (graph_of r)). edge_from e = v \<and> edge_to e = w) \<and> s = Clone (output_of out))"
proof -
  have "set (pending_inputs (received (graph_of r) v out c w na)) \<subseteq> set (pending_inputs na) \<union>
      {s. fans_out out c \<and> (\<exists>e\<in>set (g_edges (graph_of r)). edge_from e = v \<and> edge_to e = w) \<and> s = Clone (output_of out)}" for na
  proof -
    have "(\<exists>e\<in>set (g_edges (graph_of r)). edge_from e = v \<and> edge_to e = w)"
      if "edges_between v w (g_edges (graph_of r)) \<noteq> []"
      using that by (auto simp: edges_between_def filter_empty_conv)
    then show ?thesis by (auto simp: pending_received)
  qed
  then show ?thesis using assms by (auto simp: inbox_def split: if_splits)
qed

lemma flow_inv_step:
  assumes "runner_step api dump inner r e r'" and inv: "runner_inv r" and flow: "flow_inv g i es r"
  shows "flow_inv g i (es @ [e]) r'"
proof -
  have g: "graph_of r = g" using flow by (simp add: flow_inv_def)
  have box: "produced g i (es @ [e]) v s" if "s \<in> inbox r v" for v s
    using flow that by (intro produced_mono[OF _ subset_snoc]) (simp add: flow_inv_def)
  have trm: "sink_output g (es @ [e]) s" if "terminal_state r = Some s" for s
    using flow that by (intro sink_output_mono[OF _ subset_snoc]) (simp add: flow_inv_def)
  have "(\<forall>v. \<forall>s\<in>inbox r' v. produced g i (es @ [e]) v s) \<and> (\<forall>s. terminal_state r' = Some s \<longrightarrow> sink_output g (es @ [e]) s)"
    using assms(1)
  proof (cases rule: runner_step.cases)
    case (step_launch v)
    then have "pending_inputs (act r v) \<noteq> []" by (simp add: launchable_def)
    from inbox_launch[OF this] box trm step_launch(2) show ?thesis by fastforce
  next
    case (step_begin v inp)
    with box trm show ?thesis by (simp add: inbox_begin)
  next
    case (step_finish v inp c out now)
    have ev: "EFinish v out c now \<in> set (es @ [e])" using step_finish(1) by simp
    have "produced g i (es @ [e]) w s" if "s \<in> inbox r' w" for w s
      using inbox_finish[OF that[unfolded step_finish(2) finish_eq]]
    proof
      assume a: "fans_out out c \<and> (\<exists>e\<in>set (g_edges (graph_of r)). edge_from e = v \<and> edge_to e = w) \<and> s = Clone (output_of out)"
      then have "EFinish v (Returned (output_of out)) c now \<in> set (es @ [e])"
        using ev fans_out_returned[of out c] by simp
      with a g show ?thesis by (auto simp: produced_def)
    qed (rule box)
    moreover have "sink_output g (es @ [e]) s" if s: "terminal_state r' = Some s" for s
    proof (cases "fans_out out c \<and> \<not> has_outgoing g v")
      case True
      then have "EFinish v (Returned (output_of out)) c now \<in> set (es @ [e])"
        using ev fans_out_returned[of out c] by simp
      moreover have "s = Clone (output_of out)" using s True g step_finish(2) by (simp add: finish_eq)
      ultimately show ?thesis using True unfolding sink_output_def by blast
    next
      case False
      then have "terminal_state r = Some s" using s g step_finish(2) by (auto simp: finish_eq split: if_splits)
      then show ?thesis by (rule trm)
    qed
    ultimately show ?thesis by blast
  next
    case step_cancel
    then have "inbox r' v = inbox r v" for v by (simp add: inbox_def)
    with box trm step_cancel show ?thesis by simp
  next
    case step_return
    then have "inbox r' v = inbox r v" for v by (simp add: inbox_def)
    with box trm step_return show ?thesis by simp
  qed
  then show ?thesis using step_graph[OF assms(1)] g by (simp add: flow_inv_def)
qed

lemma flow_inv_booted: "booted g s r \<Longrightarrow> flow_inv g s [] r"
  by (simp add: flow_inv_def inbox_def produced_def booted_fields)

lemma flow_inv_run:
  assumes "runner_run api dump inner r es t" and b: "booted g s r"
  shows "flow_inv g s es t \<and> runner_inv t"
  using assms
proof (induction rule: runner_run.induct)
  case (run_step r es u e t)
  then show ?case using flow_inv_step runner_inv_step by blast
qed (auto intro: flow_inv_booted runner_inv_booted)

section \<open>What the log of completed nodes says\<close>

fun completes :: "'m runner_event \<Rightarrow> string option" where
  "completes (EFinish v (Returned out) c now) = (if at_track c then None else Some v)"
| "completes _ = None"

definition completed_by :: "'m runner_event list \<Rightarrow> string list" where
  "completed_by es = List.map_filter completes es"

lemma completesD: "completes e = Some v \<Longrightarrow> \<exists>out c now. e = EFinish v (Returned out) c now"
  by (cases e rule: completes.cases) (auto split: if_splits)

lemma completed_by_event:
  assumes "v \<in> set (completed_by es)"
  obtains out c now where "EFinish v (Returned out) c now \<in> set es"
proof -
  from assms obtain e where "e \<in> set es" "completes e = Some v"
    by (auto simp: completed_by_def List.map_filter_def)
  with completesD that show ?thesis by blast
qed

lemma completed_run:
  "runner_run api dump inner r es t \<Longrightarrow> completed_node_ids t = completed_node_ids r @ completed_by es"
proof (induction rule: runner_run.induct)
  case (run_refl r)
  then show ?case by (simp add: completed_by_def List.map_filter_def)
next
  case (run_step r es s e t)
  have "completed_node_ids t = completed_node_ids s @ completed_by [e]"
    using run_step.hyps(2)
  proof (cases rule: runner_step.cases)
    case (step_finish v inp c out now)
    then show ?thesis
      by (cases out) (auto simp: completed_by_def List.map_filter_def finish_eq tracked_def failed_def)
  qed (auto simp: completed_by_def List.map_filter_def)
  moreover have "completed_by (es @ [e]) = completed_by es @ completed_by [e]"
    by (simp add: completed_by_def List.map_filter_def)
  ultimately show ?case using run_step.IH by simp
qed

lemma uncancelled_run:
  "runner_run api dump inner r es t \<Longrightarrow> \<not> cancel_flag t \<Longrightarrow>
     \<not> cancel_flag r \<and> (\<forall>v out c now. EFinish v out c now \<in> set es \<longrightarrow> \<not> at_fanout c)"
proof (induction rule: runner_run.induct)
  case (run_step r es s e t)
  have "\<not> cancel_flag s \<and> (\<forall>v out c now. e = EFinish v out c now \<longrightarrow> \<not> at_fanout c)"
    using run_step.hyps(2) run_step.prems
    by (cases rule: runner_step.cases) (auto simp: reads_from_def)
  with run_step.IH show ?case by auto
qed simp

lemma terminal_kept:
  "runner_step api dump inner r e r' \<Longrightarrow> terminal_state r \<noteq> None \<Longrightarrow> terminal_state r' \<noteq> None"
  by (induction rule: runner_step.induct) (auto simp: finish_eq)

lemma sink_sets_terminal:
  "runner_run api dump inner r es t \<Longrightarrow> EFinish v (Returned out) c now \<in> set es \<Longrightarrow> \<not> at_fanout c \<Longrightarrow>
     \<not> has_outgoing (graph_of r) v \<Longrightarrow> terminal_state t \<noteq> None"
proof (induction rule: runner_run.induct)
  case (run_step r es s e t)
  show ?case
  proof (cases "EFinish v (Returned out) c now \<in> set es")
    case True
    with run_step terminal_kept[OF run_step.hyps(2)] show ?thesis by blast
  next
    case False
    then have "runner_step api dump inner s (EFinish v (Returned out) c now) t"
      using run_step by auto
    then show ?thesis
      using run_step.prems runner_run_graph[OF run_step.hyps(1)]
      by (auto elim!: step_finishE simp: finish_eq fans_out_def failed_def)
  qed
qed simp

section \<open>The order of completion\<close>

definition topological :: "graph \<Rightarrow> string list \<Rightarrow> bool" where
  "topological g vs \<longleftrightarrow> (\<forall>i<length vs. \<forall>e\<in>set (in_edges g (vs ! i)). edge_from e \<in> set (take i vs))"

lemma topological_Nil [simp]: "topological g []"
  by (simp add: topological_def)

lemma topological_snoc:
  "topological g (vs @ [v]) \<longleftrightarrow> topological g vs \<and> (\<forall>e\<in>set (in_edges g v). edge_from e \<in> set vs)"
  by (auto simp: topological_def less_Suc_eq nth_append)

lemma topological_step:
  assumes "runner_step api dump inner r e r'" and inv: "dag_inv F r" and "topological (graph_of r) (completed_node_ids r)"
  shows "topological (graph_of r') (completed_node_ids r')"
  using assms(1)
proof (cases rule: runner_step.cases)
  case (step_finish v inp c out now)
  have "v \<in> live r" using step_finish(3) by force
  then have "times_fired (act r v) = 1" "v \<in> set (node_ids (graph_of r))"
    using dag_invD(8)[OF inv] runner_invD(4)[OF dag_invD(1)[OF inv]] by blast+
  then have "\<forall>e\<in>set (in_edges (graph_of r) v). edge_from e \<in> set (completed_node_ids r)"
    using dag_invD(9)[OF inv] dag_invD(3)[OF inv] by (fastforce simp: node_ok_def)
  with assms(3) step_finish(2) show ?thesis by (auto simp: finish_eq topological_snoc)
qed (use assms(3) in auto)

lemma topological_run:
  "runner_run api dump inner r es t \<Longrightarrow> dag_inv F r \<Longrightarrow> topological (graph_of r) (completed_node_ids r) \<Longrightarrow>
     topological (graph_of t) (completed_node_ids t) \<and> (\<exists>F'. F \<subseteq> F' \<and> dag_inv F' t)"
proof (induction rule: runner_run.induct)
  case (run_step r es s e t)
  then obtain F' where "F \<subseteq> F'" "dag_inv F' s" "topological (graph_of s) (completed_node_ids s)" by blast
  then show ?case
    using topological_step[OF run_step.hyps(2)] dag_inv_step[OF run_step.hyps(2)] by (meson subset_trans)
qed auto

text \<open>An acyclic graph with a node has a node without outgoing edges.\<close>

lemma acyclic_sink:
  assumes "wf_graph g" and "acyclic (edge_rel g)"
  obtains v where "v \<in> set (node_ids g)" "\<not> has_outgoing g v"
proof -
  have "g_entries g \<noteq> []" using assms(1) unfolding wf_graph_def by blast
  then obtain v0 where "v0 \<in> set (node_ids g)"
    using wf_graph_entries(2)[OF assms(1)] by (cases "g_entries g") auto
  moreover have "wf ((edge_rel g)\<inverse>)"
    by (rule finite_acyclic_wf_converse[OF finite_edge_rel assms(2)])
  ultimately obtain v where v: "v \<in> set (node_ids g)" "\<And>w. (w, v) \<in> (edge_rel g)\<inverse> \<Longrightarrow> w \<notin> set (node_ids g)"
    by (metis wfE_min)
  have "\<not> has_outgoing g v"
  proof
    assume "has_outgoing g v"
    then obtain e where "e \<in> set (g_edges g)" "edge_from e = v" by (auto simp: has_outgoing_def)
    then show False
      using v(2)[of "edge_to e"] wf_graph_targets[OF assms(1)] by (force simp: edge_rel_def)
  qed
  with v(1) show ?thesis by (rule that)
qed

end
