(* ===== verification/Runner_Resume.thy ===== *)
theory Runner_Resume
  imports Runner_Flow
begin

text \<open>
  \<open>Runner::Resume\<close> on graphs of joins: the bookkeeping it replays from a checkpoint satisfies the
  invariant of a run whenever the completed nodes are closed under predecessors (which the
  checkpoints of a run are) and contain every entry node; the resumed run then completes exactly
  the other nodes.
\<close>

section \<open>How often a node is launched\<close>

lemma times_fired_step:
  "runner_step api dump inner r e r' \<Longrightarrow>
     times_fired (act r' v) = times_fired (act r v) + (if e = ELaunch v then 1 else 0)"
  by (induction rule: runner_step.induct) (auto simp: finish_eq)

lemma times_fired_run:
  "runner_run api dump inner r es t \<Longrightarrow>
     times_fired (act t v) = times_fired (act r v) + count_list es (ELaunch v)"
  by (induction rule: runner_run.induct) (auto simp: times_fired_step)

section \<open>Replaying a checkpoint\<close>

definition replay :: "string list \<Rightarrow> 'm runner \<Rightarrow> 'm runner" where
  "replay vs r = foldl (\<lambda>r v. replay_completed v r) r vs"

lemma replay_fields [simp]:
  "graph_of (replay vs r) = graph_of r" "policy (replay vs r) = policy r"
  "terminal_state (replay vs r) = terminal_state r" "in_flight_count (replay vs r) = in_flight_count r"
  "first_error (replay vs r) = first_error r" "coroutines (replay vs r) = coroutines r"
  "cancel_flag (replay vs r) = cancel_flag r" "result (replay vs r) = result r"
  "completed_node_ids (replay vs r) = completed_node_ids r @ vs"
  "act (replay vs r) w = (if w \<in> set vs then (act r w)\<lparr>times_fired := 1, in_flight := False\<rparr> else act r w)"
  by (induction vs arbitrary: r) (auto simp: replay_def replay_completed_def)

lemma keys_replay:
  "set vs \<subseteq> set (map fst (activations r)) \<Longrightarrow> map fst (activations (replay vs r)) = map fst (activations r)"
proof (induction vs arbitrary: r)
  case (Cons v vs)
  have keys: "map fst (activations (replay_completed v r)) = map fst (activations r)"
    using Cons.prems keys_set_act[of v _ r] by (simp add: replay_completed_def)
  have "fst ` set (activations (replay_completed v r)) = fst ` set (activations r)"
    using arg_cong[OF keys, of set] by simp
  with Cons keys show ?case by (simp add: replay_def)
qed (simp add: replay_def)

definition seed_from :: "string list \<Rightarrow> 'm gstate \<Rightarrow> string \<Rightarrow> edge list \<Rightarrow> 'm runner \<Rightarrow> 'm runner" where
  "seed_from cs s v es r = foldl (seed_edge cs s v) r es"

lemma seed_from_fields [simp]:
  "graph_of (seed_from cs s v es r) = graph_of r" "policy (seed_from cs s v es r) = policy r"
  "terminal_state (seed_from cs s v es r) = terminal_state r"
  "in_flight_count (seed_from cs s v es r) = in_flight_count r"
  "first_error (seed_from cs s v es r) = first_error r" "coroutines (seed_from cs s v es r) = coroutines r"
  "cancel_flag (seed_from cs s v es r) = cancel_flag r" "result (seed_from cs s v es r) = result r"
  "completed_node_ids (seed_from cs s v es r) = completed_node_ids r"
  by (induction es arbitrary: r) (simp_all add: seed_from_def seed_edge_def)

lemma act_seed_from:
  "act (seed_from cs s v es r) w =
     (if w \<in> set cs then act r w else foldl (\<lambda>na e. deliver s e na) (act r w) (edges_between v w es))"
  by (induction es arbitrary: r) (auto simp: seed_from_def seed_edge_def edges_between_def)

lemma keys_seed_from:
  "\<forall>e\<in>set es. edge_to e \<in> set (map fst (activations r)) \<Longrightarrow>
     map fst (activations (seed_from cs s v es r)) = map fst (activations r)"
proof (induction es arbitrary: r)
  case (Cons e es)
  have keys: "map fst (activations (seed_edge cs s v r e)) = map fst (activations r)"
    using Cons.prems keys_set_act[of "edge_to e" _ r] by (simp add: seed_edge_def)
  have "fst ` set (activations (seed_edge cs s v r e)) = fst ` set (activations r)"
    using arg_cong[OF keys, of set] by simp
  with Cons keys show ?case by (simp add: seed_from_def)
qed (simp add: seed_from_def)

definition seed_all :: "string list \<Rightarrow> 'm gstate \<Rightarrow> edge list \<Rightarrow> string list \<Rightarrow> 'm runner \<Rightarrow> 'm runner" where
  "seed_all cs s es vs r = foldl (\<lambda>r v. seed_from cs s v es r) r vs"

lemma seed_all_fields [simp]:
  "graph_of (seed_all cs s es vs r) = graph_of r" "policy (seed_all cs s es vs r) = policy r"
  "terminal_state (seed_all cs s es vs r) = terminal_state r"
  "in_flight_count (seed_all cs s es vs r) = in_flight_count r"
  "first_error (seed_all cs s es vs r) = first_error r" "coroutines (seed_all cs s es vs r) = coroutines r"
  "cancel_flag (seed_all cs s es vs r) = cancel_flag r" "result (seed_all cs s es vs r) = result r"
  "completed_node_ids (seed_all cs s es vs r) = completed_node_ids r"
  by (induction vs arbitrary: r) (simp_all add: seed_all_def)

lemma act_seed_all:
  "act (seed_all cs s es vs r) w =
     (if w \<in> set cs then act r w
      else foldl (\<lambda>na e. deliver s e na) (act r w) (concat (map (\<lambda>v. edges_between v w es) vs)))"
  by (induction vs arbitrary: r) (auto simp: seed_all_def act_seed_from)

lemma keys_seed_all:
  "\<forall>e\<in>set es. edge_to e \<in> set (map fst (activations r)) \<Longrightarrow>
     map fst (activations (seed_all cs s es vs r)) = map fst (activations r)"
proof (induction vs arbitrary: r)
  case (Cons v vs)
  note keys = keys_seed_from[OF Cons.prems, of cs s v]
  have "fst ` set (activations (seed_from cs s v es r)) = fst ` set (activations r)"
    using arg_cong[OF keys, of set] by simp
  with Cons keys show ?case by (simp add: seed_all_def)
qed (simp add: seed_all_def)

lemma seed_successors_alt:
  "seed_successors cs s r = seed_all cs s (g_edges (graph_of r)) cs r"
proof -
  have "foldl (\<lambda>r v. foldl (seed_edge cs s v) r (g_edges (graph_of r))) r vs =
      seed_all cs s (g_edges (graph_of r)) vs r" for vs
    by (induction vs arbitrary: r) (simp_all add: seed_all_def flip: seed_from_def)
  then show ?thesis by (simp add: seed_successors_def)
qed

lemma length_seed_edges:
  "distinct vs \<Longrightarrow> length (concat (map (\<lambda>v. edges_between v w (g_edges g)) vs)) =
     length (filter (\<lambda>e. edge_from e \<in> set vs) (in_edges g w))"
proof (induction vs)
  case (Cons v vs)
  then show ?case
    using length_filter_insert(1)[of v "set vs" edge_from "in_edges g w"] by (simp add: edges_between_in)
qed simp

lemma seed_edges_joins:
  "all_joins g \<Longrightarrow> \<forall>e\<in>set (concat (map (\<lambda>v. edges_between v w (g_edges g)) vs)). edge_group e = 0 \<and> edge_cond e = CondAll"
  by (auto simp: all_joins_def edges_between_def)

definition preds_closed :: "graph \<Rightarrow> string set \<Rightarrow> bool" where
  "preds_closed g S \<longleftrightarrow> (\<forall>e\<in>set (g_edges g). edge_to e \<in> S \<longrightarrow> edge_from e \<in> S)"

definition resumable :: "graph \<Rightarrow> string list \<Rightarrow> bool" where
  "resumable g cs \<longleftrightarrow> cs \<noteq> [] \<and> distinct cs \<and> set cs \<subseteq> set (node_ids g) \<and> preds_closed g (set cs) \<and>
     set (g_entries g) \<subseteq> set cs"

lemma topological_preds_closed: "topological g cs \<Longrightarrow> preds_closed g (set cs)"
proof (unfold preds_closed_def, intro ballI impI)
  fix e
  assume "topological g cs" "e \<in> set (g_edges g)" "edge_to e \<in> set cs"
  then obtain i where "i < length cs" "cs ! i = edge_to e" by (auto simp: in_set_conv_nth)
  with \<open>topological g cs\<close> \<open>e \<in> set (g_edges g)\<close> have "edge_from e \<in> set (take i cs)"
    by (auto simp: topological_def in_edges_def)
  then show "edge_from e \<in> set cs" by (rule in_set_takeD)
qed

definition nothing_left :: "graph \<Rightarrow> string list \<Rightarrow> bool" where
  "nothing_left g cs \<longleftrightarrow> \<not> (\<exists>v\<in>set cs. has_outgoing g v) \<or> card (set cs) = length (g_nodes g)"

lemma Resume_seed_alt:
  assumes "cp_completed_nodes cp \<noteq> []"
  shows "Resume_seed cp s r =
     (seed_all (cp_completed_nodes cp) s (g_edges (graph_of r)) (cp_completed_nodes cp)
        (replay (cp_completed_nodes cp) r))
       \<lparr>terminal_state := (if nothing_left (graph_of r) (cp_completed_nodes cp) then Some (Clone s) else terminal_state r)\<rparr>"
proof -
  let ?q = "seed_all (cp_completed_nodes cp) s (g_edges (graph_of r)) (cp_completed_nodes cp)
      (replay (cp_completed_nodes cp) r)"
  have "?q\<lparr>terminal_state := terminal_state r\<rparr> = ?q" by simp
  with assms show ?thesis
    unfolding Resume_seed_def Let_def seed_successors_alt
    by (simp add: nothing_left_def flip: replay_def)
qed

definition idle_start :: "'m runner \<Rightarrow> bool" where
  "idle_start r \<longleftrightarrow> activations r = [] \<and> coroutines r = [] \<and> in_flight_count r = 0 \<and> first_error r = None \<and>
     completed_node_ids r = [] \<and> result r = None \<and> terminal_state r = None"

lemma Resume_seed_dag_inv:
  assumes wf: "wf_graph (graph_of r)" and joins: "all_joins (graph_of r)" and idle: "idle_start r"
    and res: "resumable (graph_of r) (cp_completed_nodes cp)"
  shows "dag_inv (set (cp_completed_nodes cp)) (Resume_seed cp s (InitActivations r))"
proof -
  let ?g = "graph_of r" let ?cs = "cp_completed_nodes cp" let ?r0 = "InitActivations r"
  let ?q = "seed_all ?cs s (g_edges ?g) ?cs (replay ?cs ?r0)"
  have cs: "?cs \<noteq> []" "distinct ?cs" "set ?cs \<subseteq> set (node_ids ?g)" "preds_closed ?g (set ?cs)"
      "set (g_entries ?g) \<subseteq> set ?cs"
    using res by (simp_all add: resumable_def)
  have empty: "activations r = []" using idle by (simp add: idle_start_def)
  obtain ts where q: "Resume_seed cp s ?r0 = ?q\<lparr>terminal_state := ts\<rparr>"
    using Resume_seed_alt[OF cs(1), of s ?r0] by auto
  have keys0: "map fst (activations ?r0) = node_ids ?g" by (rule InitActivations_keys[OF wf empty])
  have keys1: "map fst (activations (replay ?cs ?r0)) = node_ids ?g"
    using keys_replay[of ?cs ?r0] cs(3) keys0 by simp
  have keys: "map fst (activations ?q) = node_ids ?g"
    using keys_seed_all[of "g_edges ?g" "replay ?cs ?r0"] keys1 wf_graph_targets[OF wf] by simp
  have fired: "times_fired (act ?q v) = (if v \<in> set ?cs then 1 else 0)" "\<not> in_flight (act ?q v)" for v
    by (simp_all add: act_seed_all InitActivations_act[OF wf empty])
  have ok: "node_ok ?g (set ?cs) v (act ?q v)" if v: "v \<in> set (node_ids ?g)" for v
  proof (cases "v \<in> set ?cs")
    case True
    then have "\<forall>e\<in>set (in_edges ?g v). edge_from e \<in> set ?cs"
      using cs(4) by (auto simp: preds_closed_def in_edges_def)
    with True fired(1)[of v] show ?thesis
      using node_ok_init(1)[OF wf joins empty, of v]
      by (simp add: node_ok_def act_seed_all InitActivations_act[OF wf empty])
  next
    case False
    let ?es = "concat (map (\<lambda>u. edges_between u v (g_edges ?g)) ?cs)"
    have "in_edges ?g v \<noteq> []" using False v cs(5) entry_iff[OF wf joins] by blast
    moreover have "length (filter (\<lambda>e. edge_from e \<in> set ?cs) (in_edges ?g v)) +
        length (filter (\<lambda>e. edge_from e \<notin> set ?cs) (in_edges ?g v)) = length (in_edges ?g v)"
      by (rule sum_length_filter_compl)
    ultimately show ?thesis
      using False node_ok_init[OF wf joins empty, of v] length_seed_edges[OF cs(2), of v ?g]
        deliver_fold_remaining[OF seed_edges_joins[OF joins, of v ?cs], of s "act ?r0 v"]
        InitActivations_act[OF wf empty, of v]
      by (simp add: node_ok_def act_seed_all)
  qed
  have "runner_inv (?q\<lparr>terminal_state := ts\<rparr>)"
    unfolding runner_inv_def using wf keys idle fired(2) by (simp add: idle_start_def)
  then show ?thesis
    unfolding q dag_inv_def using joins cs(2,3) ok fired idle by (auto simp: idle_start_def)
qed

section \<open>The checkpoints of a run\<close>

definition writes :: "checkpoint_policy \<Rightarrow> graph \<Rightarrow> string \<Rightarrow> bool" where
  "writes pol g v \<longleftrightarrow> pol = AfterEachNode \<or> (pol = AfterTerminalNode \<and> \<not> has_outgoing g v)"

definition checkpoint_log :: "checkpoint_policy \<Rightarrow> graph \<Rightarrow> string list \<Rightarrow> string list list" where
  "checkpoint_log pol g cs = map (\<lambda>i. take (Suc i) cs) (filter (\<lambda>i. writes pol g (cs ! i)) [0..<length cs])"

lemma checkpoint_log_snoc:
  "checkpoint_log pol g (cs @ [v]) = checkpoint_log pol g cs @ (if writes pol g v then [cs @ [v]] else [])"
proof -
  have "filter (\<lambda>i. writes pol g ((cs @ [v]) ! i)) [0..<length cs] = filter (\<lambda>i. writes pol g (cs ! i)) [0..<length cs]"
    by (rule filter_cong) (simp_all add: nth_append)
  then show ?thesis by (simp add: checkpoint_log_def)
qed

lemma checkpoint_log_prefix: "cs' \<in> set (checkpoint_log pol g cs) \<Longrightarrow> prefix cs' cs \<and> cs' \<noteq> []"
  by (auto simp: checkpoint_log_def take_is_prefix)

lemma MaybeWriteCheckpoint_log:
  "map cp_completed_nodes (checkpoints (MaybeWriteCheckpoint api dump now s (\<not> has_outgoing g v) r)) =
     map cp_completed_nodes (checkpoints r) @ (if writes (policy r) g v then [completed_node_ids r] else [])"
  by (cases "policy r") (simp_all add: MaybeWriteCheckpoint_def writes_def)

lemma checkpoint_log_step:
  assumes "runner_step api dump inner r e r'" and "\<not> cancel_flag r'"
    and "map cp_completed_nodes (checkpoints r) = checkpoint_log (policy r) (graph_of r) (completed_node_ids r)"
  shows "map cp_completed_nodes (checkpoints r') = checkpoint_log (policy r') (graph_of r') (completed_node_ids r')"
  using assms(1)
proof (cases rule: runner_step.cases)
  case (step_finish v inp c out now)
  have "\<not> at_track c" "\<not> at_fanout c" "\<not> at_checkpoint c"
    using step_finish assms(2) by (auto simp: reads_from_def)
  then show ?thesis
    using assms(3) unfolding step_finish(2) finish_eq
    by (auto simp: finish_checkpoints tracked_def MaybeWriteCheckpoint_log checkpoint_log_snoc)
qed (use assms(3) in auto)

lemma checkpoint_log_run:
  "runner_run api dump inner r es t \<Longrightarrow> \<not> cancel_flag t \<Longrightarrow>
     map cp_completed_nodes (checkpoints r) = checkpoint_log (policy r) (graph_of r) (completed_node_ids r) \<Longrightarrow>
     map cp_completed_nodes (checkpoints t) = checkpoint_log (policy t) (graph_of t) (completed_node_ids t)"
proof (induction rule: runner_run.induct)
  case (run_step r es s e t)
  have "\<not> cancel_flag s"
    using run_step.hyps(2) run_step.prems(1) by (cases rule: runner_step.cases) (auto simp: reads_from_def)
  with run_step show ?case using checkpoint_log_step by blast
qed

lemma step_policy: "runner_step api dump inner r e r' \<Longrightarrow> policy r' = policy r"
  by (induction rule: runner_step.induct) (simp_all add: finish_eq)

lemma runner_run_policy: "runner_run api dump inner r es t \<Longrightarrow> policy t = policy r"
  by (induction rule: runner_run.induct) (auto dest: step_policy)

text \<open>Cancellation only ever suppresses checkpoints: those written describe prefixes of the log.\<close>

definition ckpt_inv :: "'m runner \<Rightarrow> bool" where
  "ckpt_inv r \<longleftrightarrow> (\<forall>cp\<in>set (checkpoints r). cp_completed_nodes cp \<noteq> [] \<and> prefix (cp_completed_nodes cp) (completed_node_ids r) \<and>
     cp_schema_version cp = kCurrentCheckpointSchemaVersion)"

lemma ckpt_inv_step:
  assumes "runner_step api dump inner r e r'" and "ckpt_inv r"
  shows "ckpt_inv r'"
  using assms(1)
proof (cases rule: runner_step.cases)
  case (step_finish v inp c out now)
  have "set (checkpoints r') \<subseteq> set (checkpoints r) \<union>
      {cp. cp_completed_nodes cp = completed_node_ids r' \<and> cp_schema_version cp = kCurrentCheckpointSchemaVersion \<and> tracked out c}"
    using step_finish(4) unfolding step_finish(2) finish_eq
    by (auto simp: finish_checkpoints MaybeWriteCheckpoint_def tracked_def reads_from_def split: if_splits)
  moreover have "completed_node_ids r' = completed_node_ids r @ (if tracked out c then [v] else [])"
    unfolding step_finish(2) finish_eq by simp
  ultimately show ?thesis using assms(2) unfolding ckpt_inv_def by (fastforce intro: prefix_prefix)
qed (use assms(2) in \<open>auto simp: ckpt_inv_def\<close>)

lemma ckpt_inv_run: "runner_run api dump inner r es t \<Longrightarrow> ckpt_inv r \<Longrightarrow> ckpt_inv t"
  by (induction rule: runner_run.induct) (auto intro: ckpt_inv_step)

lemma topological_append: "topological g (us @ zs) \<Longrightarrow> topological g us"
  by (induction zs rule: rev_induct) (simp_all add: topological_snoc flip: append_assoc)

lemma topological_prefix: "topological g vs \<Longrightarrow> prefix us vs \<Longrightarrow> topological g us"
  by (auto simp: prefix_def dest: topological_append)

end
