(* ===== verification/Runner_Compose.thy ===== *)
theory Runner_Compose
  imports Runner_Exec
begin

text \<open>
  What a run computes from what its nodes compute. A behaviour relates the input of a node to its outcome; in a run whose nodes
  obey it, every input is obtained from the initial state by the behaviours along a path of the graph, and so is the state the
  run returns.
\<close>

type_synonym 'm behaviour = "string \<Rightarrow> 'm gstate \<Rightarrow> 'm outcome \<Rightarrow> bool"

definition finish_obeys :: "'m behaviour \<Rightarrow> 'm runner \<Rightarrow> 'm runner_event \<Rightarrow> bool" where
  "finish_obeys beh r e = (case e of
       EFinish v out c now \<Rightarrow> list_ex (\<lambda>t. fst t = v \<and> fst (snd t) = Started \<and> beh v (snd (snd t)) out) (coroutines r)
     | _ \<Rightarrow> True)"

fun obeys :: "'m proto_api \<Rightarrow> json_dumper \<Rightarrow> 'm behaviour \<Rightarrow> 'm runner \<Rightarrow> 'm runner_event list \<Rightarrow> bool" where
  "obeys api dump beh r [] = True"
| "obeys api dump beh r (e # es) =
     (finish_obeys beh r e \<and> (case exec_event api dump False r e of None \<Rightarrow> False | Some r' \<Rightarrow> obeys api dump beh r' es))"

inductive fed :: "graph \<Rightarrow> 'm gstate \<Rightarrow> 'm behaviour \<Rightarrow> string \<Rightarrow> 'm gstate \<Rightarrow> bool" for g initial beh where
  fed_entry: "v \<in> set (g_entries g) \<Longrightarrow> fed g initial beh v (Clone initial)"
| fed_edge: "fed g initial beh u inp \<Longrightarrow> beh u inp (Returned out) \<Longrightarrow> e \<in> set (g_edges g) \<Longrightarrow> edge_from e = u \<Longrightarrow>
    fed g initial beh (edge_to e) (Clone out)"

inductive_cases fedE: "fed g initial beh v s"

definition computed :: "graph \<Rightarrow> 'm gstate \<Rightarrow> 'm behaviour \<Rightarrow> 'm gstate \<Rightarrow> bool" where
  "computed g initial beh s \<longleftrightarrow>
     (\<exists>v inp out. \<not> has_outgoing g v \<and> fed g initial beh v inp \<and> beh v inp (Returned out) \<and> s = Clone out)"

definition fed_inv :: "graph \<Rightarrow> 'm gstate \<Rightarrow> 'm behaviour \<Rightarrow> 'm runner \<Rightarrow> bool" where
  "fed_inv g initial beh r \<longleftrightarrow> graph_of r = g \<and> (\<forall>v. \<forall>s\<in>inbox r v. fed g initial beh v s) \<and>
     (\<forall>s. terminal_state r = Some s \<longrightarrow> computed g initial beh s)"

lemma fed_inv_step:
  assumes "runner_step api dump False r e r'" "finish_obeys beh r e" and inv: "fed_inv g i beh r"
  shows "fed_inv g i beh r'"
proof -
  have g: "graph_of r = g" and box: "\<And>v s. s \<in> inbox r v \<Longrightarrow> fed g i beh v s"
    and trm: "\<And>s. terminal_state r = Some s \<Longrightarrow> computed g i beh s"
    using inv by (simp_all add: fed_inv_def)
  have "(\<forall>v. \<forall>s\<in>inbox r' v. fed g i beh v s) \<and> (\<forall>s. terminal_state r' = Some s \<longrightarrow> computed g i beh s)"
    using assms(1)
  proof (cases rule: runner_step.cases)
    case (step_launch v)
    then have "pending_inputs (act r v) \<noteq> []" by (simp add: launchable_def)
    from inbox_launch[OF this] box trm step_launch(2) show ?thesis by fastforce
  next
    case (step_begin v inp)
    with box trm show ?thesis by (simp add: inbox_begin)
  next
    case (step_finish v inp c out now)
    obtain x where x: "(v, Started, x) \<in> set (coroutines r)" "beh v x out"
      using assms(2) step_finish(1) by (auto simp: finish_obeys_def list_ex_iff)
    then have ran: "fed g i beh v x" by (intro box) (auto simp: inbox_def)
    have out: "beh v x (Returned (output_of out))" if "fans_out out c" using x(2) fans_out_returned[OF that] by simp
    have "fed g i beh w s" if "s \<in> inbox r' w" for w s
      using inbox_finish[OF that[unfolded step_finish(2) finish_eq]] box fed_edge[OF ran out] g by auto
    moreover have "computed g i beh s" if s: "terminal_state r' = Some s" for s
    proof (cases "fans_out out c \<and> \<not> has_outgoing g v")
      case True
      then have "s = Clone (output_of out)" using s g step_finish(2) by (simp add: finish_eq)
      then show ?thesis using True ran out unfolding computed_def by blast
    next
      case False
      then have "terminal_state r = Some s" using s g step_finish(2) by (auto simp: finish_eq split: if_splits)
      then show ?thesis by (rule trm)
    qed
    ultimately show ?thesis by blast
  next
    case step_cancel
    then have "inbox r' v = inbox r v" for v by (simp add: inbox_def)
    with box trm step_cancel show ?thesis by simp
  next
    case step_return
    then have "inbox r' v = inbox r v" for v by (simp add: inbox_def)
    with box trm step_return show ?thesis by simp
  qed
  then show ?thesis using step_graph[OF assms(1)] g by (simp add: fed_inv_def)
qed

lemma fed_inv_run: "exec_run api dump False es r = Some t \<Longrightarrow> obeys api dump beh r es \<Longrightarrow> fed_inv g i beh r \<Longrightarrow> fed_inv g i beh t"
proof (induction es arbitrary: r)
  case (Cons e es)
  then obtain s where s: "exec_event api dump False r e = Some s" "exec_run api dump False es s = Some t" "obeys api dump beh s es"
    by (auto split: option.splits)
  then have "fed_inv g i beh s" using fed_inv_step[of api dump r e s] Cons.prems(2,3) by (simp add: runner_step_iff)
  with Cons.IH s show ?case by blast
qed simp

lemma fed_inv_booted:
  assumes "booted g s r"
  shows "fed_inv g s beh r"
proof -
  have flow: "flow_inv g s [] r" by (rule flow_inv_booted[OF assms])
  then have "fed g s beh v x" if "x \<in> inbox r v" for v x
    using fed_entry[of v g s beh] that unfolding flow_inv_def produced_def by fastforce
  moreover have "terminal_state r = None" using booted_fields[OF assms] by simp
  ultimately show ?thesis using flow by (simp add: fed_inv_def flow_inv_def)
qed

text \<open>A run that can be made obeys a behaviour if its nodes do, whatever input they are started with.\<close>

lemma obeysI:
  assumes "exec_run api dump False es r = Some t"
    and "\<And>es1 v out c now es2 s inp. es = es1 @ EFinish v out c now # es2 \<Longrightarrow> exec_run api dump False es1 r = Some s \<Longrightarrow>
      (v, Started, inp) \<in> set (coroutines s) \<Longrightarrow> beh v inp out"
  shows "obeys api dump beh r es"
  using assms
proof (induction es arbitrary: r)
  case (Cons e es)
  obtain s where s: "exec_event api dump False r e = Some s" "exec_run api dump False es s = Some t"
    using Cons.prems(1) by (auto split: option.splits)
  have "obeys api dump beh s es"
    by (rule Cons.IH[OF s(2)]) (use Cons.prems(2)[of "e # _"] s(1) in simp)
  moreover have "finish_obeys beh r e"
  proof (cases e)
    case (EFinish v out c now)
    then obtain inp where "(v, Started, inp) \<in> set (coroutines r)"
      using s(1) by (auto simp: exec_event_def has_phase_iff split: if_splits)
    then show ?thesis using Cons.prems(2)[of "[]" v out c now es r inp] EFinish by (force simp: finish_obeys_def list_ex_iff)
  qed (simp_all add: finish_obeys_def)
  ultimately show ?case using s(1) by simp
qed simp

end
