(* ===== verification/Runner_Props.thy ===== *)
theory Runner_Props
  imports Runner_Compose
begin

text \<open>
  The properties of the graph runner, from the builder to the returned state, each with a concrete
  schedule on which it is evaluated.
\<close>

section \<open>A run from the builder\<close>

definition run_of :: "graph_builder \<Rightarrow> checkpoint_policy \<Rightarrow> bool \<Rightarrow> 'm gstate \<Rightarrow> 'm proto_api \<Rightarrow> json_dumper \<Rightarrow>
    'm runner_event list \<Rightarrow> graph \<Rightarrow> 'm runner \<Rightarrow> bool" where
  "run_of b pol has_writer s api dump es g t \<longleftrightarrow>
     Build b = Inr g \<and> (\<exists>r. Runner_Impl g pol has_writer = Inr r \<and> runner_run api dump False (Run_boot s r) es t)"

lemma run_ofE:
  assumes "run_of b pol w s api dump es g t"
  obtains r where "booted g s r" "runner_run api dump False r es t" "policy r = pol" "g_nodes g = b_nodes b" "g_edges g = b_edges b"
proof -
  from assms obtain r0 where r0: "Build b = Inr g" "Runner_Impl g pol w = Inr r0"
      "runner_run api dump False (Run_boot s r0) es t"
    by (auto simp: run_of_def)
  have "booted g s (Run_boot s r0)"
    using Build_wf[OF r0(1)] r0(2) unfolding booted_def by blast
  moreover have "policy (Run_boot s r0) = pol"
    using Runner_Impl_fields(2)[OF r0(2)] by (simp add: Run_boot_alt)
  ultimately show ?thesis using that r0(3) Build_wf[OF r0(1)] by blast
qed

section \<open>A concrete graph\<close>

definition demo_edge :: "string \<Rightarrow> string \<Rightarrow> edge" where
  "demo_edge u v = \<lparr>edge_from = u, edge_to = v, edge_group = 0, edge_cond = CondAll\<rparr>"

definition diamond :: graph_builder where
  "diamond = \<lparr>b_nodes = map (\<lambda>v. \<lparr>node_id = v, node_kind = ''stub''\<rparr>) [''A'', ''B'', ''C'', ''D''],
     b_edges = [demo_edge ''A'' ''B'', demo_edge ''A'' ''C'', demo_edge ''B'' ''D'', demo_edge ''C'' ''D'']\<rparr>"

definition demo_api :: "string proto_api" where
  "demo_api = \<lparr>has_string_field = (\<lambda>_ _. False), get_string = (\<lambda>_ _. []), set_string = (\<lambda>m _ _. m),
     serialize = (\<lambda>m. m), parse_from = (\<lambda>_ s. Some s), type_name = (\<lambda>_. ''Demo'')\<rparr>"

definition demo_dump :: json_dumper where
  "demo_dump _ = []"

definition uncancelled :: cancel_reads where
  "uncancelled = \<lparr>at_end = False, at_track = False, at_fanout = False, at_checkpoint = False\<rparr>"

definition all_cancelled :: cancel_reads where
  "all_cancelled = \<lparr>at_end = True, at_track = True, at_fanout = True, at_checkpoint = True\<rparr>"

definition visit :: "string \<Rightarrow> string runner_event list" where
  "visit v = [ELaunch v, EBegin v, EFinish v (Returned (FromMessage (Some v))) uncancelled 0]"

definition demo_graph :: graph where
  "demo_graph = (case Build diamond of Inr g \<Rightarrow> g)"

definition demo_runner :: "checkpoint_policy \<Rightarrow> string runner" where
  "demo_runner pol = (case Runner_Impl demo_graph pol True of Inr r \<Rightarrow> Run_boot State r)"

definition full_schedule :: "string runner_event list" where
  "full_schedule = visit ''A'' @ [ELaunch ''B'', ELaunch ''C'', EBegin ''C'', EBegin ''B'',
     EFinish ''C'' (Returned (FromMessage (Some ''c''))) uncancelled 1,
     EFinish ''B'' (Returned (FromMessage (Some ''b''))) uncancelled 2] @ visit ''D'' @ [EReturn]"

definition demo_end :: "checkpoint_policy \<Rightarrow> string runner" where
  "demo_end pol = the (exec_run demo_api demo_dump False full_schedule (demo_runner pol))"

lemma demo_Build: "Build diamond = Inr demo_graph"
  by code_simp

lemma demo_Runner: "Runner_Impl demo_graph pol True = Inr r \<Longrightarrow> demo_runner pol = Run_boot State r"
  by (simp add: demo_runner_def)

lemma demo_run: "run_of diamond pol True State demo_api demo_dump es demo_graph
    (the (exec_run demo_api demo_dump False es (demo_runner pol)))"
  if "\<not> Option.is_none (exec_run demo_api demo_dump False es (demo_runner pol))"
proof -
  obtain r :: "string runner" where r: "Runner_Impl demo_graph pol True = Inr r" by (simp add: Runner_Impl_def)
  show ?thesis
    unfolding run_of_def using demo_Build r demo_Runner[OF r] exec_run_the[OF that] by auto
qed

definition returned_ok :: "'m runner \<Rightarrow> bool" where
  "returned_ok r = (case result r of Some (Inr s) \<Rightarrow> True | _ \<Rightarrow> False)"

lemma returned_okE: "returned_ok r \<Longrightarrow> (\<And>s. result r = Some (Inr s) \<Longrightarrow> P) \<Longrightarrow> P"
  by (auto simp: returned_ok_def split: option.splits sum.splits)

lemma demo_acyclic: "acyclic (edge_rel demo_graph)"
proof (rule acyclic_subset)
  show "acyclic (measure (\<lambda>v :: string. byte_val (hd v)))" by (rule wf_acyclic) simp
  have "\<forall>e\<in>set (g_edges demo_graph). byte_val (hd (edge_from e)) < byte_val (hd (edge_to e))" by code_simp
  then show "edge_rel demo_graph \<subseteq> measure (\<lambda>v. byte_val (hd v))" by (auto simp: edge_rel_def)
qed

lemma demo_joins: "all_joins demo_graph"
  by code_simp

lemma demo_full_ok:
  "\<not> Option.is_none (exec_run demo_api demo_dump False full_schedule (demo_runner AfterEachNode))"
  by code_simp

section \<open>Properties\<close>

text \<open>What a run that has returned a state has done.\<close>

lemma dag_run_done:
  assumes run: "run_of b pol w s api dump es g t" and joins: "all_joins g" and acyc: "acyclic (edge_rel g)"
    and res: "result t = Some (Inr out)" and nc: "\<not> cancel_flag t"
  shows "distinct (completed_node_ids t) \<and> set (completed_node_ids t) = set (node_ids g) \<and>
     topological g (completed_node_ids t) \<and> (\<forall>v\<in>set (node_ids g). count_list es (ELaunch v) = 1) \<and>
     sink_output g es out \<and> terminal_state t = Some out"
proof -
  from run obtain r where r: "booted g s r" "runner_run api dump False r es t" by (rule run_ofE)
  note B = booted_fields[OF r(1)]
  have g: "graph_of t = g" using runner_run_graph[OF r(2)] B(1) by simp
  obtain F where F: "dag_inv F t" and topo: "topological g (completed_node_ids t)"
    using topological_run[OF r(2) dag_inv_booted[OF r(1) joins]] B(5) g by auto
  note D = dag_invD[OF F]
  have ret: "first_error t = None \<and> out = (case terminal_state t of Some s \<Rightarrow> s | None \<Rightarrow> State)"
    using result_run[OF r(2) runner_inv_booted[OF r(1)] B(9)] res by (auto simp: returns_def split: option.splits)
  have "loop_exits t"
    using result_returned[OF r(2) B(9) runner_inv_booted[OF r(1)]] res ret by (simp add: loop_exits_def)
  then have all: "set (node_ids g) \<subseteq> F" using dag_exit_complete[OF F] ret nc acyc g by simp
  have cpl: "set (completed_node_ids t) = set (node_ids g)" using all D(3,5) g by blast
  have launches: "count_list es (ELaunch v) = 1" if "v \<in> set (node_ids g)" for v
    using times_fired_run[OF r(2), of v] B(11) D(6)[of v] cpl that by simp
  obtain v where v: "v \<in> set (node_ids g)" "\<not> has_outgoing g v"
    by (rule acyclic_sink[OF _ acyc]) (use runner_invD(1)[OF D(1)] g in simp)
  have "v \<in> set (completed_by es)" using completed_run[OF r(2)] B(5) cpl v(1) by auto
  then obtain o' c now where ev: "EFinish v (Returned o') c now \<in> set es"
    by (rule completed_by_event)
  have "terminal_state t \<noteq> None"
    using sink_sets_terminal[OF r(2) ev] uncancelled_run[OF r(2) nc] ev v(2) B(1) by blast
  then have out: "terminal_state t = Some out" using ret by auto
  then have "sink_output g es out" using flow_inv_run[OF r(2,1)] by (auto simp: flow_inv_def)
  with D(4) cpl topo launches out show ?thesis by blast
qed

text \<open>
  C1. On an acyclic graph of joins, a run that returns a state and was not cancelled has completed
  every node exactly once, launched every node exactly once, in an order in which each node comes
  after all its predecessors, and the returned state is a clone of what a node without outgoing
  edges returned.
\<close>

theorem dag_run_complete:
  assumes run: "run_of b pol w s api dump es g t" and joins: "all_joins g" and acyc: "acyclic (edge_rel g)"
    and res: "result t = Some (Inr out)" and nc: "\<not> cancel_flag t"
  shows "distinct (completed_node_ids t) \<and> set (completed_node_ids t) = set (node_ids g) \<and>
     topological g (completed_node_ids t) \<and> (\<forall>v\<in>set (node_ids g). count_list es (ELaunch v) = 1) \<and>
     sink_output g es out"
  using dag_run_done[OF assms] by blast

theorem dag_run_complete_witness:
  "distinct (completed_node_ids (demo_end AfterEachNode)) \<and>
   set (completed_node_ids (demo_end AfterEachNode)) = set (node_ids demo_graph)"
proof -
  have "returned_ok (demo_end AfterEachNode)" "\<not> cancel_flag (demo_end AfterEachNode)" by code_simp+
  then show ?thesis
    using dag_run_complete[OF demo_run[OF demo_full_ok] demo_joins demo_acyclic]
    by (auto simp: demo_end_def elim!: returned_okE)
qed

text \<open>
  C2. On a graph of joins every run ends: whatever the nodes do and whenever the token is
  cancelled, the runner makes at most three steps per node and one to return, and as long as it
  has not returned it has a step to make.
\<close>

theorem dag_run_terminates:
  assumes run: "run_of b pol w s api dump es g t" and joins: "all_joins g"
  shows "length (filter (\<lambda>e. e \<noteq> ECancel) es) \<le> 3 * length (b_nodes b) + 1 \<and>
     (result t = None \<longrightarrow> (\<exists>e t'. e \<noteq> ECancel \<and> runner_step api dump False t e t'))"
proof -
  from run obtain r where r: "booted g s r" "runner_run api dump False r es t" "g_nodes g = b_nodes b" by (rule run_ofE)
  have "runner_inv t" using runner_run_inv[OF r(2)] runner_inv_booted[OF r(1)] by blast
  then show ?thesis
    using dag_run_bounded[OF r(1) joins r(2)] runner_progress[of t api dump False] r(3) by simp
qed

theorem dag_run_terminates_witness: "length (filter (\<lambda>e. e \<noteq> ECancel) full_schedule) \<le> 3 * length (b_nodes diamond) + 1"
  using dag_run_terminates[OF demo_run[OF demo_full_ok] demo_joins] by simp

text \<open>
  C7. At every moment of a run on a graph of joins, cancelled or failing ones included: no node
  was launched twice, no node is logged as completed twice, and a node was only launched after
  all its predecessors had completed.
\<close>

theorem dag_launch_safe:
  assumes run: "run_of b pol w s api dump es g t" and joins: "all_joins g" and v: "v \<in> set (node_ids g)"
  shows "count_list es (ELaunch v) \<le> 1 \<and> distinct (completed_node_ids t) \<and>
     (ELaunch v \<in> set es \<longrightarrow> (\<forall>e\<in>set (in_edges g v). edge_from e \<in> set (completed_node_ids t)))"
proof -
  from run obtain r where r: "booted g s r" "runner_run api dump False r es t" by (rule run_ofE)
  note B = booted_fields[OF r(1)]
  have g: "graph_of t = g" using runner_run_graph[OF r(2)] B(1) by simp
  obtain F where F: "dag_inv F t" using dag_run_inv[OF r(1) joins r(2)] by blast
  have ok: "node_ok g F v (act t v)" using dag_invD(9)[OF F] v g by blast
  have fired: "times_fired (act t v) = count_list es (ELaunch v)"
    using times_fired_run[OF r(2), of v] B(11) by simp
  have "edge_from e \<in> set (completed_node_ids t)" if "ELaunch v \<in> set es" "e \<in> set (in_edges g v)" for e
  proof -
    have "count_list es (ELaunch v) \<noteq> 0" using that(1) by (simp add: count_list_0_iff)
    then show ?thesis using ok fired that(2) dag_invD(3)[OF F] by (auto simp: node_ok_def)
  qed
  then show ?thesis using node_ok_fires_once[OF ok] fired dag_invD(4)[OF F] by auto
qed

theorem dag_launch_safe_witness:
  "count_list full_schedule (ELaunch ''D'') \<le> 1 \<and>
   edge_from ` set (in_edges demo_graph ''D'') \<subseteq> set (completed_node_ids (demo_end AfterEachNode))"
proof -
  have "''D'' \<in> set (node_ids demo_graph)" by code_simp
  moreover have "ELaunch ''D'' \<in> set full_schedule" by (simp add: full_schedule_def visit_def)
  ultimately show ?thesis
    using dag_launch_safe[OF demo_run[OF demo_full_ok, folded demo_end_def] demo_joins, of "''D''"] by blast
qed

text \<open>
  C8. On every compiled graph, with cycles and ANY conditions too, a node is never in flight
  twice, the counter of nodes in flight is the number of live coroutines, and once the run has
  returned every launch of a node has left exactly one start and one end event in the trace.
\<close>

theorem run_brackets:
  assumes run: "run_of b pol w s api dump es g t"
  shows "distinct (map fst (coroutines t)) \<and> in_flight_count t = length (coroutines t) \<and>
     (result t \<noteq> None \<longrightarrow> (\<forall>v. starts v (trace t) = count_list es (ELaunch v) \<and>
        ends v (trace t) = count_list es (ELaunch v)))"
proof -
  from run obtain r where r: "booted g s r" "runner_run api dump False r es t" by (rule run_ofE)
  have inv: "runner_inv t \<and> trace_inv t"
    by (rule trace_sys.run_from_init[OF _ runner_run_trace_sys[OF r(2)]]) (use r(1) in blast)
  have fired: "times_fired (act t v) = count_list es (ELaunch v)" for v
    using times_fired_run[OF r(2), of v] booted_fields(11)[OF r(1)] by simp
  have "starts v (trace t) = count_list es (ELaunch v) \<and> ends v (trace t) = count_list es (ELaunch v)"
    if "result t \<noteq> None" for v
  proof -
    have "coroutines t = []" using runner_invD(7) inv that by blast
    then show ?thesis using trace_invD[of t v] inv fired[of v] by (simp add: spawned_def)
  qed
  then show ?thesis using runner_invD(3,5) inv by blast
qed

theorem run_brackets_witness: "starts ''C'' (trace (demo_end AfterEachNode)) = 1"
proof -
  have "count_list full_schedule (ELaunch ''C'') = 1" by (simp add: full_schedule_def visit_def)
  moreover have "result (demo_end AfterEachNode) \<noteq> None"
  proof -
    have "returned_ok (demo_end AfterEachNode)" by code_simp
    then show ?thesis by (auto elim: returned_okE)
  qed
  ultimately show ?thesis using run_brackets[OF demo_run[OF demo_full_ok]] by (simp add: demo_end_def)
qed

text \<open>
  C9. After a cancellation, on every compiled graph, no edge fires, no node is logged as
  completed, no checkpoint is written and the terminal state is not touched any more, and the
  runner makes at most five steps per node and one more before it has returned.
\<close>

theorem cancel_quiesces:
  assumes run: "run_of b pol w s api dump es g r" and cancelled: "cancel_flag r"
    and more: "runner_run api dump False r es' t"
  shows "outputs_seen t = outputs_seen r \<and>
     length (filter (\<lambda>e. e \<noteq> ECancel) es') \<le> 5 * length (b_nodes b) + 1 \<and>
     (result t = None \<longrightarrow> (\<exists>e t'. e \<noteq> ECancel \<and> runner_step api dump False t e t'))"
proof -
  from run obtain r0 where r0: "booted g s r0" "runner_run api dump False r0 es r" "g_nodes g = b_nodes b" by (rule run_ofE)
  have inv: "runner_inv r" using runner_run_inv[OF r0(2)] runner_inv_booted[OF r0(1)] by blast
  have "graph_of r = g" using runner_run_graph[OF r0(2)] booted_fields(1)[OF r0(1)] by simp
  then show ?thesis
    using cancelled_run[OF more cancelled] cancelled_run_bounded[OF more inv cancelled] r0(3)
      runner_progress[OF runner_run_inv[OF more inv], of api dump False] by simp
qed

definition cancelled_prefix :: "string runner_event list" where
  "cancelled_prefix = visit ''A'' @ [ELaunch ''B'', ECancel]"

definition cancelled_tail :: "string runner_event list" where
  "cancelled_tail = [EBegin ''B'', ELaunch ''C'', EBegin ''C'',
     EFinish ''C'' (Returned State) all_cancelled 1, EFinish ''B'' (Returned State) all_cancelled 2, EReturn]"

definition demo_cancelled :: "string runner" where
  "demo_cancelled = the (exec_run demo_api demo_dump False cancelled_prefix (demo_runner AfterEachNode))"

theorem cancel_quiesces_witness:
  "outputs_seen (the (exec_run demo_api demo_dump False cancelled_tail demo_cancelled)) = outputs_seen demo_cancelled"
proof -
  have 1: "\<not> Option.is_none (exec_run demo_api demo_dump False cancelled_prefix (demo_runner AfterEachNode))" by code_simp
  have 2: "\<not> Option.is_none (exec_run demo_api demo_dump False cancelled_tail demo_cancelled)" by code_simp
  have 3: "cancel_flag demo_cancelled" by code_simp
  show ?thesis
    using cancel_quiesces[OF demo_run[OF 1] _ exec_run_the[of demo_api demo_dump False cancelled_tail]] 2 3
    by (simp add: demo_cancelled_def)
qed

text \<open>
  A node that is ready stays ready under every step but its own launch, on every compiled
  graph: the list \<open>next\<close> that the main loop collects under the lock is still valid when its later
  members are launched.
\<close>

lemma ready_until_launched:
  assumes run: "run_of b pol w s api dump es g r" and ready: "launchable r v"
    and step: "runner_step api dump False r e r'" and other: "e \<noteq> ELaunch v"
  shows "launchable r' v \<and> v \<in> set (next_nodes r')"
proof -
  from run obtain r0 where r0: "booted g s r0" "runner_run api dump False r0 es r" by (rule run_ofE)
  have inv: "runner_inv r" using runner_run_inv[OF r0(2)] runner_inv_booted[OF r0(1)] by blast
  have "launchable r' v" by (rule launchable_stable[OF step inv ready other])
  then show ?thesis by (auto simp: next_nodes_def launchable_def has_key_iff)
qed

text \<open>
  C10. What a run reports: the first exception thrown by a node in the order of the ends of the
  nodes, whatever came after it, and a state if and only if no node threw.
\<close>

theorem run_reports_first_error:
  assumes run: "run_of b pol w s api dump es g t" and res: "result t = Some x"
  shows "case thrown es of e # _ \<Rightarrow> x = Inl e | [] \<Rightarrow> (\<exists>out. x = Inr out)"
proof -
  from run obtain r where r: "booted g s r" "runner_run api dump False r es t" by (rule run_ofE)
  note B = booted_fields[OF r(1)]
  have "x = returns t" using result_run[OF r(2) runner_inv_booted[OF r(1)] B(9)] res by simp
  then show ?thesis
    using first_error_run[OF r(2)] B(4) by (auto simp: returns_def split: list.splits)
qed

definition failing_schedule :: "string runner_event list" where
  "failing_schedule = visit ''A'' @ [ELaunch ''B'', ELaunch ''C'', EBegin ''B'', EBegin ''C'',
     EFinish ''C'' (Threw (OtherException ''boom'')) uncancelled 1,
     EFinish ''B'' (Threw (OtherException ''late'')) uncancelled 2, EReturn]"

theorem run_reports_first_error_witness:
  "\<exists>x. result (the (exec_run demo_api demo_dump False failing_schedule (demo_runner Off))) = Some x \<and>
     x = Inl (OtherException ''boom'')"
proof -
  let ?t = "the (exec_run demo_api demo_dump False failing_schedule (demo_runner Off))"
  have 1: "\<not> Option.is_none (exec_run demo_api demo_dump False failing_schedule (demo_runner Off))" by code_simp
  have "\<not> Option.is_none (result ?t)" by code_simp
  then obtain x where x: "result ?t = Some x" by (auto simp: Option.is_none_def)
  have "thrown failing_schedule = [OtherException ''boom'', OtherException ''late'']"
    by (simp add: failing_schedule_def visit_def thrown_def List.map_filter_def)
  with run_reports_first_error[OF demo_run[OF 1] x] x show ?thesis by simp
qed

text \<open>
  What a node is given: on every compiled graph the input of a running node is a clone of the
  initial state, if the node is an entry node, or a clone of what the source of one of its
  incoming edges returned earlier in the run.
\<close>

lemma input_provenance:
  assumes run: "run_of b pol w s api dump es g t" and live: "(v, ph, inp) \<in> set (coroutines t)"
  shows "(v \<in> set (g_entries g) \<and> inp = Clone s) \<or>
     (\<exists>e\<in>set (g_edges g). edge_to e = v \<and>
        (\<exists>out c now. EFinish (edge_from e) (Returned out) c now \<in> set es \<and> inp = Clone out))"
proof -
  from run obtain r where r: "booted g s r" "runner_run api dump False r es t" by (rule run_ofE)
  have "inp \<in> inbox t v" using live by (auto simp: inbox_def)
  with flow_inv_run[OF r(2,1)] show ?thesis by (auto simp: flow_inv_def produced_def)
qed

lemma booted_run:
  assumes "Build b = Inr g" "Runner_Impl g pol w = Inr r" "exec_run api dump False es (Run_boot s r) = Some t"
  shows "booted g s (Run_boot s r)" "runner_run api dump False (Run_boot s r) es t" "run_of b pol w s api dump es g t"
  using assms Build_wf exec_run_sound[OF assms(3)] unfolding booted_def run_of_def by blast+

lemma dag_run_computed:
  assumes "Build b = Inr g" "Runner_Impl g pol w = Inr r"
    and "exec_run api dump False es (Run_boot s r) = Some t" "obeys api dump beh (Run_boot s r) es"
    and "all_joins g" "acyclic (edge_rel g)" "result t = Some (Inr out)" "\<not> cancel_flag t"
  shows "computed g s beh out"
proof -
  note b = booted_run[OF assms(1-3)]
  have "fed_inv g s beh t" by (rule fed_inv_run[OF assms(3,4) fed_inv_booted[OF b(1)]])
  then show ?thesis using dag_run_done[OF b(3) assms(5-8)] by (simp add: fed_inv_def)
qed

text \<open>
  C4. What a run computes: in every run whose nodes obey a given behaviour, the input of each running node comes from the initial
  state by the behaviours of the nodes along a path of edges, cloned at each edge; a returned state is the output of such a path
  that ends in a node without outgoing edges, or empty; and on an acyclic graph of joins, when nothing was cancelled, it is never
  empty for want of such a path.
\<close>

theorem run_computes:
  assumes build: "Build b = Inr g" "Runner_Impl g pol w = Inr r"
    and run: "exec_run api dump False es (Run_boot s r) = Some t" "obeys api dump beh (Run_boot s r) es"
  shows "(\<forall>v ph inp. (v, ph, inp) \<in> set (coroutines t) \<longrightarrow> fed g s beh v inp) \<and>
    (result t = Some (Inr out) \<longrightarrow> computed g s beh out \<or> out = State) \<and>
    (result t = Some (Inr out) \<and> all_joins g \<and> acyclic (edge_rel g) \<and> \<not> cancel_flag t \<longrightarrow> computed g s beh out)"
proof -
  note b = booted_run[OF build run(1)]
  have inv: "fed_inv g s beh t" by (rule fed_inv_run[OF run fed_inv_booted[OF b(1)]])
  have "fed g s beh v inp" if "(v, ph, inp) \<in> set (coroutines t)" for v ph inp
    using inv that by (auto simp: fed_inv_def inbox_def)
  moreover have "computed g s beh out \<or> out = State" if "result t = Some (Inr out)"
    using result_run[OF b(2) runner_inv_booted[OF b(1)] booted_fields(9)[OF b(1)]] that inv
    by (auto simp: returns_def fed_inv_def split: option.splits)
  ultimately show ?thesis using dag_run_computed[OF build run] by blast
qed

definition demo_behaviour :: "string behaviour" where
  "demo_behaviour v inp out = (case out of
     Returned s \<Rightarrow> UnsafeMessage s = Some (if v = ''B'' then ''b'' else if v = ''C'' then ''c'' else v) | _ \<Rightarrow> False)"

definition demo_output :: "string gstate" where
  "demo_output = (case result (demo_end AfterEachNode) of Some (Inr s) \<Rightarrow> s)"

theorem run_computes_witness: "computed demo_graph State demo_behaviour demo_output"
proof -
  obtain r :: "string runner" where r: "Runner_Impl demo_graph AfterEachNode True = Inr r" by (simp add: Runner_Impl_def)
  have run: "exec_run demo_api demo_dump False full_schedule (Run_boot State r) = Some (demo_end AfterEachNode)"
    using demo_full_ok unfolding demo_end_def demo_Runner[OF r, symmetric] by (auto simp: Option.is_none_def)
  have obeyed: "obeys demo_api demo_dump demo_behaviour (Run_boot State r) full_schedule"
    unfolding demo_Runner[OF r, symmetric] by code_simp
  have "returned_ok (demo_end AfterEachNode)" "\<not> cancel_flag (demo_end AfterEachNode)" by code_simp+
  moreover from this have "result (demo_end AfterEachNode) = Some (Inr demo_output)"
    by (auto simp: demo_output_def elim!: returned_okE)
  ultimately show ?thesis using run_computes[OF demo_Build r run obeyed] demo_joins demo_acyclic by blast
qed

text \<open>
  C11. The checkpoints of an uncancelled run: under \<open>AfterEachNode\<close> one per completed node, under
  \<open>AfterTerminalNode\<close> one per completed node without outgoing edges, under \<open>Off\<close> none; the
  checkpoint of a node lists exactly the nodes completed up to and including it, in order.
\<close>

theorem checkpoints_match_log:
  assumes run: "run_of b pol w s api dump es g t" and nc: "\<not> cancel_flag t"
  shows "map cp_completed_nodes (checkpoints t) =
     map (\<lambda>i. take (Suc i) (completed_node_ids t))
       (filter (\<lambda>i. pol = AfterEachNode \<or> (pol = AfterTerminalNode \<and> \<not> has_outgoing g (completed_node_ids t ! i)))
          [0..<length (completed_node_ids t)])"
proof -
  from run obtain r where r: "booted g s r" "runner_run api dump False r es t" "policy r = pol" by (rule run_ofE)
  note B = booted_fields[OF r(1)]
  have "map cp_completed_nodes (checkpoints r) = checkpoint_log (policy r) (graph_of r) (completed_node_ids r)"
    by (simp add: B checkpoint_log_def)
  from checkpoint_log_run[OF r(2) nc this] show ?thesis
    using runner_run_policy[OF r(2)] runner_run_graph[OF r(2)] r(3) B(1) by (simp add: checkpoint_log_def writes_def)
qed

theorem checkpoints_match_log_witness: "length (checkpoints (demo_end AfterEachNode)) = 4"
proof -
  have "\<not> cancel_flag (demo_end AfterEachNode)" "length (completed_node_ids (demo_end AfterEachNode)) = 4" by code_simp+
  then have "length (map cp_completed_nodes (checkpoints (demo_end AfterEachNode))) = 4"
    using checkpoints_match_log[OF demo_run[OF demo_full_ok], folded demo_end_def] by simp
  then show ?thesis by simp
qed

section \<open>Resuming\<close>

lemma Resume_ok:
  assumes "Resume api parse cp target r0 = Inr r"
  shows "\<exists>m target'. UnsafeMessage target = Some m \<and> ParseFromString api parse (cp_state_bytes cp) target = (True, target') \<and>
     (cp_state_type cp = [] \<or> cp_state_type cp = type_name api m) \<and>
     (\<forall>v\<in>set (cp_completed_nodes cp). FindNode (graph_of r0) v \<noteq> None) \<and>
     r = Resume_seed cp target' (InitActivations r0)"
  using assms unfolding Resume_def
  by (auto split: option.splits if_splits prod.splits bool.splits simp del: not_None_eq)

lemma Runner_Impl_idle: "Runner_Impl g pol w = Inr r \<Longrightarrow> idle_start r"
  using Runner_Impl_fields[of g pol w r] by (simp add: idle_start_def)

text \<open>
  Every checkpoint a run on a graph of joins hands to its writer, cancelled runs included,
  lists distinct nodes of the graph, closed under predecessors, and so can be resumed from if it
  contains every entry node.
\<close>

lemma checkpoint_resumable:
  assumes run: "run_of b pol w s api dump es g t" and joins: "all_joins g" and cp: "cp \<in> set (checkpoints t)"
    and entries: "set (g_entries g) \<subseteq> set (cp_completed_nodes cp)"
  shows "resumable g (cp_completed_nodes cp) \<and> topological g (cp_completed_nodes cp) \<and>
    prefix (cp_completed_nodes cp) (completed_node_ids t) \<and> cp_schema_version cp = kCurrentCheckpointSchemaVersion"
proof -
  from run obtain r where r: "booted g s r" "runner_run api dump False r es t" by (rule run_ofE)
  note B = booted_fields[OF r(1)]
  have g: "graph_of t = g" using runner_run_graph[OF r(2)] B(1) by simp
  obtain F where F: "dag_inv F t" and topo: "topological g (completed_node_ids t)"
    using topological_run[OF r(2) dag_inv_booted[OF r(1) joins]] B(5) g by auto
  have "ckpt_inv t" using ckpt_inv_run[OF r(2)] B(8) by (simp add: ckpt_inv_def)
  then have pre: "cp_completed_nodes cp \<noteq> []" "prefix (cp_completed_nodes cp) (completed_node_ids t)"
      "cp_schema_version cp = kCurrentCheckpointSchemaVersion"
    using cp by (auto simp: ckpt_inv_def)
  have "distinct (cp_completed_nodes cp)" "set (cp_completed_nodes cp) \<subseteq> set (node_ids g)"
    using pre(2) dag_invD(4,5)[OF F] g by (auto simp: prefix_def)
  moreover have "topological g (cp_completed_nodes cp)" by (rule topological_prefix[OF topo pre(2)])
  ultimately show ?thesis
    using pre entries topological_preds_closed by (auto simp: resumable_def)
qed

text \<open>
  Resuming on an acyclic graph of joins from a checkpoint whose nodes are closed under
  predecessors and contain the entry nodes: no node of the checkpoint is launched again, a resumed
  run that returns a state and was not cancelled has launched every other node exactly once and
  has all nodes of the graph in its log, the checkpoint's first.
\<close>

lemma resume_completes_rest:
  assumes build: "Build b = Inr g" and joins: "all_joins g" and acyc: "acyclic (edge_rel g)"
    and fresh: "Runner_Impl g pol w = Inr r0" and resume: "Resume api parse cp target r0 = Inr r"
    and cp: "resumable g (cp_completed_nodes cp)"
    and run: "runner_run api dump True r es t" and res: "result t = Some (Inr out)" and nc: "\<not> cancel_flag t"
  shows "completed_node_ids t = cp_completed_nodes cp @ completed_by es \<and>
     distinct (completed_node_ids t) \<and> set (completed_node_ids t) = set (node_ids g) \<and>
     (\<forall>v\<in>set (node_ids g). count_list es (ELaunch v) = (if v \<in> set (cp_completed_nodes cp) then 0 else 1))"
proof -
  have g0: "graph_of r0 = g" using Runner_Impl_fields(1)[OF fresh] .
  have wf: "wf_graph g" using Build_wf[OF build] by simp
  obtain tgt where r: "r = Resume_seed cp tgt (InitActivations r0)" using Resume_ok[OF resume] by blast
  have inv0: "dag_inv (set (cp_completed_nodes cp)) r"
    unfolding r by (rule Resume_seed_dag_inv) (use g0 wf joins cp Runner_Impl_idle[OF fresh] in simp_all)
  have ne: "cp_completed_nodes cp \<noteq> []" using cp by (simp add: resumable_def)
  have start: "completed_node_ids r = cp_completed_nodes cp" "graph_of r = g" "result r = None"
      "times_fired (act r v) = (if v \<in> set (cp_completed_nodes cp) then 1 else 0)" for v
    using Runner_Impl_fields[OF fresh] wf unfolding r Resume_seed_alt[OF ne]
    by (simp_all add: act_seed_all InitActivations_act)
  have "\<exists>F. dag_inv F t"
    using dag_sys.run_inv[OF runner_run_dag_sys[OF run]] inv0 by blast
  then obtain F where F: "dag_inv F t" ..
  note D = dag_invD[OF F]
  have g: "graph_of t = g" using runner_run_graph[OF run] start(2) by simp
  have err: "first_error t = None"
    using result_run[OF run dag_invD(1)[OF inv0] start(3)] res by (auto simp: returns_def split: option.splits)
  have "loop_exits t"
    using result_returned[OF run start(3) dag_invD(1)[OF inv0]] res err by (simp add: loop_exits_def)
  then have all: "set (node_ids g) \<subseteq> F" using dag_exit_complete[OF F] err nc acyc g by simp
  have cpl: "set (completed_node_ids t) = set (node_ids g)" using all D(3,5) g by blast
  have "count_list es (ELaunch v) = (if v \<in> set (cp_completed_nodes cp) then 0 else 1)" if "v \<in> set (node_ids g)" for v
  proof -
    have "times_fired (act t v) = 1" using D(6) cpl that by blast
    then show ?thesis using times_fired_run[OF run, of v] unfolding start(4) by (cases "v \<in> set (cp_completed_nodes cp)") simp_all
  qed
  with cpl D(4) completed_run[OF run] start(1) show ?thesis by auto
qed

text \<open>A checkpoint of the concrete run, and a run resumed from it.\<close>

definition demo_cp :: checkpoint where
  "demo_cp = hd (checkpoints (demo_end AfterEachNode))"

definition demo_fresh :: "string runner" where
  "demo_fresh = (case Runner_Impl demo_graph Off True of Inr r \<Rightarrow> r)"

definition no_parse :: json_parser where
  "no_parse _ = None"

definition demo_resumed :: "string runner" where
  "demo_resumed = (case Resume demo_api no_parse demo_cp (FromMessage (Some [])) demo_fresh of Inr r \<Rightarrow> r)"

definition resumed_schedule :: "string runner_event list" where
  "resumed_schedule = visit ''B'' @ visit ''C'' @ visit ''D'' @ [EReturn]"

definition ok_of :: "'e + 'a \<Rightarrow> bool" where
  "ok_of x = (case x of Inr _ \<Rightarrow> True | Inl _ \<Rightarrow> False)"

lemma ok_ofE: "ok_of x \<Longrightarrow> x = Inr (case x of Inr y \<Rightarrow> y)"
  by (auto simp: ok_of_def split: sum.splits)

text \<open>
  When the checkpoint does not contain every entry node, \<open>Resume\<close> loses work. With entry
  nodes A and B that both feed C, the checkpoint a run writes after A lists A only; resuming from
  it yields a runner with nothing to launch and nothing in flight, which returns an empty state at
  once, although B and C never ran.
\<close>

definition two_entries :: graph_builder where
  "two_entries = \<lparr>b_nodes = map (\<lambda>v. \<lparr>node_id = v, node_kind = ''stub''\<rparr>) [''A'', ''B'', ''C''],
     b_edges = [demo_edge ''A'' ''C'', demo_edge ''B'' ''C'']\<rparr>"

definition two_graph :: graph where
  "two_graph = (case Build two_entries of Inr g \<Rightarrow> g)"

definition two_fresh :: "string runner" where
  "two_fresh = (case Runner_Impl two_graph AfterEachNode True of Inr r \<Rightarrow> r)"

definition two_after_A :: "string runner" where
  "two_after_A = the (exec_run demo_api demo_dump False (visit ''A'') (Run_boot State two_fresh))"

definition two_resumed :: "string runner" where
  "two_resumed = (case Resume demo_api no_parse (hd (checkpoints two_after_A)) (FromMessage (Some [])) two_fresh of Inr r \<Rightarrow> r)"

definition empty_result :: "'m runner \<Rightarrow> bool" where
  "empty_result r = (case result r of Some (Inr s) \<Rightarrow> IsEmpty s | _ \<Rightarrow> False)"

lemma resume_loses_entries:
  "cp_completed_nodes (hd (checkpoints two_after_A)) = [''A''] \<and>
   ok_of (Resume demo_api no_parse (hd (checkpoints two_after_A)) (FromMessage (Some [])) two_fresh) \<and>
   next_nodes two_resumed = [] \<and> coroutines two_resumed = [] \<and> loop_exits two_resumed \<and>
   empty_result (Run_return two_resumed) \<and> completed_node_ids (Run_return two_resumed) = [''A'']"
proof (intro conjI)
  show "cp_completed_nodes (hd (checkpoints two_after_A)) = [''A'']" by code_simp
  show "ok_of (Resume demo_api no_parse (hd (checkpoints two_after_A)) (FromMessage (Some [])) two_fresh)" by code_simp
  show "next_nodes two_resumed = []" by code_simp
  have "length (coroutines two_resumed) = 0" by code_simp
  then show "coroutines two_resumed = []" by simp
  have "in_flight_count two_resumed = 0" by code_simp
  with \<open>next_nodes two_resumed = []\<close> show "loop_exits two_resumed" by (simp add: loop_exits_def)
  show "empty_result (Run_return two_resumed)" by code_simp
  show "completed_node_ids (Run_return two_resumed) = [''A'']" by code_simp
qed

text \<open>
  \<open>Resume\<close> refuses, with the error the code throws, exactly: a target without a message, a
  checkpoint of another message type, bytes the target's type cannot parse, a completed node
  the graph does not have.
\<close>

lemma Resume_refuses:
  assumes "wf_graph (graph_of r)"
  shows "(\<exists>r'. Resume api parse cp target r = Inr r') \<longleftrightarrow>
     (\<exists>m. UnsafeMessage target = Some m \<and> (cp_state_type cp = [] \<or> cp_state_type cp = type_name api m)) \<and>
     fst (ParseFromString api parse (cp_state_bytes cp) target) \<and>
     set (cp_completed_nodes cp) \<subseteq> node_id ` set (g_nodes (graph_of r))"
proof -
  have found: "(\<forall>v\<in>set (cp_completed_nodes cp). FindNode (graph_of r) v \<noteq> None) \<longleftrightarrow>
      set (cp_completed_nodes cp) \<subseteq> node_id ` set (g_nodes (graph_of r))"
    using FindNode_None[OF assms] by blast
  let ?check = "check_all (\<lambda>v. if FindNode (graph_of r) v = None
      then Some (AgentflowError (''Runner::Resume: unknown node id in checkpoint: '' @ v)) else None) (cp_completed_nodes cp)"
  have chk: "?check = None \<longleftrightarrow> set (cp_completed_nodes cp) \<subseteq> node_id ` set (g_nodes (graph_of r))"
    unfolding found[symmetric] by simp
  obtain ok tgt where p: "ParseFromString api parse (cp_state_bytes cp) target = (ok, tgt)" by fastforce
  show ?thesis
    using chk by (cases "UnsafeMessage target"; cases ok; cases ?check) (simp_all add: Resume_def p del: check_all_None)
qed

text \<open>
  A node that throws does not stop the graph: with an error recorded and other nodes still in
  flight, the runner goes on to launch a node that becomes ready after the error, and completes it.
\<close>

definition three_branches :: graph_builder where
  "three_branches = \<lparr>b_nodes = map (\<lambda>v. \<lparr>node_id = v, node_kind = ''stub''\<rparr>) [''X'', ''Y'', ''A'', ''B''],
     b_edges = [demo_edge ''A'' ''B'']\<rparr>"

definition three_start :: "string runner" where
  "three_start = (case Build three_branches of Inr g \<Rightarrow> (case Runner_Impl g Off True of Inr r \<Rightarrow> Run_boot State r))"

definition error_schedule :: "string runner_event list" where
  "error_schedule = [ELaunch ''X'', ELaunch ''Y'', ELaunch ''A'', EBegin ''X'', EBegin ''Y'', EBegin ''A'',
     EFinish ''X'' (Threw (OtherException ''boom'')) uncancelled 0,
     EFinish ''A'' (Returned (FromMessage (Some ''a''))) uncancelled 0]"

definition three_failed :: "string runner" where
  "three_failed = the (exec_run demo_api demo_dump False error_schedule three_start)"

definition three_later :: "string runner" where
  "three_later = the (exec_run demo_api demo_dump False (visit ''B'') three_failed)"

lemma error_does_not_abort:
  "first_error three_failed = Some (OtherException ''boom'') \<and> map fst (coroutines three_failed) = [''Y''] \<and>
   runner_run demo_api demo_dump False three_start error_schedule three_failed \<and>
   runner_run demo_api demo_dump False three_failed (visit ''B'') three_later \<and>
   completed_node_ids three_later = [''A'', ''B'']"
proof (intro conjI)
  show "first_error three_failed = Some (OtherException ''boom'')" by code_simp
  show "map fst (coroutines three_failed) = [''Y'']" by code_simp
  have "\<not> Option.is_none (exec_run demo_api demo_dump False error_schedule three_start)" by code_simp
  then show "runner_run demo_api demo_dump False three_start error_schedule three_failed"
    unfolding three_failed_def by (rule exec_run_the)
  have "\<not> Option.is_none (exec_run demo_api demo_dump False (visit ''B'') three_failed)" by code_simp
  then show "runner_run demo_api demo_dump False three_failed (visit ''B'') three_later"
    unfolding three_later_def by (rule exec_run_the)
  show "completed_node_ids three_later = [''A'', ''B'']" by code_simp
qed

text \<open>
  C12. \<open>GraphBuilder::Build\<close> accepts exactly the graphs with distinct node ids, edges between known
  nodes, one condition per node and activation group, and an entry node; what it returns has the
  builder's nodes and edges, finds each node by its id and no other, and its entry nodes are those
  without an incoming edge of group 0.
\<close>

theorem Build_compiles:
  "((\<exists>g. Build b = Inr g) \<longleftrightarrow>
     distinct (map node_id (b_nodes b)) \<and>
     (\<forall>e\<in>set (b_edges b). edge_from e \<in> node_id ` set (b_nodes b) \<and> edge_to e \<in> node_id ` set (b_nodes b)) \<and>
     same_group_same_condition (b_edges b) \<and> entry_nodes (b_nodes b) (b_edges b) \<noteq> []) \<and>
   (\<forall>g. Build b = Inr g \<longrightarrow> g_nodes g = b_nodes b \<and> g_edges g = b_edges b \<and>
     g_entries g = entry_nodes (b_nodes b) (b_edges b) \<and>
     (\<forall>nid n. FindNode g nid = Some n \<longleftrightarrow> n \<in> set (b_nodes b) \<and> node_id n = nid))"
  (is "(?ok \<longleftrightarrow> ?conds) \<and> ?rest")
proof (rule conjI)
  have "g_entries g = entry_nodes (b_nodes b) (b_edges b)" if "Build b = Inr g" for g
    using Build_wf[OF that] unfolding wf_graph_def by metis
  moreover have "FindNode g nid = Some n \<longleftrightarrow> n \<in> set (b_nodes b) \<and> node_id n = nid" if "Build b = Inr g" for g nid n
    using FindNode_wf[of g nid n] Build_wf[OF that] by simp
  ultimately show ?rest using Build_wf by blast
  show "?ok \<longleftrightarrow> ?conds"
  proof
    assume ?ok
    then obtain g where g: "Build b = Inr g" ..
    from Build_wf[OF g] have "wf_graph g" "g_nodes g = b_nodes b" "g_edges g = b_edges b" by auto
    then show ?conds unfolding wf_graph_def by metis
  qed (use Build_complete in blast)
qed

theorem Build_compiles_witness: "\<exists>g. Build two_entries = Inr g"
proof -
  have "distinct (map node_id (b_nodes two_entries)) \<and>
     (\<forall>e\<in>set (b_edges two_entries). edge_from e \<in> node_id ` set (b_nodes two_entries) \<and> edge_to e \<in> node_id ` set (b_nodes two_entries)) \<and>
     same_group_same_condition (b_edges two_entries) \<and> entry_nodes (b_nodes two_entries) (b_edges two_entries) \<noteq> []"
    by code_simp
  then show ?thesis by (simp add: Build_compiles)
qed

end
