(* ===== verification/Http_Props.thy ===== *)
theory Http_Props
  imports Http_Parse
begin

text \<open>
  The incremental decoders do not depend on how the stream is cut: frame ends found in a buffer
  stay where they are, so \<open>SseFramer::Feed\<close> is a stream decoder and \<open>ChunkedDecoder::Feed\<close> a
  fallible one. Round trips: chunked bodies, SSE frames, URLs, response heads.
\<close>

section \<open>Searching\<close>

lemma find_sub_first:
  assumes "pat \<noteq> []" and "hd pat \<notin> set pre"
  shows "find_sub pat (pre @ pat @ post) = Some (length pre)"
proof (rule find_sub_SomeI)
  show "\<not> prefix pat (drop j (pre @ pat @ post))" if "j < length pre" for j
  proof
    assume "prefix pat (drop j (pre @ pat @ post))"
    then obtain zs where "drop j (pre @ pat @ post) = pat @ zs" by (auto simp: prefix_def)
    then have "hd (drop j pre @ pat @ post) = hd pat" using that assms(1) by simp
    moreover have "hd (drop j pre @ pat @ post) = pre ! j" using that by (simp add: hd_append hd_drop_conv_nth)
    ultimately show False using assms(2) that by (metis nth_mem)
  qed
qed simp_all

lemma find_sub_absent: "pat \<noteq> [] \<Longrightarrow> hd pat \<notin> set s \<Longrightarrow> find_sub pat s = None"
proof (induction s)
  case (Cons x xs)
  then have "\<not> prefix pat (x # xs)" by (cases pat) auto
  with Cons show ?case by simp
qed simp

lemma SplitOnce_first:
  "sep \<noteq> [] \<Longrightarrow> hd sep \<notin> set pre \<Longrightarrow> SplitOnce (pre @ sep @ post) sep = (pre, post)"
  by (simp add: SplitOnce_def find_sub_first)

lemma SplitOnce_absent: "sep \<noteq> [] \<Longrightarrow> hd sep \<notin> set s \<Longrightarrow> SplitOnce s sep = (s, [])"
  by (simp add: SplitOnce_def find_sub_absent)

section \<open>Frame ends\<close>

lemma find_frame_end_stable:
  assumes "find_frame_end s = Some x"
  shows "find_frame_end (s @ t) = Some x"
proof (cases "find_sub [LF, LF] s")
  case None
  with assms obtain c where c: "find_sub (crlf @ crlf) s = Some c" "x = (c, 4)"
    by (auto simp: find_frame_end_def split: option.splits)
  have c': "find_sub (crlf @ crlf) (s @ t) = Some c" by (rule find_sub_append[OF c(1)])
  have "c + 4 \<le> length s" using find_sub_Some_le[OF c(1)] by (simp add: crlf_def)
  moreover have "length s < e + 2" if "find_sub [LF, LF] (s @ t) = Some e" for e
    using find_sub_append_new[OF None that] by simp
  ultimately show ?thesis
    using c(2) c' by (fastforce simp: find_frame_end_def split: option.splits)
next
  case (Some e)
  have e': "find_sub [LF, LF] (s @ t) = Some e" by (rule find_sub_append[OF Some])
  show ?thesis
  proof (cases "find_sub (crlf @ crlf) s")
    case (Some c)
    from find_sub_append[OF this] e' \<open>find_sub [LF, LF] s = Some e\<close> Some assms show ?thesis
      by (simp add: find_frame_end_def)
  next
    case None
    then have x: "x = (e, 2)" using \<open>find_sub [LF, LF] s = Some e\<close> assms by (simp add: find_frame_end_def)
    have "\<not> c < e" if c: "find_sub (crlf @ crlf) (s @ t) = Some c" for c
    proof
      assume "c < e"
      have "length s < c + 4" using find_sub_append_new[OF None c] by (simp add: crlf_def)
      moreover have "e + 2 \<le> length s" using find_sub_Some_le[OF \<open>find_sub [LF, LF] s = Some e\<close>] by simp
      ultimately have "e = Suc c" using \<open>c < e\<close> by simp
      have "prefix [LF, LF] (drop e (s @ t))" "prefix (crlf @ crlf) (drop c (s @ t))"
        using find_sub_Some_prefix e' c by blast+
      then obtain u v where "drop e (s @ t) = LF # LF # u" "drop c (s @ t) = CR # LF # CR # LF # v"
        by (auto simp: prefix_def crlf_def)
      then have "LF # LF # u = LF # CR # LF # v"
        using \<open>e = Suc c\<close> by (metis drop_Suc tl_drop list.sel(3))
      then show False by (simp add: LF_def CR_def)
    qed
    then show ?thesis using e' x by (auto simp: find_frame_end_def split: option.splits)
  qed
qed

section \<open>The SSE framer is a stream decoder\<close>

lemma sse_loop_None: "find_frame_end (sse_buf s) = None \<Longrightarrow> sse_loop s = (s, [])"
  by (subst sse_loop.simps) simp

lemma sse_loop_Some:
  "find_frame_end (sse_buf s) = Some (e, k) \<Longrightarrow>
     sse_loop s = (let (seen, out) = deliver_payload (FramePayload (take e (sse_buf s))) (saw_done s);
                       (s', out') = sse_loop \<lparr>sse_buf = drop (e + k) (sse_buf s), saw_done = seen\<rparr>
                   in (s', out @ out'))"
  by (subst sse_loop.simps) simp

lemma sse_loop_append:
  "sse_loop (s\<lparr>sse_buf := sse_buf s @ t\<rparr>) =
     (let (s', o1) = sse_loop s; (s'', o2) = sse_loop (s'\<lparr>sse_buf := sse_buf s' @ t\<rparr>) in (s'', o1 @ o2))"
proof (induction s rule: sse_loop.induct)
  case (1 s)
  show ?case
  proof (cases "find_frame_end (sse_buf s)")
    case None
    then show ?thesis by (simp add: sse_loop_None Let_def split: prod.splits)
  next
    case (Some x)
    obtain e k where x: "x = (e, k)" by (cases x)
    note le = find_frame_end_le[OF Some[unfolded x]]
    obtain seen out where dp: "deliver_payload (FramePayload (take e (sse_buf s))) (saw_done s) = (seen, out)" "(seen, out) = deliver_payload (FramePayload (take e (sse_buf s))) (saw_done s)" by (metis surj_pair)
    have IH: "sse_loop \<lparr>sse_buf = drop (e + k) (sse_buf s) @ t, saw_done = seen\<rparr> =
       (let (s', o1) = sse_loop \<lparr>sse_buf = drop (e + k) (sse_buf s), saw_done = seen\<rparr>;
            (s'', o2) = sse_loop (s'\<lparr>sse_buf := sse_buf s' @ t\<rparr>) in (s'', o1 @ o2))"
      using 1[OF Some x[symmetric] refl dp(2)] by simp
    have longer: "find_frame_end (sse_buf s @ t) = Some (e, k)"
      using find_frame_end_stable[OF Some] x by simp
    have "sse_loop (s\<lparr>sse_buf := sse_buf s @ t\<rparr>) =
        (let (s', out') = sse_loop \<lparr>sse_buf = drop (e + k) (sse_buf s) @ t, saw_done = seen\<rparr> in (s', out @ out'))"
      using sse_loop_Some[of "s\<lparr>sse_buf := sse_buf s @ t\<rparr>" e k] longer le dp(1) by simp
    then show ?thesis
      unfolding IH using sse_loop_Some[of s e k] Some x dp(1) by (simp add: Let_def split: prod.splits)
  qed
qed

definition sse_idle :: "sse_framer \<Rightarrow> bool" where
  "sse_idle s \<longleftrightarrow> find_frame_end (sse_buf s) = None"

lemma sse_loop_idle: "sse_idle (fst (sse_loop s))"
proof (induction s rule: sse_loop.induct)
  case (1 s)
  show ?case
  proof (cases "find_frame_end (sse_buf s)")
    case None
    then show ?thesis by (simp add: sse_loop_None sse_idle_def)
  next
    case (Some x)
    obtain e k where x: "x = (e, k)" by (cases x)
    obtain seen out where dp: "deliver_payload (FramePayload (take e (sse_buf s))) (saw_done s) = (seen, out)" "(seen, out) = deliver_payload (FramePayload (take e (sse_buf s))) (saw_done s)" by (metis surj_pair)
    from 1[OF Some x[symmetric] refl dp(2)] show ?thesis
      using sse_loop_Some[of s e k] Some x dp(1) by (simp add: Let_def split: prod.splits)
  qed
qed

interpretation sse: stream_decoder SseFramer_Feed sse_idle
proof unfold_locales
  fix s xs ys
  assume idle: "sse_idle s"
  then show "SseFramer_Feed s [] = (s, [])"
    by (simp add: SseFramer_Feed_def sse_idle_def sse_loop_None)
  show "SseFramer_Feed s (xs @ ys) = (let (s', o1) = SseFramer_Feed s xs; (s'', o2) = SseFramer_Feed s' ys in (s'', o1 @ o2))"
    using sse_loop_append[of "s\<lparr>sse_buf := sse_buf s @ xs\<rparr>" ys] by (simp add: SseFramer_Feed_def)
  show "sse_idle (fst (SseFramer_Feed s xs))"
    by (simp add: SseFramer_Feed_def sse_loop_idle)
qed

section \<open>The chunked decoder is a fallible decoder\<close>

definition size_line :: "string \<Rightarrow> nat option" where
  "size_line line = from_chars_hex (fst (SplitOnce line '';''))"

lemma cd_update_commute: "d\<lparr>cd_remaining := a, cd_buf := b\<rparr> = d\<lparr>cd_buf := b, cd_remaining := a\<rparr>"
  by (cases d) simp

lemma cd_in_chunk_commute:
  "d\<lparr>cd_remaining := a, cd_in_chunk := c, cd_buf := b\<rparr> = d\<lparr>cd_buf := b, cd_remaining := a, cd_in_chunk := c\<rparr>"
  by (cases d) simp

lemma cd_complete_commute: "d\<lparr>cd_complete := c, cd_buf := b\<rparr> = d\<lparr>cd_buf := b, cd_complete := c\<rparr>"
  by (cases d) simp

lemma map_sum_bind:
  "map_sum id (\<lambda>(d2, o2). (d2, c @ o2)) (bind_status r (\<lambda>(d1, o1). map_sum id (\<lambda>(d2, o2). (d2, o1 @ o2)) (f d1))) =
   bind_status (map_sum id (\<lambda>(d2, o2). (d2, c @ o2)) r) (\<lambda>(d1, o1). map_sum id (\<lambda>(d2, o2). (d2, o1 @ o2)) (f d1))"
proof (cases r)
  case (Inr x)
  then show ?thesis by (cases x; cases "f (fst x)") auto
qed simp

lemma decode_complete: "cd_complete d \<Longrightarrow> decode_loop d = Inr (d, [])"
  by (subst decode_loop.simps) simp

lemma decode_short:
  assumes "\<not> cd_complete d" "cd_in_chunk d" "length (cd_buf d) < cd_remaining d"
  shows "decode_loop d = Inr (d\<lparr>cd_buf := [], cd_remaining := cd_remaining d - length (cd_buf d)\<rparr>, cd_buf d)"
  using assms by (subst decode_loop.simps) (simp add: Let_def min_def)

lemma decode_body:
  assumes "\<not> cd_complete d" "cd_in_chunk d" "cd_remaining d \<le> length (cd_buf d)"
  shows "decode_loop d =
     (let rest = drop (cd_remaining d) (cd_buf d) in
      if length rest < 2 then Inr (d\<lparr>cd_buf := rest, cd_remaining := 0\<rparr>, take (cd_remaining d) (cd_buf d))
      else map_sum id (\<lambda>(d2, out2). (d2, take (cd_remaining d) (cd_buf d) @ out2))
             (decode_loop (d\<lparr>cd_buf := drop 2 rest, cd_remaining := 0, cd_in_chunk := False\<rparr>)))"
  using assms by (subst decode_loop.simps) (simp add: Let_def min_absorb2 cd_update_commute)

lemma decode_size:
  assumes "\<not> cd_complete d" "\<not> cd_in_chunk d"
  shows "decode_loop d =
     (case find_sub crlf (cd_buf d) of
        None \<Rightarrow> Inr (d, [])
      | Some eol \<Rightarrow>
         (case size_line (take eol (cd_buf d)) of
            None \<Rightarrow> Inl (Status InvalidArgument ''malformed chunk size'')
          | Some n \<Rightarrow>
              if n = 0 then Inr (d\<lparr>cd_buf := drop (eol + 2) (cd_buf d), cd_complete := True\<rparr>, [])
              else decode_loop (d\<lparr>cd_buf := drop (eol + 2) (cd_buf d), cd_remaining := n, cd_in_chunk := True\<rparr>)))"
  using assms by (subst decode_loop.simps) (simp add: Let_def size_line_def split: option.splits)


lemma decode_loop_append:
  "decode_loop (d\<lparr>cd_buf := cd_buf d @ t\<rparr>) =
     bind_status (decode_loop d) (\<lambda>(d1, o1). map_sum id (\<lambda>(d2, o2). (d2, o1 @ o2)) (decode_loop (d1\<lparr>cd_buf := cd_buf d1 @ t\<rparr>)))"
proof (induction "length (cd_buf d)" arbitrary: d rule: less_induct)
  case less
  let ?dt = "d\<lparr>cd_buf := cd_buf d @ t\<rparr>"
  consider (complete) "cd_complete d" | (short) "\<not> cd_complete d" "cd_in_chunk d" "length (cd_buf d) < cd_remaining d"
    | (body) "\<not> cd_complete d" "cd_in_chunk d" "cd_remaining d \<le> length (cd_buf d)"
    | (size) "\<not> cd_complete d" "\<not> cd_in_chunk d" by linarith
  then show ?case
  proof cases
    case complete
    then show ?thesis by (simp add: decode_complete)
  next
    case short
    let ?d1 = "d\<lparr>cd_buf := t, cd_remaining := cd_remaining d - length (cd_buf d)\<rparr>"
    have "decode_loop ?dt = map_sum id (\<lambda>(d2, o2). (d2, cd_buf d @ o2)) (decode_loop ?d1)"
    proof (cases "length t < cd_remaining d - length (cd_buf d)")
      case True
      then show ?thesis using short decode_short[of ?dt] decode_short[of ?d1] by (simp add: cd_update_commute)
    next
      case False
      then show ?thesis
        using short decode_body[of ?dt] decode_body[of ?d1]
        by (cases "decode_loop (d\<lparr>cd_buf := drop (2 + (cd_remaining d - length (cd_buf d))) t, cd_remaining := 0, cd_in_chunk := False\<rparr>)")
          (auto simp: Let_def cd_update_commute split: if_splits)
    qed
    then show ?thesis using decode_short[OF short] by (simp add: cd_update_commute)
  next
    case body
    let ?c = "take (cd_remaining d) (cd_buf d)" let ?rest = "drop (cd_remaining d) (cd_buf d)"
    show ?thesis
    proof (cases "length ?rest < 2")
      case True
      let ?d1 = "d\<lparr>cd_buf := ?rest @ t, cd_remaining := 0\<rparr>"
      have "decode_loop ?dt = map_sum id (\<lambda>(d2, o2). (d2, ?c @ o2)) (decode_loop ?d1)"
        using body decode_body[of ?dt] decode_body[of ?d1]
        by (cases "decode_loop (d\<lparr>cd_buf := drop 2 (?rest @ t), cd_remaining := 0, cd_in_chunk := False\<rparr>)")
          (auto simp: Let_def cd_update_commute split: if_splits)
      then show ?thesis using decode_body[OF body] True by (simp add: Let_def cd_update_commute)
    next
      case False
      let ?d1 = "d\<lparr>cd_buf := drop 2 ?rest, cd_remaining := 0, cd_in_chunk := False\<rparr>"
      have IH: "decode_loop (?d1\<lparr>cd_buf := cd_buf ?d1 @ t\<rparr>) =
          bind_status (decode_loop ?d1) (\<lambda>(d1, o1). map_sum id (\<lambda>(d2, o2). (d2, o1 @ o2)) (decode_loop (d1\<lparr>cd_buf := cd_buf d1 @ t\<rparr>)))"
        by (rule less) (use False in auto)
      have "decode_loop ?dt = map_sum id (\<lambda>(d2, o2). (d2, ?c @ o2)) (decode_loop (?d1\<lparr>cd_buf := cd_buf ?d1 @ t\<rparr>))"
      proof -
        have "cd_remaining d + 2 \<le> length (cd_buf d)" using False body(3) by simp
        then have "\<not> length (drop (cd_remaining ?dt) (cd_buf ?dt)) < 2" "drop 2 (?rest @ t) = drop 2 ?rest @ t" by auto
        then show ?thesis using body decode_body[of ?dt] by (simp add: Let_def cd_in_chunk_commute)
      qed
      moreover have "decode_loop d = map_sum id (\<lambda>(d2, o2). (d2, ?c @ o2)) (decode_loop ?d1)"
        using decode_body[OF body] False by (simp add: Let_def)
      ultimately show ?thesis unfolding IH by (simp add: map_sum_bind)
    qed
  next
    case size
    show ?thesis
    proof (cases "find_sub crlf (cd_buf d)")
      case None
      then show ?thesis using decode_size[OF size] by (simp add: sum.map_id0)
    next
      case (Some eol)
      have le: "eol + 2 \<le> length (cd_buf d)" using find_sub_Some_le[OF Some] by (simp add: crlf_def)
      have longer: "find_sub crlf (cd_buf d @ t) = Some eol" by (rule find_sub_append[OF Some])
      show ?thesis
      proof (cases "size_line (take eol (cd_buf d))")
        case None
        then show ?thesis using decode_size[OF size] decode_size[of ?dt] size Some longer le by simp
      next
        case (Some n)
        let ?d1 = "d\<lparr>cd_buf := drop (eol + 2) (cd_buf d), cd_remaining := n, cd_in_chunk := True\<rparr>"
        have IH: "decode_loop (?d1\<lparr>cd_buf := cd_buf ?d1 @ t\<rparr>) =
            bind_status (decode_loop ?d1) (\<lambda>(d1, o1). map_sum id (\<lambda>(d2, o2). (d2, o1 @ o2)) (decode_loop (d1\<lparr>cd_buf := cd_buf d1 @ t\<rparr>)))"
          by (rule less) (use le in auto)
        show ?thesis
        proof (cases "n = 0")
          case True
          then show ?thesis
            using decode_size[OF size] decode_size[of ?dt] size Some \<open>find_sub crlf (cd_buf d) = Some eol\<close> longer le
            by (simp add: decode_complete cd_complete_commute)
        next
          case False
          have "decode_loop d = decode_loop ?d1" "decode_loop ?dt = decode_loop (?d1\<lparr>cd_buf := cd_buf ?d1 @ t\<rparr>)"
            using False decode_size[OF size] decode_size[of ?dt] size Some \<open>find_sub crlf (cd_buf d) = Some eol\<close> longer le
            by (simp_all add: cd_in_chunk_commute)
          then show ?thesis unfolding IH by simp
        qed
      qed
    qed
  qed
qed


definition decoder_idle :: "chunked_decoder \<Rightarrow> bool" where
  "decoder_idle d \<longleftrightarrow> decode_loop d = Inr (d, [])"

lemma decode_loop_idle: "decode_loop d = Inr (d1, out) \<Longrightarrow> decoder_idle d1"
proof (induction "length (cd_buf d)" arbitrary: d d1 out rule: less_induct)
  case less
  consider (complete) "cd_complete d" | (short) "\<not> cd_complete d" "cd_in_chunk d" "length (cd_buf d) < cd_remaining d"
    | (body) "\<not> cd_complete d" "cd_in_chunk d" "cd_remaining d \<le> length (cd_buf d)"
    | (size) "\<not> cd_complete d" "\<not> cd_in_chunk d" by linarith
  then show ?case
  proof cases
    case complete
    then show ?thesis using less.prems by (auto simp: decode_complete decoder_idle_def)
  next
    case short
    let ?d1 = "d\<lparr>cd_buf := [], cd_remaining := cd_remaining d - length (cd_buf d)\<rparr>"
    have "d1 = ?d1" using less.prems decode_short[OF short] by auto
    then show ?thesis using decode_short[of ?d1] short by (simp add: decoder_idle_def)
  next
    case body
    let ?rest = "drop (cd_remaining d) (cd_buf d)"
    show ?thesis
    proof (cases "length ?rest < 2")
      case True
      let ?d1 = "d\<lparr>cd_buf := ?rest, cd_remaining := 0\<rparr>"
      have "d1 = ?d1" using less.prems decode_body[OF body] True by auto
      then show ?thesis using decode_body[of ?d1] body True by (simp add: decoder_idle_def)
    next
      case False
      let ?d2 = "d\<lparr>cd_buf := drop 2 ?rest, cd_remaining := 0, cd_in_chunk := False\<rparr>"
      obtain o2 where "decode_loop ?d2 = Inr (d1, o2)"
        using less.prems decode_body[OF body] False by (cases "decode_loop ?d2") auto
      then show ?thesis using less.hyps[of ?d2] False by auto
    qed
  next
    case size
    show ?thesis
    proof (cases "find_sub crlf (cd_buf d)")
      case None
      then show ?thesis using less.prems decode_size[OF size] by (auto simp: decoder_idle_def)
    next
      case (Some eol)
      have le: "eol + 2 \<le> length (cd_buf d)" using find_sub_Some_le[OF Some] by (simp add: crlf_def)
      obtain n where n: "size_line (take eol (cd_buf d)) = Some n"
        using less.prems decode_size[OF size] Some by (auto split: option.splits)
      show ?thesis
      proof (cases "n = 0")
        case True
        then have "cd_complete d1" using less.prems decode_size[OF size] Some n by auto
        then show ?thesis by (simp add: decoder_idle_def decode_complete)
      next
        case False
        let ?d2 = "d\<lparr>cd_buf := drop (eol + 2) (cd_buf d), cd_remaining := n, cd_in_chunk := True\<rparr>"
        have "decode_loop ?d2 = Inr (d1, out)" using less.prems decode_size[OF size] Some n False by simp
        then show ?thesis using less.hyps[of ?d2] le by auto
      qed
    qed
  qed
qed

interpretation chunks: fallible_decoder ChunkedDecoder_Feed decoder_idle
proof unfold_locales
  fix s s' xs ys out
  assume idle: "decoder_idle s"
  then show "ChunkedDecoder_Feed s [] = Inr (s, [])"
    by (simp add: ChunkedDecoder_Feed_def decoder_idle_def)
  show "ChunkedDecoder_Feed s (xs @ ys) = bind_status (ChunkedDecoder_Feed s xs)
      (\<lambda>(s', o1). map_sum id (\<lambda>(s'', o2). (s'', o1 @ o2)) (ChunkedDecoder_Feed s' ys))"
    using decode_loop_append[of "s\<lparr>cd_buf := cd_buf s @ xs\<rparr>" ys] by (simp add: ChunkedDecoder_Feed_def)
  show "decoder_idle s'" if "ChunkedDecoder_Feed s xs = Inr (s', out)"
    using that by (simp add: ChunkedDecoder_Feed_def decode_loop_idle)
qed


section \<open>Encoders\<close>

text \<open>What a conforming peer sends: hexadecimal sizes, chunk bodies, the zero chunk.\<close>

definition hex_char :: "nat \<Rightarrow> char" where
  "hex_char d = (if d < 10 then char_of (48 + d) else char_of (87 + d))"

fun nat_to_hex :: "nat \<Rightarrow> string" where
  "nat_to_hex n = (if n < 16 then [hex_char n] else nat_to_hex (n div 16) @ [hex_char (n mod 16)])"

declare nat_to_hex.simps [simp del]

definition encode_chunk :: "string \<Rightarrow> string" where
  "encode_chunk c = nat_to_hex (length c) @ crlf @ c @ crlf"

definition encode_body :: "string list \<Rightarrow> string" where
  "encode_body cs = concat (map encode_chunk cs) @ ''0'' @ crlf @ crlf"

lemma hex_char_val:
  assumes "d < 16"
  shows "is_xdigit (hex_char d)" "xdigit_value (hex_char d) = d" "hex_char d \<noteq> CR" "hex_char d \<noteq> CHR '';''"
proof -
  have "byte_val (hex_char d) = (if d < 10 then 48 + d else 87 + d)"
    using assms by (simp add: hex_char_def byte_val_def)
  then show "is_xdigit (hex_char d)" "xdigit_value (hex_char d) = d"
    using assms by (simp_all add: is_xdigit_def xdigit_value_def ascii_isdigit_def)
  then show "hex_char d \<noteq> CR" "hex_char d \<noteq> CHR '';''"
    by (auto simp: is_xdigit_def ascii_isdigit_def byte_val_def CR_def)
qed

lemma hex_value_snoc: "hex_value (s @ [c]) = hex_value s * 16 + xdigit_value c"
  by (simp add: hex_value_def)

lemma nat_to_hex_val:
  "hex_value (nat_to_hex n) = n \<and> (\<forall>c\<in>set (nat_to_hex n). is_xdigit c \<and> c \<noteq> CR \<and> c \<noteq> CHR '';'') \<and> nat_to_hex n \<noteq> []"
proof (induction n rule: nat_to_hex.induct)
  case (1 n)
  show ?case
  proof (cases "n < 16")
    case True
    then show ?thesis
      using hex_char_val[OF True] by (simp add: nat_to_hex.simps[of n] hex_value_def)
  next
    case False
    then show ?thesis
      using 1 hex_char_val[of "n mod 16"] by (simp add: nat_to_hex.simps[of n] hex_value_snoc)
  qed
qed

lemma size_line_hex:
  assumes "int n < 2 ^ 64"
  shows "size_line (nat_to_hex n) = Some n"
proof -
  let ?h = "nat_to_hex n"
  note H = nat_to_hex_val[of n]
  have split: "SplitOnce ?h '';'' = (?h, [])" by (rule SplitOnce_absent) (use H in auto)
  have tw: "takeWhile is_xdigit ?h = ?h" using H by (simp add: takeWhile_eq_all_conv)
  show ?thesis
    unfolding size_line_def split fst_conv from_chars_hex_def tw Let_def using H assms by simp
qed

lemma decode_encode_chunk:
  assumes "c \<noteq> []" "int (length c) < 2 ^ 64"
  shows "decode_loop \<lparr>cd_buf = encode_chunk c @ rest, cd_remaining = 0, cd_in_chunk = False, cd_complete = False\<rparr> =
     map_sum id (\<lambda>(d, out). (d, c @ out))
       (decode_loop \<lparr>cd_buf = rest, cd_remaining = 0, cd_in_chunk = False, cd_complete = False\<rparr>)"
proof -
  let ?h = "nat_to_hex (length c)"
  have "CR \<notin> set ?h" using nat_to_hex_val[of "length c"] by blast
  then have "find_sub crlf (?h @ crlf @ (c @ crlf @ rest)) = Some (length ?h)"
    by (intro find_sub_first) (simp_all add: crlf_def)
  then have "decode_loop \<lparr>cd_buf = encode_chunk c @ rest, cd_remaining = 0, cd_in_chunk = False, cd_complete = False\<rparr> =
      decode_loop \<lparr>cd_buf = c @ crlf @ rest, cd_remaining = length c, cd_in_chunk = True, cd_complete = False\<rparr>"
    using assms decode_size[of "\<lparr>cd_buf = encode_chunk c @ rest, cd_remaining = 0, cd_in_chunk = False, cd_complete = False\<rparr>"]
    by (simp add: encode_chunk_def size_line_hex) (simp add: crlf_def)
  also have "\<dots> = map_sum id (\<lambda>(d, out). (d, c @ out))
       (decode_loop \<lparr>cd_buf = rest, cd_remaining = 0, cd_in_chunk = False, cd_complete = False\<rparr>)"
    using decode_body[of "\<lparr>cd_buf = c @ crlf @ rest, cd_remaining = length c, cd_in_chunk = True, cd_complete = False\<rparr>"]
    by (simp add: crlf_def)
  finally show ?thesis .
qed

definition body_done :: "chunked_decoder" where
  "body_done = \<lparr>cd_buf = crlf, cd_remaining = 0, cd_in_chunk = False, cd_complete = True\<rparr>"

lemma decode_encode_body:
  "\<forall>c\<in>set cs. c \<noteq> [] \<and> int (length c) < 2 ^ 64 \<Longrightarrow>
     ChunkedDecoder_Feed new_decoder (encode_body cs) = Inr (body_done, concat cs)"
proof -
  have "decode_loop \<lparr>cd_buf = encode_body cs, cd_remaining = 0, cd_in_chunk = False, cd_complete = False\<rparr> =
      Inr (body_done, concat cs)" if "\<forall>c\<in>set cs. c \<noteq> [] \<and> int (length c) < 2 ^ 64"
    using that
  proof (induction cs)
    case Nil
    have "find_sub crlf (''0'' @ crlf @ crlf) = Some 1" using find_sub_first[of crlf "''0''" crlf] by (simp add: crlf_def CR_def)
    moreover have "size_line ''0'' = Some 0" by code_simp
    ultimately show ?case
      using decode_size[of "\<lparr>cd_buf = encode_body [], cd_remaining = 0, cd_in_chunk = False, cd_complete = False\<rparr>"]
      by (simp add: encode_body_def body_done_def) (simp add: crlf_def)
  next
    case (Cons c cs)
    then show ?case using decode_encode_chunk[of c "encode_body cs"] by (simp add: encode_body_def)
  qed
  moreover assume "\<forall>c\<in>set cs. c \<noteq> [] \<and> int (length c) < 2 ^ 64"
  ultimately show ?thesis by (simp add: ChunkedDecoder_Feed_def new_decoder_def)
qed

lemma new_decoder_idle: "decoder_idle new_decoder"
  using decode_size[of new_decoder] by (simp add: decoder_idle_def new_decoder_def crlf_def)


section \<open>Lines\<close>

lemma find_sub_skip:
  assumes "pat \<noteq> []" and "hd pat \<notin> set pre"
  shows "find_sub pat (pre @ s) = map_option (\<lambda>i. length pre + i) (find_sub pat s)"
  using assms(2)
proof (induction pre)
  case Nil
  then show ?case by (simp add: option.map_ident)
next
  case (Cons x xs)
  then have "\<not> prefix pat (x # xs @ s)" using assms(1) by (cases pat) auto
  with Cons show ?case by (cases "find_sub pat s") auto
qed

lemma find_sub_skip_sep:
  assumes sep: "sep \<noteq> []" "hd sep \<notin> set (tl sep)" and l: "l \<noteq> []" "hd sep \<notin> set l"
  shows "find_sub (sep @ sep) (sep @ l @ s) = map_option (\<lambda>i. length sep + i) (find_sub (sep @ sep) (l @ s))"
proof -
  obtain c cs where c: "sep = c # cs" using sep(1) by (cases sep) auto
  have "\<not> prefix (sep @ sep) (sep @ l @ s)"
    using l c by (cases l) auto
  then have "find_sub (sep @ sep) (sep @ l @ s) = map_option Suc (find_sub (sep @ sep) (cs @ l @ s))"
    by (simp add: c)
  also have "find_sub (sep @ sep) (cs @ l @ s) = map_option (\<lambda>i. length cs + i) (find_sub (sep @ sep) (l @ s))"
    by (rule find_sub_skip) (use sep c in auto)
  finally show ?thesis by (simp add: c option.map_comp comp_def)
qed

text \<open>The first double separator after lines that are neither empty nor contain its first byte.\<close>

lemma find_double_sep:
  assumes sep: "sep \<noteq> []" "hd sep \<notin> set (tl sep)" and "ls \<noteq> []" "\<forall>l\<in>set ls. l \<noteq> [] \<and> hd sep \<notin> set l"
  shows "find_sub (sep @ sep) (join_with sep ls @ sep @ sep @ rest) = Some (length (join_with sep ls))"
  using assms(3,4)
proof (induction ls)
  case (Cons l ls)
  have hd: "hd (sep @ sep) = hd sep" using sep(1) by simp
  have skip: "find_sub (sep @ sep) (l @ s) = map_option (\<lambda>i. length l + i) (find_sub (sep @ sep) s)" for s
    by (rule find_sub_skip) (use sep(1) Cons.prems hd in auto)
  show ?case
  proof (cases ls)
    case Nil
    then show ?thesis using find_sub_first[of "sep @ sep" l rest] sep(1) Cons.prems hd by simp
  next
    case (Cons l' ls')
    have join: "join_with sep (l # ls) = l @ sep @ join_with sep ls" by (simp add: Cons)
    obtain r where r: "join_with sep ls = l' @ r" by (cases ls') (auto simp: Cons)
    have "find_sub (sep @ sep) (sep @ l' @ r @ sep @ sep @ rest) =
        map_option (\<lambda>i. length sep + i) (find_sub (sep @ sep) (l' @ r @ sep @ sep @ rest))"
      by (rule find_sub_skip_sep) (use sep \<open>\<forall>x\<in>set (l # ls). x \<noteq> [] \<and> hd sep \<notin> set x\<close> Cons in auto)
    moreover have "find_sub (sep @ sep) (join_with sep ls @ sep @ sep @ rest) = Some (length (join_with sep ls))"
      by (rule Cons.IH) (use \<open>\<forall>x\<in>set (l # ls). x \<noteq> [] \<and> hd sep \<notin> set x\<close> Cons in auto)
    ultimately show ?thesis unfolding join using r skip by simp
  qed
qed simp

section \<open>SSE frames\<close>

definition sse_frame :: "string list \<Rightarrow> string" where
  "sse_frame ls = join_with [LF] (map (\<lambda>l. ''data: '' @ l) ls) @ [LF, LF]"

definition plain_line :: "string \<Rightarrow> bool" where
  "plain_line l \<longleftrightarrow> LF \<notin> set l \<and> CR \<notin> set l"

lemma add_data_line_data:
  assumes "plain_line l"
  shows "add_data_line (''data: '' @ l) payload = (if payload = [] then [] else payload @ [LF]) @ l"
proof -
  have "CR \<notin> set (''data: '' @ l)" using assms by (auto simp: plain_line_def CR_def)
  then have "strip_cr (''data: '' @ l) = ''data: '' @ l"
    unfolding strip_cr_def by (metis last_in_set)
  moreover have "SplitOnce (''data: '' @ l) '':'' = (''data'', '' '' @ l)"
    using SplitOnce_first[of "'':''" "''data''" "'' '' @ l"] by simp
  ultimately show ?thesis by (simp add: add_data_line_def strip_space_def)
qed

lemma frame_payload_line:
  assumes "LF \<notin> set l" "l \<noteq> []"
  shows "frame_payload_loop l p = add_data_line l p"
    and "frame_payload_loop (l @ [LF] @ s) p = frame_payload_loop s (add_data_line l p)"
proof -
  have "frame_payload_loop [] q = q" for q by (subst frame_payload_loop.simps) simp
  then show "frame_payload_loop l p = add_data_line l p"
    using assms SplitOnce_absent[of "[LF]" l] by (subst frame_payload_loop.simps) simp
  show "frame_payload_loop (l @ [LF] @ s) p = frame_payload_loop s (add_data_line l p)"
    using assms SplitOnce_first[of "[LF]" l s] by (subst frame_payload_loop.simps) simp
qed

lemma frame_payload_lines:
  "\<forall>l\<in>set ls. plain_line l \<Longrightarrow> ls \<noteq> [] \<Longrightarrow> p \<noteq> [] \<or> hd ls \<noteq> [] \<Longrightarrow>
     frame_payload_loop (join_with [LF] (map (\<lambda>l. ''data: '' @ l) ls)) p =
       (if p = [] then [] else p @ [LF]) @ join_with [LF] ls"
proof (induction ls arbitrary: p)
  case (Cons l ls)
  have l: "LF \<notin> set (''data: '' @ l)" using Cons.prems(1) by (auto simp: plain_line_def LF_def)
  have add: "add_data_line (''data: '' @ l) p = (if p = [] then [] else p @ [LF]) @ l"
    using Cons.prems(1) by (intro add_data_line_data) simp
  show ?case
  proof (cases ls)
    case Nil
    then show ?thesis using frame_payload_line(1)[OF l] add by simp
  next
    case (Cons l' ls')
    have "frame_payload_loop (join_with [LF] (map (\<lambda>l. ''data: '' @ l) (l # ls))) p =
        frame_payload_loop (join_with [LF] (map (\<lambda>l. ''data: '' @ l) ls)) ((if p = [] then [] else p @ [LF]) @ l)"
      using frame_payload_line(2)[OF l] add by (simp add: Cons)
    also have "\<dots> = ((if p = [] then [] else p @ [LF]) @ l) @ [LF] @ join_with [LF] ls"
      using Cons.IH[of "(if p = [] then [] else p @ [LF]) @ l"] Cons.prems Cons by (auto split: if_splits)
    finally show ?thesis using Cons by simp
  qed
qed simp

definition sendable :: "string list \<Rightarrow> bool" where
  "sendable ls \<longleftrightarrow> ls \<noteq> [] \<and> hd ls \<noteq> [] \<and> (\<forall>l\<in>set ls. plain_line l) \<and> join_with [LF] ls \<noteq> ''[DONE]''"

lemma find_frame_end_sse:
  assumes "sendable ls"
  shows "find_frame_end (sse_frame ls @ rest) = Some (length (join_with [LF] (map (\<lambda>l. ''data: '' @ l) ls)), 2)"
proof -
  let ?t = "join_with [LF] (map (\<lambda>l. ''data: '' @ l) ls)"
  have lines: "\<forall>l\<in>set (map (\<lambda>l. ''data: '' @ l) ls). l \<noteq> [] \<and> hd [LF] \<notin> set l" "map (\<lambda>l. ''data: '' @ l) ls \<noteq> []"
    using assms by (auto simp: sendable_def plain_line_def LF_def)
  have e: "find_sub [LF, LF] (sse_frame ls @ rest) = Some (length ?t)"
    using find_double_sep[of "[LF]" "map (\<lambda>l. ''data: '' @ l) ls" rest] lines by (simp add: sse_frame_def)
  have "CR \<notin> set ?t"
  proof -
    have "set (join_with s xs) \<subseteq> set s \<union> \<Union> (set ` set xs)" for s :: string and xs
      by (induction s xs rule: join_with.induct) auto
    moreover have "\<forall>x\<in>set (map (\<lambda>l. ''data: '' @ l) ls). CR \<notin> set x"
      using assms by (auto simp: sendable_def plain_line_def CR_def)
    ultimately show ?thesis by (fastforce simp: CR_def LF_def)
  qed
  then have "find_sub (crlf @ crlf) (?t @ [LF, LF] @ rest) = map_option (\<lambda>i. length ?t + i) (find_sub (crlf @ crlf) ([LF, LF] @ rest))"
    by (intro find_sub_skip) (simp_all add: crlf_def)
  then show ?thesis
    using e by (auto simp: find_frame_end_def sse_frame_def split: option.splits)
qed

lemma sse_loop_frame:
  assumes "sendable ls"
  shows "sse_loop \<lparr>sse_buf = sse_frame ls @ rest, saw_done = b\<rparr> =
    (let (s, out) = sse_loop \<lparr>sse_buf = rest, saw_done = b\<rparr> in (s, join_with [LF] ls # out))"
proof -
  have "FramePayload (join_with [LF] (map (\<lambda>l. ''data: '' @ l) ls)) = join_with [LF] ls"
    using frame_payload_lines[of ls "[]"] assms by (simp add: FramePayload_def sendable_def)
  moreover have "join_with [LF] ls \<noteq> []"
    using assms by (cases ls; cases "tl ls") (auto simp: sendable_def)
  ultimately show ?thesis
    using sse_loop_Some[of "\<lparr>sse_buf = sse_frame ls @ rest, saw_done = b\<rparr>"] find_frame_end_sse[OF assms, of rest] assms
    by (simp add: sse_frame_def deliver_payload_def sendable_def Let_def split: prod.splits)
qed

lemma sse_loop_frames:
  "\<forall>ls\<in>set fs. sendable ls \<Longrightarrow>
     sse_loop \<lparr>sse_buf = concat (map sse_frame fs), saw_done = b\<rparr> = (\<lparr>sse_buf = [], saw_done = b\<rparr>, map (join_with [LF]) fs)"
proof (induction fs)
  case Nil
  have "find_frame_end [] = None" by (simp add: find_frame_end_def crlf_def)
  then show ?case by (simp add: sse_loop_None)
next
  case (Cons ls fs)
  then show ?case using sse_loop_frame[of ls "concat (map sse_frame fs)" b] by simp
qed


section \<open>The event framer\<close>

lemma parse_retry_bound: "r \<le> 3000009 \<Longrightarrow> parse_retry r cs = Some n \<Longrightarrow> n \<le> 3000009"
proof (induction r cs rule: parse_retry.induct)
  case (2 r ch cs)
  then have "digit_value ch \<le> 9" "r \<le> 300000" "parse_retry (r * 10 + digit_value ch) cs = Some n"
    by (auto simp: ascii_isdigit_def digit_value_def split: if_splits)
  with 2 show ?case by (auto split: if_splits)
qed simp

definition retry_ok :: "sse_event \<Rightarrow> bool" where
  "retry_ok ev \<longleftrightarrow> (case ev_retry_ms ev of None \<Rightarrow> True | Some n \<Rightarrow> n \<le> 3000009)"

lemma retry_ok_line: "retry_ok (fst acc) \<Longrightarrow> retry_ok (fst (event_line l acc))"
  using parse_retry_bound[of 0]
  by (cases acc) (auto simp: event_line_def retry_ok_def Let_def split: prod.splits option.splits)

lemma retry_ok_fields: "retry_ok (fst acc) \<Longrightarrow> retry_ok (fst (event_fields f acc))"
proof (induction f acc rule: event_fields.induct)
  case (1 f acc)
  show ?case
  proof (cases "f = []")
    case True
    then show ?thesis using 1 by (subst event_fields.simps) simp
  next
    case False
    obtain l tl where sp: "SplitOnce f [LF] = (l, tl)" by fastforce
    have "retry_ok (fst (event_fields tl (event_line l acc)))"
      by (rule 1(1)[OF False refl sp[symmetric]]) (rule retry_ok_line[OF 1(2)])
    then show ?thesis using False sp by (subst event_fields.simps) simp
  qed
qed

lemma event_loop_None:
  "find_frame_end (ef_buf s) = None \<Longrightarrow> event_loop s =
     (if length (ef_buf s) > 65536 then (\<lparr>ef_buf = [], exceeded_limit = True\<rparr>, []) else (s, []))"
  by (subst event_loop.simps) simp

lemma event_loop_Some:
  "find_frame_end (ef_buf s) = Some (e, k) \<Longrightarrow> event_loop s =
     (if e > 65536 then (\<lparr>ef_buf = [], exceeded_limit = True\<rparr>, [])
      else let (ev, has_data) = event_fields (take e (ef_buf s)) (new_event, False);
               (s', out) = event_loop (s\<lparr>ef_buf := drop (e + k) (ef_buf s)\<rparr>)
           in (s', (if has_data \<or> ev_id ev \<noteq> None \<or> ev_retry_ms ev \<noteq> None then [ev] else []) @ out))"
  by (subst event_loop.simps) simp

lemma event_loop_bounded:
  "length (ef_buf (fst (event_loop s))) \<le> 65536 \<and> list_all retry_ok (snd (event_loop s))"
proof (induction "length (ef_buf s)" arbitrary: s rule: less_induct)
  case less
  show ?case
  proof (cases "find_frame_end (ef_buf s)")
    case None
    then show ?thesis by (simp add: event_loop_None)
  next
    case (Some x)
    obtain e k where x: "x = (e, k)" by (cases x)
    note le = find_frame_end_le[OF Some[unfolded x]]
    obtain ev hd where f: "event_fields (take e (ef_buf s)) (new_event, False) = (ev, hd)" by fastforce
    have "retry_ok ev"
      using retry_ok_fields[of "(new_event, False)" "take e (ef_buf s)"] f by (simp add: new_event_def retry_ok_def)
    moreover have "length (ef_buf (fst (event_loop (s\<lparr>ef_buf := drop (e + k) (ef_buf s)\<rparr>)))) \<le> 65536 \<and>
        list_all retry_ok (snd (event_loop (s\<lparr>ef_buf := drop (e + k) (ef_buf s)\<rparr>)))"
      by (rule less) (use le in auto)
    ultimately show ?thesis
      using event_loop_Some[OF Some[unfolded x]] f
      by (cases "event_loop (s\<lparr>ef_buf := drop (e + k) (ef_buf s)\<rparr>)") simp
  qed
qed

text \<open>
  The limit counts the separator that is not complete yet: a frame of exactly 65536 bytes is
  accepted when its blank line arrives with it and rejected when the stream is cut inside the
  blank line.
\<close>

lemma find_frame_end_plain: "LF \<notin> set xs \<Longrightarrow> CR \<notin> set xs \<Longrightarrow>
    find_frame_end (xs @ [LF]) = None \<and> find_frame_end (xs @ [LF, LF]) = Some (length xs, 2)"
  using find_sub_skip[of "[LF, LF]" xs "[LF]"] find_sub_skip[of "crlf @ crlf" xs "[LF]"]
    find_sub_skip[of "crlf @ crlf" xs "[LF, LF]"] find_sub_first[of "[LF, LF]" xs "[]"]
  by (simp add: find_frame_end_def crlf_def CR_def LF_def)

lemma event_framer_depends_on_cuts:
  fixes xs defines "xs \<equiv> replicate 65536 (CHR ''a'')"
  shows "\<not> exceeded_limit (fst (SseEventFramer_Feed new_event_framer (xs @ [LF, LF])))"
    and "exceeded_limit (fst (SseEventFramer_Feed (fst (SseEventFramer_Feed new_event_framer (xs @ [LF]))) [LF]))"
proof -
  have plain: "LF \<notin> set xs" "CR \<notin> set xs" by (auto simp: xs_def LF_def CR_def)
  have len: "length xs = 65536" by (simp only: xs_def length_replicate)
  have empty: "event_loop \<lparr>ef_buf = [], exceeded_limit = False\<rparr> = (\<lparr>ef_buf = [], exceeded_limit = False\<rparr>, [])"
    by (subst event_loop_None) (simp_all add: find_frame_end_def crlf_def)
  have "fst (event_loop \<lparr>ef_buf = xs @ [LF, LF], exceeded_limit = False\<rparr>) = \<lparr>ef_buf = [], exceeded_limit = False\<rparr>"
    using event_loop_Some[of "\<lparr>ef_buf = xs @ [LF, LF], exceeded_limit = False\<rparr>" "length xs" 2]
      find_frame_end_plain[OF plain] len empty by (simp add: Let_def split: prod.splits)
  then show "\<not> exceeded_limit (fst (SseEventFramer_Feed new_event_framer (xs @ [LF, LF])))"
    by (simp add: SseEventFramer_Feed_def new_event_framer_def)
  have "event_loop \<lparr>ef_buf = xs @ [LF], exceeded_limit = False\<rparr> = (\<lparr>ef_buf = [], exceeded_limit = True\<rparr>, [])"
    using find_frame_end_plain[OF plain] len by (simp add: event_loop_None)
  then show "exceeded_limit (fst (SseEventFramer_Feed (fst (SseEventFramer_Feed new_event_framer (xs @ [LF]))) [LF]))"
    by (simp add: SseEventFramer_Feed_def new_event_framer_def)
qed

section \<open>Properties\<close>

text \<open>
  A chunked body decodes to its chunks however the network cuts it: for chunks that a peer
  encodes with their hexadecimal sizes, every way of splitting the encoded body into pieces and
  feeding them one by one yields the concatenation of the chunks and a complete decoder.
\<close>

lemma chunked_roundtrip:
  assumes "\<forall>c\<in>set cs. c \<noteq> [] \<and> int (length c) < 2 ^ 64" and "concat ps = encode_body cs"
  shows "chunks.feed_pieces new_decoder ps = Inr (body_done, concat cs) \<and> cd_complete body_done"
  using chunks.feed_pieces_concat[OF new_decoder_idle, of ps] decode_encode_body[OF assms(1)] assms(2)
  by (simp add: body_done_def)

text \<open>
  The chunked decoder and the SSE framer are independent of how their input is cut, on every
  input and from every state they can be in between two calls, errors included: feeding pieces
  one by one gives what feeding their concatenation at once gives.
\<close>

lemma decoders_ignore_cuts:
  assumes "decoder_idle d" and "sse_idle s"
  shows "chunks.feed_pieces d ps = ChunkedDecoder_Feed d (concat ps) \<and>
         sse.feed_pieces s ps = SseFramer_Feed s (concat ps)"
  using chunks.feed_pieces_concat[OF assms(1)] sse.feed_pieces_concat[OF assms(2)] by blast

lemma new_framer_idle: "sse_idle new_framer"
  by (simp add: sse_idle_def new_framer_def find_frame_end_def crlf_def)

text \<open>
  Server-sent events arrive whole: for frames of \<open>data:\<close> lines without CR and LF, the first
  line not empty and the payload not the sentinel, every way of cutting the stream delivers
  exactly the payloads, each with its lines joined by LF, leaves nothing in the buffer and does not
  report the end of the stream.
\<close>

lemma sse_roundtrip:
  assumes "\<forall>ls\<in>set fs. sendable ls" and "concat ps = concat (map sse_frame fs)"
  shows "sse.feed_pieces new_framer ps = (new_framer, map (join_with [LF]) fs)"
  using sse.feed_pieces_concat[OF new_framer_idle, of ps] sse_loop_frames[OF assms(1), of False] assms(2)
  by (simp add: SseFramer_Feed_def new_framer_def)

text \<open>
  URLs: a URL put together from a scheme, a host (plain, or bracketed for IPv6), a port and a
  path parses into exactly these parts.
\<close>

definition render_url :: "bool \<Rightarrow> bool \<Rightarrow> string \<Rightarrow> string \<Rightarrow> string \<Rightarrow> string" where
  "render_url secure bracketed h p path =
     (if secure then ''https://'' else ''http://'') @ (if bracketed then ''['' @ h @ '']'' else h) @ '':'' @ p @ ''/'' @ path"

lemma ParseUrl_render:
  assumes "h \<noteq> []" and "CHR ''/'' \<notin> set h" and "CHR ''/'' \<notin> set p" and "CHR '':'' \<notin> set p"
    and "if bracketed then CHR '']'' \<notin> set h else hd h \<noteq> CHR ''[''"
  shows "ParseUrl (render_url secure bracketed h p path) =
     Inr \<lparr>host = h, port = p, target = ''/'' @ path, tls = secure\<rparr>"
proof -
  let ?a = "(if bracketed then ''['' @ h @ '']'' else h) @ '':'' @ p"
  let ?rest = "?a @ CHR ''/'' # path"
  have "CHR ''/'' \<notin> set ?a" using assms(2,3) by auto
  then have slash: "find_char (CHR ''/'') ?rest = Some (length ?a)" by (rule find_char_append)
  have auth: "ParseAuthority url dp ?a = Inr (h, p)" for url dp
  proof (cases bracketed)
    case True
    then have "find_char (CHR '']'') ?a = Some (Suc (length h))"
      using assms(5) find_char_append[of "CHR '']''" "CHR ''['' # h" "CHR '':'' # p"] by simp
    then show ?thesis using True by (simp add: ParseAuthority_def nth_append)
  next
    case False
    moreover have "rfind_char (CHR '':'') (h @ CHR '':'' # p) = Some (length h)"
      using assms(4) by (rule rfind_char_append)
    ultimately show ?thesis using assms(1,5) by (simp add: ParseAuthority_def hd_append)
  qed
  have "?a \<noteq> []" by simp
  moreover have "render_url secure bracketed h p path = (if secure then ''https://'' else ''http://'') @ ?rest"
    by (simp add: render_url_def)
  ultimately show ?thesis
    using slash auth assms(1) by (cases secure) (simp_all add: ParseUrl_def Let_def)
qed

text \<open>
  Response heads are parsed as soon as they are complete and never differently when more bytes
  follow: an incomplete head is no error and reports zero bytes, a complete one gives the same
  result, or the same error, whatever follows it, and reports at most the bytes it was given.
\<close>

lemma ParseResponseHead_stable:
  "(find_sub (crlf @ crlf) buf = None \<longrightarrow> ParseResponseHead buf = Inr empty_head \<and> head_bytes empty_head = 0) \<and>
   (find_sub (crlf @ crlf) buf = Some n \<longrightarrow> ParseResponseHead (buf @ extra) = ParseResponseHead buf \<and>
      (\<forall>h. ParseResponseHead buf = Inr h \<longrightarrow> head_bytes h = n + 4 \<and> head_bytes h \<le> length buf \<and>
         100 \<le> status_code_of h \<and> status_code_of h \<le> 599))"
proof -
  have keep: "status_code_of (add_header l h) = status_code_of h" for l h
    by (auto simp: add_header_def Let_def split: prod.splits option.splits)
  have code: "status_code_of (parse_headers r h) = status_code_of h" for r h
    by (induction r h rule: parse_headers.induct) (subst parse_headers.simps, auto simp: keep split: prod.splits)
  have "head_bytes h = n + 4 \<and> head_bytes h \<le> length buf \<and> 100 \<le> status_code_of h \<and> status_code_of h \<le> 599"
    if "find_sub (crlf @ crlf) buf = Some n" "ParseResponseHead buf = Inr h" for h
    using that find_sub_Some_le[OF that(1)]
    by (auto simp: ParseResponseHead_def crlf_def code split: option.splits prod.splits if_splits)
  moreover have "ParseResponseHead (buf @ extra) = ParseResponseHead buf" if "find_sub (crlf @ crlf) buf = Some n"
    using find_sub_append[OF that] that find_sub_Some_le[OF that] by (simp add: ParseResponseHead_def)
  ultimately show ?thesis by (auto simp: ParseResponseHead_def empty_head_def)
qed

text \<open>
  C18. The event framer of long-lived streams uses bounded memory: after every call its buffer
  holds at most 65536 bytes, whatever it was given, and no event it delivers asks for a
  reconnection delay above 3000009 milliseconds.
\<close>

theorem event_framer_bounded:
  assumes "length (ef_buf s) \<le> 65536"
  shows "length (ef_buf (fst (SseEventFramer_Feed s bytes))) \<le> 65536 \<and>
     (\<forall>ev\<in>set (snd (SseEventFramer_Feed s bytes)). \<forall>n. ev_retry_ms ev = Some n \<longrightarrow> n \<le> 3000009)"
  using event_loop_bounded[of "s\<lparr>ef_buf := ef_buf s @ bytes\<rparr>"] assms
  by (auto simp: SseEventFramer_Feed_def list_all_iff retry_ok_def split: option.splits)

theorem event_framer_bounded_witness:
  "length (ef_buf (fst (SseEventFramer_Feed new_event_framer (''retry: 5'' @ [LF, LF])))) \<le> 65536"
  using event_framer_bounded[of new_event_framer] by (simp add: new_event_framer_def)

end
