(* ===== verification/Https_Client.thy ===== *)
theory Https_Client
  imports Http_Props
begin

text \<open>
  The HTTP client, \<open>agentflow/net/https_client.{h,cc}\<close>: request bytes, the connection with its TLS setup, and the driver that reads
  a response through the parsers of \<open>Http_Parse\<close>. Sockets and TLS are seen through what they deliver: the error of each step of
  a connection and the results of its reads, in order. After the last of them the peer has closed.
\<close>

section \<open>Requests\<close>

record http_request =
  hr_url :: string
  hr_body :: string
  hr_headers :: "(string \<times> string) list"

definition header_line :: "string \<times> string \<Rightarrow> string" where
  "header_line h = fst h @ '': '' @ snd h @ crlf"

definition BuildRequestBytes :: "parsed_url \<Rightarrow> http_request \<Rightarrow> bool \<Rightarrow> string \<Rightarrow> string" where
  "BuildRequestBytes url req sse method =
     method @ '' '' @ target url @ '' HTTP/1.1'' @ crlf @
     header_line (''Host'', host url) @ header_line (''Connection'', ''close'') @
     header_line (''Content-Length'', nat_to_dec (length (hr_body req))) @
     (if sse then header_line (''Accept'', ''text/event-stream'') else []) @
     concat (map header_line (hr_headers req)) @ crlf @ hr_body req"

definition MapHttpStatus :: "int \<Rightarrow> status_code" where
  "MapHttpStatus c =
     (if c = 401 \<or> c = 403 then PermissionDenied
      else if c = 429 then ResourceExhausted
      else if c \<ge> 500 then Unavailable
      else if c \<ge> 400 then InvalidArgument
      else Unknown)"

section \<open>The connection\<close>

datatype read_result = Bytes string | Eof | StreamTruncated | ReadError string

text \<open>
  The errors of the steps in the order of the code, \<^const>\<open>None\<close> for success, and whether the request has been cancelled once
  so many reads have been made.
\<close>

record connection =
  cx_verify_mode :: "string option"
  cx_load_ca :: "string option"
  cx_verify_callback :: "string option"
  cx_sni :: bool
  cx_resolve :: "string option"
  cx_connect :: "string option"
  cx_handshake :: "string option"
  cx_write :: "string option"
  cx_reads :: "read_result list"
  cx_cancelled :: "nat \<Rightarrow> bool"

fun first_failure :: "(bool \<times> status) list \<Rightarrow> unit status_or" where
  "first_failure [] = Inr ()"
| "first_failure ((bad, s) # rest) = (if bad then Inl s else first_failure rest)"

definition text_of :: "string option \<Rightarrow> string" where
  "text_of e = (case e of Some m \<Rightarrow> m | None \<Rightarrow> [])"

definition Connection_Connect :: "string \<Rightarrow> parsed_url \<Rightarrow> connection \<Rightarrow> unit status_or" where
  "Connection_Connect ca_path url cx = first_failure
     [(tls url \<and> ca_path = [], Status InvalidArgument ''ca_path is required for https:// URLs; verification is mandatory''),
      (tls url \<and> cx_verify_mode cx \<noteq> None, Status Internal (''set_verify_mode failed: '' @ text_of (cx_verify_mode cx))),
      (tls url \<and> cx_load_ca cx \<noteq> None,
         Status InvalidArgument (''cannot load ca_path '' @ [CHR 0x27] @ ca_path @ [CHR 0x27] @ '': '' @ text_of (cx_load_ca cx))),
      (tls url \<and> cx_verify_callback cx \<noteq> None, Status Internal (''set_verify_callback failed: '' @ text_of (cx_verify_callback cx))),
      (tls url \<and> \<not> cx_sni cx, Status Internal ''failed to set TLS SNI hostname''),
      (cx_resolve cx \<noteq> None, Status Unavailable (''cannot resolve '' @ host url @ '': '' @ text_of (cx_resolve cx))),
      (cx_connect cx \<noteq> None,
         Status Unavailable (''cannot connect to '' @ host url @ '':'' @ port url @ '': '' @ text_of (cx_connect cx))),
      (tls url \<and> cx_handshake cx \<noteq> None,
         Status Unavailable (''TLS handshake with '' @ host url @ '' failed: '' @ text_of (cx_handshake cx)))]"

definition WriteAll :: "connection \<Rightarrow> unit status_or" where
  "WriteAll cx = first_failure [(cx_write cx \<noteq> None, Status Unavailable (''request write failed: '' @ text_of (cx_write cx)))]"

definition ReadSome :: "read_result \<Rightarrow> string status_or" where
  "ReadSome r = (case r of
       Bytes s \<Rightarrow> Inr s
     | Eof \<Rightarrow> Inr []
     | StreamTruncated \<Rightarrow> Inr []
     | ReadError m \<Rightarrow> Inl (Status Unavailable (''response read failed: '' @ m)))"

definition cancelled_status :: status where
  "cancelled_status = Status Cancelled ''cancelled''"

definition or_cancelled :: "bool \<Rightarrow> status \<Rightarrow> status" where
  "or_cancelled is_cancelled s = (if is_cancelled then cancelled_status else s)"

section \<open>Reading a response\<close>

text \<open>\<open>n\<close> counts the reads made so far.\<close>

fun read_head :: "connection \<Rightarrow> string \<Rightarrow> nat \<Rightarrow> read_result list \<Rightarrow> (response_head \<times> string \<times> nat \<times> read_result list) status_or" where
  "read_head cx raw n [] = (case ParseResponseHead raw of
       Inl s \<Rightarrow> Inl s
     | Inr h \<Rightarrow> if head_bytes h \<noteq> 0 then Inr (h, raw, n, [])
                else Inl (Status Unavailable ''connection closed before a complete response head arrived''))"
| "read_head cx raw n (r # rs) = (case ParseResponseHead raw of
       Inl s \<Rightarrow> Inl s
     | Inr h \<Rightarrow>
         if head_bytes h \<noteq> 0 then Inr (h, raw, n, r # rs)
         else case ReadSome r of
           Inl s \<Rightarrow> Inl (or_cancelled (cx_cancelled cx (Suc n)) s)
         | Inr bytes \<Rightarrow>
             if bytes = [] then Inl (Status Unavailable ''connection closed before a complete response head arrived'')
             else read_head cx (raw @ bytes) (Suc n) rs)"

definition kMaxErrorBody :: nat where
  "kMaxErrorBody = 8192"

fun read_error_body :: "connection \<Rightarrow> string \<Rightarrow> nat \<Rightarrow> read_result list \<Rightarrow> string status_or" where
  "read_error_body cx body n [] = (if length body < kMaxErrorBody \<and> cx_cancelled cx (Suc n) then Inl cancelled_status else Inr body)"
| "read_error_body cx body n (r # rs) =
     (if kMaxErrorBody \<le> length body then Inr body
      else case ReadSome r of
        Inl s \<Rightarrow> if cx_cancelled cx (Suc n) then Inl cancelled_status else Inr body
      | Inr bytes \<Rightarrow>
          if bytes = [] then (if cx_cancelled cx (Suc n) then Inl cancelled_status else Inr body)
          else read_error_body cx (body @ bytes) (Suc n) rs)"

text \<open>Where the body goes: into a string, to a handler of payloads, or to a handler of events with their metadata.\<close>

datatype body_mode = ToBody | ToPayloads | ToEvents

record body_state =
  bs_chunked :: chunked_decoder
  bs_framer :: sse_framer
  bs_inbound :: event_framer
  bs_body :: string
  bs_payloads :: "string list"
  bs_events :: "sse_event list"

definition new_body :: body_state where
  "new_body = \<lparr>bs_chunked = new_decoder, bs_framer = new_framer, bs_inbound = new_event_framer, bs_body = [], bs_payloads = [], bs_events = []\<rparr>"

definition deliver_decoded :: "body_mode \<Rightarrow> string \<Rightarrow> body_state \<Rightarrow> unit status_or \<times> body_state" where
  "deliver_decoded mode decoded b = (case mode of
       ToBody \<Rightarrow> (Inr (), b\<lparr>bs_body := bs_body b @ decoded\<rparr>)
     | ToEvents \<Rightarrow>
         (case SseEventFramer_Feed (bs_inbound b) decoded of
            (f, evs) \<Rightarrow> (if exceeded_limit f then Inl (Status ResourceExhausted ''SSE event exceeds 64 KiB'') else Inr (),
              b\<lparr>bs_inbound := f, bs_events := bs_events b @ evs\<rparr>))
     | ToPayloads \<Rightarrow>
         (case SseFramer_Feed (bs_framer b) decoded of
            (f, out) \<Rightarrow> (Inr (), b\<lparr>bs_framer := f, bs_payloads := bs_payloads b @ out\<rparr>)))"

definition consume :: "body_mode \<Rightarrow> response_head \<Rightarrow> string \<Rightarrow> body_state \<Rightarrow> unit status_or \<times> body_state" where
  "consume mode head slab b =
     (if chunked head
      then (case ChunkedDecoder_Feed (bs_chunked b) slab of
              Inl s \<Rightarrow> (Inl s, b)
            | Inr (d, decoded) \<Rightarrow> deliver_decoded mode decoded (b\<lparr>bs_chunked := d\<rparr>))
      else deliver_decoded mode slab b)"

definition body_over :: "body_mode \<Rightarrow> response_head \<Rightarrow> body_state \<Rightarrow> bool" where
  "body_over mode head b \<longleftrightarrow> mode = ToPayloads \<and> saw_done (bs_framer b) \<or>
     mode = ToBody \<and> content_length head \<ge> 0 \<and> int (length (bs_body b)) \<ge> content_length head \<or>
     chunked head \<and> cd_complete (bs_chunked b)"

fun body_loop :: "connection \<Rightarrow> body_mode \<Rightarrow> response_head \<Rightarrow> nat \<Rightarrow> read_result list \<Rightarrow> body_state \<Rightarrow> unit status_or \<times> body_state" where
  "body_loop cx mode head n [] b = (if cx_cancelled cx n then Inl cancelled_status else Inr (), b)"
| "body_loop cx mode head n (r # rs) b =
     (if cx_cancelled cx n then (Inl cancelled_status, b)
      else if body_over mode head b then (Inr (), b)
      else case ReadSome r of
        Inl s \<Rightarrow> (Inl (or_cancelled (cx_cancelled cx (Suc n)) s), b)
      | Inr bytes \<Rightarrow>
          if bytes = [] then (Inr (), b)
          else case consume mode head bytes b of
            (Inl s, b1) \<Rightarrow> (Inl s, b1)
          | (Inr _, b1) \<Rightarrow> body_loop cx mode head (Suc n) rs b1)"

definition flush_last :: "body_mode \<Rightarrow> body_state \<Rightarrow> body_state" where
  "flush_last mode b =
     (if mode = ToPayloads \<and> \<not> saw_done (bs_framer b)
      then (case SseFramer_Flush (bs_framer b) of (f, out) \<Rightarrow> b\<lparr>bs_framer := f, bs_payloads := bs_payloads b @ out\<rparr>)
      else b)"

definition is_stream_head :: "response_head \<Rightarrow> bool" where
  "is_stream_head head \<longleftrightarrow>
     list_ex (\<lambda>h. fst h = ''content-type'' \<and> find_sub ''text/event-stream'' (snd h) \<noteq> None) (headers head)"

definition read_response :: "connection \<Rightarrow> body_mode \<Rightarrow> response_head \<Rightarrow> string \<Rightarrow> nat \<Rightarrow> read_result list \<Rightarrow> unit status_or \<times> body_state" where
  "read_response cx mode head body_bytes n reads =
     (if status_code_of head < 200 \<or> status_code_of head \<ge> 300
      then (case read_error_body cx body_bytes n reads of
              Inl s \<Rightarrow> (Inl s, new_body)
            | Inr body \<Rightarrow> (Inl (Status (MapHttpStatus (status_code_of head)) (''HTTP '' @ int_to_dec (status_code_of head) @ '': '' @ body)), new_body))
      else if mode = ToEvents \<and> \<not> is_stream_head head
      then (Inl (Status InvalidArgument ''GET stream is not text/event-stream''), new_body)
      else case consume mode head body_bytes new_body of
        (Inl s, b) \<Rightarrow> (Inl s, b)
      | (Inr _, b) \<Rightarrow>
         (case body_loop cx mode head n reads b of
            (Inl s, b1) \<Rightarrow> (Inl s, b1)
          | (Inr _, b1) \<Rightarrow> (Inr (), flush_last mode b1)))"

text \<open>The whole exchange, with the head it publishes.\<close>

definition Https_Run :: "string \<Rightarrow> connection \<Rightarrow> body_mode \<Rightarrow> http_request \<Rightarrow> unit status_or \<times> response_head \<times> body_state" where
  "Https_Run ca_path cx mode req =
     (case ParseUrl (hr_url req) of
        Inl s \<Rightarrow> (Inl s, empty_head, new_body)
      | Inr url \<Rightarrow>
         (case Connection_Connect ca_path url cx of
            Inl s \<Rightarrow> (Inl (or_cancelled (cx_cancelled cx 0) s), empty_head, new_body)
          | Inr _ \<Rightarrow>
             (case WriteAll cx of
                Inl s \<Rightarrow> (Inl (or_cancelled (cx_cancelled cx 0) s), empty_head, new_body)
              | Inr _ \<Rightarrow>
                 (case read_head cx [] 0 (cx_reads cx) of
                    Inl s \<Rightarrow> (Inl s, empty_head, new_body)
                  | Inr (head, raw, n, reads) \<Rightarrow>
                     (case read_response cx mode head (drop (head_bytes head) raw) n reads of
                        (r, b) \<Rightarrow> (r, head, b))))))"

definition request_bytes :: "body_mode \<Rightarrow> http_request \<Rightarrow> string status_or" where
  "request_bytes mode req = bind_status (ParseUrl (hr_url req)) (\<lambda>url.
     Inr (BuildRequestBytes url req (mode \<noteq> ToBody) (if mode = ToEvents then ''GET'' else ''POST'')))"

definition Https_Post :: "string \<Rightarrow> connection \<Rightarrow> http_request \<Rightarrow> string status_or \<times> response_head" where
  "Https_Post ca_path cx req = (case Https_Run ca_path cx ToBody req of
       (r, head, b) \<Rightarrow> (bind_status r (\<lambda>_. Inr (bs_body b)), head))"

definition Https_PostSse :: "string \<Rightarrow> connection \<Rightarrow> http_request \<Rightarrow> unit status_or \<times> string list" where
  "Https_PostSse ca_path cx req = (case Https_Run ca_path cx ToPayloads req of (r, head, b) \<Rightarrow> (r, bs_payloads b))"

definition Https_GetSse :: "string \<Rightarrow> connection \<Rightarrow> http_request \<Rightarrow> unit status_or \<times> response_head \<times> sse_event list" where
  "Https_GetSse ca_path cx req = (case Https_Run ca_path cx ToEvents req of (r, head, b) \<Rightarrow> (r, head, bs_events b))"

end
