(* ===== verification/Https_Props.thy ===== *)
theory Https_Props
  imports Https_Client
begin

text \<open>
  What the HTTP client delivers: however the network cuts a response, a body with a content length, a chunked one and one that
  ends with the connection arrive whole, and so do the payloads of an event stream. The last section has what is taken for the
  end of a body and is not.
\<close>

section \<open>The head\<close>

definition quiet :: "connection \<Rightarrow> bool" where
  "quiet cx \<longleftrightarrow> (\<forall>n. \<not> cx_cancelled cx n)"

text \<open>A complete response head and nothing more.\<close>

definition head_text :: "string \<Rightarrow> response_head \<Rightarrow> bool" where
  "head_text ht head \<longleftrightarrow> ParseResponseHead ht = Inr head \<and> head_bytes head = length ht \<and> ht \<noteq> []"

lemma head_text_find: "head_text ht head \<Longrightarrow> \<exists>i. find_sub (crlf @ crlf) ht = Some i \<and> length ht = i + 4"
proof (cases "find_sub (crlf @ crlf) ht")
  case None
  assume h: "head_text ht head"
  then have "head = empty_head" using None by (simp add: head_text_def ParseResponseHead_def)
  then show ?thesis using h by (simp add: head_text_def empty_head_def)
next
  case (Some i)
  assume h: "head_text ht head"
  then have "head_bytes head = i + 4" using Some ParseResponseHead_stable[of ht i] by (auto simp: head_text_def)
  then show ?thesis using Some h by (simp add: head_text_def)
qed

lemma head_incomplete:
  assumes "head_text ht head" "raw @ more_bytes = ht @ body" "length raw < length ht"
  shows "ParseResponseHead raw = Inr empty_head"
proof -
  obtain i where i: "find_sub (crlf @ crlf) ht = Some i" "length ht = i + 4" using head_text_find[OF assms(1)] by blast
  have "find_sub (crlf @ crlf) raw = None"
  proof (rule ccontr)
    assume "find_sub (crlf @ crlf) raw \<noteq> None"
    then obtain j where j: "find_sub (crlf @ crlf) raw = Some j" by blast
    then have "find_sub (crlf @ crlf) (raw @ more_bytes) = Some j" by (rule find_sub_append)
    moreover have "find_sub (crlf @ crlf) (ht @ body) = Some i" using i(1) by (rule find_sub_append)
    ultimately show False using find_sub_Some_le[OF j] i(2) assms(2,3) by (simp add: crlf_def)
  qed
  then show ?thesis by (simp add: ParseResponseHead_def)
qed

lemma read_head_complete:
  assumes "ParseResponseHead raw = Inr head" "head_bytes head \<noteq> 0"
  shows "read_head cx raw n reads = Inr (head, raw, n, reads)"
  using assms by (cases reads) simp_all

lemma read_head_cuts:
  assumes "head_text ht head" "raw @ concat ps = ht @ body" "\<forall>p\<in>set ps. p \<noteq> []"
  shows "\<exists>fed qs n'. read_head cx raw n (map Bytes ps @ rest) = Inr (head, ht @ fed, n', map Bytes qs @ rest) \<and>
    fed @ concat qs = body \<and> (\<forall>p\<in>set qs. p \<noteq> [])"
  using assms(2,3)
proof (induction ps arbitrary: raw n)
  case Nil
  obtain i where "find_sub (crlf @ crlf) ht = Some i" using head_text_find[OF assms(1)] by blast
  then have "ParseResponseHead raw = Inr head" "head_bytes head \<noteq> 0"
    using Nil ParseResponseHead_stable[of ht i body] assms(1) by (auto simp: head_text_def)
  then show ?case using Nil read_head_complete by (intro exI[of _ body] exI[of _ "[]"] exI[of _ n]) simp
next
  case (Cons p ps)
  show ?case
  proof (cases "length raw < length ht")
    case True
    have "ParseResponseHead raw = Inr empty_head" by (rule head_incomplete[OF assms(1) Cons.prems(1) True])
    then have "read_head cx raw n (map Bytes (p # ps) @ rest) = read_head cx (raw @ p) (Suc n) (map Bytes ps @ rest)"
      using Cons.prems(2) by (simp add: ReadSome_def empty_head_def)
    then show ?thesis using Cons.IH[of "raw @ p" "Suc n"] Cons.prems by simp
  next
    case False
    then obtain fed where fed: "raw = ht @ fed" "fed @ concat (p # ps) = body"
      using Cons.prems(1) by (auto simp: append_eq_append_conv2)
    obtain i where "find_sub (crlf @ crlf) ht = Some i" using head_text_find[OF assms(1)] by blast
    then have "ParseResponseHead raw = Inr head" "head_bytes head \<noteq> 0"
      using fed ParseResponseHead_stable[of ht i fed] assms(1) by (auto simp: head_text_def)
    then show ?thesis
      using fed Cons.prems(2) read_head_complete by (intro exI[of _ fed] exI[of _ "p # ps"] exI[of _ n]) simp
  qed
qed

section \<open>The body\<close>

text \<open>What has been decoded of the bytes fed so far, and where it went.\<close>

definition sunk :: "body_mode \<Rightarrow> string \<Rightarrow> body_state \<Rightarrow> bool" where
  "sunk mode dec b \<longleftrightarrow> (case mode of
       ToBody \<Rightarrow> bs_body b = dec
     | ToPayloads \<Rightarrow> SseFramer_Feed new_framer dec = (bs_framer b, bs_payloads b)
     | ToEvents \<Rightarrow> False)"

definition decodes :: "response_head \<Rightarrow> string \<Rightarrow> chunked_decoder \<Rightarrow> string \<Rightarrow> bool" where
  "decodes head fed d dec \<longleftrightarrow> (if chunked head then ChunkedDecoder_Feed new_decoder fed = Inr (d, dec) else dec = fed)"

definition consumed :: "body_mode \<Rightarrow> response_head \<Rightarrow> string \<Rightarrow> string \<Rightarrow> body_state \<Rightarrow> bool" where
  "consumed mode head fed dec b \<longleftrightarrow> decodes head fed (bs_chunked b) dec \<and> sunk mode dec b"

lemma consumed_new: "mode \<noteq> ToEvents \<Longrightarrow> consumed mode head [] [] new_body"
  using chunks.feed_nil[OF new_decoder_idle] sse.feed_nil[OF new_framer_idle]
  by (cases mode) (simp_all add: consumed_def decodes_def sunk_def new_body_def)

lemma deliver_sunk:
  assumes "sunk mode dec b"
  shows "\<exists>b'. deliver_decoded mode x b = (Inr (), b') \<and> sunk mode (dec @ x) b' \<and> bs_chunked b' = bs_chunked b"
proof (cases mode)
  case ToPayloads
  obtain f out where "SseFramer_Feed (bs_framer b) x = (f, out)" by fastforce
  then show ?thesis
    using assms ToPayloads by (simp add: sunk_def deliver_decoded_def sse.feed_append[OF new_framer_idle])
qed (use assms in \<open>auto simp: sunk_def deliver_decoded_def\<close>)

lemma deliver_sunk_chunked: "sunk mode dec b \<Longrightarrow> sunk mode dec (b\<lparr>bs_chunked := d\<rparr>)"
  by (cases mode) (simp_all add: sunk_def)

lemma consume_consumed:
  assumes "consumed mode head fed dec b" "decodes head (fed @ slab) d' dec'"
  shows "\<exists>b'. consume mode head slab b = (Inr (), b') \<and> consumed mode head (fed @ slab) dec' b'"
proof (cases "chunked head")
  case False
  then show ?thesis
    using assms deliver_sunk[of mode dec b slab] by (auto simp: consumed_def decodes_def consume_def)
next
  case True
  then have fed: "ChunkedDecoder_Feed new_decoder fed = Inr (bs_chunked b, dec)"
    and all: "ChunkedDecoder_Feed new_decoder (fed @ slab) = Inr (d', dec')"
    using assms by (simp_all add: consumed_def decodes_def)
  obtain out where slab: "ChunkedDecoder_Feed (bs_chunked b) slab = Inr (d', out)" "dec' = dec @ out"
    using all by (cases "ChunkedDecoder_Feed (bs_chunked b) slab") (auto simp: chunks.feed_append[OF new_decoder_idle] fed)
  have "sunk mode dec (b\<lparr>bs_chunked := d'\<rparr>)" using assms(1) by (simp add: consumed_def deliver_sunk_chunked)
  from deliver_sunk[OF this, of out] show ?thesis
    using True slab all by (auto simp: consume_def consumed_def decodes_def)
qed

lemma decodes_prefix:
  assumes "decodes head (fed @ more_bytes) d' payload"
  shows "\<exists>d dec out. decodes head fed d dec \<and> payload = dec @ out \<and> (chunked head \<longrightarrow> cd_complete d \<longrightarrow> out = [])"
proof (cases "chunked head")
  case True
  then have all: "ChunkedDecoder_Feed new_decoder (fed @ more_bytes) = Inr (d', payload)" using assms by (simp add: decodes_def)
  obtain d dec where fed: "ChunkedDecoder_Feed new_decoder fed = Inr (d, dec)"
    using all by (cases "ChunkedDecoder_Feed new_decoder fed") (auto simp: chunks.feed_append[OF new_decoder_idle])
  obtain out where out: "ChunkedDecoder_Feed d more_bytes = Inr (d', out)" "payload = dec @ out"
    using all by (cases "ChunkedDecoder_Feed d more_bytes") (auto simp: chunks.feed_append[OF new_decoder_idle] fed)
  have "cd_complete d \<Longrightarrow> out = []"
    using out(1) decode_complete[of "d\<lparr>cd_buf := cd_buf d @ more_bytes\<rparr>"] by (simp add: ChunkedDecoder_Feed_def)
  then show ?thesis using True fed out(2) by (auto simp: decodes_def)
qed (use assms in \<open>auto simp: decodes_def\<close>)

lemma decodes_fun: "decodes head fed d dec \<Longrightarrow> decodes head fed d' dec' \<Longrightarrow> dec = dec' \<and> (chunked head \<longrightarrow> d = d')"
  by (simp add: decodes_def split: if_splits)

text \<open>The peer has nothing more to say.\<close>

definition peer_closed :: "read_result list \<Rightarrow> bool" where
  "peer_closed rest \<longleftrightarrow> (case rest of [] \<Rightarrow> True | r # _ \<Rightarrow> r = Eof \<or> r = StreamTruncated)"

lemma body_loop_over: "quiet cx \<Longrightarrow> body_over mode head b \<Longrightarrow> body_loop cx mode head n reads b = (Inr (), b)"
  by (cases reads) (simp_all add: quiet_def)

lemma body_loop_closed: "quiet cx \<Longrightarrow> peer_closed rest \<Longrightarrow> body_loop cx mode head n rest b = (Inr (), b)"
  by (cases rest) (auto simp: quiet_def peer_closed_def ReadSome_def)

text \<open>The loop does not stop before the whole payload is decoded, and has a reason to stop once it is.\<close>

definition ends_with :: "body_mode \<Rightarrow> response_head \<Rightarrow> string \<Rightarrow> string \<Rightarrow> read_result list \<Rightarrow> bool" where
  "ends_with mode head body payload rest \<longleftrightarrow>
     (\<forall>fed tail dec b. fed @ tail = body \<longrightarrow> consumed mode head fed dec b \<longrightarrow> body_over mode head b \<longrightarrow> dec = payload) \<and>
     (\<forall>b. consumed mode head body payload b \<longrightarrow> body_over mode head b \<or> peer_closed rest)"

lemma body_loop_cuts:
  assumes "quiet cx" "decodes head body d payload"
    and ends: "ends_with mode head body payload rest"
  shows "consumed mode head fed dec b \<Longrightarrow> fed @ concat ps = body \<Longrightarrow> \<forall>p\<in>set ps. p \<noteq> [] \<Longrightarrow>
    \<exists>b'. body_loop cx mode head n (map Bytes ps @ rest) b = (Inr (), b') \<and> sunk mode payload b'"
proof (induction ps arbitrary: fed dec b n)
  case Nil
  then have "dec = payload" using assms(2) decodes_fun[of head body "bs_chunked b" dec d payload] by (simp add: consumed_def)
  then show ?case
    using Nil ends body_loop_over[OF assms(1)] body_loop_closed[OF assms(1)] by (auto simp: consumed_def ends_with_def)
next
  case (Cons p ps)
  show ?case
  proof (cases "body_over mode head b")
    case True
    then show ?thesis
      using Cons.prems ends body_loop_over[OF assms(1) True, of n "map Bytes (p # ps) @ rest"]
      by (auto simp: consumed_def ends_with_def simp del: body_loop.simps)
  next
    case False
    obtain d1 dec1 where "decodes head (fed @ p) d1 dec1"
      using decodes_prefix[of head "fed @ p" "concat ps" d payload] assms(2) Cons.prems(2) by auto
    from consume_consumed[OF Cons.prems(1) this] obtain b1
      where b1: "consume mode head p b = (Inr (), b1)" "consumed mode head (fed @ p) dec1 b1" by blast
    have "body_loop cx mode head n (map Bytes (p # ps) @ rest) b = body_loop cx mode head (Suc n) (map Bytes ps @ rest) b1"
      using assms(1) False Cons.prems(3) b1(1) by (simp add: quiet_def ReadSome_def)
    then show ?thesis using Cons.IH[OF b1(2), of "Suc n"] Cons.prems by simp
  qed
qed

section \<open>The exchange\<close>

text \<open>A connection that is made and never cancelled, on which the pieces arrive and then \<open>rest\<close>.\<close>

definition serves :: "string \<Rightarrow> http_request \<Rightarrow> connection \<Rightarrow> string list \<Rightarrow> read_result list \<Rightarrow> bool" where
  "serves ca_path req cx ps rest \<longleftrightarrow> (\<exists>url. ParseUrl (hr_url req) = Inr url \<and> (tls url \<longrightarrow> ca_path \<noteq> [])) \<and>
     cx_verify_mode cx = None \<and> cx_load_ca cx = None \<and> cx_verify_callback cx = None \<and> cx_sni cx \<and> cx_resolve cx = None \<and>
     cx_connect cx = None \<and> cx_handshake cx = None \<and> cx_write cx = None \<and> quiet cx \<and> cx_reads cx = map Bytes ps @ rest \<and>
     (\<forall>p\<in>set ps. p \<noteq> [])"

definition ok_head :: "string \<Rightarrow> response_head \<Rightarrow> bool" where
  "ok_head ht head \<longleftrightarrow> head_text ht head \<and> 200 \<le> status_code_of head \<and> status_code_of head < 300"

lemma Https_Run_cuts:
  assumes "serves ca_path req cx ps rest" "ok_head ht head" "concat ps = ht @ body" "decodes head body d payload" "mode \<noteq> ToEvents"
    and ends: "ends_with mode head body payload rest"
  shows "\<exists>b. Https_Run ca_path cx mode req = (Inr (), head, flush_last mode b) \<and> sunk mode payload b"
proof -
  obtain url where url: "ParseUrl (hr_url req) = Inr url" "tls url \<longrightarrow> ca_path \<noteq> []" using assms(1) by (auto simp: serves_def)
  have steps: "Connection_Connect ca_path url cx = Inr ()" "WriteAll cx = Inr ()"
    using assms(1) url by (auto simp: serves_def Connection_Connect_def WriteAll_def)
  have reads: "cx_reads cx = map Bytes ps @ rest" "\<forall>p\<in>set ps. p \<noteq> []" and quiet: "quiet cx"
    using assms(1) by (auto simp: serves_def)
  have ht: "head_text ht head" using assms(2) by (simp add: ok_head_def)
  obtain fed qs n where head: "read_head cx [] 0 (cx_reads cx) = Inr (head, ht @ fed, n, map Bytes qs @ rest)"
      "fed @ concat qs = body" "\<forall>p\<in>set qs. p \<noteq> []"
    using read_head_cuts[OF ht, of "[]" ps body cx 0 rest] assms(3) reads by auto
  obtain d1 dec1 where "decodes head ([] @ fed) d1 dec1"
    using decodes_prefix[of head fed "concat qs" d payload] assms(4) head(2) by auto
  from consume_consumed[OF consumed_new[OF assms(5)] this] obtain b1
    where b1: "consume mode head fed new_body = (Inr (), b1)" "consumed mode head fed dec1 b1" by auto
  obtain b where "body_loop cx mode head n (map Bytes qs @ rest) b1 = (Inr (), b)" "sunk mode payload b"
    using body_loop_cuts[OF quiet assms(4) ends b1(2) head(2,3), of n] by blast
  moreover have "drop (head_bytes head) (ht @ fed) = fed" using ht by (simp add: head_text_def)
  ultimately show ?thesis
    using url(1) steps head(1) assms(2,5) b1(1) by (auto simp: Https_Run_def read_response_def ok_head_def)
qed

text \<open>
  C17. A successful POST returns the body the server sent, whichever way it marks its end and however the network cuts head
  and body: a chunked body is returned decoded as soon as its last chunk has arrived, a body of the announced length as soon
  as it is complete, and any other body when the peer closes.
\<close>

theorem post_returns_body:
  assumes "serves ca_path req cx ps rest" "ok_head ht head" "concat ps = ht @ body"
    and "chunked head \<and> content_length head < 0 \<and> (\<forall>c\<in>set cs. c \<noteq> [] \<and> int (length c) < 2 ^ 64) \<and> body = encode_body cs \<and> payload = concat cs \<or>
      \<not> chunked head \<and> content_length head = int (length body) \<and> payload = body \<or>
      \<not> chunked head \<and> content_length head < 0 \<and> peer_closed rest \<and> payload = body"
  shows "Https_Post ca_path cx req = (Inr payload, head)"
proof -
  have dec: "\<exists>d. decodes head body d payload \<and> (chunked head \<longrightarrow> cd_complete d)"
    using assms(4) decode_encode_body[of cs] by (auto simp: decodes_def body_done_def)
  then obtain d where d: "decodes head body d payload" "chunked head \<longrightarrow> cd_complete d" by blast
  have early: "dec = payload" if "fed @ tail = body" "consumed ToBody head fed dec b" "body_over ToBody head b" for fed tail dec b
  proof (cases "chunked head")
    case True
    then have "cd_complete (bs_chunked b)" using that(3) assms(4) by (auto simp: body_over_def)
    then show ?thesis
      using decodes_prefix[of head fed tail d payload] d(1) that(1,2) True decodes_fun[of head fed "bs_chunked b" dec]
      by (fastforce simp: consumed_def)
  next
    case False
    then show ?thesis using that assms(4) by (auto simp: body_over_def consumed_def decodes_def sunk_def)
  qed
  have final: "body_over ToBody head b \<or> peer_closed rest" if "consumed ToBody head body payload b" for b
    using that assms(4) d decodes_fun[of head body "bs_chunked b" payload d payload]
    by (auto simp: body_over_def consumed_def sunk_def)
  have "ends_with ToBody head body payload rest" unfolding ends_with_def using early final by blast
  then obtain b where "Https_Run ca_path cx ToBody req = (Inr (), head, flush_last ToBody b)" "sunk ToBody payload b"
    using Https_Run_cuts[OF assms(1-3) d(1), of ToBody] by auto
  then show ?thesis by (simp add: Https_Post_def flush_last_def sunk_def)
qed

definition example_request :: http_request where
  "example_request = \<lparr>hr_url = ''http://h/x'', hr_body = [], hr_headers = []\<rparr>"

definition arrives :: "string list \<Rightarrow> connection" where
  "arrives ps = \<lparr>cx_verify_mode = None, cx_load_ca = None, cx_verify_callback = None, cx_sni = True, cx_resolve = None,
     cx_connect = None, cx_handshake = None, cx_write = None, cx_reads = map Bytes ps, cx_cancelled = (\<lambda>n. False)\<rparr>"

definition length_head :: string where
  "length_head = ''HTTP/1.1 200 OK'' @ crlf @ ''Content-Length: 5'' @ crlf @ crlf"

definition plain_head :: string where
  "plain_head = ''HTTP/1.1 200 OK'' @ crlf @ crlf"

lemma arrives_serves: "\<forall>p\<in>set ps. p \<noteq> [] \<Longrightarrow> serves [] example_request (arrives ps) ps []"
proof -
  assume "\<forall>p\<in>set ps. p \<noteq> []"
  moreover have "\<exists>url. ParseUrl (hr_url example_request) = Inr url \<and> \<not> tls url"
    by (rule exI[of _ "\<lparr>host = ''h'', port = ''80'', target = ''/x'', tls = False\<rparr>"]) code_simp
  ultimately show ?thesis by (auto simp: serves_def arrives_def quiet_def)
qed

lemma example_heads:
  "ok_head length_head \<lparr>status_code_of = 200, headers = [(''content-length'', ''5'')], head_bytes = 38, chunked = False, content_length = 5\<rparr>"
  "ok_head plain_head \<lparr>status_code_of = 200, headers = [], head_bytes = 19, chunked = False, content_length = -1\<rparr>"
  by code_simp+

theorem post_returns_body_witness:
  "fst (Https_Post [] (arrives [take 20 length_head, drop 20 length_head @ ''he'', ''llo'']) example_request) = Inr ''hello''"
proof -
  have "concat [take 20 length_head, drop 20 length_head @ ''he'', ''llo''] = length_head @ ''hello''" by simp
  moreover have "\<forall>p\<in>set [take 20 length_head, drop 20 length_head @ ''he'', ''llo'']. p \<noteq> []" by code_simp
  ultimately show ?thesis
    using post_returns_body[OF arrives_serves example_heads(1), of "[take 20 length_head, drop 20 length_head @ ''he'', ''llo'']" "''hello''" "[]" "''hello''"]
    by simp
qed

section \<open>Event streams\<close>

definition done_frame :: string where
  "done_frame = ''data: [DONE]'' @ [LF, LF]"

lemma saw_done_mono: "saw_done s \<Longrightarrow> saw_done (fst (sse_loop s))"
proof (induction s rule: sse_loop.induct)
  case (1 s)
  show ?case
  proof (cases "find_frame_end (sse_buf s)")
    case None
    then show ?thesis using 1(2) by (simp add: sse_loop.simps)
  next
    case (Some ek)
    obtain e k where ek: "ek = (e, k)" by (cases ek)
    obtain seen out where out: "deliver_payload (FramePayload (take e (sse_buf s))) (saw_done s) = (seen, out)" by fastforce
    have "seen" using out 1(2) by (simp add: deliver_payload_def split: if_splits)
    then have "saw_done (fst (sse_loop \<lparr>sse_buf = drop (e + k) (sse_buf s), saw_done = seen\<rparr>))"
      using 1(1)[OF Some ek[symmetric] refl out[symmetric]] by simp
    then show ?thesis
      using Some ek out by (subst sse_loop.simps) (simp add: Let_def case_prod_beta)
  qed
qed

lemma done_frame_feed: "SseFramer_Feed new_framer done_frame = (\<lparr>sse_buf = [], saw_done = True\<rparr>, [])"
proof -
  have "find_frame_end done_frame = Some (12, 2)" "FramePayload (take 12 done_frame) = ''[DONE]''" "drop 14 done_frame = []"
    "find_frame_end [] = None"
    by code_simp+
  then show ?thesis
    by (simp add: SseFramer_Feed_def new_framer_def sse_loop.simps[of "\<lparr>sse_buf = done_frame, saw_done = False\<rparr>"]
        sse_loop.simps[of "\<lparr>sse_buf = [], saw_done = True\<rparr>"] deliver_payload_def Let_def)
qed

lemma done_frame_cut:
  assumes "q @ out = done_frame" "saw_done (fst (SseFramer_Feed new_framer q))"
  shows "out = []"
proof (rule ccontr)
  assume "out \<noteq> []"
  moreover have "length q + length out = 14" using arg_cong[OF assms(1), of length] by (simp add: done_frame_def)
  ultimately have "length q < 14" by (cases out) simp_all
  then have "length q \<in> set [0..<14]" by simp
  moreover have "\<forall>k\<in>set [0..<14]. find_frame_end (take k done_frame) = None" by code_simp
  ultimately have "find_frame_end (take (length q) done_frame) = None" by (rule bspec[rotated])
  moreover have "take (length q) done_frame = q" by (simp flip: assms(1))
  ultimately have "find_frame_end q = None" by simp
  then show False using assms(2) by (simp add: SseFramer_Feed_def new_framer_def sse_loop.simps)
qed

lemma frames_feed:
  "\<forall>ls\<in>set fs. sendable ls \<Longrightarrow> SseFramer_Feed new_framer (concat (map sse_frame fs)) = (new_framer, map (join_with [LF]) fs)"
  using sse_loop_frames[of fs False] by (simp add: SseFramer_Feed_def new_framer_def)

lemma stream_feed:
  assumes "\<forall>ls\<in>set fs. sendable ls"
  shows "SseFramer_Feed new_framer (concat (map sse_frame fs) @ (if signed_off then done_frame else [])) =
    (\<lparr>sse_buf = [], saw_done = signed_off\<rparr>, map (join_with [LF]) fs)"
  using frames_feed[OF assms] done_frame_feed
  by (cases signed_off) (simp_all add: sse.feed_append[OF new_framer_idle] sse.feed_nil[OF new_framer_idle], simp add: new_framer_def)

lemma stream_done_last:
  assumes "\<forall>ls\<in>set fs. sendable ls" "dec @ out = concat (map sse_frame fs) @ (if signed_off then done_frame else [])"
    "saw_done (fst (SseFramer_Feed new_framer dec))"
  shows "out = []"
proof -
  let ?F = "concat (map sse_frame fs)"
  have "(\<exists>x. dec @ x = ?F) \<or> (\<exists>q. dec = ?F @ q \<and> q @ out = (if signed_off then done_frame else []))"
    using assms(2) by (auto simp: append_eq_append_conv2)
  then show ?thesis
  proof (elim disjE exE)
    fix x assume x: "dec @ x = ?F"
    have "saw_done (fst (SseFramer_Feed new_framer (dec @ x)))"
      using assms(3) saw_done_mono
      by (simp add: sse.feed_append[OF new_framer_idle] Let_def case_prod_beta, simp add: SseFramer_Feed_def)
    then show ?thesis using x frames_feed[OF assms(1)] by (simp add: new_framer_def)
  next
    fix q assume q: "dec = ?F @ q \<and> q @ out = (if signed_off then done_frame else [])"
    have "saw_done (fst (SseFramer_Feed new_framer q))"
      using assms(3) q frames_feed[OF assms(1)] by (simp add: sse.feed_append[OF new_framer_idle] case_prod_beta)
    then show ?thesis using q done_frame_cut[of q out] by (cases signed_off) auto
  qed
qed

text \<open>
  A streamed POST hands the caller exactly the payloads the server framed, in order and once each, however the network
  cuts the response and whether the body is chunked or not; the sign-off \<open>[DONE]\<close> ends the stream and is not delivered, and a
  stream without one ends with the body.
\<close>

lemma post_sse_delivers_payloads:
  assumes "serves ca_path req cx ps rest" "ok_head ht head" "concat ps = ht @ body" "\<forall>ls\<in>set fs. sendable ls"
    and "stream = concat (map sse_frame fs) @ (if signed_off then done_frame else [])"
    and "chunked head \<and> (\<forall>c\<in>set cs. c \<noteq> [] \<and> int (length c) < 2 ^ 64) \<and> body = encode_body cs \<and> stream = concat cs \<or>
      \<not> chunked head \<and> body = stream \<and> (signed_off \<or> peer_closed rest)"
  shows "Https_PostSse ca_path cx req = (Inr (), map (join_with [LF]) fs)"
proof -
  have feed: "SseFramer_Feed new_framer stream = (\<lparr>sse_buf = [], saw_done = signed_off\<rparr>, map (join_with [LF]) fs)"
    using stream_feed[OF assms(4)] assms(5) by simp
  obtain d where d: "decodes head body d stream" "chunked head \<longrightarrow> cd_complete d"
    using assms(6) decode_encode_body[of cs] by (auto simp: decodes_def body_done_def)
  have early: "dec = stream"
    if cut: "fed @ tail = body" and sofar: "consumed ToPayloads head fed dec b" and over: "body_over ToPayloads head b"
    for fed tail dec b
  proof -
    have "decodes head (fed @ tail) d stream" using d(1) cut by simp
    then obtain d1 dec1 out where pre: "decodes head fed d1 dec1" "stream = dec1 @ out"
      "chunked head \<longrightarrow> cd_complete d1 \<longrightarrow> out = []"
      using decodes_prefix[of head fed tail d stream] by blast
    have same: "dec = dec1" "chunked head \<longrightarrow> bs_chunked b = d1"
      using decodes_fun[of head fed "bs_chunked b" dec d1 dec1] pre(1) sofar by (auto simp: consumed_def)
    have "saw_done (bs_framer b) \<Longrightarrow> out = []"
      using stream_done_last[OF assms(4), of dec out signed_off] sofar pre(2) same(1) assms(5) by (simp add: consumed_def sunk_def)
    then show ?thesis using over pre same by (auto simp: body_over_def)
  qed
  have final: "body_over ToPayloads head b \<or> peer_closed rest" if all: "consumed ToPayloads head body stream b" for b
  proof -
    have "bs_framer b = \<lparr>sse_buf = [], saw_done = signed_off\<rparr>" using all feed by (simp add: consumed_def sunk_def)
    then have "saw_done (bs_framer b) = signed_off" by simp
    moreover have "chunked head \<longrightarrow> bs_chunked b = d"
      using all d(1) decodes_fun[of head body "bs_chunked b" stream d stream] by (auto simp: consumed_def)
    ultimately show ?thesis using assms(6) d(2) by (auto simp: body_over_def)
  qed
  have "ends_with ToPayloads head body stream rest" unfolding ends_with_def using early final by blast
  then obtain b where run: "Https_Run ca_path cx ToPayloads req = (Inr (), head, flush_last ToPayloads b)" "sunk ToPayloads stream b"
    using Https_Run_cuts[OF assms(1-3) d(1), of ToPayloads] by auto
  have "SseFramer_Flush \<lparr>sse_buf = [], saw_done = False\<rparr> = (\<lparr>sse_buf = [], saw_done = False\<rparr>, [])" by code_simp
  moreover have "bs_framer b = \<lparr>sse_buf = [], saw_done = signed_off\<rparr>" "bs_payloads b = map (join_with [LF]) fs"
    using run(2) feed by (simp_all add: sunk_def)
  ultimately have "bs_payloads (flush_last ToPayloads b) = map (join_with [LF]) fs"
    by (cases signed_off) (simp_all add: flush_last_def)
  then show ?thesis using run(1) by (simp add: Https_PostSse_def)
qed

section \<open>Bodies that are cut short\<close>

text \<open>
  The end of the connection is the end of any body: a response whose peer closes before the announced length has arrived, and
  a TLS stream cut off without its closing alert, are returned as complete.
\<close>

lemma short_body_accepted:
  assumes "serves ca_path req cx ps rest" "peer_closed rest" "ok_head ht head" "concat ps = ht @ body"
    "\<not> chunked head" "int (length body) < content_length head"
  shows "Https_Post ca_path cx req = (Inr body, head)"
proof -
  have d: "decodes head body new_decoder body" using assms(5) by (simp add: decodes_def)
  have "ends_with ToBody head body body rest"
    using assms(2,5,6) by (auto simp: ends_with_def body_over_def consumed_def sunk_def decodes_def)
  then obtain b where "Https_Run ca_path cx ToBody req = (Inr (), head, flush_last ToBody b)" "sunk ToBody body b"
    using Https_Run_cuts[OF assms(1,3,4) d, of ToBody] by auto
  then show ?thesis by (simp add: Https_Post_def flush_last_def sunk_def)
qed

text \<open>An error body is bounded by its first bytes plus the bound and one read, whatever the server goes on sending.\<close>

lemma error_body_bounded:
  "read_error_body cx body n reads = Inr out \<Longrightarrow> \<forall>s. Bytes s \<in> set reads \<longrightarrow> length s \<le> 8192 \<Longrightarrow>
    length out \<le> max (length body) (kMaxErrorBody + 8192)"
proof (induction cx body n reads rule: read_error_body.induct)
  case (2 cx body n r rs)
  show ?case
  proof (cases "length body < kMaxErrorBody \<and> (\<exists>s. r = Bytes s \<and> s \<noteq> [])")
    case True
    then obtain s where s: "r = Bytes s" "s \<noteq> []" "length body < kMaxErrorBody" by blast
    have "read_error_body cx (body @ s) (Suc n) rs = Inr out" using 2(2) s by (simp add: ReadSome_def)
    then have "length out \<le> max (length (body @ s)) (kMaxErrorBody + 8192)"
      using 2(1)[of s] s 2(3) by (simp add: ReadSome_def)
    moreover have "length s \<le> 8192" using 2(3) s by simp
    ultimately show ?thesis using s(3) by simp
  next
    case False
    then have "out = body" using 2(2) by (auto simp: ReadSome_def split: if_splits read_result.splits)
    then show ?thesis by simp
  qed
qed (simp split: if_splits)

end
