(* ===== verification/Template.thy ===== *)
theory Template
  imports Graph_State
begin

text \<open>
  The template and path languages of workflow specs: \<open>agentflow/workflow/template_engine.{h,cc}\<close>
  and \<open>agentflow/workflow/json_path.{h,cc}\<close>. The index loops of the parsers are recursions on the
  text that is left. \<open>absl::Time\<close> enters a context through the three conversions the code applies
  to it; \<open>std::atoi\<close> out of range is undefined in C++, so what it returns there is an argument.
\<close>

section \<open>JSON paths\<close>

datatype path_segment = Key string | Index int

definition key_char :: "char \<Rightarrow> bool" where
  "key_char c \<longleftrightarrow> c \<noteq> CHR ''.'' \<and> c \<noteq> CHR ''[''"

definition atoi :: "(string \<Rightarrow> int) \<Rightarrow> string \<Rightarrow> int" where
  "atoi overflow s = (if int (dec_value s) < 2 ^ 31 then int (dec_value s) else overflow s)"

function json_path_loop :: "(string \<Rightarrow> int) \<Rightarrow> nat \<Rightarrow> string \<Rightarrow> path_segment list status_or" where
  "json_path_loop overflow pos [] = Inr []"
| "json_path_loop overflow pos (c # rest) =
     (if c = CHR ''.'' then
        (let name = takeWhile key_char rest in
         if name = [] then Inl (Status InvalidArgument (''empty field name after '' @ [CHR 0x27] @ ''.'' @ [CHR 0x27]))
         else map_sum id (\<lambda>segs. Key name # segs)
                (json_path_loop overflow (pos + 1 + length name) (dropWhile key_char rest)))
      else if c = CHR ''['' then
        (case find_char (CHR '']'') rest of
           None \<Rightarrow> Inl (Status InvalidArgument (''unbalanced '' @ [CHR 0x27] @ ''['' @ [CHR 0x27]))
         | Some close \<Rightarrow>
            (let idx = take close rest in
             if \<not> list_all ascii_isdigit idx
             then Inl (Status InvalidArgument (''non-integer index '' @ [CHR 0x27] @ idx @ [CHR 0x27]))
             else map_sum id (\<lambda>segs. Index (atoi overflow idx) # segs)
                    (json_path_loop overflow (pos + close + 2) (drop (close + 1) rest))))
      else Inl (Status InvalidArgument (''unexpected char at position '' @ nat_to_dec pos)))"
  by pat_completeness auto
termination
  by (relation "measure (\<lambda>(f, p, s). length s)") (auto simp: le_imp_less_Suc length_dropWhile_le)

definition JsonPath_Parse :: "(string \<Rightarrow> int) \<Rightarrow> string \<Rightarrow> path_segment list status_or" where
  "JsonPath_Parse overflow expr =
     (case expr of
        [] \<Rightarrow> Inl (Status InvalidArgument (''path must start with '' @ [CHR 0x27] @ ''$'' @ [CHR 0x27]))
      | c # rest \<Rightarrow>
          if c \<noteq> CHR ''$''
          then Inl (Status InvalidArgument (''path must start with '' @ [CHR 0x27] @ ''$'' @ [CHR 0x27]))
          else json_path_loop overflow 1 rest)"

fun JsonPath_Resolve :: "path_segment list \<Rightarrow> json \<Rightarrow> json option" where
  "JsonPath_Resolve [] cur = Some cur"
| "JsonPath_Resolve (Key k # segs) cur =
     (case jfind cur k of None \<Rightarrow> None | Some v \<Rightarrow> JsonPath_Resolve segs v)"
| "JsonPath_Resolve (Index i # segs) cur =
     (case cur of
        JArr xs \<Rightarrow> if i < 0 \<or> nat i \<ge> length xs then None else JsonPath_Resolve segs (xs ! nat i)
      | _ \<Rightarrow> None)"

section \<open>Templates\<close>

datatype segment = LiteralSeg string | PathSeg "string list"

record template_string =
  tmpl_source :: string
  tmpl_segs :: "segment list"
  single_substitution :: bool

definition KnownHead :: "string \<Rightarrow> bool" where
  "KnownHead head \<longleftrightarrow> head \<in> set [''state'', ''parent'', ''tool'', ''workflow'', ''now'']"

definition is_blank :: "char \<Rightarrow> bool" where
  "is_blank c \<longleftrightarrow> c = CHR '' '' \<or> c = CHR 0x09"

definition flush_literal :: "string \<Rightarrow> segment list \<Rightarrow> segment list" where
  "flush_literal lit segs = (if lit = [] then segs else segs @ [LiteralSeg lit])"

definition open_braces :: string where "open_braces = [CHR 0x7B, CHR 0x7B]"
definition close_braces :: string where "close_braces = [CHR 0x7D, CHR 0x7D]"

function template_loop :: "string \<Rightarrow> string \<Rightarrow> segment list \<Rightarrow> nat \<Rightarrow> (segment list \<times> nat) status_or" where
  "template_loop expr lit segs n =
     (if expr = [] then Inr (flush_literal lit segs, n)
      else if prefix [CHR 0x5C, CHR 0x7B] expr
      then template_loop (drop 2 expr) (lit @ [CHR 0x7B]) segs n
      else if prefix open_braces expr then
        (case find_sub close_braces (drop 2 expr) of
           None \<Rightarrow> Inl (Status InvalidArgument (''unbalanced '' @ [CHR 0x27] @ open_braces @ [CHR 0x27]))
         | Some close \<Rightarrow>
            (let parts = SplitPath (trim_with is_blank (take close (drop 2 expr))) in
             if \<not> KnownHead (hd parts)
             then Inl (Status InvalidArgument (''unknown path head '' @ [CHR 0x27] @ hd parts @ [CHR 0x27] @
                        '' (allowed: state, parent, tool, workflow, now)''))
             else template_loop (drop (close + 2) (drop 2 expr)) [] (flush_literal lit segs @ [PathSeg parts]) (n + 1)))
      else if prefix close_braces expr
      then Inl (Status InvalidArgument (''unmatched '' @ [CHR 0x27] @ close_braces @ [CHR 0x27]))
      else template_loop (tl expr) (lit @ [hd expr]) segs n)"
  by pat_completeness auto
termination
  by (relation "measure (\<lambda>(e, l, s, n). length e)") auto

declare template_loop.simps [simp del]

definition TemplateString_Parse :: "string \<Rightarrow> template_string status_or" where
  "TemplateString_Parse expr =
     bind_status (template_loop expr [] [] 0) (\<lambda>(segs, n).
       Inr \<lparr>tmpl_source = expr, tmpl_segs = segs, single_substitution = (n = 1 \<and> length segs = 1)\<rparr>)"

fun seg_path :: "segment \<Rightarrow> string list option" where
  "seg_path (PathSeg parts) = Some parts"
| "seg_path (LiteralSeg t) = None"

definition paths :: "template_string \<Rightarrow> string list list" where
  "paths t = List.map_filter seg_path (tmpl_segs t)"

record 'm eval_context =
  ctx_state :: "'m gstate option"
  ctx_parent_state :: "'m gstate option"
  ctx_tool_args :: "json option"
  ctx_workflow_name :: string
  ctx_workflow_version :: string
  ctx_now_iso :: string
  ctx_now_unix_micros :: "64 word"
  ctx_now_unix_seconds :: "64 word"

fun walk :: "json \<Rightarrow> string list \<Rightarrow> json" where
  "walk cur [] = cur"
| "walk cur (p # ps) = (case jfind cur p of None \<Rightarrow> JNull | Some v \<Rightarrow> walk v ps)"

fun dotted :: "string list \<Rightarrow> string" where
  "dotted [] = []"
| "dotted [p] = p"
| "dotted (p # q # ps) = p @ ''.'' @ dotted (q # ps)"

definition read_state :: "'m proto_api \<Rightarrow> json_dumper \<Rightarrow> 'm gstate \<Rightarrow> string list \<Rightarrow> json" where
  "read_state api dump st ps =
     (case AsJson st of Some j \<Rightarrow> walk j ps | None \<Rightarrow> JStr (ReadStringField api dump st (dotted ps)))"

definition Resolve :: "'m proto_api \<Rightarrow> json_dumper \<Rightarrow> string list \<Rightarrow> 'm eval_context \<Rightarrow> json" where
  "Resolve api dump parts ctx =
     (case parts of
        [] \<Rightarrow> JNull
      | head # rest \<Rightarrow>
         if head = ''workflow'' then
           (case rest of
              [] \<Rightarrow> JNull
            | p # _ \<Rightarrow> if p = ''name'' then JStr (ctx_workflow_name ctx)
                       else if p = ''version'' then JStr (ctx_workflow_version ctx) else JNull)
         else if head = ''now'' then
           (case rest of
              [] \<Rightarrow> JNull
            | p # _ \<Rightarrow> if p = ''iso'' then JStr (ctx_now_iso ctx)
                       else if p = ''unix_micros'' then JInt (ctx_now_unix_micros ctx)
                       else if p = ''unix_seconds'' then JInt (ctx_now_unix_seconds ctx) else JNull)
         else if head = ''tool'' then
           (case ctx_tool_args ctx of
              None \<Rightarrow> JNull
            | Some args \<Rightarrow> if rest = [] then JNull else walk args rest)
         else if head = ''state'' then
           (case ctx_state ctx of
              None \<Rightarrow> JNull
            | Some st \<Rightarrow> if rest = [] then JNull else read_state api dump st rest)
         else if head = ''parent'' then
           (case ctx_parent_state ctx of
              None \<Rightarrow> JNull
            | Some st \<Rightarrow> if length rest < 2 \<or> hd rest \<noteq> ''state'' then JNull else read_state api dump st (tl rest))
         else JNull)"

definition Stringify :: "json_dumper \<Rightarrow> json \<Rightarrow> string" where
  "Stringify dump v = (case v of JStr s \<Rightarrow> s | JNull \<Rightarrow> [] | _ \<Rightarrow> dump v)"

fun eval_seg :: "'m proto_api \<Rightarrow> json_dumper \<Rightarrow> 'm eval_context \<Rightarrow> segment \<Rightarrow> string" where
  "eval_seg api dump ctx (LiteralSeg t) = t"
| "eval_seg api dump ctx (PathSeg parts) = Stringify dump (Resolve api dump parts ctx)"

definition Evaluate :: "'m proto_api \<Rightarrow> json_dumper \<Rightarrow> 'm eval_context \<Rightarrow> template_string \<Rightarrow> json" where
  "Evaluate api dump ctx t =
     (if single_substitution t
      then (case hd (tmpl_segs t) of PathSeg parts \<Rightarrow> Resolve api dump parts ctx | LiteralSeg _ \<Rightarrow> JNull)
      else JStr (concat (map (eval_seg api dump ctx) (tmpl_segs t))))"

section \<open>Writing templates and paths\<close>

text \<open>How an author writes segments: braces of literals escaped, paths in double braces.\<close>

fun escape :: "string \<Rightarrow> string" where
  "escape [] = []"
| "escape (c # cs) = (if c = CHR 0x7B then [CHR 0x5C, CHR 0x7B] else [c]) @ escape cs"

fun write_seg :: "segment \<Rightarrow> string" where
  "write_seg (LiteralSeg t) = escape t"
| "write_seg (PathSeg parts) = open_braces @ join_path parts @ close_braces"

text \<open>Segments that have a written form: literals without backslash and closing brace, no two in a row.\<close>

fun writable_seg :: "segment \<Rightarrow> bool" where
  "writable_seg (LiteralSeg t) \<longleftrightarrow> t \<noteq> [] \<and> CHR 0x5C \<notin> set t \<and> CHR 0x7D \<notin> set t"
| "writable_seg (PathSeg parts) \<longleftrightarrow> parts \<noteq> [] \<and> KnownHead (hd parts) \<and>
     (\<forall>p\<in>set parts. p \<noteq> [] \<and> (\<forall>c\<in>set p. c \<noteq> CHR ''.'' \<and> c \<noteq> CHR 0x7D \<and> \<not> is_blank c))"

fun no_adjacent :: "segment list \<Rightarrow> bool" where
  "no_adjacent (LiteralSeg a # LiteralSeg b # segs) = False"
| "no_adjacent (s # segs) = no_adjacent segs"
| "no_adjacent [] = True"

lemma template_loop_escape:
  "CHR 0x5C \<notin> set t \<Longrightarrow> CHR 0x7D \<notin> set t \<Longrightarrow>
     template_loop (escape t @ s) lit segs n = template_loop s (lit @ t) segs n"
proof (induction t arbitrary: lit)
  case (Cons c t)
  show ?case
  proof (cases "c = CHR 0x7B")
    case True
    then show ?thesis using Cons template_loop.simps[of "CHR 0x5C # CHR 0x7B # escape t @ s"] by simp
  next
    case False
    have "\<not> prefix open_braces (c # escape t @ s)" "\<not> prefix close_braces (c # escape t @ s)"
      using False Cons.prems by (auto simp: open_braces_def close_braces_def)
    moreover have "c \<noteq> CHR 0x5C" using Cons.prems by auto
    ultimately show ?thesis
      using False Cons template_loop.simps[of "c # escape t @ s"] by simp
  qed
qed simp

lemma join_path_chars: "c \<in> set (join_path ps) \<Longrightarrow> c = CHR ''.'' \<or> (\<exists>p\<in>set ps. c \<in> set p)"
  by (induction ps rule: join_path.induct) auto

lemma join_path_nonempty: "ps \<noteq> [] \<Longrightarrow> \<forall>p\<in>set ps. p \<noteq> [] \<Longrightarrow> join_path ps \<noteq> []"
  by (cases ps rule: join_path.cases) auto

lemma find_close:
  assumes "CHR 0x7D \<notin> set xs"
  shows "find_sub close_braces (xs @ close_braces @ s) = Some (length xs)"
proof (rule find_sub_SomeI)
  show "\<not> prefix close_braces (drop j (xs @ close_braces @ s))" if "j < length xs" for j
  proof -
    have "drop j (xs @ close_braces @ s) = xs ! j # drop (Suc j) xs @ close_braces @ s"
      using that by (simp add: Cons_nth_drop_Suc)
    moreover have "xs ! j \<noteq> CHR 0x7D" using assms that by (metis nth_mem)
    ultimately show ?thesis by (simp add: close_braces_def)
  qed
qed (simp_all add: close_braces_def)

lemma template_loop_path:
  assumes "writable_seg (PathSeg parts)"
  shows "template_loop (write_seg (PathSeg parts) @ s) lit segs n =
     template_loop s [] (flush_literal lit segs @ [PathSeg parts]) (n + 1)"
proof -
  let ?p = "join_path parts"
  have parts: "parts \<noteq> []" "KnownHead (hd parts)"
      "\<And>p c. p \<in> set parts \<Longrightarrow> c \<in> set p \<Longrightarrow> c \<noteq> CHR ''.'' \<and> c \<noteq> CHR 0x7D \<and> \<not> is_blank c"
      "\<And>p. p \<in> set parts \<Longrightarrow> p \<noteq> []"
    using assms by auto
  have chars: "c \<noteq> CHR 0x7D \<and> \<not> is_blank c" if "c \<in> set ?p" for c
    using join_path_chars[OF that] parts(3) by (auto simp: is_blank_def)
  have "?p \<noteq> []" using join_path_nonempty parts(1,4) by blast
  then have trim: "trim_with is_blank ?p = ?p"
    by (intro trim_with_id) (use chars in auto)
  have split: "SplitPath ?p = parts" using SplitPath_join parts(1,3) by blast
  have close: "find_sub close_braces (?p @ close_braces @ s) = Some (length ?p)"
    by (rule find_close) (use chars in blast)
  have "\<not> prefix [CHR 0x5C, CHR 0x7B] (open_braces @ ?p @ close_braces @ s)"
    by (simp add: open_braces_def)
  then show ?thesis
    using template_loop.simps[of "open_braces @ ?p @ close_braces @ s" lit segs n] close trim split parts(2)
    by (simp add: open_braces_def close_braces_def)
qed

lemma template_loop_write:
  "\<forall>x\<in>set xs. writable_seg x \<Longrightarrow> no_adjacent xs \<Longrightarrow> lit = [] \<or> (\<forall>t ys. xs \<noteq> LiteralSeg t # ys) \<Longrightarrow>
     template_loop (concat (map write_seg xs)) lit segs n =
       Inr (flush_literal lit segs @ xs, n + length (List.map_filter seg_path xs))"
proof (induction xs arbitrary: lit segs n)
  case Nil
  then show ?case by (subst template_loop.simps) (simp add: List.map_filter_def)
next
  case (Cons x xs)
  show ?case
  proof (cases x)
    case (PathSeg parts)
    have "no_adjacent xs" using Cons.prems(2) PathSeg by simp
    then show ?thesis
      using Cons PathSeg template_loop_path[of parts "concat (map write_seg xs)" lit segs n]
      by (simp add: flush_literal_def List.map_filter_def)
  next
    case (LiteralSeg t)
    have lit: "lit = []" using Cons.prems(3) LiteralSeg by auto
    have t: "t \<noteq> []" "CHR 0x5C \<notin> set t" "CHR 0x7D \<notin> set t" using Cons.prems(1) LiteralSeg by auto
    have next_path: "\<forall>u ys. xs \<noteq> LiteralSeg u # ys" using Cons.prems(2) LiteralSeg by auto
    have adj: "no_adjacent xs" using Cons.prems(2) LiteralSeg by (cases "x # xs" rule: no_adjacent.cases) auto
    have "template_loop (concat (map write_seg (x # xs))) lit segs n = template_loop (concat (map write_seg xs)) t segs n"
      using template_loop_escape[OF t(2,3)] LiteralSeg lit by simp
    also have "\<dots> = Inr (flush_literal t segs @ xs, n + length (List.map_filter seg_path xs))"
      by (rule Cons.IH) (use Cons.prems(1) adj next_path in auto)
    finally show ?thesis using t(1) lit LiteralSeg by (simp add: flush_literal_def List.map_filter_def)
  qed
qed


text \<open>Every parsed template has paths with a known head only.\<close>

definition seg_ok :: "segment \<Rightarrow> bool" where
  "seg_ok s = (case s of LiteralSeg t \<Rightarrow> t \<noteq> [] | PathSeg parts \<Rightarrow> parts \<noteq> [] \<and> KnownHead (hd parts))"

lemma flush_literal_ok: "list_all seg_ok segs \<Longrightarrow> list_all seg_ok (flush_literal lit segs)"
  by (simp add: flush_literal_def seg_ok_def)

lemma template_loop_ok:
  "template_loop expr lit segs n = Inr (segs', n') \<Longrightarrow> list_all seg_ok segs \<Longrightarrow> list_all seg_ok segs'"
proof (induction "length expr" arbitrary: expr lit segs n rule: less_induct)
  case less
  show ?case
  proof (cases "expr = []")
    case True
    then show ?thesis using less.prems by (subst (asm) template_loop.simps) (auto simp: flush_literal_ok)
  next
    case ne: False
    note eq = less.prems(1)[unfolded template_loop.simps[of expr]]
    consider (esc) "prefix [CHR 0x5C, CHR 0x7B] expr"
      | (opn) "\<not> prefix [CHR 0x5C, CHR 0x7B] expr" "prefix open_braces expr"
      | (cls) "\<not> prefix [CHR 0x5C, CHR 0x7B] expr" "\<not> prefix open_braces expr" "prefix close_braces expr"
      | (chr) "\<not> prefix [CHR 0x5C, CHR 0x7B] expr" "\<not> prefix open_braces expr" "\<not> prefix close_braces expr" by blast
    then show ?thesis
    proof cases
      case esc
      then have "template_loop (drop 2 expr) (lit @ [CHR 0x7B]) segs n = Inr (segs', n')" using eq ne by simp
      then show ?thesis using less.hyps[of "drop 2 expr"] less.prems(2) ne by simp
    next
      case opn
      then obtain close where close: "find_sub close_braces (drop 2 expr) = Some close"
        using eq ne by (auto split: option.splits)
      let ?parts = "SplitPath (trim_with is_blank (take close (drop 2 expr)))"
      have known: "KnownHead (hd ?parts)" using eq ne opn close by (auto simp: Let_def split: if_splits)
      then have rec: "template_loop (drop (close + 2) (drop 2 expr)) [] (flush_literal lit segs @ [PathSeg ?parts]) (n + 1) = Inr (segs', n')"
        using eq ne opn close by (simp add: Let_def)
      have "list_all seg_ok (flush_literal lit segs @ [PathSeg ?parts])"
        using known flush_literal_ok[OF less.prems(2)] by (simp add: seg_ok_def)
      then show ?thesis using less.hyps[OF _ rec] ne by simp
    next
      case cls
      then show ?thesis using eq ne by simp
    next
      case chr
      then have "template_loop (tl expr) (lit @ [hd expr]) segs n = Inr (segs', n')" using eq ne by simp
      then show ?thesis using less.hyps[of "tl expr"] less.prems(2) ne by simp
    qed
  qed
qed

lemma paths_known:
  assumes "TemplateString_Parse expr = Inr t" and "ps \<in> set (paths t)"
  shows "ps \<noteq> [] \<and> KnownHead (hd ps)"
proof -
  from assms(1) obtain n where "template_loop expr [] [] 0 = Inr (tmpl_segs t, n)"
    by (auto simp: TemplateString_Parse_def bind_status_Inr_iff)
  then have ok: "list_all seg_ok (tmpl_segs t)" using template_loop_ok by force
  from assms(2) have "PathSeg ps \<in> set (tmpl_segs t)"
    by (auto simp: paths_def List.map_filter_def elim!: seg_path.elims)
  with ok show ?thesis by (auto simp: list_all_iff seg_ok_def)
qed

section \<open>Writing JSON paths\<close>

fun write_path :: "path_segment list \<Rightarrow> string" where
  "write_path [] = []"
| "write_path (Key k # segs) = CHR ''.'' # k @ write_path segs"
| "write_path (Index i # segs) = CHR ''['' # nat_to_dec (nat i) @ CHR '']'' # write_path segs"

fun writable_path :: "path_segment list \<Rightarrow> bool" where
  "writable_path [] = True"
| "writable_path (Key k # segs) \<longleftrightarrow> k \<noteq> [] \<and> list_all key_char k \<and> writable_path segs"
| "writable_path (Index i # segs) \<longleftrightarrow> 0 \<le> i \<and> i < 2 ^ 31 \<and> writable_path segs"

lemma write_path_start: "s = write_path segs \<Longrightarrow> s = [] \<or> \<not> key_char (hd s)"
  by (cases segs rule: write_path.cases) (auto simp: key_char_def)

lemma json_path_loop_write: "writable_path segs \<Longrightarrow> json_path_loop overflow pos (write_path segs) = Inr segs"
proof (induction segs arbitrary: pos rule: writable_path.induct)
  case (2 k segs)
  have all: "\<forall>c\<in>set k. key_char c" using 2 by (simp add: list_all_iff)
  have "takeWhile key_char (k @ write_path segs) = k" "dropWhile key_char (k @ write_path segs) = write_path segs"
    using all write_path_start[OF refl, of segs]
    by (cases "write_path segs"; simp add: takeWhile_append2 dropWhile_append2)+
  with 2 show ?case by simp
next
  case (3 i segs)
  have digits: "CHR '']'' \<notin> set (nat_to_dec (nat i))" "list_all ascii_isdigit (nat_to_dec (nat i))"
    using nat_to_dec_digits[of "nat i"] by (auto simp: list_all_iff ascii_isdigit_def byte_val_def)
  have "atoi overflow (nat_to_dec (nat i)) = i" using 3 by (simp add: atoi_def)
  with 3 digits show ?case by simp
qed simp

section \<open>Properties\<close>

text \<open>
  C19. Templates: text written from literal segments (opening braces escaped) and double-braced
  paths with a known head parses back into exactly these segments, and evaluates to the
  concatenation of the literals and the rendered values of the paths, or, for a lone path, to the
  value itself with its type. Substituted values are never parsed again.
\<close>

theorem template_roundtrip:
  assumes "\<forall>x\<in>set xs. writable_seg x" and "no_adjacent xs"
  shows "\<exists>t. TemplateString_Parse (concat (map write_seg xs)) = Inr t \<and> tmpl_segs t = xs \<and>
     Evaluate api dump ctx t =
       (case xs of [PathSeg ps] \<Rightarrow> Resolve api dump ps ctx | _ \<Rightarrow> JStr (concat (map (eval_seg api dump ctx) xs)))"
proof -
  let ?n = "length (List.map_filter seg_path xs)"
  have p: "template_loop (concat (map write_seg xs)) [] [] 0 = Inr (xs, ?n)"
    using template_loop_write[OF assms] by (simp add: flush_literal_def)
  have single: "(?n = 1 \<and> length xs = 1) \<longleftrightarrow> (\<exists>ps. xs = [PathSeg ps])"
  proof
    assume "?n = 1 \<and> length xs = 1"
    then obtain x where "xs = [x]" "?n = 1" by (auto simp: length_Suc_conv)
    then show "\<exists>ps. xs = [PathSeg ps]" by (cases x) (auto simp: List.map_filter_def)
  qed (auto simp: List.map_filter_def)
  show ?thesis
    unfolding TemplateString_Parse_def p using single
    by (auto simp: Evaluate_def split: list.splits segment.splits)
qed

definition sample_ctx :: "string eval_context" where
  "sample_ctx = \<lparr>ctx_state = None, ctx_parent_state = None, ctx_tool_args = Some (JObj [(''goal'', JStr ''win'')]),
     ctx_workflow_name = ''wf'', ctx_workflow_version = ''1'', ctx_now_iso = [], ctx_now_unix_micros = 0, ctx_now_unix_seconds = 0\<rparr>"

theorem template_roundtrip_witness:
  "\<exists>t. TemplateString_Parse (concat (map write_seg [LiteralSeg ''do '', PathSeg [''tool'', ''goal'']])) = Inr t \<and>
     Evaluate sample_api (\<lambda>_. []) sample_ctx t = JStr ''do win''"
proof -
  have 1: "\<forall>x\<in>set [LiteralSeg ''do '', PathSeg [''tool'', ''goal'']]. writable_seg x" by code_simp
  have 2: "no_adjacent [LiteralSeg ''do '', PathSeg [''tool'', ''goal'']]" by simp
  have 3: "concat (map (eval_seg sample_api (\<lambda>_. []) sample_ctx) [LiteralSeg ''do '', PathSeg [''tool'', ''goal'']]) = ''do win''"
    by (simp add: Resolve_def sample_ctx_def Stringify_def)
  from template_roundtrip[OF 1 2, of sample_api "\<lambda>_. []" sample_ctx] show ?thesis
    unfolding 3 by (auto simp: list.case segment.case)
qed

text \<open>
  JSON paths: the text of a path of field names and non-negative indices below \<open>2^31\<close> parses back
  into it; resolving it succeeds exactly when each name is a member of an object and each index
  is within its array, and then returns the value found there.
\<close>

lemma json_path_roundtrip:
  assumes "writable_path segs"
  shows "JsonPath_Parse overflow (CHR ''$'' # write_path segs) = Inr segs \<and>
     JsonPath_Resolve (segs @ [Key k]) root = (case JsonPath_Resolve segs root of None \<Rightarrow> None | Some v \<Rightarrow> jfind v k) \<and>
     JsonPath_Resolve (segs @ [Index i]) root =
       (case JsonPath_Resolve segs root of
          Some (JArr xs) \<Rightarrow> if 0 \<le> i \<and> nat i < length xs then Some (xs ! nat i) else None
        | _ \<Rightarrow> None)"
proof -
  have "JsonPath_Resolve (xs @ ys) j = (case JsonPath_Resolve xs j of None \<Rightarrow> None | Some v \<Rightarrow> JsonPath_Resolve ys v)" for xs ys j
    by (induction xs j rule: JsonPath_Resolve.induct) (auto split: option.splits json.splits)
  then show ?thesis
    using json_path_loop_write[OF assms]
    by (auto simp: JsonPath_Parse_def split: option.splits json.splits)
qed

text \<open>An empty index is accepted and read as 0.\<close>

lemma json_path_empty_index: "JsonPath_Parse overflow ''$.a[]'' = Inr [Key ''a'', Index 0]"
  by (simp add: JsonPath_Parse_def key_char_def atoi_def dec_value_def)

end
