(* ===== verification/Workflow_Spec.thy ===== *)
theory Workflow_Spec
  imports Template
begin

text \<open>
  The workflow spec and its reading from JSON, first part of \<open>agentflow/workflow/workflow_loader.cc\<close>
  (\<open>ParseStateSpec\<close> to \<open>ParseRoot\<close>), with the compiled workflow of \<open>workflow.{h,cc}\<close>. The records
  have the fields of the generated message \<open>WorkflowSpec\<close>; a submessage whose presence the code
  tests is an option, a protobuf map an association list.
\<close>

record state_field_decl =
  sf_type :: string
  sf_default_value_json :: string

record state_spec =
  ss_kind :: string
  ss_fields :: "(string \<times> state_field_decl) list"
  ss_message_type :: string
  ss_descriptor_set_path :: string
  ss_descriptor_set_b64 :: string

record model_spec =
  ms_max_output_tokens :: "32 word"
  ms_constrained_tool_calls :: bool
  ms_backend :: string

record delegate_spec =
  ds_agents :: "string list"
  ds_max_depth :: "32 word"
  ds_input_template :: "(string \<times> string) list"
  ds_goal_template :: string
  ds_output_extract :: string

record agent_def =
  ad_system_prompt :: string
  ad_model :: model_spec
  ad_tools :: "string list"
  ad_delegates :: "delegate_spec option"

record signing_spec =
  sg_algo :: string
  sg_key_id :: string
  sg_signature :: string

record workflow_spec =
  ws_schema_version :: "32 word"
  ws_name :: string
  ws_version :: string
  ws_state :: state_spec
  ws_agents :: "(string \<times> agent_def) list"
  ws_main :: string
  ws_signing :: "signing_spec option"

definition empty_state_spec :: state_spec where
  "empty_state_spec = \<lparr>ss_kind = [], ss_fields = [], ss_message_type = [], ss_descriptor_set_path = [],
     ss_descriptor_set_b64 = []\<rparr>"

definition empty_model :: model_spec where
  "empty_model = \<lparr>ms_max_output_tokens = 0, ms_constrained_tool_calls = False, ms_backend = []\<rparr>"

definition empty_delegates :: delegate_spec where
  "empty_delegates = \<lparr>ds_agents = [], ds_max_depth = 0, ds_input_template = [], ds_goal_template = [],
     ds_output_extract = []\<rparr>"

definition empty_agent :: agent_def where
  "empty_agent = \<lparr>ad_system_prompt = [], ad_model = empty_model, ad_tools = [], ad_delegates = None\<rparr>"

definition empty_signing :: signing_spec where
  "empty_signing = \<lparr>sg_algo = [], sg_key_id = [], sg_signature = []\<rparr>"

definition empty_spec :: workflow_spec where
  "empty_spec = \<lparr>ws_schema_version = 0, ws_name = [], ws_version = [], ws_state = empty_state_spec,
     ws_agents = [], ws_main = [], ws_signing = None\<rparr>"

definition invalid :: "string \<Rightarrow> status" where
  "invalid msg = Status InvalidArgument msg"

definition sq :: "string \<Rightarrow> string" where
  "sq s = [CHR 0x27] @ s @ [CHR 0x27]"

text \<open>A string member, or the empty string a protobuf field starts with.\<close>

definition string_member :: "json \<Rightarrow> string \<Rightarrow> string" where
  "string_member j k = (case jstring j k of Some s \<Rightarrow> s | None \<Rightarrow> [])"

fun members :: "json \<Rightarrow> (string \<times> json) list" where
  "members (JObj m) = m"
| "members _ = []"

section \<open>Reading\<close>

definition parse_field :: "json_dumper \<Rightarrow> (string \<times> state_field_decl) list \<Rightarrow> string \<times> json \<Rightarrow>
    (string \<times> state_field_decl) list status_or" where
  "parse_field dump acc kv =
     (case kv of (fname, fdecl) \<Rightarrow>
        if \<not> is_object fdecl then Inl (invalid (''state.fields['' @ fname @ ''] must be an object''))
        else Inr (AList.update fname
               \<lparr>sf_type = string_member fdecl ''type'',
                sf_default_value_json = (case jfind fdecl ''default'' of Some d \<Rightarrow> dump d | None \<Rightarrow> [])\<rparr> acc))"

definition ParseStateSpec :: "json_dumper \<Rightarrow> json \<Rightarrow> state_spec status_or" where
  "ParseStateSpec dump j =
     (if \<not> is_object j then Inl (invalid ''state must be an object'')
      else
        (let out = empty_state_spec\<lparr>
               ss_kind := string_member j ''kind'',
               ss_message_type := string_member j ''message_type'',
               ss_descriptor_set_path := string_member j ''descriptor_set_path'',
               ss_descriptor_set_b64 := string_member j ''descriptor_set_b64''\<rparr>
         in case jfind j ''fields'' of
              None \<Rightarrow> Inr out
            | Some fobj \<Rightarrow>
                if \<not> is_object fobj then Inl (invalid ''state.fields must be an object'')
                else bind_status (fold_status (parse_field dump) [] (members fobj))
                       (\<lambda>fs. Inr (out\<lparr>ss_fields := fs\<rparr>))))"

definition parse_string_list :: "string \<Rightarrow> json list \<Rightarrow> string list status_or" where
  "parse_string_list err xs =
     fold_status (\<lambda>acc x. case x of JStr s \<Rightarrow> Inr (acc @ [s]) | _ \<Rightarrow> Inl (invalid err)) [] xs"

definition parse_delegate_agents :: "json \<Rightarrow> string list status_or" where
  "parse_delegate_agents j =
     (case jfind j ''agents'' of
        None \<Rightarrow> Inr []
      | Some a \<Rightarrow>
         (case a of JArr xs \<Rightarrow> parse_string_list ''delegates.agents entries must be strings'' xs
          | _ \<Rightarrow> Inl (invalid ''delegates.agents must be an array'')))"

definition parallel_error :: string where
  "parallel_error = ''delegates.parallel is not a supported key '' @ [CHR 0xE2, CHR 0x80, CHR 0x94] @
     '' parallel execution is the default behaviour of the tool-dispatch loop and needs no declaration. Remove it.''"

definition parse_input_template :: "json \<Rightarrow> (string \<times> string) list status_or" where
  "parse_input_template j =
     (case jfind j ''input_template'' of
        None \<Rightarrow> Inr []
      | Some t \<Rightarrow>
          if \<not> is_object t then Inl (invalid ''delegates.input_template must be an object'')
          else fold_status (\<lambda>acc (k, v). case v of
                 JStr s \<Rightarrow> Inr (AList.update k s acc)
               | _ \<Rightarrow> Inl (invalid (''delegates.input_template['' @ k @ ''] must be a string''))) [] (members t))"

definition ParseDelegateSpec :: "json \<Rightarrow> delegate_spec status_or" where
  "ParseDelegateSpec j =
     (if \<not> is_object j then Inl (invalid ''delegates must be an object'')
      else bind_status (parse_delegate_agents j) (\<lambda>agents.
        if jfind j ''parallel'' \<noteq> None then Inl (invalid parallel_error)
        else bind_status (parse_input_template j) (\<lambda>tmpl.
          Inr \<lparr>ds_agents = agents,
               ds_max_depth = (case jfind j ''max_depth'' of
                  Some d \<Rightarrow> if is_number_integer d then get_int32 d else 0 | None \<Rightarrow> 0),
               ds_input_template = tmpl,
               ds_goal_template = string_member j ''goal_template'',
               ds_output_extract = string_member j ''output_extract''\<rparr>)))"

definition parse_model :: "string \<Rightarrow> json \<Rightarrow> model_spec status_or" where
  "parse_model agent_name j =
     (case jfind j ''model'' of
        None \<Rightarrow> Inr empty_model
      | Some m \<Rightarrow>
          if \<not> is_object m then Inl (invalid (''agent '' @ sq agent_name @ ''.model must be an object''))
          else
            (let out = \<lparr>ms_max_output_tokens = (case jfind m ''max_output_tokens'' of
                     Some t \<Rightarrow> if is_number_integer t then get_int32 t else 0 | None \<Rightarrow> 0),
                  ms_constrained_tool_calls = (case jfind m ''constrained_tool_calls'' of Some (JBool b) \<Rightarrow> b | _ \<Rightarrow> False),
                  ms_backend = []\<rparr>
             in case jfind m ''backend'' of
                  None \<Rightarrow> Inr out
                | Some b \<Rightarrow>
                   (case b of JStr s \<Rightarrow> Inr (out\<lparr>ms_backend := s\<rparr>)
                    | _ \<Rightarrow> Inl (invalid (''agent '' @ sq agent_name @ '': model.backend must be a string'')))))"

definition parse_tools :: "string \<Rightarrow> json \<Rightarrow> string list status_or" where
  "parse_tools agent_name j =
     (case jfind j ''tools'' of
        None \<Rightarrow> Inr []
      | Some t \<Rightarrow>
         (case t of JArr xs \<Rightarrow> parse_string_list (''agent '' @ sq agent_name @ ''.tools entries must be strings'') xs
          | _ \<Rightarrow> Inl (invalid (''agent '' @ sq agent_name @ ''.tools must be an array''))))"

definition ParseAgentDef :: "string \<Rightarrow> json \<Rightarrow> agent_def status_or" where
  "ParseAgentDef agent_name j =
     (if \<not> is_object j then Inl (invalid (''agent '' @ sq agent_name @ '' must be an object''))
      else bind_status (parse_model agent_name j) (\<lambda>model.
           bind_status (parse_tools agent_name j) (\<lambda>tools.
             let out = \<lparr>ad_system_prompt = string_member j ''system_prompt'', ad_model = model,
                        ad_tools = tools, ad_delegates = None\<rparr>
             in case jfind j ''delegates'' of
                  None \<Rightarrow> Inr out
                | Some d \<Rightarrow>
                   (case ParseDelegateSpec d of
                      Inl s \<Rightarrow> Inl (invalid (''agent '' @ sq agent_name @ '': '' @ message s))
                    | Inr ds \<Rightarrow> Inr (out\<lparr>ad_delegates := Some ds\<rparr>)))))"

definition ParseSigning :: "json \<Rightarrow> signing_spec status_or" where
  "ParseSigning j =
     (if \<not> is_object j then Inl (invalid ''signing must be an object'')
      else Inr \<lparr>sg_algo = string_member j ''algo'', sg_key_id = string_member j ''key_id'',
                sg_signature = string_member j ''signature''\<rparr>)"

definition parse_agents :: "json \<Rightarrow> (string \<times> agent_def) list status_or" where
  "parse_agents root =
     (case jfind root ''agents'' of
        None \<Rightarrow> Inr []
      | Some a \<Rightarrow>
          if \<not> is_object a then Inl (invalid ''agents must be an object'')
          else fold_status (\<lambda>acc (name, j). bind_status (ParseAgentDef name j) (\<lambda>def. Inr (AList.update name def acc)))
                 [] (members a))"

definition ParseRoot :: "json_dumper \<Rightarrow> json \<Rightarrow> workflow_spec status_or" where
  "ParseRoot dump root =
     (if \<not> is_object root then Inl (invalid ''workflow root must be a JSON object'')
      else bind_status (case jfind root ''state'' of None \<Rightarrow> Inr empty_state_spec | Some s \<Rightarrow> ParseStateSpec dump s) (\<lambda>state.
           bind_status (parse_agents root) (\<lambda>agents.
           bind_status (case jfind root ''signing'' of None \<Rightarrow> Inr None
                        | Some s \<Rightarrow> map_sum id Some (ParseSigning s)) (\<lambda>signing.
             Inr \<lparr>ws_schema_version = (case jfind root ''schema_version'' of
                     Some v \<Rightarrow> if is_number_integer v then get_int32 v else 0 | None \<Rightarrow> 0),
                  ws_name = string_member root ''name'', ws_version = string_member root ''version'',
                  ws_state = state, ws_agents = agents, ws_main = string_member root ''main'',
                  ws_signing = signing\<rparr>))))"

section \<open>The compiled workflow\<close>

record 'm workflow =
  wf_spec :: workflow_spec
  wf_state_pool :: "'m descriptor_pool option"

definition field_json :: "json_parser \<Rightarrow> state_field_decl \<Rightarrow> json" where
  "field_json parse d =
     (let f = JObj [(''type'', JStr (sf_type d))] in
      if sf_default_value_json d = [] then f
      else (case parse (sf_default_value_json d) of None \<Rightarrow> f | Some v \<Rightarrow> oput ''default'' v f))"

definition NewEmptyState :: "json_parser \<Rightarrow> 'm workflow \<Rightarrow> 'm gstate" where
  "NewEmptyState parse flow =
     (let st = ws_state (wf_spec flow) in
      if ss_kind st = ''dynamic_json''
      then FromJson (if ss_fields st = [] then JNull
             else foldl (\<lambda>acc (name, d). oput name (field_json parse d) acc) (JObj []) (ss_fields st))
      else if ss_kind st = ''proto_dynamic'' \<and> wf_state_pool flow \<noteq> None
      then FromDynamicProto (wf_state_pool flow) (ss_message_type st)
      else State)"

section \<open>What a parsed spec satisfies\<close>

lemma fold_status_distinct_keys:
  assumes "fold_status f acc xs = Inr ys" and "distinct (map fst acc)"
    and "\<And>a x b. f a x = Inr b \<Longrightarrow> \<exists>k v. b = AList.update k v a"
  shows "distinct (map fst ys)"
proof (rule fold_status_inv[where I = "\<lambda>m. distinct (map fst m)", OF assms(1,2)])
  show "distinct (map fst v)" if "distinct (map fst u)" "f u x = Inr v" for u x v
    using assms(3)[OF that(2)] that(1) by (auto simp: distinct_update)
qed

lemma parse_agents_distinct:
  assumes "parse_agents root = Inr agents"
  shows "distinct (map fst agents)"
proof (cases "jfind root ''agents''")
  case None
  then show ?thesis using assms by (simp add: parse_agents_def)
next
  case (Some a)
  then have "fold_status (\<lambda>acc (name, j). bind_status (ParseAgentDef name j) (\<lambda>def. Inr (AList.update name def acc)))
      [] (members a) = Inr agents"
    using assms by (simp add: parse_agents_def split: if_splits)
  then show ?thesis
    by (rule fold_status_distinct_keys) (auto simp: bind_status_Inr_iff split: prod.splits)
qed

lemma ParseRoot_distinct: "ParseRoot dump root = Inr spec \<Longrightarrow> distinct (map fst (ws_agents spec))"
  by (auto simp: ParseRoot_def bind_status_Inr_iff parse_agents_distinct split: if_splits)

end
