(* ===== verification/Workflow_Check.thy ===== *)
theory Workflow_Check
  imports Workflow_Spec
begin

text \<open>
  The validation passes of \<open>agentflow/workflow/workflow_loader.cc\<close>: resource limits, references,
  acyclic delegation and templates. A check returns \<open>Inr ()\<close> for an OK status. The depth-first
  search of \<open>CheckAcyclic\<close> is the iterative one of the source, with its stack of agents and child
  indices; it terminates because each push uses up a white agent. The lemmas characterise each
  pass: in particular the search succeeds exactly on acyclic delegation.
\<close>

section \<open>Resource limits\<close>

definition kMaxAgents :: nat where "kMaxAgents = 32"
definition kMaxToolsPerAgent :: nat where "kMaxToolsPerAgent = 64"
definition kMaxDelegateAgents :: nat where "kMaxDelegateAgents = 16"
definition kMaxDelegateDepth :: nat where "kMaxDelegateDepth = 8"

definition exhausted :: "string \<Rightarrow> status" where
  "exhausted msg = Status ResourceExhausted msg"

definition agent_limit_error :: "string \<Rightarrow> agent_def \<Rightarrow> status option" where
  "agent_limit_error name def =
     (if length (ad_tools def) > kMaxToolsPerAgent
      then Some (exhausted (''agent '' @ sq name @ '' has '' @ nat_to_dec (length (ad_tools def)) @
             '' tools (limit '' @ nat_to_dec kMaxToolsPerAgent @ '')''))
      else case ad_delegates def of
        None \<Rightarrow> None
      | Some d \<Rightarrow>
          if length (ds_agents d) > kMaxDelegateAgents
          then Some (exhausted (''agent '' @ sq name @ '' delegates '' @ nat_to_dec (length (ds_agents d)) @
                 '' agents (limit '' @ nat_to_dec kMaxDelegateAgents @ '')''))
          else if unat (ds_max_depth d) > kMaxDelegateDepth
          then Some (exhausted (''agent '' @ sq name @ '' delegate max_depth '' @ nat_to_dec (unat (ds_max_depth d)) @
                 '' > limit '' @ nat_to_dec kMaxDelegateDepth))
          else None)"

definition of_check :: "status option \<Rightarrow> unit status_or" where
  "of_check r = (case r of None \<Rightarrow> Inr () | Some s \<Rightarrow> Inl s)"

definition CheckResourceLimits :: "workflow_spec \<Rightarrow> nat \<Rightarrow> nat \<Rightarrow> unit status_or" where
  "CheckResourceLimits spec json_bytes max_json_bytes =
     (if json_bytes > max_json_bytes
      then Inl (exhausted (''workflow json size '' @ nat_to_dec json_bytes @ '' > limit '' @ nat_to_dec max_json_bytes))
      else if length (ws_agents spec) > kMaxAgents
      then Inl (exhausted (''agent count '' @ nat_to_dec (length (ws_agents spec)) @ '' > limit '' @ nat_to_dec kMaxAgents))
      else of_check (check_all (\<lambda>(name, def). agent_limit_error name def) (ws_agents spec)))"

section \<open>References\<close>

definition declared :: "workflow_spec \<Rightarrow> string \<Rightarrow> bool" where
  "declared spec a \<longleftrightarrow> has_key (ws_agents spec) a"

definition tool_error :: "(string \<Rightarrow> bool) \<Rightarrow> string \<Rightarrow> string \<Rightarrow> status option" where
  "tool_error has agent_name t =
     (if t = ''delegate''
      then Some (invalid (''agent '' @ sq agent_name @ '' references reserved tool name '' @ sq ''delegate'' @
             '' (auto-registered by the runtime)''))
      else if \<not> has t
      then Some (invalid (''agent '' @ sq agent_name @ '' references unknown tool '' @ sq t))
      else None)"

definition children :: "workflow_spec \<Rightarrow> string \<Rightarrow> string list" where
  "children spec a = (case map_of (ws_agents spec) a of
       None \<Rightarrow> []
     | Some def \<Rightarrow> (case ad_delegates def of None \<Rightarrow> [] | Some d \<Rightarrow> ds_agents d))"

definition agent_ref_error :: "(string \<Rightarrow> bool) \<Rightarrow> workflow_spec \<Rightarrow> string \<Rightarrow> agent_def \<Rightarrow> status option" where
  "agent_ref_error has spec agent_name def =
     (case check_all (tool_error has agent_name) (ad_tools def) of
        Some s \<Rightarrow> Some s
      | None \<Rightarrow>
         (case ad_delegates def of
            None \<Rightarrow> None
          | Some d \<Rightarrow> check_all (\<lambda>tgt.
                if declared spec tgt then None
                else Some (invalid (''agent '' @ sq agent_name @ '' delegates to unknown agent '' @ sq tgt))) (ds_agents d)))"

definition CheckReferences :: "(string \<Rightarrow> bool) \<Rightarrow> workflow_spec \<Rightarrow> unit status_or" where
  "CheckReferences has spec =
     (if ws_main spec = [] then Inl (invalid ''main is required'')
      else if \<not> declared spec (ws_main spec)
      then Inl (invalid (''main '' @ sq (ws_main spec) @ '' is not a declared agent''))
      else of_check (check_all (\<lambda>(name, def). agent_ref_error has spec name def) (ws_agents spec)))"

section \<open>Templates\<close>

definition path_error :: "string \<Rightarrow> string \<Rightarrow> string list \<Rightarrow> string list \<Rightarrow> status option" where
  "path_error agent_name location names parts =
     (case parts of
        [] \<Rightarrow> None
      | head # rest \<Rightarrow>
          if head \<noteq> ''state'' then None
          else (case rest of
             [] \<Rightarrow> Some (invalid (''agent '' @ sq agent_name @ '' '' @ location @ '': template '' @
                     sq (open_braces @ ''state'' @ close_braces) @ '' missing field name''))
           | f # _ \<Rightarrow>
               if f \<in> set names then None
               else Some (invalid (''agent '' @ sq agent_name @ '' '' @ location @
                      '': references unknown state field '' @ sq f))))"

definition CheckOneTemplate :: "string \<Rightarrow> string \<Rightarrow> string \<Rightarrow> string list \<Rightarrow> status option" where
  "CheckOneTemplate agent_name location source names =
     (case TemplateString_Parse source of
        Inl s \<Rightarrow> Some (invalid (''agent '' @ sq agent_name @ '' '' @ location @ '': '' @ message s))
      | Inr t \<Rightarrow> check_all (path_error agent_name location names) (paths t))"

definition agent_template_error :: "string list \<Rightarrow> string \<Rightarrow> agent_def \<Rightarrow> status option" where
  "agent_template_error names agent_name def =
     (case ad_delegates def of
        None \<Rightarrow> None
      | Some d \<Rightarrow>
         (case (if ds_goal_template d = [] then None
                else CheckOneTemplate agent_name ''delegates.goal_template'' (ds_goal_template d) names) of
            Some s \<Rightarrow> Some s
          | None \<Rightarrow> check_all (\<lambda>(key, tmpl).
              CheckOneTemplate agent_name (''delegates.input_template['' @ key @ '']'') tmpl names) (ds_input_template d)))"

definition CheckTemplates :: "workflow_spec \<Rightarrow> unit status_or" where
  "CheckTemplates spec =
     of_check (check_all (\<lambda>(name, def). agent_template_error (map fst (ss_fields (ws_state spec))) name def)
       (ws_agents spec))"

section \<open>Acyclic delegation\<close>

datatype color = White | Gray | Black

type_synonym coloring = "(string \<times> color) list"

definition whites :: "coloring \<Rightarrow> nat" where
  "whites cm = length (filter (\<lambda>p. snd p = White) cm)"

lemma whites_update_le: "c \<noteq> White \<Longrightarrow> whites (AList.update k c cm) \<le> whites cm"
proof (induction cm)
  case (Cons p cm)
  then show ?case by (cases p) (auto simp: whites_def)
qed (simp add: whites_def)

lemma whites_update_less:
  "c \<noteq> White \<Longrightarrow> map_of cm k = Some White \<Longrightarrow> whites (AList.update k c cm) < whites cm"
proof (induction cm)
  case (Cons p cm)
  then show ?case by (cases p) (auto simp: whites_def)
qed simp

definition unseen :: "workflow_spec \<Rightarrow> (string \<times> nat) list \<Rightarrow> nat" where
  "unseen spec stack = (\<Sum>(v, i)\<leftarrow>stack. Suc (length (children spec v) - i))"

definition cycle_error :: "string \<Rightarrow> status" where
  "cycle_error child = invalid (''delegation cycle detected through agent '' @ sq child)"

function dfs :: "workflow_spec \<Rightarrow> coloring \<Rightarrow> (string \<times> nat) list \<Rightarrow> coloring status_or" where
  "dfs spec cm [] = Inr cm"
| "dfs spec cm ((cur, idx) # stack) =
     (if idx < length (children spec cur) then
        (let child = children spec cur ! idx; stack' = (cur, Suc idx) # stack in
         case map_of cm child of
           None \<Rightarrow> dfs spec cm stack'
         | Some c \<Rightarrow>
             if c = Gray then Inl (cycle_error child)
             else if c = White then dfs spec (AList.update child Gray cm) ((child, 0) # stack')
             else dfs spec cm stack')
      else dfs spec (AList.update cur Black cm) stack)"
  by pat_completeness auto
termination
proof (relation "measures [\<lambda>(s, cm, st). whites cm, \<lambda>(s, cm, st). unseen s st]", goal_cases)
  case 1
  then show ?case by simp
next
  case (2 spec cm cur idx stack child stack')
  then show ?case by (simp add: unseen_def)
next
  case (3 spec cm cur idx stack child stack' c)
  then show ?case using whites_update_less[of Gray cm child] by simp
next
  case (4 spec cm cur idx stack child stack' c)
  then show ?case by (simp add: unseen_def)
next
  case (5 spec cm cur idx stack)
  then show ?case using whites_update_le[of Black cur cm] by (auto simp: unseen_def)
qed

definition dfs_from :: "workflow_spec \<Rightarrow> coloring \<Rightarrow> string \<times> agent_def \<Rightarrow> coloring status_or" where
  "dfs_from spec cm a =
     (case a of (start, _) \<Rightarrow>
        if map_of cm start = Some White then dfs spec (AList.update start Gray cm) [(start, 0)] else Inr cm)"

definition CheckAcyclic :: "workflow_spec \<Rightarrow> unit status_or" where
  "CheckAcyclic spec =
     map_sum id (\<lambda>_. ()) (fold_status (dfs_from spec) (map (\<lambda>(name, _). (name, White)) (ws_agents spec)) (ws_agents spec))"

subsection \<open>Correctness of the search\<close>

definition delegation :: "workflow_spec \<Rightarrow> (string \<times> string) set" where
  "delegation spec = {(u, v). declared spec u \<and> declared spec v \<and> v \<in> set (children spec u)}"

definition colored :: "coloring \<Rightarrow> color \<Rightarrow> string set" where
  "colored cm c = {v. map_of cm v = Some c}"

lemma colored_update: "colored (AList.update k c cm) d = (if d = c then insert k (colored cm d) else colored cm d - {k})"
  by (auto simp: colored_def)

fun stack_ok :: "workflow_spec \<Rightarrow> string set \<Rightarrow> string option \<Rightarrow> (string \<times> nat) list \<Rightarrow> bool" where
  "stack_ok spec B tp [] = True"
| "stack_ok spec B tp ((v, i) # rest) \<longleftrightarrow>
     declared spec v \<and> i \<le> length (children spec v) \<and>
     (\<forall>k<i. declared spec (children spec v ! k) \<longrightarrow> children spec v ! k \<in> B \<or> tp = Some (children spec v ! k)) \<and>
     (\<forall>t. tp = Some t \<longrightarrow> (v, t) \<in> delegation spec) \<and> stack_ok spec B (Some v) rest"

lemma stack_ok_mono: "stack_ok spec B tp st \<Longrightarrow> B \<subseteq> B' \<Longrightarrow> stack_ok spec B' tp st"
  by (induction spec B tp st rule: stack_ok.induct) auto

lemma stack_ok_path:
  "stack_ok spec B (Some t) st \<Longrightarrow> w \<in> fst ` set st \<Longrightarrow> (w, t) \<in> (delegation spec)\<^sup>+"
proof (induction st arbitrary: t)
  case (Cons p st)
  obtain v i where p: "p = (v, i)" by (cases p)
  have e: "(v, t) \<in> delegation spec" and ok: "stack_ok spec B (Some v) st" using Cons.prems(1) p by auto
  show ?case
  proof (cases "w = v")
    case True
    with e show ?thesis by blast
  next
    case False
    then have "(w, v) \<in> (delegation spec)\<^sup>+" using Cons.IH[OF ok] Cons.prems(2) p by auto
    with e show ?thesis by (meson trancl_into_trancl)
  qed
qed simp

definition dfs_inv :: "workflow_spec \<Rightarrow> coloring \<Rightarrow> (string \<times> nat) list \<Rightarrow> bool" where
  "dfs_inv spec cm stack \<longleftrightarrow>
     (\<forall>v. map_of cm v = None \<longleftrightarrow> \<not> declared spec v) \<and>
     distinct (map fst stack) \<and> (\<forall>v. v \<in> fst ` set stack \<longleftrightarrow> map_of cm v = Some Gray) \<and>
     stack_ok spec (colored cm Black) None stack \<and>
     delegation spec `` colored cm Black \<subseteq> colored cm Black \<and>
     acyclic (delegation spec \<inter> colored cm Black \<times> colored cm Black)"

lemma dfs_invD:
  assumes "dfs_inv spec cm stack"
  shows "map_of cm v = None \<longleftrightarrow> \<not> declared spec v" "distinct (map fst stack)"
    "v \<in> fst ` set stack \<longleftrightarrow> map_of cm v = Some Gray" "stack_ok spec (colored cm Black) None stack"
    "delegation spec `` colored cm Black \<subseteq> colored cm Black"
    "acyclic (delegation spec \<inter> colored cm Black \<times> colored cm Black)"
  using assms unfolding dfs_inv_def by blast+

lemma dfs_invI:
  assumes "\<And>v. map_of cm v = None \<longleftrightarrow> \<not> declared spec v" "distinct (map fst stack)"
    "\<And>v. v \<in> fst ` set stack \<longleftrightarrow> map_of cm v = Some Gray" "stack_ok spec (colored cm Black) None stack"
    "delegation spec `` colored cm Black \<subseteq> colored cm Black"
    "acyclic (delegation spec \<inter> colored cm Black \<times> colored cm Black)"
  shows "dfs_inv spec cm stack"
  unfolding dfs_inv_def using assms by blast

lemma acyclic_insert_closed:
  assumes closed: "E `` B \<subseteq> B" and out: "E `` {c} \<subseteq> B" and c: "c \<notin> B" and ac: "acyclic (E \<inter> B \<times> B)"
  shows "acyclic (E \<inter> insert c B \<times> insert c B)"
proof (rule acyclicI, rule allI, rule notI)
  let ?R = "E \<inter> insert c B \<times> insert c B"
  have stay: "y \<in> B \<and> (x, y) \<in> (E \<inter> B \<times> B)\<^sup>+" if "(x, y) \<in> ?R\<^sup>+" "x \<in> B" for x y
    using that
  proof (induction rule: trancl_induct)
    case (base y)
    then show ?case using closed by auto
  next
    case (step y z)
    then have "z \<in> B" "(y, z) \<in> E \<inter> B \<times> B" using closed by auto
    with step show ?case by (meson trancl_into_trancl)
  qed
  fix x
  assume cyc: "(x, x) \<in> ?R\<^sup>+"
  show False
  proof (cases "x \<in> B")
    case True
    with stay[OF cyc] ac show False by (auto simp: acyclic_def)
  next
    case False
    then have "x = c" using cyc by (metis Int_iff SigmaE2 insertE tranclE mem_Sigma_iff)
    from cyc obtain y where y: "(x, y) \<in> ?R" "(y, x) \<in> ?R\<^sup>*" by (meson tranclD)
    then have "y \<in> B" using out \<open>x = c\<close> by auto
    then show False using y(2) stay False by (metis rtranclD)
  qed
qed


lemma dfs_inv_advance:
  assumes inv: "dfs_inv spec cm ((cur, idx) # stack)" and idx: "idx < length (children spec cur)"
    and child: "map_of cm (children spec cur ! idx) = None \<or> map_of cm (children spec cur ! idx) = Some Black"
  shows "dfs_inv spec cm ((cur, Suc idx) # stack)"
proof -
  have "declared spec (children spec cur ! idx) \<longrightarrow> children spec cur ! idx \<in> colored cm Black"
    using dfs_invD(1)[OF inv, of "children spec cur ! idx"] child by (auto simp: colored_def)
  then have "stack_ok spec (colored cm Black) None ((cur, Suc idx) # stack)"
    using dfs_invD(4)[OF inv] idx by (auto simp: less_Suc_eq)
  moreover have "fst ` set ((cur, Suc idx) # stack) = fst ` set ((cur, idx) # stack)" by simp
  ultimately show ?thesis
    using inv unfolding dfs_inv_def by (metis list.simps(9) fst_conv)
qed

lemma dfs_inv_push:
  assumes inv: "dfs_inv spec cm ((cur, idx) # stack)" and idx: "idx < length (children spec cur)"
    and white: "map_of cm (children spec cur ! idx) = Some White"
  shows "dfs_inv spec (AList.update (children spec cur ! idx) Gray cm) ((children spec cur ! idx, 0) # (cur, Suc idx) # stack)"
proof -
  let ?c = "children spec cur ! idx" let ?cm = "AList.update ?c Gray cm"
  note D = dfs_invD[OF inv]
  have decl: "declared spec ?c" using D(1)[of ?c] white by simp
  have black: "colored ?cm Black = colored cm Black"
    using white by (auto simp: colored_def)
  have new: "?c \<notin> fst ` set ((cur, idx) # stack)" unfolding D(3) using white by simp
  have edge: "(cur, ?c) \<in> delegation spec"
    using D(4) decl idx by (auto simp: delegation_def)
  have "stack_ok spec (colored cm Black) (Some ?c) ((cur, Suc idx) # stack)"
    using D(4) idx edge by (auto simp: less_Suc_eq)
  then have ok: "stack_ok spec (colored ?cm Black) None ((?c, 0) # (cur, Suc idx) # stack)"
    using decl black by simp
  show ?thesis
  proof (rule dfs_invI)
    show "map_of ?cm v = None \<longleftrightarrow> \<not> declared spec v" for v using D(1)[of v] decl by simp
    show "distinct (map fst ((?c, 0) # (cur, Suc idx) # stack))" using D(2) new by simp
    show "v \<in> fst ` set ((?c, 0) # (cur, Suc idx) # stack) \<longleftrightarrow> map_of ?cm v = Some Gray" for v
      using D(3)[of v] by auto
  qed (use ok D(5,6) black in simp_all)
qed

lemma dfs_inv_pop:
  assumes inv: "dfs_inv spec cm ((cur, idx) # stack)" and idx: "\<not> idx < length (children spec cur)"
  shows "dfs_inv spec (AList.update cur Black cm) stack"
proof -
  let ?cm = "AList.update cur Black cm" let ?B = "colored cm Black" let ?E = "delegation spec"
  note D = dfs_invD[OF inv]
  note ok = D(4) and closed = D(5) and ac = D(6)
  have B: "colored ?cm Black = insert cur ?B" by (simp add: colored_update)
  have cur: "cur \<notin> ?B" "declared spec cur" using D(3)[of cur] ok by (auto simp: colored_def)
  have out: "?E `` {cur} \<subseteq> ?B"
  proof
    fix v
    assume "v \<in> ?E `` {cur}"
    then have "v \<in> set (children spec cur)" "declared spec v" by (auto simp: delegation_def)
    then obtain k where "k < length (children spec cur)" "v = children spec cur ! k" by (metis in_set_conv_nth)
    then show "v \<in> ?B" using ok idx \<open>declared spec v\<close> by auto
  qed
  have weaken: "stack_ok spec (insert cur ?B) None stack"
  proof (cases stack)
    case (Cons p rest)
    obtain v i where "p = (v, i)" by (cases p)
    with Cons ok show ?thesis by (auto intro: stack_ok_mono)
  qed simp
  show ?thesis
  proof (rule dfs_invI, unfold B)
    show "map_of ?cm v = None \<longleftrightarrow> \<not> declared spec v" for v using D(1)[of v] cur(2) by simp
    show "distinct (map fst stack)" using D(2) by simp
    show "v \<in> fst ` set stack \<longleftrightarrow> map_of ?cm v = Some Gray" for v
      using D(3)[of v] D(2) by auto
    show "?E `` insert cur ?B \<subseteq> insert cur ?B" using closed out by auto
    show "acyclic (?E \<inter> insert cur ?B \<times> insert cur ?B)"
      by (rule acyclic_insert_closed[OF closed out cur(1) ac])
  qed (rule weaken)
qed

lemma dfs_inv_cycle:
  assumes inv: "dfs_inv spec cm ((cur, idx) # stack)" and idx: "idx < length (children spec cur)"
    and gray: "map_of cm (children spec cur ! idx) = Some Gray"
  shows "\<not> acyclic (delegation spec)"
proof -
  let ?c = "children spec cur ! idx"
  note D = dfs_invD[OF inv]
  have on: "?c \<in> fst ` set ((cur, idx) # stack)" unfolding D(3) by (rule gray)
  have "declared spec ?c" using D(1)[of ?c] gray by simp
  then have edge: "(cur, ?c) \<in> delegation spec" using D(4) idx by (auto simp: delegation_def)
  have "(?c, cur) \<in> (delegation spec)\<^sup>*"
  proof (cases "?c = cur")
    case False
    then have "?c \<in> fst ` set stack" using on by auto
    moreover have "stack_ok spec (colored cm Black) (Some cur) stack" using D(4) by simp
    ultimately show ?thesis using stack_ok_path by (metis trancl_into_rtrancl)
  qed simp
  with edge have "(cur, cur) \<in> (delegation spec)\<^sup>+" by (meson rtrancl_into_trancl2)
  then show ?thesis by (auto simp: acyclic_def)
qed

lemma dfs_correct:
  "dfs_inv spec cm stack \<Longrightarrow>
     (case dfs spec cm stack of
        Inl e \<Rightarrow> \<not> acyclic (delegation spec)
      | Inr cm' \<Rightarrow> dfs_inv spec cm' [] \<and> colored cm Black \<union> colored cm Gray \<subseteq> colored cm' Black)"
proof (induction spec cm stack rule: dfs.induct)
  case (1 spec cm)
  then show ?case using dfs_invD(3)[OF 1] by (auto simp: colored_def)
next
  case (2 spec cm cur idx stack)
  let ?c = "children spec cur ! idx"
  show ?case
  proof (cases "idx < length (children spec cur)")
    case False
    have inv': "dfs_inv spec (AList.update cur Black cm) stack" by (rule dfs_inv_pop[OF 2(5) False])
    have "colored cm Black \<union> colored cm Gray \<subseteq> colored (AList.update cur Black cm) Black \<union> colored (AList.update cur Black cm) Gray"
      by (auto simp: colored_update)
    then show ?thesis using 2(4)[OF False inv'] False by (auto split: sum.splits)
  next
    case True
    consider (none) "map_of cm ?c = None" | (gray) "map_of cm ?c = Some Gray" | (white) "map_of cm ?c = Some White"
      | (black) "map_of cm ?c = Some Black" by (metis color.exhaust option.exhaust)
    then show ?thesis
    proof cases
      case none
      have inv': "dfs_inv spec cm ((cur, Suc idx) # stack)" by (rule dfs_inv_advance[OF 2(5) True]) (simp add: none)
      show ?thesis using 2(1)[OF True refl refl none inv'] True none by simp
    next
      case black
      have inv': "dfs_inv spec cm ((cur, Suc idx) # stack)" by (rule dfs_inv_advance[OF 2(5) True]) (simp add: black)
      show ?thesis using 2(3)[OF True refl refl black _ _ inv'] True black by simp
    next
      case gray
      then show ?thesis using dfs_inv_cycle[OF 2(5) True] True by simp
    next
      case white
      have inv': "dfs_inv spec (AList.update ?c Gray cm) ((?c, 0) # (cur, Suc idx) # stack)"
        by (rule dfs_inv_push[OF 2(5) True white])
      have "colored cm Black \<union> colored cm Gray \<subseteq> colored (AList.update ?c Gray cm) Black \<union> colored (AList.update ?c Gray cm) Gray"
        using white by (auto simp: colored_def)
      then show ?thesis using 2(2)[OF True refl refl white _ _ inv'] True white by (auto split: sum.splits)
    qed
  qed
qed


declare dfs.simps [simp del]

lemma dfs_from_correct:
  assumes inv: "dfs_inv spec cm []" and a: "declared spec (fst a)"
  shows "case dfs_from spec cm a of
        Inl e \<Rightarrow> \<not> acyclic (delegation spec)
      | Inr cm' \<Rightarrow> dfs_inv spec cm' [] \<and> insert (fst a) (colored cm Black) \<subseteq> colored cm' Black"
proof (cases "map_of cm (fst a) = Some White")
  case True
  let ?cm = "AList.update (fst a) Gray cm"
  note D = dfs_invD[OF inv]
  have black: "colored ?cm Black = colored cm Black" using True by (auto simp: colored_def)
  have "dfs_inv spec ?cm [(fst a, 0)]"
  proof (rule dfs_invI)
    show "map_of ?cm v = None \<longleftrightarrow> \<not> declared spec v" for v using D(1)[of v] a by simp
    show "v \<in> fst ` set [(fst a, 0)] \<longleftrightarrow> map_of ?cm v = Some Gray" for v using D(3)[of v] by auto
    show "stack_ok spec (colored ?cm Black) None [(fst a, 0)]" using a by simp
  qed (use D(5,6) black in simp_all)
  note main = dfs_correct[OF this]
  have eq: "dfs_from spec cm a = dfs spec ?cm [(fst a, 0)]" using True by (cases a) (simp add: dfs_from_def)
  have "fst a \<in> colored ?cm Gray" by (simp add: colored_def)
  with main black show ?thesis unfolding eq by (cases "dfs spec ?cm [(fst a, 0)]") auto
next
  case False
  then have "map_of cm (fst a) = Some Black"
    using dfs_invD(1)[OF inv, of "fst a"] dfs_invD(3)[OF inv, of "fst a"] a by (cases "map_of cm (fst a)"; cases "the (map_of cm (fst a))") auto
  then show ?thesis using False inv by (auto simp: dfs_from_def colored_def split: prod.splits)
qed

lemma dfs_fold_correct:
  assumes "dfs_inv spec cm []" and "\<forall>a\<in>set as. declared spec (fst a)"
  shows "case fold_status (dfs_from spec) cm as of
        Inl e \<Rightarrow> \<not> acyclic (delegation spec)
      | Inr cm' \<Rightarrow> dfs_inv spec cm' [] \<and> fst ` set as \<union> colored cm Black \<subseteq> colored cm' Black"
  using assms
proof (induction as arbitrary: cm)
  case (Cons a as)
  note step = dfs_from_correct[OF Cons.prems(1), of a]
  show ?case
  proof (cases "dfs_from spec cm a")
    case (Inl e)
    then show ?thesis using step Cons.prems(2) by simp
  next
    case (Inr cm')
    then have inv': "dfs_inv spec cm' []" and sub: "insert (fst a) (colored cm Black) \<subseteq> colored cm' Black"
      using step Cons.prems(2) by auto
    have "\<forall>a\<in>set as. declared spec (fst a)" using Cons.prems(2) by simp
    from Cons.IH[OF inv' this] Inr sub show ?thesis by (auto split: sum.splits)
  qed
qed simp

lemma CheckAcyclic_iff: "CheckAcyclic spec = Inr () \<longleftrightarrow> acyclic (delegation spec)"
proof -
  let ?cm = "map (\<lambda>(name, _). (name, White)) (ws_agents spec)"
  have "map_of (map (\<lambda>(name, _). (name, White)) as) v = (if has_key as v then Some White else None)" for as :: "(string \<times> agent_def) list" and v
    by (induction as) (auto simp: has_key_def)
  then have white: "map_of ?cm v = (if declared spec v then Some White else None)" for v
    by (simp add: declared_def)
  have "dfs_inv spec ?cm []" by (rule dfs_invI) (auto simp: white colored_def acyclic_def)
  moreover have "\<forall>a\<in>set (ws_agents spec). declared spec (fst a)" by (auto simp: declared_def has_key_iff)
  ultimately have main: "case fold_status (dfs_from spec) ?cm (ws_agents spec) of
        Inl e \<Rightarrow> \<not> acyclic (delegation spec)
      | Inr cm' \<Rightarrow> dfs_inv spec cm' [] \<and> fst ` set (ws_agents spec) \<union> colored ?cm Black \<subseteq> colored cm' Black"
    by (rule dfs_fold_correct)
  have "acyclic (delegation spec)" if "dfs_inv spec cm' []" "fst ` set (ws_agents spec) \<subseteq> colored cm' Black" for cm'
  proof -
    have "delegation spec \<inter> colored cm' Black \<times> colored cm' Black = delegation spec"
      using that(2) by (auto simp: delegation_def declared_def has_key_iff)
    then show ?thesis using dfs_invD(6)[OF that(1)] by simp
  qed
  with main show ?thesis
    by (cases "fold_status (dfs_from spec) ?cm (ws_agents spec)") (auto simp: CheckAcyclic_def)
qed

section \<open>What the other passes guarantee\<close>

lemma of_check_Inr [simp]: "of_check r = Inr () \<longleftrightarrow> r = None"
  by (cases r) (auto simp: of_check_def)

definition within_limits :: "agent_def \<Rightarrow> bool" where
  "within_limits def \<longleftrightarrow> length (ad_tools def) \<le> 64 \<and>
     (\<forall>d. ad_delegates def = Some d \<longrightarrow> length (ds_agents d) \<le> 16 \<and> ds_max_depth d \<le> 8)"

lemma agent_limit_error_None: "agent_limit_error name def = None \<longleftrightarrow> within_limits def"
  by (auto simp: agent_limit_error_def within_limits_def kMaxToolsPerAgent_def kMaxDelegateAgents_def kMaxDelegateDepth_def
      not_less word_le_nat_alt split: option.splits)

lemma CheckResourceLimits_iff:
  "CheckResourceLimits spec n m = Inr () \<longleftrightarrow>
     n \<le> m \<and> length (ws_agents spec) \<le> 32 \<and> (\<forall>(name, def)\<in>set (ws_agents spec). within_limits def)"
  by (auto simp: CheckResourceLimits_def kMaxAgents_def agent_limit_error_None)

definition refers_well :: "(string \<Rightarrow> bool) \<Rightarrow> workflow_spec \<Rightarrow> agent_def \<Rightarrow> bool" where
  "refers_well has spec def \<longleftrightarrow> (\<forall>t\<in>set (ad_tools def). t \<noteq> ''delegate'' \<and> has t) \<and>
     (\<forall>d. ad_delegates def = Some d \<longrightarrow> (\<forall>a\<in>set (ds_agents d). declared spec a))"

lemma agent_ref_error_None: "agent_ref_error has spec name def = None \<longleftrightarrow> refers_well has spec def"
proof -
  have tools: "check_all (tool_error has name) (ad_tools def) = None \<longleftrightarrow> (\<forall>t\<in>set (ad_tools def). t \<noteq> ''delegate'' \<and> has t)"
    by (auto simp: tool_error_def)
  show ?thesis
  proof (cases "check_all (tool_error has name) (ad_tools def)")
    case None
    have "agent_ref_error has spec name def = (case ad_delegates def of
            None \<Rightarrow> None
          | Some d \<Rightarrow> check_all (\<lambda>tgt.
                if declared spec tgt then None
                else Some (invalid (''agent '' @ sq name @ '' delegates to unknown agent '' @ sq tgt))) (ds_agents d))"
      unfolding agent_ref_error_def None by simp
    with tools None show ?thesis
      by (cases "ad_delegates def") (auto simp: refers_well_def)
  next
    case (Some s)
    then show ?thesis unfolding refers_well_def tools[symmetric] by (simp add: agent_ref_error_def del: check_all_None)
  qed
qed

lemma CheckReferences_iff:
  "CheckReferences has spec = Inr () \<longleftrightarrow> ws_main spec \<noteq> [] \<and> declared spec (ws_main spec) \<and>
     (\<forall>(name, def)\<in>set (ws_agents spec). refers_well has spec def)"
  by (auto simp: CheckReferences_def agent_ref_error_None)

definition template_fits :: "string list \<Rightarrow> string \<Rightarrow> bool" where
  "template_fits names source \<longleftrightarrow> (\<exists>t. TemplateString_Parse source = Inr t \<and>
     (\<forall>ps\<in>set (paths t). KnownHead (hd ps) \<and> (hd ps = ''state'' \<longrightarrow> (\<exists>f rest. ps = ''state'' # f # rest \<and> f \<in> set names))))"

lemma path_error_None:
  "path_error name loc names ps = None \<longleftrightarrow> ps = [] \<or> hd ps \<noteq> ''state'' \<or> (\<exists>f rest. ps = ''state'' # f # rest \<and> f \<in> set names)"
  by (auto simp: path_error_def split: list.splits)

lemma CheckOneTemplate_None: "CheckOneTemplate name loc source names = None \<longleftrightarrow> template_fits names source"
proof (cases "TemplateString_Parse source")
  case (Inl s)
  then show ?thesis by (simp add: CheckOneTemplate_def template_fits_def)
next
  case (Inr t)
  have "ps \<noteq> [] \<and> KnownHead (hd ps)" if "ps \<in> set (paths t)" for ps
    by (rule paths_known[OF Inr that])
  then show ?thesis using Inr by (auto simp: CheckOneTemplate_def template_fits_def path_error_None)
qed

definition templates_fit :: "string list \<Rightarrow> agent_def \<Rightarrow> bool" where
  "templates_fit names def \<longleftrightarrow> (\<forall>d. ad_delegates def = Some d \<longrightarrow>
     (ds_goal_template d \<noteq> [] \<longrightarrow> template_fits names (ds_goal_template d)) \<and>
     (\<forall>(k, tmpl)\<in>set (ds_input_template d). template_fits names tmpl))"

lemma agent_template_error_None: "agent_template_error names name def = None \<longleftrightarrow> templates_fit names def"
proof (cases "ad_delegates def")
  case (Some d)
  let ?goal = "if ds_goal_template d = [] then None
      else CheckOneTemplate name ''delegates.goal_template'' (ds_goal_template d) names"
  have goal: "?goal = None \<longleftrightarrow> (ds_goal_template d \<noteq> [] \<longrightarrow> template_fits names (ds_goal_template d))"
    by (simp add: CheckOneTemplate_None)
  have inputs: "check_all (\<lambda>(key, tmpl). CheckOneTemplate name (''delegates.input_template['' @ key @ '']'') tmpl names)
      (ds_input_template d) = None \<longleftrightarrow> (\<forall>(k, tmpl)\<in>set (ds_input_template d). template_fits names tmpl)"
    by (auto simp: CheckOneTemplate_None)
  show ?thesis
    using Some goal inputs
    by (cases ?goal) (auto simp: agent_template_error_def templates_fit_def simp del: check_all_None)
qed (simp add: agent_template_error_def templates_fit_def)

lemma CheckTemplates_iff:
  "CheckTemplates spec = Inr () \<longleftrightarrow>
     (\<forall>(name, def)\<in>set (ws_agents spec). templates_fit (map fst (ss_fields (ws_state spec))) def)"
  by (auto simp: CheckTemplates_def agent_template_error_None)

end
