(* ===== verification/Workflow_Loader.thy ===== *)
theory Workflow_Loader
  imports Workflow_Check
begin

unbundle bit_operations_syntax

text \<open>
  Signing and loading, the rest of \<open>agentflow/workflow/workflow_loader.cc\<close>: the canonical form a
  signature is computed over, its verification, and \<open>Load\<close> with all its passes in order. HMAC,
  base64, the file system and the protobuf descriptor library are the fields of \<open>loader_env\<close>.
\<close>

section \<open>The canonical form\<close>

fun canon :: "bool \<Rightarrow> json \<Rightarrow> json" where
  "canon is_root (JObj m) =
     JObj (foldl (\<lambda>acc (k, v). sorted_insert k v acc) []
       (filter (\<lambda>(k, v). \<not> (is_root \<and> k = ''signing'')) (map (\<lambda>kv. (fst kv, canon False (snd kv))) m)))"
| "canon is_root (JArr xs) = JArr (map (canon False) xs)"
| "canon is_root v = v"

definition CanonicalForm :: "json_dumper \<Rightarrow> json \<Rightarrow> string" where
  "CanonicalForm dump root = dump (canon True root)"

section \<open>Verification\<close>

definition char_int :: "char \<Rightarrow> 32 word" where
  "char_int c = scast (of_nat (byte_val c) :: 8 word)"

definition byte_diff :: "string \<Rightarrow> string \<Rightarrow> 32 word" where
  "byte_diff expected supplied = foldl (\<lambda>diff (a, b). diff OR (char_int a XOR char_int b)) 0 (zip expected supplied)"

type_synonym key_resolver = "string \<Rightarrow> string status_or"

text \<open>\<open>EVP_EncodeBlock\<close> and \<open>HMAC\<close> belong to the crypto library; a failed \<open>HMAC\<close> leaves length 0.\<close>

definition HmacSha256Base64 ::
    "(string \<Rightarrow> string \<Rightarrow> string) \<Rightarrow> (string \<Rightarrow> string) \<Rightarrow> string \<Rightarrow> string \<Rightarrow> string" where
  "HmacSha256Base64 hmac encode_block key data =
     (let mac = hmac key data in if mac = [] then [] else encode_block mac)"

definition VerifySignature ::
    "(string \<Rightarrow> string \<Rightarrow> string) \<Rightarrow> string \<Rightarrow> signing_spec \<Rightarrow> key_resolver \<Rightarrow> unit status_or" where
  "VerifySignature mac canonical sig resolver =
     (if sg_algo sig \<noteq> ''HMAC-SHA256''
      then Inl (invalid (''unsupported signing algo '' @ sq (sg_algo sig)))
      else bind_status (resolver (sg_key_id sig)) (\<lambda>key.
        let expected = mac key canonical in
        if length expected \<noteq> length (sg_signature sig) then Inl (invalid ''signature_invalid'')
        else if byte_diff expected (sg_signature sig) \<noteq> 0 then Inl (invalid ''signature_invalid'')
        else Inr ()))"

section \<open>Loading\<close>

record ('m, 'f) loader_env =
  le_parse :: json_parser
  le_dump :: json_dumper
  le_hmac :: "string \<Rightarrow> string \<Rightarrow> string"
  le_encode_block :: "string \<Rightarrow> string"
  le_base64 :: "string \<Rightarrow> string option"
  le_read_file :: "string \<Rightarrow> string option"
  le_parse_fds :: "string \<Rightarrow> 'f list option"
  le_build_file :: "'f list \<Rightarrow> 'f \<Rightarrow> bool"
  le_file_name :: "'f \<Rightarrow> string"
  le_pool :: "'f list \<Rightarrow> 'm descriptor_pool"

record loader_options =
  lo_max_json_bytes :: nat
  lo_key_resolver :: "key_resolver option"
  lo_require_signed :: bool

definition kCurrentWorkflowSchemaVersion :: "32 word" where
  "kCurrentWorkflowSchemaVersion = 1"

definition normalize_version :: "workflow_spec \<Rightarrow> workflow_spec" where
  "normalize_version spec = (if ws_schema_version spec = 0 then spec\<lparr>ws_schema_version := 1\<rparr> else spec)"

definition check_version :: "workflow_spec \<Rightarrow> unit status_or" where
  "check_version spec =
     (if ws_schema_version spec > kCurrentWorkflowSchemaVersion
      then Inl (Status FailedPrecondition (''schema_version '' @ nat_to_dec (unat (ws_schema_version spec)) @
             '' > supported '' @ nat_to_dec (unat kCurrentWorkflowSchemaVersion)))
      else Inr ())"

definition has_signing :: "workflow_spec \<Rightarrow> bool" where
  "has_signing spec = (case ws_signing spec of
       None \<Rightarrow> False
     | Some s \<Rightarrow> sg_algo s \<noteq> [] \<or> sg_signature s \<noteq> [])"

definition check_signing :: "('m, 'f) loader_env \<Rightarrow> loader_options \<Rightarrow> json \<Rightarrow> workflow_spec \<Rightarrow> unit status_or" where
  "check_signing env opts root spec =
     (if has_signing spec
      then (case lo_key_resolver opts of
              Some resolver \<Rightarrow>
                VerifySignature (HmacSha256Base64 (le_hmac env) (le_encode_block env)) (CanonicalForm (le_dump env) root) (the (ws_signing spec)) resolver
            | None \<Rightarrow> Inr ())
      else if lo_require_signed opts
      then Inl (Status FailedPrecondition ''signature_required'')
      else Inr ())"

definition descriptor_bytes :: "('m, 'f) loader_env \<Rightarrow> state_spec \<Rightarrow> string status_or" where
  "descriptor_bytes env st =
     (if ss_descriptor_set_b64 st \<noteq> []
      then (case le_base64 env (ss_descriptor_set_b64 st) of
              None \<Rightarrow> Inl (invalid ''descriptor_set_b64 decode failed'')
            | Some b \<Rightarrow> Inr b)
      else if ss_descriptor_set_path st \<noteq> []
      then (case le_read_file env (ss_descriptor_set_path st) of
              None \<Rightarrow> Inl (Status NotFound (''descriptor_set_path not readable: '' @ ss_descriptor_set_path st))
            | Some b \<Rightarrow> Inr b)
      else Inl (invalid ''proto_dynamic requires descriptor_set_path or descriptor_set_b64''))"

definition build_pool :: "('m, 'f) loader_env \<Rightarrow> 'f list \<Rightarrow> 'f list status_or" where
  "build_pool env fs =
     fold_status (\<lambda>built f. if le_build_file env built f then Inr (built @ [f])
                            else Inl (invalid (''BuildFile failed for '' @ le_file_name env f))) [] fs"

definition state_pool :: "('m, 'f) loader_env \<Rightarrow> state_spec \<Rightarrow> 'm descriptor_pool option status_or" where
  "state_pool env st =
     (if ss_kind st \<noteq> ''proto_dynamic'' then Inr None
      else bind_status (descriptor_bytes env st) (\<lambda>bytes.
        case le_parse_fds env bytes of
          None \<Rightarrow> Inl (invalid ''descriptor_set parse failed'')
        | Some fs \<Rightarrow>
            bind_status (build_pool env fs) (\<lambda>built.
              if ss_message_type st = [] then Inl (invalid ''proto_dynamic requires message_type'')
              else if le_pool env built (ss_message_type st) = None
              then Inl (invalid (''descriptor for '' @ ss_message_type st @ '' not found in supplied set''))
              else Inr (Some (le_pool env built)))))"

definition Load :: "('m, 'f) loader_env \<Rightarrow> (string \<Rightarrow> bool) \<Rightarrow> loader_options \<Rightarrow> string \<Rightarrow> 'm workflow status_or" where
  "Load env has opts json_text =
     (if length json_text > lo_max_json_bytes opts
      then Inl (exhausted (''workflow json size '' @ nat_to_dec (length json_text) @ '' > limit '' @
                 nat_to_dec (lo_max_json_bytes opts)))
      else case le_parse env json_text of
        None \<Rightarrow> Inl (invalid ''malformed json'')
      | Some root \<Rightarrow>
          bind_status (ParseRoot (le_dump env) root) (\<lambda>spec0.
            let spec = normalize_version spec0 in
            bind_status (check_version spec) (\<lambda>_.
            bind_status (CheckResourceLimits spec (length json_text) (lo_max_json_bytes opts)) (\<lambda>_.
            bind_status (CheckReferences has spec) (\<lambda>_.
            bind_status (CheckAcyclic spec) (\<lambda>_.
            bind_status (CheckTemplates spec) (\<lambda>_.
            bind_status (check_signing env opts root spec) (\<lambda>_.
            bind_status (state_pool env (ws_state spec)) (\<lambda>pool.
              Inr \<lparr>wf_spec = spec, wf_state_pool = pool\<rparr>)))))))))"

definition LoadFromFile :: "('m, 'f) loader_env \<Rightarrow> (string \<Rightarrow> bool) \<Rightarrow> loader_options \<Rightarrow> string \<Rightarrow> 'm workflow status_or" where
  "LoadFromFile env has opts path =
     (case le_read_file env path of
        None \<Rightarrow> Inl (Status NotFound (''cannot open workflow file: '' @ path))
      | Some text \<Rightarrow> Load env has opts text)"

section \<open>The byte comparison\<close>

lemma scast_byte_inj: "(scast (x :: 8 word) :: 32 word) = scast y \<longleftrightarrow> x = y"
proof
  assume "(scast x :: 32 word) = scast y"
  then have "sint (scast x :: 32 word) = sint (scast y :: 32 word)" by simp
  then have "sint x = sint y" by (simp add: sint_up_scast is_up)
  then show "x = y" by (rule signed_word_eqI)
qed simp

lemma char_int_inj: "char_int a = char_int b \<longleftrightarrow> a = b"
proof
  assume "char_int a = char_int b"
  then have "(of_nat (byte_val a) :: 8 word) = of_nat (byte_val b)"
    by (simp add: char_int_def scast_byte_inj)
  then have "unat (of_nat (byte_val a) :: 8 word) = unat (of_nat (byte_val b) :: 8 word)" by simp
  then have "byte_val a mod 2 ^ 8 = byte_val b mod 2 ^ 8" by (simp add: unat_of_nat)
  then show "a = b" using byte_val_less[of a] byte_val_less[of b] by (simp del: byte_val_less)
qed simp

lemma xor_eq_0_word: "(x :: 'a::len word) XOR y = 0 \<longleftrightarrow> x = y"
  by (metis xor.left_neutral xor.assoc xor_self_eq xor.right_neutral)

lemma byte_diff_fold:
  "length xs = length ys \<Longrightarrow>
   foldl (\<lambda>diff (a, b). diff OR (char_int a XOR char_int b)) d (zip xs ys) = 0 \<longleftrightarrow> d = 0 \<and> xs = ys"
  by (induction xs ys arbitrary: d rule: list_induct2) (auto simp: or_eq_0_iff xor_eq_0_word char_int_inj)

lemma byte_diff_eq_0: "length xs = length ys \<Longrightarrow> byte_diff xs ys = 0 \<longleftrightarrow> xs = ys"
  by (simp add: byte_diff_def byte_diff_fold)

lemma VerifySignature_iff:
  "VerifySignature mac canonical sig resolver = Inr () \<longleftrightarrow>
     sg_algo sig = ''HMAC-SHA256'' \<and>
     (\<exists>key. resolver (sg_key_id sig) = Inr key \<and> sg_signature sig = mac key canonical)"
  by (auto simp: VerifySignature_def bind_status_Inr_iff Let_def byte_diff_eq_0 split: if_splits)

section \<open>What the canonical form identifies\<close>

text \<open>
  Documents as the parser delivers them: no object has a key twice, a number without fraction is
  signed only when it is negative, a double is finite. Two documents hold the same data when they
  differ only in the order of object members.
\<close>

fun parsed_document :: "json \<Rightarrow> bool" where
  "parsed_document (JObj m) \<longleftrightarrow> distinct (map fst m) \<and> list_all (\<lambda>kv. parsed_document (snd kv)) m"
| "parsed_document (JArr xs) \<longleftrightarrow> list_all parsed_document xs"
| "parsed_document (JInt w) \<longleftrightarrow> bit w 63"
| "parsed_document (JFloat w) \<longleftrightarrow> take_bit 11 (drop_bit 52 w) \<noteq> mask 11"
| "parsed_document v \<longleftrightarrow> True"

lemma zip_size [termination_simp]:
  "p \<in> set (zip xs ys) \<Longrightarrow> f (fst p) < Suc (size_list f xs)"
  by (metis less_Suc_eq_le size_list_estimation' order_refl prod.collapse set_zip_leftD)

fun same_data :: "json \<Rightarrow> json \<Rightarrow> bool" where
  "same_data (JObj m) v = (case v of
       JObj n \<Rightarrow> set (map fst m) = set (map fst n) \<and>
                 list_all (\<lambda>kv. case map_of n (fst kv) of Some w \<Rightarrow> same_data (snd kv) w | None \<Rightarrow> False) m
     | _ \<Rightarrow> False)"
| "same_data (JArr xs) v = (case v of
       JArr ys \<Rightarrow> length xs = length ys \<and> list_all (\<lambda>p. same_data (fst p) (snd p)) (zip xs ys)
     | _ \<Rightarrow> False)"
| "same_data u v = (u = v)"

fun unsigned_document :: "json \<Rightarrow> json" where
  "unsigned_document (JObj m) = JObj (filter (\<lambda>kv. fst kv \<noteq> ''signing'') m)"
| "unsigned_document v = v"

lemma sorted_keys_ext:
  assumes "sorted (map fst m)" "distinct (map fst m)" "sorted (map fst n)" "distinct (map fst n)"
    and "map_of m = map_of n"
  shows "m = (n :: ('k::linorder \<times> 'v) list)"
proof -
  have "set m = set n" using assms(2,4,5) by (simp add: map_of_inject_set)
  moreover have "inj_on fst (set m \<union> set n)" using \<open>set m = set n\<close> assms(2) by (simp add: distinct_map)
  ultimately show ?thesis using assms(1-4) by (intro map_sorted_distinct_set_unique)
qed

abbreviation sorted_of :: "(string \<times> json) list \<Rightarrow> (string \<times> json) list" where
  "sorted_of kvs \<equiv> foldl (\<lambda>acc (k, v). sorted_insert k v acc) [] kvs"

lemma foldl_sorted_insert_sorted:
  fixes m :: "(string \<times> json) list"
  assumes "sorted (map fst m)" and "distinct (map fst m)"
  shows "sorted (map fst (foldl (\<lambda>acc (k, v). sorted_insert k v acc) m kvs)) \<and>
    distinct (map fst (foldl (\<lambda>acc (k, v). sorted_insert k v acc) m kvs))"
  using assms
proof (induction kvs arbitrary: m)
  case (Cons kv kvs)
  have "sorted (map fst (sorted_insert (fst kv) (snd kv) m)) \<and> distinct (map fst (sorted_insert (fst kv) (snd kv) m))"
    by (rule sorted_sorted_insert[OF Cons.prems])
  then show ?case using Cons.IH[of "sorted_insert (fst kv) (snd kv) m"] by (simp add: case_prod_beta)
qed simp

lemmas sorted_of_sorted = foldl_sorted_insert_sorted[of "[]", simplified]

lemma map_of_rev_distinct: "distinct (map fst m) \<Longrightarrow> map_of (rev m) = map_of m"
  by (rule map_of_inject_set[THEN iffD2]) (auto simp: rev_map[symmetric])

lemma map_of_sorted_of: "distinct (map fst kvs) \<Longrightarrow> map_of (sorted_of kvs) = map_of kvs"
  by (rule ext) (simp add: map_of_foldl_sorted_insert map_of_rev_distinct split: option.splits)

lemma sorted_of_eq_iff:
  "distinct (map fst m) \<Longrightarrow> distinct (map fst n) \<Longrightarrow> sorted_of m = sorted_of n \<longleftrightarrow> map_of m = map_of n"
  by (metis map_of_sorted_of sorted_keys_ext sorted_of_sorted)

lemma set_sorted_of: "distinct (map fst kvs) \<Longrightarrow> set (sorted_of kvs) = set kvs"
  by (metis map_of_inject_set map_of_sorted_of sorted_of_sorted)

abbreviation canon_members :: "(string \<times> json) list \<Rightarrow> (string \<times> json) list" where
  "canon_members m \<equiv> map (\<lambda>kv. (fst kv, canon False (snd kv))) m"

lemma canon_object: "canon False (JObj m) = JObj (sorted_of (canon_members m))"
  by simp

lemma map_of_canon_members: "map_of (canon_members m) k = map_option (canon False) (map_of m k)"
  by (induction m) auto

lemma canon_root: "canon True v = canon False (unsigned_document v)"
  by (cases v) (auto simp: filter_map comp_def case_prod_beta)

lemma parsed_unsigned: "parsed_document v \<Longrightarrow> parsed_document (unsigned_document v)"
  by (cases v) (auto simp: list_all_iff distinct_map_filter)

lemma parsed_canon: "parsed_document v \<Longrightarrow> parsed_document (canon False v)"
proof (induction v)
  case (JObj m)
  have d: "distinct (map fst (canon_members m))" using JObj.prems by (simp add: comp_def)
  show ?case unfolding canon_object parsed_document.simps
    using JObj sorted_of_sorted[of "canon_members m"]
    by (auto simp: list_all_iff set_sorted_of[OF d] snds.simps)
qed (auto simp: list_all_iff)

lemma same_data_array:
  "same_data (JArr xs) (JArr ys) \<longleftrightarrow> list_all2 same_data xs ys"
  by (auto simp: list_all2_iff list_all_iff)

lemma map_canon_eq_iff:
  assumes "\<And>x y. x \<in> set xs \<Longrightarrow> y \<in> set ys \<Longrightarrow> canon False x = canon False y \<longleftrightarrow> same_data x y"
  shows "map (canon False) xs = map (canon False) ys \<longleftrightarrow> list_all2 same_data xs ys"
  using assms by (auto simp: list_eq_iff_nth_eq list_all2_conv_all_nth)

lemma same_data_object:
  assumes "distinct (map fst m)"
  shows "same_data (JObj m) (JObj n) \<longleftrightarrow>
     (\<forall>k. rel_option same_data (map_of m k) (map_of n k))"
proof
  assume same: "same_data (JObj m) (JObj n)"
  show "\<forall>k. rel_option same_data (map_of m k) (map_of n k)"
  proof
    fix k
    show "rel_option same_data (map_of m k) (map_of n k)"
    proof (cases "map_of m k")
      case None
      then have "k \<notin> set (map fst n)" using same by (simp add: map_of_eq_None_iff)
      then have "map_of n k = None" by (simp add: map_of_eq_None_iff)
      then show ?thesis using None by simp
    next
      case (Some v)
      then show ?thesis using same map_of_SomeD[OF Some]
        by (fastforce simp: list_all_iff split: option.splits)
    qed
  qed
next
  assume rel: "\<forall>k. rel_option same_data (map_of m k) (map_of n k)"
  then have "map_of m k = None \<longleftrightarrow> map_of n k = None" for k
    by (metis option.rel_distinct(1) option.rel_distinct(2) option.exhaust)
  then have "set (map fst m) = set (map fst n)" by (auto simp: map_of_eq_None_iff)
  moreover have "case map_of n (fst kv) of Some w \<Rightarrow> same_data (snd kv) w | None \<Rightarrow> False"
    if "kv \<in> set m" for kv
    using spec[OF rel, of "fst kv"] map_of_is_SomeI[OF assms, of "fst kv" "snd kv"] that
    by (cases "map_of n (fst kv)") simp_all
  ultimately show "same_data (JObj m) (JObj n)" by (simp add: list_all_iff)
qed

lemma canon_shape:
  "canon r a = JObj xs \<Longrightarrow> is_object a" "canon r a = JArr ys \<Longrightarrow> is_array a"
  by (cases a; simp)+

lemma canon_eq_iff:
  "parsed_document a \<Longrightarrow> parsed_document b \<Longrightarrow> canon False a = canon False b \<longleftrightarrow> same_data a b"
proof (induction a arbitrary: b)
  case (JArr xs)
  show ?case
  proof (cases b)
    case b: (JArr ys)
    have "map (canon False) xs = map (canon False) ys \<longleftrightarrow> list_all2 same_data xs ys"
      by (rule map_canon_eq_iff) (use JArr b in \<open>auto simp: list_all_iff\<close>)
    then show ?thesis unfolding b same_data_array by simp
  qed simp_all
next
  case (JObj m)
  show ?case
  proof (cases b)
    case b: (JObj n)
    have dist: "distinct (map fst m)" "distinct (map fst n)" using JObj.prems b by auto
    then have dist': "distinct (map fst (canon_members m))" "distinct (map fst (canon_members n))"
      by (simp_all add: comp_def)
    have value_iff: "canon False v = canon False w \<longleftrightarrow> same_data v w"
      if "map_of m k = Some v" "map_of n k = Some w" for k v w
      using that[THEN map_of_SomeD] JObj b
      by (intro JObj.IH[of "(k, v)"]) (force simp: list_all_iff snds.simps)+
    have "map_of (canon_members m) k = map_of (canon_members n) k \<longleftrightarrow>
        rel_option same_data (map_of m k) (map_of n k)" for k
      using value_iff[of k]
      by (cases "map_of m k"; cases "map_of n k") (simp_all add: map_of_canon_members)
    then show ?thesis
      unfolding b canon_object same_data_object[OF dist(1)]
      by (simp only: json.inject sorted_of_eq_iff[OF dist'] fun_eq_iff)
  qed simp_all
next
  case (JStr s)
  then show ?case by (cases b) auto
next
  case JNull
  then show ?case by (cases b) auto
qed (case_tac b; auto)+

lemma CanonicalForm_eq_iff:
  assumes "inj_on dump {v. parsed_document v}" and "parsed_document a" and "parsed_document b"
  shows "CanonicalForm dump a = CanonicalForm dump b \<longleftrightarrow>
    same_data (unsigned_document a) (unsigned_document b)"
proof -
  have "CanonicalForm dump a = CanonicalForm dump b \<longleftrightarrow>
      canon False (unsigned_document a) = canon False (unsigned_document b)"
    unfolding CanonicalForm_def canon_root
    using assms(2,3) by (intro inj_on_eq_iff[OF assms(1)]) (simp_all add: parsed_canon parsed_unsigned)
  then show ?thesis using assms by (simp add: canon_eq_iff parsed_unsigned)
qed

section \<open>What a loaded workflow satisfies\<close>

lemmas Load_passes = Load_def bind_status_Inr_iff Let_def check_version_def kCurrentWorkflowSchemaVersion_def

lemma Load_Inr_iff:
  "Load env has opts text = Inr w \<longleftrightarrow>
     length text \<le> lo_max_json_bytes opts \<and>
     (\<exists>root spec0. le_parse env text = Some root \<and> ParseRoot (le_dump env) root = Inr spec0 \<and>
        wf_spec w = normalize_version spec0 \<and>
        ws_schema_version (wf_spec w) \<le> 1 \<and>
        CheckResourceLimits (wf_spec w) (length text) (lo_max_json_bytes opts) = Inr () \<and>
        CheckReferences has (wf_spec w) = Inr () \<and> CheckAcyclic (wf_spec w) = Inr () \<and>
        CheckTemplates (wf_spec w) = Inr () \<and> check_signing env opts root (wf_spec w) = Inr () \<and>
        state_pool env (ws_state (wf_spec w)) = Inr (wf_state_pool w))"
  by (cases w) (auto simp: Load_passes not_less not_le split: option.splits if_splits)

end
