(* ===== verification/Workflow_Props.thy ===== *)
theory Workflow_Props
  imports Workflow_Loader
begin

text \<open>
  The properties of the workflow loader (\<open>agentflow/workflow/workflow_loader.cc\<close>) with a sample
  document they are evaluated on.
\<close>

section \<open>Delegation chains\<close>

lemma chain_trancl:
  "sorted_wrt (\<lambda>a b. (a, b) \<in> r\<^sup>+) xs" if "successively (\<lambda>a b. (a, b) \<in> r) xs"
proof -
  have "successively (\<lambda>a b. (a, b) \<in> r\<^sup>+) xs"
    by (rule successively_mono[OF that]) auto
  then show ?thesis
    by (subst (asm) successively_conv_sorted_wrt) (auto simp: transp_def intro: trancl_trans)
qed

lemma acyclic_chain_distinct:
  assumes "acyclic r" and "successively (\<lambda>a b. (a, b) \<in> r) xs"
  shows "distinct xs"
proof -
  have "sorted_wrt (\<lambda>a b. (a, b) \<in> r\<^sup>+) xs" by (rule chain_trancl[OF assms(2)])
  then have "sorted_wrt (\<noteq>) xs"
    by (rule sorted_wrt_mono_rel[rotated]) (use assms(1) in \<open>auto simp: acyclic_def\<close>)
  then show ?thesis by (simp add: sorted_wrt_iff_nth_less distinct_conv_nth linorder_neq_iff) (metis)
qed

lemma chain_length_le:
  assumes "acyclic r" and "successively (\<lambda>a b. (a, b) \<in> r) xs" and "set xs \<subseteq> fst ` set agents"
  shows "length xs \<le> length agents"
proof -
  have "length xs = card (set xs)" by (simp add: distinct_card acyclic_chain_distinct[OF assms(1,2)])
  also have "\<dots> \<le> card (fst ` set agents)" by (rule card_mono) (use assms(3) in auto)
  also have "\<dots> \<le> length agents" by (metis card_length image_set length_map)
  finally show ?thesis .
qed

section \<open>Accepted documents\<close>

text \<open>The specification of an accepted workflow: what a host may rely on once \<open>Load\<close> has succeeded.\<close>

definition well_formed_workflow :: "(string \<Rightarrow> bool) \<Rightarrow> workflow_spec \<Rightarrow> bool" where
  "well_formed_workflow has spec \<longleftrightarrow>
     ws_schema_version spec = 1 \<and> distinct (map fst (ws_agents spec)) \<and> length (ws_agents spec) \<le> 32 \<and>
     ws_main spec \<in> fst ` set (ws_agents spec) \<and> acyclic (delegation spec) \<and>
     (\<forall>def\<in>snd ` set (ws_agents spec). within_limits def \<and> refers_well has spec def \<and>
        templates_fit (map fst (ss_fields (ws_state spec))) def)"

lemma word_le_1: "(x :: 32 word) \<le> 1 \<Longrightarrow> x \<noteq> 0 \<Longrightarrow> x = 1"
  by unat_arith

lemma normalize_version_eq_1: "ws_schema_version (normalize_version s) \<le> 1 \<Longrightarrow> ws_schema_version (normalize_version s) = 1"
  by (auto simp: normalize_version_def intro: word_le_1 split: if_splits)

lemma agents_normalize [simp]: "ws_agents (normalize_version s) = ws_agents s"
  by (simp add: normalize_version_def)

lemma Load_well_formed:
  assumes "Load env has opts text = Inr w"
  shows "well_formed_workflow has (wf_spec w)"
  using assms
  by (auto simp: Load_Inr_iff well_formed_workflow_def CheckAcyclic_iff CheckResourceLimits_iff CheckReferences_iff
      CheckTemplates_iff normalize_version_eq_1 declared_def has_key_iff dest!: ParseRoot_distinct)

section \<open>A sample document\<close>

definition sample_agent :: "json \<Rightarrow> string \<Rightarrow> json" where
  "sample_agent delegates tool = JObj [(''system_prompt'', JStr ''work''), (''tools'', JArr [JStr tool]), (''delegates'', delegates)]"

definition sample_delegates :: "string list \<Rightarrow> json" where
  "sample_delegates names = JObj [(''agents'', JArr (map JStr names)), (''max_depth'', JUInt 3),
     (''goal_template'', JStr ''review {{state.doc}} now'')]"

definition sample_members :: "(string \<times> json) list" where
  "sample_members = [(''name'', JStr ''review''), (''version'', JStr ''1.0''), (''main'', JStr ''lead''),
     (''state'', JObj [(''kind'', JStr ''dynamic_json''), (''fields'', JObj [(''doc'', JObj [(''type'', JStr ''string'')])])]),
     (''agents'', JObj [(''lead'', sample_agent (sample_delegates [''reader'', ''critic'']) ''clock''),
                        (''reader'', sample_agent (sample_delegates [''critic'']) ''clock''),
                        (''critic'', sample_agent (sample_delegates []) ''clock'')])]"

definition sample_signing :: "string \<Rightarrow> string \<times> json" where
  "sample_signing sig = (''signing'', JObj [(''algo'', JStr ''HMAC-SHA256''), (''key_id'', JStr ''k1''), (''signature'', JStr sig)])"

definition sample_env :: "(unit, unit) loader_env" where
  "sample_env = \<lparr>le_parse = (\<lambda>t. if t = ''signed'' then Some (JObj (sample_signing ''K1:doc'' # sample_members))
       else if t = ''plain'' then Some (JObj sample_members) else None),
     le_dump = (\<lambda>_. ''doc''), le_hmac = (\<lambda>key d. key @ '':'' @ d), le_encode_block = (\<lambda>m. m),
     le_base64 = Some, le_read_file = (\<lambda>_. None), le_parse_fds = (\<lambda>_. None), le_build_file = (\<lambda>_ _. True),
     le_file_name = (\<lambda>_. []), le_pool = (\<lambda>_ _. None)\<rparr>"

definition sample_options :: "bool \<Rightarrow> loader_options" where
  "sample_options strict = \<lparr>lo_max_json_bytes = 64,
     lo_key_resolver = Some (\<lambda>k. if k = ''k1'' then Inr ''K1'' else Inl (Status NotFound ''no such key'')),
     lo_require_signed = strict\<rparr>"

definition loaded_spec :: "'m workflow status_or \<Rightarrow> workflow_spec option" where
  "loaded_spec r = (case r of Inr w \<Rightarrow> Some (wf_spec w) | Inl _ \<Rightarrow> None)"

definition is_clock :: "string \<Rightarrow> bool" where
  "is_clock n \<longleftrightarrow> n = ''clock''"

lemma loaded_specE: "loaded_spec r \<noteq> None \<Longrightarrow> (\<And>w. r = Inr w \<Longrightarrow> P) \<Longrightarrow> P"
  by (auto simp: loaded_spec_def split: sum.splits)

lemma sample_loads:
  "map_option ws_main (loaded_spec (Load sample_env is_clock (sample_options False) ''plain'')) = Some ''lead''"
  "map_option ws_main (loaded_spec (Load sample_env is_clock (sample_options True) ''signed'')) = Some ''lead''"
  "loaded_spec (Load sample_env is_clock (sample_options True) ''plain'') = None"
  by code_simp+

section \<open>Properties\<close>

text \<open>
  C13. A document that \<open>Load\<close> accepts is within the byte limit and yields a well-formed workflow: schema
  version 1, at most 32 agents with distinct names, the main agent among them, every tool known to
  the host and not the reserved \<open>delegate\<close>, every delegation target declared, no delegation cycle, every
  limit respected, every template parsed with all its paths known and its state fields declared.
\<close>

theorem Load_sound:
  assumes "Load env has opts text = Inr w"
  shows "length text \<le> lo_max_json_bytes opts \<and> well_formed_workflow has (wf_spec w)"
proof
  show "length text \<le> lo_max_json_bytes opts" using assms by (simp add: Load_Inr_iff)
qed (rule Load_well_formed[OF assms])

theorem Load_sound_witness:
  "\<exists>w. Load sample_env is_clock (sample_options False) ''plain'' = Inr w \<and> well_formed_workflow is_clock (wf_spec w)"
proof -
  from sample_loads(1) obtain w where "Load sample_env is_clock (sample_options False) ''plain'' = Inr w"
    by (auto elim!: loaded_specE[rotated])
  with Load_sound[OF this] show ?thesis by blast
qed

text \<open>
  C16. With signatures required and a key resolver, an accepted document carries a signature that is the
  HMAC, under the resolved key, of its canonical form.
\<close>

theorem Load_verifies:
  assumes "Load env has opts text = Inr w" and "lo_require_signed opts" and "lo_key_resolver opts = Some resolver"
  shows "\<exists>root sig key. le_parse env text = Some root \<and> ws_signing (wf_spec w) = Some sig \<and>
    sg_algo sig = ''HMAC-SHA256'' \<and> resolver (sg_key_id sig) = Inr key \<and>
    sg_signature sig = HmacSha256Base64 (le_hmac env) (le_encode_block env) key (CanonicalForm (le_dump env) root)"
proof -
  from assms(1) obtain root where root: "le_parse env text = Some root" "check_signing env opts root (wf_spec w) = Inr ()"
    by (auto simp: Load_Inr_iff)
  then have "has_signing (wf_spec w)" using assms(2) by (auto simp: check_signing_def split: if_splits)
  then obtain sig where "ws_signing (wf_spec w) = Some sig" by (auto simp: has_signing_def split: option.splits)
  with root \<open>has_signing (wf_spec w)\<close> assms(3) show ?thesis
    by (auto simp: check_signing_def VerifySignature_iff)
qed

theorem Load_verifies_witness:
  "\<exists>w sig. Load sample_env is_clock (sample_options True) ''signed'' = Inr w \<and> ws_signing (wf_spec w) = Some sig \<and>
     sg_algo sig = ''HMAC-SHA256''"
proof -
  from sample_loads(2) obtain w where w: "Load sample_env is_clock (sample_options True) ''signed'' = Inr w"
    by (auto elim!: loaded_specE[rotated])
  have "lo_require_signed (sample_options True)" by (simp add: sample_options_def)
  with Load_verifies[OF w _ refl[THEN trans]] w show ?thesis
    by (fastforce simp: sample_options_def)
qed

text \<open>
  C15. The canonical form is exactly the data of the document without its top-level \<open>signing\<close> member:
  reordering object members at any depth never changes it, any other change does.
\<close>

theorem canonical_form_exact:
  assumes "inj_on dump {v. parsed_document v}" and "parsed_document a" and "parsed_document b"
  shows "CanonicalForm dump a = CanonicalForm dump b \<longleftrightarrow>
    same_data (unsigned_document a) (unsigned_document b)"
  by (rule CanonicalForm_eq_iff[OF assms])

theorem canonical_form_exact_witness:
  "CanonicalForm counting_dump (JObj (rev sample_members)) =
     CanonicalForm counting_dump (JObj (sample_signing ''s'' # sample_members)) \<and>
   CanonicalForm counting_dump (JObj (tl sample_members)) \<noteq> CanonicalForm counting_dump (JObj sample_members)"
proof -
  have p: "parsed_document (JObj (rev sample_members))" "parsed_document (JObj (sample_signing ''s'' # sample_members))"
      "parsed_document (JObj sample_members)" "parsed_document (JObj (tl sample_members))"
    by code_simp+
  have d: "same_data (unsigned_document (JObj (rev sample_members)))
        (unsigned_document (JObj (sample_signing ''s'' # sample_members)))"
      "\<not> same_data (unsigned_document (JObj (tl sample_members))) (unsigned_document (JObj sample_members))"
    by code_simp+
  show ?thesis
    using canonical_form_exact[OF inj_counting_dump p(1,2)] canonical_form_exact[OF inj_counting_dump p(4,3)] d by blast
qed

text \<open>
  C14. The acyclicity pass decides what it is for: it accepts a spec exactly when the delegation relation
  between its agents has no cycle, whatever the order the agents are visited in.
\<close>

theorem CheckAcyclic_decides: "CheckAcyclic spec = Inr () \<longleftrightarrow> acyclic (delegation spec)"
  by (rule CheckAcyclic_iff)

text \<open>
  In an accepted workflow no chain of delegations is longer than the number of agents, so at most
  32 agents take part in one.
\<close>

lemma delegation_chain_bounded:
  assumes "Load env has opts text = Inr w"
    and "successively (\<lambda>a b. (a, b) \<in> delegation (wf_spec w)) chain" and "list_all (declared (wf_spec w)) chain"
  shows "distinct chain \<and> length chain \<le> 32"
proof
  have wfw: "acyclic (delegation (wf_spec w))" "length (ws_agents (wf_spec w)) \<le> 32"
    using Load_well_formed[OF assms(1)] by (simp_all add: well_formed_workflow_def)
  show "distinct chain" by (rule acyclic_chain_distinct[OF wfw(1) assms(2)])
  have "set chain \<subseteq> fst ` set (ws_agents (wf_spec w))"
    using assms(3) by (auto simp: list_all_iff declared_def has_key_iff)
  then show "length chain \<le> 32" using chain_length_le[OF wfw(1) assms(2)] wfw(2) by force
qed

end
