(* ===== verification/Workflow_Registry.thy ===== *)
theory Workflow_Registry
  imports Workflow_Props
begin

text \<open>
  The workflow registry, \<open>agentflow/workflow/workflow_registry.{h,cc}\<close>: every operation runs under one
  mutex, so it is a function on the guarded state; the events it emits after releasing the lock are
  returned. A \<open>std::unordered_map\<close> is an association list, the \<open>std::map\<close> of versions one sorted by key.
\<close>

record 'm versioned_entry =
  ve_wf :: "'m workflow"
  ve_registered_at :: int

type_synonym 'm bucket = "(string \<times> 'm versioned_entry) list"

record 'm registry =
  wr_entries :: "(string \<times> 'm bucket) list"
  wr_latest :: "(string \<times> string) list"
  wr_trace :: bool

datatype registry_event =
    WorkflowRegistered string string bool string
  | WorkflowUnregistered string string

definition new_registry :: "bool \<Rightarrow> 'm registry" where
  "new_registry trace = \<lparr>wr_entries = [], wr_latest = [], wr_trace = trace\<rparr>"

definition wf_name :: "'m workflow \<Rightarrow> string" where
  "wf_name w = ws_name (wf_spec w)"

definition wf_version :: "'m workflow \<Rightarrow> string" where
  "wf_version w = ws_version (wf_spec w)"

definition store_entry :: "int \<Rightarrow> 'm workflow \<Rightarrow> 'm registry \<Rightarrow> 'm registry" where
  "store_entry now w r = r\<lparr>
     wr_entries := AList.update (wf_name w)
       (sorted_insert (wf_version w) \<lparr>ve_wf = w, ve_registered_at = now\<rparr> (alist_get [] (wr_entries r) (wf_name w)))
       (wr_entries r),
     wr_latest := AList.update (wf_name w) (wf_version w) (wr_latest r)\<rparr>"

definition Register :: "int \<Rightarrow> 'm workflow option \<Rightarrow> 'm registry \<Rightarrow> 'm workflow option \<times> 'm registry \<times> registry_event list" where
  "Register now w r = (case w of
       None \<Rightarrow> (None, r, [])
     | Some flow \<Rightarrow> (Some flow, store_entry now flow r,
         if wr_trace r
         then [WorkflowRegistered (wf_name flow) (wf_version flow) (ws_signing (wf_spec flow) \<noteq> None)
                (case ws_signing (wf_spec flow) of Some s \<Rightarrow> sg_key_id s | None \<Rightarrow> [])]
         else []))"

definition GetLatest :: "'m registry \<Rightarrow> string \<Rightarrow> 'm workflow option" where
  "GetLatest r name = (case map_of (wr_latest r) name of
       None \<Rightarrow> None
     | Some v \<Rightarrow> (case map_of (wr_entries r) name of
           None \<Rightarrow> None
         | Some b \<Rightarrow> map_option ve_wf (map_of b v)))"

definition Get :: "'m registry \<Rightarrow> string \<Rightarrow> string \<Rightarrow> 'm workflow option" where
  "Get r name version = (case map_of (wr_entries r) name of
       None \<Rightarrow> None
     | Some b \<Rightarrow> map_option ve_wf (map_of b version))"

definition erase_version :: "string \<Rightarrow> string \<Rightarrow> 'm bucket \<Rightarrow> 'm registry \<Rightarrow> 'm registry" where
  "erase_version name version b r =
     (let b' = AList.delete version b in
      if map_of (wr_latest r) name = Some version
      then (if b' = []
            then r\<lparr>wr_entries := AList.delete name (wr_entries r), wr_latest := AList.delete name (wr_latest r)\<rparr>
            else r\<lparr>wr_entries := AList.update name b' (wr_entries r),
                   wr_latest := AList.update name (fst (last b')) (wr_latest r)\<rparr>)
      else if b' = [] then r\<lparr>wr_entries := AList.delete name (wr_entries r)\<rparr>
      else r\<lparr>wr_entries := AList.update name b' (wr_entries r)\<rparr>)"

definition Unregister :: "string \<Rightarrow> string \<Rightarrow> 'm registry \<Rightarrow> bool \<times> 'm registry \<times> registry_event list" where
  "Unregister name version r = (case map_of (wr_entries r) name of
       None \<Rightarrow> (False, r, [])
     | Some b \<Rightarrow>
         if map_of b version = None then (False, r, [])
         else (True, erase_version name version b r,
               if wr_trace r then [WorkflowUnregistered name version] else []))"

definition List_entries :: "'m registry \<Rightarrow> (string \<times> string \<times> int) list" where
  "List_entries r = concat (map (\<lambda>(name, b). map (\<lambda>(v, e). (name, v, ve_registered_at e)) b) (wr_entries r))"

section \<open>Histories and the invariant\<close>

datatype 'm registry_op = OpRegister int "'m workflow" | OpUnregister string string

fun apply_op :: "'m registry \<Rightarrow> 'm registry_op \<Rightarrow> 'm registry" where
  "apply_op r (OpRegister now w) = fst (snd (Register now (Some w) r))"
| "apply_op r (OpUnregister name version) = fst (snd (Unregister name version r))"

text \<open>The abstract registry: a map from name and version to the workflow.\<close>

fun spec_op :: "(string \<times> string \<rightharpoonup> 'm workflow) \<Rightarrow> 'm registry_op \<Rightarrow> (string \<times> string \<rightharpoonup> 'm workflow)" where
  "spec_op m (OpRegister now w) = m((wf_name w, wf_version w) \<mapsto> w)"
| "spec_op m (OpUnregister name version) = m((name, version) := None)"

definition bucket_ok :: "'m bucket \<Rightarrow> bool" where
  "bucket_ok b \<longleftrightarrow> b \<noteq> [] \<and> sorted (map fst b) \<and> distinct (map fst b)"

definition registry_inv :: "'m registry \<Rightarrow> bool" where
  "registry_inv r \<longleftrightarrow>
     distinct (map fst (wr_entries r)) \<and> distinct (map fst (wr_latest r)) \<and>
     (\<forall>name b. map_of (wr_entries r) name = Some b \<longrightarrow> bucket_ok b) \<and>
     (\<forall>name. map_of (wr_entries r) name = None \<longrightarrow> map_of (wr_latest r) name = None) \<and>
     (\<forall>name b. map_of (wr_entries r) name = Some b \<longrightarrow> (\<exists>v. map_of (wr_latest r) name = Some v \<and> v \<in> fst ` set b))"

lemma registry_invI:
  assumes "distinct (map fst (wr_entries r))" "distinct (map fst (wr_latest r))"
    and "\<And>name b. map_of (wr_entries r) name = Some b \<Longrightarrow> bucket_ok b"
    and "\<And>name. map_of (wr_entries r) name = None \<Longrightarrow> map_of (wr_latest r) name = None"
    and "\<And>name b. map_of (wr_entries r) name = Some b \<Longrightarrow> \<exists>v. map_of (wr_latest r) name = Some v \<and> v \<in> fst ` set b"
  shows "registry_inv r"
  using assms unfolding registry_inv_def by blast+

lemma registry_invD:
  assumes "registry_inv r"
  shows "distinct (map fst (wr_entries r))" "distinct (map fst (wr_latest r))"
    and "map_of (wr_entries r) name = Some b \<Longrightarrow> bucket_ok b"
    and "map_of (wr_entries r) name = None \<Longrightarrow> map_of (wr_latest r) name = None"
    and "map_of (wr_entries r) name = Some b \<Longrightarrow> \<exists>v. map_of (wr_latest r) name = Some v \<and> v \<in> fst ` set b"
  using assms unfolding registry_inv_def by blast+

lemma registry_inv_new: "registry_inv (new_registry trace)"
  by (simp add: registry_inv_def new_registry_def)

lemma bucket_ok_insert:
  assumes "b = [] \<or> bucket_ok b"
  shows "bucket_ok (sorted_insert v e b)"
proof -
  have "sorted (map fst b)" "distinct (map fst b)" using assms by (auto simp: bucket_ok_def)
  then have "sorted (map fst (sorted_insert v e b)) \<and> distinct (map fst (sorted_insert v e b))"
    by (rule sorted_sorted_insert)
  moreover have "sorted_insert v e b \<noteq> []" by (metis keys_sorted_insert empty_iff image_empty insertI1 list.set(1))
  ultimately show ?thesis by (simp add: bucket_ok_def)
qed

lemma bucket_ok_delete: "bucket_ok b \<Longrightarrow> AList.delete v b \<noteq> [] \<Longrightarrow> bucket_ok (AList.delete v b)"
  by (auto simp: bucket_ok_def AList.delete_eq distinct_map_filter sorted_filter)

lemma registry_inv_store:
  assumes "registry_inv r"
  shows "registry_inv (store_entry now w r)"
proof (rule registry_invI)
  note D = registry_invD[OF assms]
  let ?b = "alist_get [] (wr_entries r) (wf_name w)"
  have b: "?b = [] \<or> bucket_ok ?b" using D(3) by (auto simp: alist_get_def split: option.splits)
  show "distinct (map fst (wr_entries (store_entry now w r)))" "distinct (map fst (wr_latest (store_entry now w r)))"
    using D by (simp_all add: store_entry_def distinct_update)
  fix name
  show "bucket_ok b" if "map_of (wr_entries (store_entry now w r)) name = Some b" for b
    using that D(3) bucket_ok_insert[OF b] by (auto simp: store_entry_def split: if_splits)
  show "map_of (wr_latest (store_entry now w r)) name = None" if "map_of (wr_entries (store_entry now w r)) name = None"
    using that D(4) by (auto simp: store_entry_def split: if_splits)
  show "\<exists>v. map_of (wr_latest (store_entry now w r)) name = Some v \<and> v \<in> fst ` set b"
    if "map_of (wr_entries (store_entry now w r)) name = Some b" for b
    using that D(5) by (auto simp: store_entry_def split: if_splits)
qed

lemma registry_inv_erase:
  assumes inv: "registry_inv r" and b: "map_of (wr_entries r) name = Some b"
  shows "registry_inv (erase_version name version b r)"
proof -
  note D = registry_invD[OF inv]
  let ?b = "AList.delete version b"
  have ok: "?b \<noteq> [] \<Longrightarrow> bucket_ok ?b" using D(3)[OF b] bucket_ok_delete by blast
  obtain l where l: "map_of (wr_latest r) name = Some l" "l \<in> fst ` set b" using D(5)[OF b] by blast
  have greatest: "fst (last ?b) \<in> fst ` set ?b" if "?b \<noteq> []" using that by simp
  have kept: "l \<in> fst ` set ?b" if "l \<noteq> version"
    using l(2) that by (force simp: AList.delete_eq)
  let ?r = "erase_version name version b r"
  show ?thesis
  proof (rule registry_invI)
    show "distinct (map fst (wr_entries ?r))" "distinct (map fst (wr_latest ?r))"
      using D(1,2) by (simp_all add: erase_version_def Let_def distinct_update AList.distinct_delete)
    fix n
    show "bucket_ok c" if "map_of (wr_entries ?r) n = Some c" for c
      using that D(3) ok by (auto simp: erase_version_def Let_def split: if_splits)
    show "map_of (wr_latest ?r) n = None" if "map_of (wr_entries ?r) n = None"
      using that D(4) l kept by (auto simp: erase_version_def Let_def split: if_splits)
    show "\<exists>v. map_of (wr_latest ?r) n = Some v \<and> v \<in> fst ` set c" if "map_of (wr_entries ?r) n = Some c" for c
      using that D(5) l greatest kept by (auto simp: erase_version_def Let_def split: if_splits)
  qed
qed

lemma registry_inv_op: "registry_inv r \<Longrightarrow> registry_inv (apply_op r op)"
  by (cases op) (auto simp: Register_def Unregister_def registry_inv_store registry_inv_erase split: option.splits)

section \<open>The registry refines the abstract map\<close>

definition registry_abs :: "'m registry \<Rightarrow> (string \<times> string \<rightharpoonup> 'm workflow)" where
  "registry_abs r = (\<lambda>(name, version). Get r name version)"

lemma registry_abs_new: "registry_abs (new_registry trace) = Map.empty"
  by (auto simp: registry_abs_def Get_def new_registry_def)

lemma Get_store:
  "Get (store_entry now w r) name version =
     (if name = wf_name w \<and> version = wf_version w then Some w else Get r name version)"
  by (auto simp: Get_def store_entry_def alist_get_def split: option.splits)

lemma Get_erase:
  assumes "map_of (wr_entries r) name = Some b"
  shows "Get (erase_version name version b r) n v = (if n = name \<and> v = version then None else Get r n v)"
proof -
  have "map_of b v = None" if "AList.delete version b = []" "v \<noteq> version"
    using that by (metis map_of_delete fun_upd_apply map_of.simps(1))
  then show ?thesis using assms
    by (auto simp: Get_def erase_version_def Let_def split: option.splits)
qed

lemma Get_Unregister:
  "Get (fst (snd (Unregister name version r))) n v = (if n = name \<and> v = version then None else Get r n v)"
proof (cases "Get r name version")
  case None
  then have "fst (snd (Unregister name version r)) = r"
    by (auto simp: Unregister_def Get_def split: option.splits)
  then show ?thesis using None by auto
next
  case (Some w)
  then obtain b e where "map_of (wr_entries r) name = Some b" "map_of b version = Some e"
    by (auto simp: Get_def split: option.splits)
  then show ?thesis by (simp add: Unregister_def Get_erase)
qed

lemma apply_op_refines: "registry_abs (apply_op r op) = spec_op (registry_abs r) op"
  by (cases op) (auto simp: registry_abs_def Register_def Get_store Get_Unregister fun_eq_iff)

interpretation versions: refinement apply_op spec_op registry_abs registry_inv
  by unfold_locales (simp_all add: registry_inv_op apply_op_refines)

lemma GetLatest_inv:
  assumes "registry_inv r"
  shows "GetLatest r name = None \<longleftrightarrow> (\<forall>v. Get r name v = None)"
    and "GetLatest r name = Some w \<Longrightarrow> \<exists>v. Get r name v = Some w"
proof -
  show "GetLatest r name = None \<longleftrightarrow> (\<forall>v. Get r name v = None)"
  proof (cases "map_of (wr_entries r) name")
    case None
    then show ?thesis using registry_invD(4)[OF assms None] by (simp add: GetLatest_def Get_def)
  next
    case (Some b)
    obtain v where v: "map_of (wr_latest r) name = Some v" "v \<in> fst ` set b"
      using registry_invD(5)[OF assms Some] by blast
    then obtain e where "map_of b v = Some e" by (metis map_of_eq_None_iff option.exhaust)
    then have "GetLatest r name = Some (ve_wf e)" "Get r name v = Some (ve_wf e)"
      using Some v by (simp_all add: GetLatest_def Get_def)
    then show ?thesis by auto
  qed
  show "GetLatest r name = Some w \<Longrightarrow> \<exists>v. Get r name v = Some w"
    by (auto simp: GetLatest_def Get_def split: option.splits)
qed

definition registry_after :: "bool \<Rightarrow> 'm registry_op list \<Rightarrow> 'm registry" where
  "registry_after trace ops = foldl apply_op (new_registry trace) ops"

section \<open>Properties\<close>

text \<open>
  C20. Whatever was registered and unregistered before, \<open>Get\<close> answers as a plain map from name and
  version to workflow would, and \<open>GetLatest\<close> finds a workflow exactly when some version of that name
  is registered, returning a registered one.
\<close>

theorem registry_refines_map:
  "Get (registry_after trace ops) name version = foldl spec_op Map.empty ops (name, version) \<and>
   (GetLatest (registry_after trace ops) name = None \<longleftrightarrow> (\<forall>v. Get (registry_after trace ops) name v = None)) \<and>
   GetLatest (registry_after trace ops) name \<in> insert None (range (Get (registry_after trace ops) name))"
proof -
  let ?r = "registry_after trace ops"
  have run: "registry_inv ?r" "registry_abs ?r = foldl spec_op (registry_abs (new_registry trace)) ops"
    unfolding registry_after_def by (simp_all add: versions.run_inv versions.run_refines registry_inv_new)
  have "Get ?r name version = registry_abs ?r (name, version)" by (simp add: registry_abs_def)
  then have "Get ?r name version = foldl spec_op Map.empty ops (name, version)"
    by (simp add: run(2) registry_abs_new)
  moreover have "GetLatest ?r name \<in> insert None (range (Get ?r name))"
    using GetLatest_inv(2)[OF run(1), of name] by (cases "GetLatest ?r name") (auto intro: sym)
  ultimately show ?thesis using GetLatest_inv(1)[OF run(1)] by blast
qed

text \<open>Removing the latest version promotes the lexicographically greatest one, which need not be the newest.\<close>

definition flow :: "string \<Rightarrow> unit workflow" where
  "flow v = \<lparr>wf_spec = empty_spec\<lparr>ws_name := ''w'', ws_version := v\<rparr>, wf_state_pool = None\<rparr>"

lemma unregister_promotes_lexicographic:
  "map_option wf_version (GetLatest (registry_after False
      [OpRegister 1 (flow ''1.9''), OpRegister 2 (flow ''1.10''), OpRegister 3 (flow ''2.0''), OpUnregister ''w'' ''2.0'']) ''w'') =
    Some ''1.9''"
  by code_simp

end
