(* ===== verification/Message_Map.thy ===== *)
theory Message_Map
  imports Json_Value
begin

text \<open>
  The translation between canonical messages and the OpenAI wire format,
  \<open>agentflow/inference/openai/message_map.{h,cc}\<close> and \<open>token_usage.h\<close>. Functions that can leave by an
  exception of the JSON library (a wrongly typed key read with \<open>value()\<close>, an index on a non-object)
  return it; the parser and the printer are arguments.
\<close>

section \<open>Token counts\<close>

datatype usage_provider = kOpenAi | kGoogle | kDeepSeek

fun ValidTokenCount :: "json \<Rightarrow> bool" where
  "ValidTokenCount (JUInt w) \<longleftrightarrow> uint w \<le> 2 ^ 63 - 1"
| "ValidTokenCount (JInt w) \<longleftrightarrow> sint w \<ge> 0"
| "ValidTokenCount _ \<longleftrightarrow> False"

definition valid_count :: "json \<Rightarrow> string \<Rightarrow> int option" where
  "valid_count u k = (case jfind u k of
       Some c \<Rightarrow> if ValidTokenCount c then Some (sint (get_int64 c)) else None
     | None \<Rightarrow> None)"

definition OutputTokenCount :: "json \<Rightarrow> usage_provider \<Rightarrow> int option" where
  "OutputTokenCount usage provider = (case valid_count usage ''completion_tokens'' of
       None \<Rightarrow> None
     | Some completion \<Rightarrow>
        (case provider of
           kGoogle \<Rightarrow> (case jobject usage ''completion_tokens_details'' of
               None \<Rightarrow> Some completion
             | Some details \<Rightarrow> (case valid_count details ''reasoning_tokens'' of
                   None \<Rightarrow> Some completion
                 | Some thinking \<Rightarrow>
                     if thinking > 2 ^ 63 - 1 - completion then Some completion else Some (completion + thinking)))
         | kDeepSeek \<Rightarrow> Some completion
         | kOpenAi \<Rightarrow> Some completion))"

section \<open>Content\<close>

definition item_text :: "json \<Rightarrow> string" where
  "item_text item = (if jstring item ''type'' = Some ''text''
     then (case jstring item ''text'' of Some t \<Rightarrow> t | None \<Rightarrow> []) else [])"

fun FlattenContent :: "json \<Rightarrow> string" where
  "FlattenContent (JStr s) = s"
| "FlattenContent (JArr items) = concat (map item_text items)"
| "FlattenContent _ = []"

definition IsImageRef :: "json \<Rightarrow> bool" where
  "IsImageRef item \<longleftrightarrow> jstring item ''type'' = Some ''image_ref'' \<and>
     (case jstring item ''key'' of Some k \<Rightarrow> k \<noteq> [] | None \<Rightarrow> False)"

definition image_key :: "json \<Rightarrow> string" where
  "image_key item = (case jstring item ''key'' of Some k \<Rightarrow> k | None \<Rightarrow> [])"

fun HasImageRef :: "json \<Rightarrow> bool" where
  "HasImageRef (JArr items) \<longleftrightarrow> list_ex IsImageRef items"
| "HasImageRef _ \<longleftrightarrow> False"

definition image_ref_item :: "string \<Rightarrow> json" where
  "image_ref_item k = jobj [(''type'', JStr ''image_ref''), (''key'', JStr k)]"

definition user_part :: "json \<Rightarrow> json list" where
  "user_part item = (if IsImageRef item then [image_ref_item (image_key item)]
     else if jstring item ''type'' = Some ''text''
     then (case jstring item ''text'' of Some t \<Rightarrow> [text_item t] | None \<Rightarrow> [])
     else [])"

fun UserContentWithImages :: "json \<Rightarrow> json" where
  "UserContentWithImages (JArr items) = JArr (concat (map user_part items))"
| "UserContentWithImages _ = JArr []"

definition SystemMessage :: "json_parser \<Rightarrow> string \<Rightarrow> json option" where
  "SystemMessage parse system_message_json =
     (if system_message_json = [] then None
      else case parse system_message_json of
        None \<Rightarrow> None
      | Some arr \<Rightarrow> (let txt = FlattenContent arr in
          if txt = [] then None
          else Some (jobj [(''role'', JStr ''system''), (''content'', JStr txt)])))"

section \<open>Canonical to wire\<close>

definition tool_result :: "string \<Rightarrow> string \<Rightarrow> json" where
  "tool_result call_id content =
     jobj [(''role'', JStr ''tool''), (''tool_call_id'', JStr call_id), (''content'', JStr content)]"

definition no_id_error :: "json \<Rightarrow> status" where
  "no_id_error entry = Status InvalidArgument (''tool result for '' @ [CHR 0x27] @
     (case jstring entry ''name'' of Some n \<Rightarrow> n | None \<Rightarrow> ''?'') @ [CHR 0x27] @
     '' has no id; OpenAI requires tool_call_id on every tool message'')"

definition response_value :: "json_dumper \<Rightarrow> json \<Rightarrow> string" where
  "response_value dump entry = (case jfind entry ''response'' of
       None \<Rightarrow> []
     | Some r \<Rightarrow> (case jfind r ''value'' of
           None \<Rightarrow> []
         | Some v \<Rightarrow> (case v of JStr s \<Rightarrow> s | _ \<Rightarrow> dump v)))"

definition add_tool_result :: "json_dumper \<Rightarrow> json list \<Rightarrow> json \<Rightarrow> json list status_or" where
  "add_tool_result dump out entry =
     (if \<not> is_object entry then Inr out
      else let call_id = (case jstring entry ''id'' of Some s \<Rightarrow> s | None \<Rightarrow> []) in
        if call_id = [] then Inl (no_id_error entry)
        else Inr (out @ [tool_result call_id (response_value dump entry)]))"

definition wire_call :: "json list \<Rightarrow> json \<Rightarrow> json list exn_or" where
  "wire_call calls tc =
     (if contains tc ''type'' then Inr (calls @ [tc])
      else bind_status (jset ''type'' (JStr ''function'') tc) (\<lambda>call. Inr (calls @ [call])))"

definition wire_content :: "string \<Rightarrow> json \<Rightarrow> json" where
  "wire_content role m = (case jfind m ''content'' of
       None \<Rightarrow> JStr []
     | Some c \<Rightarrow> if role = ''user'' \<and> HasImageRef c then UserContentWithImages c else JStr (FlattenContent c))"

definition wire_message :: "string \<Rightarrow> json \<Rightarrow> json exn_or" where
  "wire_message role m =
     (let msg = jobj [(''role'', JStr role), (''content'', wire_content role m)];
          msg = (case jstring m ''reasoning_content'' of Some r \<Rightarrow> jput ''reasoning_content'' (JStr r) msg | None \<Rightarrow> msg)
      in case jarray m ''tool_calls'' of
           None \<Rightarrow> Inr msg
         | Some tcs \<Rightarrow> if tcs = [] then Inr msg
             else bind_status (fold_status wire_call [] tcs) (\<lambda>calls. Inr (jput ''tool_calls'' (JArr calls) msg)))"

definition ToOpenAiMessages :: "json_parser \<Rightarrow> json_dumper \<Rightarrow> string \<Rightarrow> json list status_or exn_or" where
  "ToOpenAiMessages parse dump canonical_message_json =
     (case parse canonical_message_json of
        None \<Rightarrow> Inr (Inl (Status InvalidArgument ''canonical message is not a JSON object''))
      | Some m \<Rightarrow>
          if \<not> is_object m then Inr (Inl (Status InvalidArgument ''canonical message is not a JSON object''))
          else let role = (case jstring m ''role'' of Some r \<Rightarrow> r | None \<Rightarrow> []) in
            if role = ''tool'' then
              Inr (case jarray m ''content'' of
                     None \<Rightarrow> Inl (Status InvalidArgument ''tool message has no content array'')
                   | Some entries \<Rightarrow> fold_status (add_tool_result dump) [] entries)
            else bind_status (wire_message (if role = [] then ''user'' else role) m) (\<lambda>msg. Inr (Inr [msg])))"

section \<open>Tool-call pairing\<close>

definition kNotExecuted :: string where
  "kNotExecuted = [CHR 0x7B, CHR 0x22] @ ''error'' @ [CHR 0x22, CHR 0x3A, CHR 0x22] @
     ''tool call was not executed: the turn ended before the result was produced'' @ [CHR 0x22, CHR 0x7D]"

definition call_id :: "json \<Rightarrow> string list" where
  "call_id c = (case jstring c ''id'' of Some i \<Rightarrow> if i = [] then [] else [i] | None \<Rightarrow> [])"

text \<open>The run of tool messages at the front: the ids answered there, and what follows it.\<close>

fun tool_run :: "json list \<Rightarrow> (string list \<times> json list) exn_or" where
  "tool_run [] = Inr ([], [])"
| "tool_run (m # ms) =
     (if \<not> is_object m then Inr ([], m # ms)
      else bind_status (value_string m ''role'' []) (\<lambda>role.
        if role \<noteq> ''tool'' then Inr ([], m # ms)
        else bind_status (value_string m ''tool_call_id'' []) (\<lambda>answered_id.
          bind_status (tool_run ms) (\<lambda>(answered, tail). Inr (answered_id # answered, tail)))))"

lemma tool_run_split:
  "tool_run ms = Inr (answered, tail) \<Longrightarrow> ms = take (length answered) ms @ tail \<and> length answered \<le> length ms"
proof (induction ms arbitrary: answered tail)
  case (Cons m ms)
  then show ?case by (fastforce simp: bind_status_Inr_iff split: if_splits)
qed simp

definition missing_results :: "string list \<Rightarrow> string list \<Rightarrow> json list" where
  "missing_results want answered =
     map (\<lambda>i. tool_result i kNotExecuted) (filter (\<lambda>i. i \<notin> set answered) want)"

definition asks_tools :: "json \<Rightarrow> json list exn_or" where
  "asks_tools m =
     (if \<not> is_object m then Inr []
      else bind_status (value_string m ''role'' []) (\<lambda>role.
        if role \<noteq> ''assistant'' then Inr []
        else Inr (case jarray m ''tool_calls'' of Some calls \<Rightarrow> calls | None \<Rightarrow> [])))"

text \<open>The loop mutates the vector in place: on an exception the part already visited stays repaired.\<close>

function repair_loop :: "json list \<Rightarrow> json list \<times> exn option" where
  "repair_loop [] = ([], None)"
| "repair_loop (m # ms) =
     (case asks_tools m of
        Inl e \<Rightarrow> (m # ms, Some e)
      | Inr calls \<Rightarrow>
          if calls = [] then (let (ms', e) = repair_loop ms in (m # ms', e))
          else (case tool_run ms of
                  Inl e \<Rightarrow> (m # ms, Some e)
                | Inr (answered, tail) \<Rightarrow>
                    let (tail', e) = repair_loop tail in
                    (m # take (length answered) ms @ missing_results (concat (map call_id calls)) answered @ tail', e)))"
  by pat_completeness auto
termination
proof (relation "measure length", goal_cases)
  case (3 m ms calls p answered tail)
  then have "tool_run ms = Inr (answered, tail)" by simp
  from tool_run_split[OF this] have "length tail \<le> length ms" by (metis le_add2 length_append)
  then show ?case by simp
qed auto

definition RepairToolCallPairing :: "json list option \<Rightarrow> json list option \<times> exn option" where
  "RepairToolCallPairing messages = (case messages of
       None \<Rightarrow> (None, None)
     | Some ms \<Rightarrow> (let (ms', e) = repair_loop ms in (Some ms', e)))"

section \<open>Strict tool schemas\<close>

text \<open>Loops over a container whose body may throw: a search that stops at the first hit, and a map.\<close>

fun any_status :: "('x \<Rightarrow> 'e + bool) \<Rightarrow> 'x list \<Rightarrow> 'e + bool" where
  "any_status f [] = Inr False"
| "any_status f (x # xs) = bind_status (f x) (\<lambda>b. if b then Inr True else any_status f xs)"

fun map_status :: "('x \<Rightarrow> 'e + 'y) \<Rightarrow> 'x list \<Rightarrow> 'e + 'y list" where
  "map_status f [] = Inr []"
| "map_status f (x # xs) = bind_status (f x) (\<lambda>y. bind_status (map_status f xs) (\<lambda>ys. Inr (y # ys)))"

lemma any_status_cong [fundef_cong]:
  "xs = ys \<Longrightarrow> (\<And>x. x \<in> set ys \<Longrightarrow> f x = g x) \<Longrightarrow> any_status f xs = any_status g ys"
  by (induction ys arbitrary: xs) (auto simp: bind_status_def split: sum.splits)

lemma map_status_cong [fundef_cong]:
  "xs = ys \<Longrightarrow> (\<And>x. x \<in> set ys \<Longrightarrow> f x = g x) \<Longrightarrow> map_status f xs = map_status g ys"
  by (induction ys arbitrary: xs) (auto simp: bind_status_def split: sum.splits)

lemma bind_status_cong [fundef_cong]:
  "r = r' \<Longrightarrow> (\<And>x. r' = Inr x \<Longrightarrow> f x = g x) \<Longrightarrow> bind_status r f = bind_status r' g"
  by (cases r') auto

fun nonempty_object :: "json option \<Rightarrow> bool" where
  "nonempty_object (Some (JObj m)) \<longleftrightarrow> m \<noteq> []"
| "nonempty_object _ \<longleftrightarrow> False"

fun scan :: "json \<Rightarrow> bool exn_or" where
  "scan (JArr xs) = any_status scan xs"
| "scan (JObj m) = bind_status (value_string (JObj m) ''type'' []) (\<lambda>ty.
     if ty = ''object'' \<and> \<not> nonempty_object (map_of m ''properties'') then Inr True
     else any_status (\<lambda>kv. scan (snd kv)) m)"
| "scan _ = Inr False"

definition unsupported_keywords :: "string list" where
  "unsupported_keywords = [''minLength'', ''maxLength'', ''minItems'', ''maxItems'']"

fun erase_keywords :: "json \<Rightarrow> json" where
  "erase_keywords (JObj m) = JObj (filter (\<lambda>kv. fst kv \<notin> set unsupported_keywords) m)"
| "erase_keywords v = v"

lemma size_filter_le: "size_list f (filter P xs) \<le> size_list f xs"
  by (induction xs) auto

lemma size_erase_keywords [termination_simp]: "size (erase_keywords v) \<le> size v"
  by (cases v) (auto simp: size_filter_le)

lemma size_member: "kv \<in> set m \<Longrightarrow> size (snd kv) < size (JObj m)"
  by (induction m) (auto simp: size_prod_simp case_prod_beta)

lemma size_jfind: "jfind j k = Some v \<Longrightarrow> size v < size j"
proof (cases j)
  case (JObj m)
  assume "jfind j k = Some v"
  then have "(k, v) \<in> set m" using JObj by (simp add: map_of_SomeD)
  then show ?thesis using size_member[of "(k, v)" m] JObj by simp
qed auto

text \<open>
  \<open>recurse\<close> and the body of its loop over the properties. The loop visits \<open>items\<close> of a property after
  the property itself; \<open>recurse\<close> writes none of them, so they are read from the same value.
\<close>

definition finish_node_schema :: "json \<Rightarrow> json" where
  "finish_node_schema p = jput ''additionalProperties'' (JBool False) p"

function strict_node :: "json \<Rightarrow> json exn_or" where
  "strict_node p =
     (case p of
        JObj m \<Rightarrow>
          (case map_of m ''properties'' of
             Some (JObj props) \<Rightarrow>
               bind_status (map_status (\<lambda>kv.
                   let val = erase_keywords (snd kv) in
                   if \<not> is_object val then Inr (fst kv, val)
                   else bind_status (value_string val ''type'' []) (\<lambda>ty.
                        bind_status (if ty = ''object'' then strict_node val else Inr val) (\<lambda>val1.
                        case jobject val ''items'' of
                          None \<Rightarrow> Inr (fst kv, val1)
                        | Some items \<Rightarrow> bind_status (strict_node items) (\<lambda>items'.
                            Inr (fst kv, jput ''items'' items' val1))))) props)
                 (\<lambda>props'. Inr (finish_node_schema (jput ''required'' (JArr (map (JStr \<circ> fst) props'))
                            (jput ''properties'' (JObj props') (JObj m)))))
           | _ \<Rightarrow> Inr (finish_node_schema (JObj m)))
      | _ \<Rightarrow> Inr p)"
  by pat_completeness auto
termination
proof (relation "measure size", goal_cases)
  case 1
  show ?case by simp
next
  case (2 p m a props kv val ty)
  have "size (JObj props) < size p" using 2 size_jfind[of p "''properties''" "JObj props"] by simp
  moreover have "size (snd kv) < size (JObj props)"
    using 2 by (intro size_member) simp
  ultimately show ?case using size_erase_keywords[of "snd kv"] 2 by simp
next
  case (3 p m a props kv val ty val1 items)
  have "size (JObj props) < size p" using 3 size_jfind[of p "''properties''" "JObj props"] by simp
  moreover have "size (snd kv) < size (JObj props)"
    using 3 by (intro size_member) simp
  moreover have "size items < size val" using 3 size_jfind[of val "''items''" items] by (simp add: jobject_Some_iff)
  ultimately show ?case using size_erase_keywords[of "snd kv"] 3 by simp
qed

declare strict_node.simps [simp del]

definition NormalizeStrictSchema :: "json \<Rightarrow> json exn_or" where
  "NormalizeStrictSchema func =
     (case jobject func ''parameters'' of
        None \<Rightarrow> jset ''strict'' (JBool True) func
      | Some params \<Rightarrow>
          if \<not> nonempty_object (jfind params ''properties'') then Inr func
          else bind_status (scan params) (\<lambda>empty_object.
            if empty_object then Inr func
            else bind_status (jset ''strict'' (JBool True) func) (\<lambda>func1.
              bind_status (strict_node params) (\<lambda>params'. Inr (jput ''parameters'' params' func1)))))"

definition IsDeepSeekFamily :: "string \<Rightarrow> bool" where
  "IsDeepSeekFamily model \<longleftrightarrow> prefix ''deepseek'' model"

section \<open>Requests and responses\<close>

definition strict_tool :: "json \<Rightarrow> json exn_or" where
  "strict_tool t = (case jobject t ''function'' of
       None \<Rightarrow> Inr t
     | Some f \<Rightarrow> bind_status (NormalizeStrictSchema f) (\<lambda>f'. Inr (jput ''function'' f' t)))"

record conversation_options =
  co_system_message_json :: string
  co_tools_json :: string
  co_max_output_tokens :: "32 word"
  co_constrained_tool_calls :: bool

definition request_tools :: "json_parser \<Rightarrow> string \<Rightarrow> conversation_options \<Rightarrow> bool \<Rightarrow> json list exn_or" where
  "request_tools parse model opts strict_tools =
     (case parse (co_tools_json opts) of
        Some (JArr tools) \<Rightarrow>
          if strict_tools \<and> IsDeepSeekFamily model then map_status strict_tool tools else Inr tools
      | _ \<Rightarrow> Inr [])"

definition request_json :: "string \<Rightarrow> conversation_options \<Rightarrow> json list \<Rightarrow> bool \<Rightarrow> json list \<Rightarrow> json" where
  "request_json model opts messages stream tools =
     (let body = jobj [(''model'', JStr model), (''messages'', JArr messages), (''stream'', JBool stream)];
          body = (if stream then jput ''stream_options'' (jobj [(''include_usage'', JBool True)]) body else body);
          body = (if sint (co_max_output_tokens opts) > 0
                  then jput ''max_tokens'' (JInt (scast (co_max_output_tokens opts))) body else body)
      in if tools = [] then body else jput ''tools'' (JArr tools) body)"

definition BuildRequestBody :: "json_parser \<Rightarrow> json_dumper \<Rightarrow> string \<Rightarrow> conversation_options \<Rightarrow> json list \<Rightarrow>
    bool \<Rightarrow> bool \<Rightarrow> string exn_or" where
  "BuildRequestBody parse dump model opts messages stream strict_tools =
     bind_status (request_tools parse model opts strict_tools) (\<lambda>tools.
       Inr (dump (request_json model opts messages stream tools)))"

definition usage_json :: "int \<Rightarrow> int \<Rightarrow> json" where
  "usage_json input output = jobj [(''input_tokens'', JInt (word_of_int input)), (''output_tokens'', JInt (word_of_int output))]"

definition add_usage :: "json \<Rightarrow> usage_provider \<Rightarrow> json \<Rightarrow> json" where
  "add_usage resp provider out = (case jobject resp ''usage'' of
       None \<Rightarrow> out
     | Some u \<Rightarrow>
        (let input = (case valid_count u ''prompt_tokens'' of Some n \<Rightarrow> n | None \<Rightarrow> 0);
             output = (case OutputTokenCount u provider of Some n \<Rightarrow> n | None \<Rightarrow> 0)
         in if input > 0 \<or> output > 0 then jput ''usage'' (usage_json input output) out else out))"

definition canonical_reply :: "json \<Rightarrow> json \<Rightarrow> usage_provider \<Rightarrow> json" where
  "canonical_reply resp msg provider =
     (let out = jobj [(''role'', JStr ''assistant'')];
          out = (case jstring resp ''model'' of Some s \<Rightarrow> jput ''model'' (JStr s) out | None \<Rightarrow> out);
          out = jput ''content'' (JArr [text_item (case jstring msg ''content'' of Some s \<Rightarrow> s | None \<Rightarrow> [])]) out;
          out = (case jstring msg ''reasoning_content'' of Some s \<Rightarrow> jput ''reasoning_content'' (JStr s) out | None \<Rightarrow> out);
          out = (case jarray msg ''tool_calls'' of
                   Some calls \<Rightarrow> if calls = [] then out else jput ''tool_calls'' (JArr calls) out
                 | None \<Rightarrow> out)
      in add_usage resp provider out)"

definition ResponseToCanonical :: "json_parser \<Rightarrow> json_dumper \<Rightarrow> string \<Rightarrow> usage_provider \<Rightarrow> string status_or" where
  "ResponseToCanonical parse dump body provider =
     (case parse body of
        None \<Rightarrow> Inl (Status Internal ''OpenAI response is not valid JSON'')
      | Some resp \<Rightarrow>
         (case jarray resp ''choices'' of
            Some (choice # _) \<Rightarrow>
              (case jobject choice ''message'' of
                 None \<Rightarrow> Inl (Status Internal ''OpenAI response choice has no message object'')
               | Some msg \<Rightarrow> Inr (dump (canonical_reply resp msg provider)))
          | _ \<Rightarrow> Inl (Status Internal ''OpenAI response has no choices'')))"

section \<open>Image references\<close>

definition content_items :: "json \<Rightarrow> json list" where
  "content_items m = (case jarray m ''content'' of Some items \<Rightarrow> items | None \<Rightarrow> [])"

definition collect_key :: "string list \<Rightarrow> json \<Rightarrow> string list" where
  "collect_key keys item =
     (if \<not> IsImageRef item \<or> image_key item \<in> set keys then keys else keys @ [image_key item])"

definition CollectImageRefKeys :: "json list \<Rightarrow> string list" where
  "CollectImageRefKeys messages = foldl (\<lambda>keys m. foldl collect_key keys (content_items m)) [] messages"

text \<open>\<open>for (auto& item : m["content"])\<close> over a content array, threading a state through the items.\<close>

fun map_accum :: "('s \<Rightarrow> 'x \<Rightarrow> 'y \<times> 's) \<Rightarrow> 's \<Rightarrow> 'x list \<Rightarrow> 'y list \<times> 's" where
  "map_accum f s [] = ([], s)"
| "map_accum f s (x # xs) = (let (y, s1) = f s x; (ys, s2) = map_accum f s1 xs in (y # ys, s2))"

definition substitute_item :: "(string \<times> string) list \<Rightarrow> string list \<Rightarrow> json \<Rightarrow> json \<times> string list" where
  "substitute_item urls missing item =
     (if \<not> IsImageRef item then (item, missing)
      else case map_of urls (image_key item) of
        None \<Rightarrow> (item, if image_key item \<in> set missing then missing else missing @ [image_key item])
      | Some url \<Rightarrow> (jobj [(''type'', JStr ''image_url''), (''image_url'', jobj [(''url'', JStr url)])], missing))"

definition substitute_message :: "(string \<times> string) list \<Rightarrow> string list \<Rightarrow> json \<Rightarrow> json \<times> string list" where
  "substitute_message urls missing m = (case jarray m ''content'' of
       None \<Rightarrow> (m, missing)
     | Some items \<Rightarrow> (let (items', missing') = map_accum (substitute_item urls) missing items
                      in (jput ''content'' (JArr items') m, missing')))"

definition SubstituteImageRefs :: "json list \<Rightarrow> (string \<times> string) list \<Rightarrow> string list \<Rightarrow> json list \<times> string list" where
  "SubstituteImageRefs messages urls missing = map_accum (substitute_message urls) missing messages"

definition expired_text :: string where
  "expired_text = [CHR 0x5B, CHR 0xE5, CHR 0x9B, CHR 0xBE, CHR 0xE7, CHR 0x89, CHR 0x87, CHR 0xE5, CHR 0xB7,
     CHR 0xB2, CHR 0xE5, CHR 0xA4, CHR 0xB1, CHR 0xE6, CHR 0x95, CHR 0x88, CHR 0x5D]"

definition expire_item :: "string list \<Rightarrow> json \<Rightarrow> json" where
  "expire_item keys item = (if IsImageRef item \<and> image_key item \<in> set keys then text_item expired_text else item)"

definition expire_message :: "string list \<Rightarrow> json \<Rightarrow> json" where
  "expire_message keys m = (case jarray m ''content'' of
       None \<Rightarrow> m
     | Some items \<Rightarrow> jput ''content'' (JArr (map (expire_item keys) items)) m)"

definition MarkImageRefsExpired :: "json list \<Rightarrow> string list \<Rightarrow> json list" where
  "MarkImageRefsExpired messages keys = map (expire_message keys) messages"

end
