(* ===== verification/Stream_Accumulator.thy ===== *)
theory Stream_Accumulator
  imports Message_Map
begin

text \<open>
  The accumulator of streamed completions, \<open>agentflow/inference/openai/stream_accumulator.{h,cc}\<close>: \<open>Feed\<close>
  takes one SSE payload, \<open>Canonical\<close> renders what has been gathered. The map of partial calls is keyed by
  the stream's \<open>int\<close> index and kept in its order.
\<close>

record partial_call =
  pc_id :: string
  pc_name :: string
  pc_arguments :: string

record accumulator =
  sa_provider :: usage_provider
  sa_text :: string
  sa_finish_reason :: string
  sa_reasoning :: string
  sa_calls :: "(int \<times> partial_call) list"
  sa_input_tokens :: int
  sa_output_tokens :: int
  sa_model :: string

definition new_accumulator :: "usage_provider \<Rightarrow> accumulator" where
  "new_accumulator provider = \<lparr>sa_provider = provider, sa_text = [], sa_finish_reason = [], sa_reasoning = [],
     sa_calls = [], sa_input_tokens = 0, sa_output_tokens = 0, sa_model = []\<rparr>"

definition empty_call :: partial_call where
  "empty_call = \<lparr>pc_id = [], pc_name = [], pc_arguments = []\<rparr>"

definition feed_header :: "json \<Rightarrow> accumulator \<Rightarrow> accumulator" where
  "feed_header f acc =
     (let acc = (case jstring f ''model'' of
                   Some s \<Rightarrow> if sa_model acc = [] then acc\<lparr>sa_model := s\<rparr> else acc
                 | None \<Rightarrow> acc)
      in case jobject f ''usage'' of
           None \<Rightarrow> acc
         | Some u \<Rightarrow>
             (let acc = (case valid_count u ''prompt_tokens'' of Some n \<Rightarrow> acc\<lparr>sa_input_tokens := n\<rparr> | None \<Rightarrow> acc)
              in case OutputTokenCount u (sa_provider acc) of
                   Some n \<Rightarrow> acc\<lparr>sa_output_tokens := n\<rparr> | None \<Rightarrow> acc))"

definition merge_call :: "json \<Rightarrow> partial_call \<Rightarrow> partial_call" where
  "merge_call tc call =
     (let call = (case jstring tc ''id'' of Some s \<Rightarrow> call\<lparr>pc_id := s\<rparr> | None \<Rightarrow> call)
      in case jobject tc ''function'' of
           None \<Rightarrow> call
         | Some fn \<Rightarrow>
             (let call = (case jstring fn ''name'' of Some s \<Rightarrow> call\<lparr>pc_name := s\<rparr> | None \<Rightarrow> call)
              in case jstring fn ''arguments'' of
                   Some s \<Rightarrow> call\<lparr>pc_arguments := pc_arguments call @ s\<rparr> | None \<Rightarrow> call))"

definition call_index :: "json \<Rightarrow> int option" where
  "call_index tc = (if \<not> is_object tc then None
     else case jfind tc ''index'' of
       None \<Rightarrow> Some 0
     | Some i \<Rightarrow> if is_number_integer i then Some (sint (get_int32 i)) else None)"

definition feed_call :: "(int \<times> partial_call) list \<Rightarrow> json \<Rightarrow> (int \<times> partial_call) list" where
  "feed_call calls tc = (case call_index tc of
       None \<Rightarrow> calls
     | Some i \<Rightarrow> sorted_insert i (merge_call tc (alist_get empty_call calls i)) calls)"

definition feed_delta :: "json \<Rightarrow> accumulator \<Rightarrow> accumulator \<times> string" where
  "feed_delta delta acc =
     (let text_delta = (case jstring delta ''content'' of Some s \<Rightarrow> s | None \<Rightarrow> []);
          acc = acc\<lparr>sa_text := sa_text acc @ text_delta\<rparr>;
          acc = (case jstring delta ''reasoning_content'' of
                   Some s \<Rightarrow> acc\<lparr>sa_reasoning := sa_reasoning acc @ s\<rparr> | None \<Rightarrow> acc);
          acc = (case jarray delta ''tool_calls'' of
                   Some tcs \<Rightarrow> acc\<lparr>sa_calls := foldl feed_call (sa_calls acc) tcs\<rparr> | None \<Rightarrow> acc)
      in (acc, text_delta))"

definition feed_choice :: "json \<Rightarrow> accumulator \<Rightarrow> accumulator \<times> string" where
  "feed_choice choice acc =
     (if \<not> is_object choice then (acc, [])
      else let acc = (case jstring choice ''finish_reason'' of
                        Some s \<Rightarrow> acc\<lparr>sa_finish_reason := s\<rparr> | None \<Rightarrow> acc)
           in case jobject choice ''delta'' of
                None \<Rightarrow> (acc, [])
              | Some delta \<Rightarrow> feed_delta delta acc)"

definition Accumulator_Feed :: "json_parser \<Rightarrow> accumulator \<Rightarrow> string \<Rightarrow> accumulator \<times> string" where
  "Accumulator_Feed parse acc frame_json = (case parse frame_json of
       None \<Rightarrow> (acc, [])
     | Some f \<Rightarrow>
         (let acc = feed_header f acc
          in case jarray f ''choices'' of
               Some (choice # _) \<Rightarrow> feed_choice choice acc
             | _ \<Rightarrow> (acc, [])))"

definition call_json :: "partial_call \<Rightarrow> json" where
  "call_json call = jobj [(''id'', JStr (pc_id call)), (''type'', JStr ''function''),
     (''function'', jobj [(''name'', JStr (pc_name call)), (''arguments'', JStr (pc_arguments call))])]"

definition canonical_json :: "accumulator \<Rightarrow> json" where
  "canonical_json acc =
     (let out = jobj [(''role'', JStr ''assistant''), (''content'', JArr [text_item (sa_text acc)])];
          out = (if sa_reasoning acc \<noteq> [] then jput ''reasoning_content'' (JStr (sa_reasoning acc)) out else out);
          out = (if sa_finish_reason acc \<noteq> [] then jput ''finish_reason'' (JStr (sa_finish_reason acc)) out else out);
          out = (if sa_input_tokens acc > 0 \<or> sa_output_tokens acc > 0
                 then jput ''usage'' (usage_json (sa_input_tokens acc) (sa_output_tokens acc)) out else out);
          out = (if sa_model acc \<noteq> [] then jput ''model'' (JStr (sa_model acc)) out else out)
      in if sa_calls acc \<noteq> [] then jput ''tool_calls'' (JArr (map (call_json \<circ> snd) (sa_calls acc))) out else out)"

definition Canonical :: "json_dumper \<Rightarrow> accumulator \<Rightarrow> string" where
  "Canonical dump acc = dump (canonical_json acc)"

end
