(* ===== verification/Message_Props.thy ===== *)
theory Message_Props
  imports Stream_Accumulator
begin

text \<open>
  Facts about the wire format: repaired histories answer every tool call, strict schemas are strict at every
  level, image references, and the accumulator of streamed calls.
\<close>

section \<open>Well-typed wire messages\<close>

text \<open>What \<open>ToOpenAiMessages\<close>, \<open>SystemMessage\<close> and the repair itself put into a history.\<close>

definition wire_ok :: "json \<Rightarrow> bool" where
  "wire_ok m \<longleftrightarrow> (case jstring m ''role'' of
       None \<Rightarrow> False
     | Some role \<Rightarrow> role = ''tool'' \<longrightarrow> jstring m ''tool_call_id'' \<noteq> None)"

definition role_of :: "json \<Rightarrow> string" where
  "role_of m = (case jstring m ''role'' of Some r \<Rightarrow> r | None \<Rightarrow> [])"

definition answer_of :: "json \<Rightarrow> string" where
  "answer_of m = (case jstring m ''tool_call_id'' of Some i \<Rightarrow> i | None \<Rightarrow> [])"

definition calls_of :: "json \<Rightarrow> json list" where
  "calls_of m = (if role_of m = ''assistant''
     then (case jarray m ''tool_calls'' of Some calls \<Rightarrow> calls | None \<Rightarrow> []) else [])"

lemma jstring_object: "jstring m k = Some s \<Longrightarrow> is_object m"
  by (auto simp: jstring_Some_iff dest: jfind_Some_object)

lemma value_string_jstring: "jstring m k = Some s \<Longrightarrow> value_string m k d = Inr s"
  by (auto simp: value_string_def jstring_Some_iff split: json.splits)

lemma wire_ok_role: "wire_ok m \<Longrightarrow> is_object m \<and> value_string m ''role'' [] = Inr (role_of m)"
  by (auto simp: wire_ok_def role_of_def value_string_jstring dest: jstring_object split: option.splits)

lemma wire_ok_answer: "wire_ok m \<Longrightarrow> role_of m = ''tool'' \<Longrightarrow> value_string m ''tool_call_id'' [] = Inr (answer_of m)"
  by (auto simp: wire_ok_def role_of_def answer_of_def value_string_jstring split: option.splits)

lemma asks_tools_ok: "wire_ok m \<Longrightarrow> asks_tools m = Inr (calls_of m)"
  using wire_ok_role[of m] by (simp add: asks_tools_def calls_of_def split: option.splits)

lemma tool_run_ok:
  "list_all wire_ok ms \<Longrightarrow>
   tool_run ms = Inr (map answer_of (takeWhile (\<lambda>m. role_of m = ''tool'') ms), dropWhile (\<lambda>m. role_of m = ''tool'') ms)"
proof (induction ms)
  case (Cons m ms)
  then show ?case using wire_ok_role[of m] wire_ok_answer[of m] by auto
qed simp

lemma jfind_jobj2 [simp]:
  "jfind (jobj [(a, x), (b, y)]) k = (if k = b then Some y else if k = a then Some x else None)"
  "jfind (jobj [(a, x), (b, y), (c, z)]) k = (if k = c then Some z else if k = b then Some y else if k = a then Some x else None)"
  by (simp_all add: jfind_jobj)

lemma tool_result_fields [simp]:
  "wire_ok (tool_result i c)" "role_of (tool_result i c) = ''tool''" "answer_of (tool_result i c) = i"
  "calls_of (tool_result i c) = []" "content_items (tool_result i c) = []"
  by (simp_all add: tool_result_def wire_ok_def role_of_def answer_of_def calls_of_def content_items_def jstring_def jarray_def)

section \<open>Pairing\<close>

text \<open>Every call of an assistant message is answered in the run of tool messages right after it.\<close>

definition ids_of :: "json \<Rightarrow> string list" where
  "ids_of m = concat (map call_id (calls_of m))"

definition answers :: "json list \<Rightarrow> string list" where
  "answers ms = map answer_of (takeWhile (\<lambda>m. role_of m = ''tool'') ms)"

fun paired :: "json list \<Rightarrow> bool" where
  "paired [] \<longleftrightarrow> True"
| "paired (m # ms) \<longleftrightarrow> set (ids_of m) \<subseteq> set (answers ms) \<and> paired ms"

lemma calls_of_tool: "role_of m = ''tool'' \<Longrightarrow> calls_of m = []"
  by (simp add: calls_of_def)

lemma paired_tools: "list_all (\<lambda>m. role_of m = ''tool'') ts \<Longrightarrow> paired (ts @ ms) \<longleftrightarrow> paired ms"
  by (induction ts) (simp_all add: ids_of_def calls_of_tool)

lemma answers_tools:
  "list_all (\<lambda>m. role_of m = ''tool'') ts \<Longrightarrow> answers (ts @ ms) = map answer_of ts @ answers ms"
  by (induction ts) (simp_all add: answers_def)

lemma missing_tools [simp]:
  "list_all (\<lambda>m. role_of m = ''tool'') (missing_results want answered)"
  "list_all wire_ok (missing_results want answered)"
  "map answer_of (missing_results want answered) = filter (\<lambda>i. i \<notin> set answered) want"
  by (simp_all add: missing_results_def list_all_iff comp_def)

declare repair_loop.simps(2) [simp del]

abbreviation is_tool :: "json \<Rightarrow> bool" where
  "is_tool m \<equiv> role_of m = ''tool''"

lemma repair_loop_step:
  assumes "wire_ok m" and "list_all wire_ok ms" and "calls_of m \<noteq> []"
  shows "repair_loop (m # ms) = (m # takeWhile is_tool ms @ missing_results (ids_of m) (answers ms) @
      fst (repair_loop (dropWhile is_tool ms)), snd (repair_loop (dropWhile is_tool ms)))"
proof -
  have "take (length (answers ms)) ms = takeWhile is_tool ms"
    by (simp add: answers_def takeWhile_eq_take[symmetric])
  moreover have "tool_run ms = Inr (answers ms, dropWhile is_tool ms)"
    unfolding answers_def by (rule tool_run_ok[OF assms(2)])
  ultimately show ?thesis
    unfolding repair_loop.simps(2) asks_tools_ok[OF assms(1)] sum.case ids_of_def
    using assms(3) by (simp add: case_prod_beta)
qed

lemma repair_loop_skip:
  "wire_ok m \<Longrightarrow> calls_of m = [] \<Longrightarrow> repair_loop (m # ms) = (m # fst (repair_loop ms), snd (repair_loop ms))"
  by (simp add: repair_loop.simps(2) asks_tools_ok case_prod_beta)

text \<open>The induction that follows the loop: over a message without calls, or a whole answered run.\<close>

lemma history_induct [consumes 1, case_names Nil Skip Run]:
  assumes "list_all wire_ok ms"
    and "P []"
    and "\<And>m ms. wire_ok m \<Longrightarrow> list_all wire_ok ms \<Longrightarrow> calls_of m = [] \<Longrightarrow> P ms \<Longrightarrow> P (m # ms)"
    and "\<And>m ms. wire_ok m \<Longrightarrow> list_all wire_ok ms \<Longrightarrow> calls_of m \<noteq> [] \<Longrightarrow>
           P (dropWhile (\<lambda>m. role_of m = ''tool'') ms) \<Longrightarrow> P (m # ms)"
  shows "P ms"
  using assms(1)
proof (induction ms rule: length_induct)
  case (1 ms)
  show ?case
  proof (cases ms)
    case (Cons m rest)
    let ?tail = "dropWhile (\<lambda>m. role_of m = ''tool'') rest"
    have "list_all wire_ok rest" "wire_ok m" "list_all wire_ok ?tail"
      using 1(2) Cons by (auto simp: list_all_iff dest: set_dropWhileD)
    moreover have "length ?tail < length ms" using Cons length_dropWhile_le[of _ rest] by (simp add: le_imp_less_Suc)
    ultimately show ?thesis using 1(1) Cons assms(3)[of m rest] assms(4)[of m rest] by auto
  qed (use assms(2) in simp)
qed

lemma takeWhile_tools: "list_all (\<lambda>m. role_of m = ''tool'') (takeWhile (\<lambda>m. role_of m = ''tool'') ms)"
  by (auto simp: list_all_iff dest: set_takeWhileD)

lemma repair_loop_total: "list_all wire_ok ms \<Longrightarrow> snd (repair_loop ms) = None"
  by (induction ms rule: history_induct) (simp_all add: repair_loop_skip repair_loop_step)

lemma list_all_takeWhile: "list_all P xs \<Longrightarrow> list_all P (takeWhile Q xs)"
  by (auto simp: list_all_iff dest: set_takeWhileD)

lemma repair_loop_ok: "list_all wire_ok ms \<Longrightarrow> list_all wire_ok (fst (repair_loop ms))"
  by (induction ms rule: history_induct) (simp_all add: repair_loop_skip repair_loop_step list_all_takeWhile)

lemma answers_repair_loop: "list_all wire_ok ms \<Longrightarrow> set (answers ms) \<subseteq> set (answers (fst (repair_loop ms)))"
proof (induction ms rule: history_induct)
  case (Skip m ms)
  then show ?case by (auto simp: repair_loop_skip answers_def)
next
  case (Run m ms)
  then have "role_of m \<noteq> ''tool''" using calls_of_tool by blast
  then show ?case by (simp add: answers_def)
qed simp

lemma repair_loop_paired: "list_all wire_ok ms \<Longrightarrow> paired (fst (repair_loop ms))"
proof (induction ms rule: history_induct)
  case (Skip m ms)
  then show ?case by (simp add: repair_loop_skip ids_of_def)
next
  case (Run m ms)
  let ?run = "takeWhile is_tool ms" and ?new = "missing_results (ids_of m) (answers ms)"
  have "list_all is_tool (?run @ ?new)" using takeWhile_tools by simp
  then have "answers ((?run @ ?new) @ t) = map answer_of (?run @ ?new) @ answers t" "paired ((?run @ ?new) @ t) \<longleftrightarrow> paired t" for t
    by (rule answers_tools, rule paired_tools)
  moreover have "set (ids_of m) \<subseteq> set (map answer_of (?run @ ?new))"
    by (auto simp: missing_results_def answers_def)
  ultimately show ?case using Run by (auto simp: repair_loop_step)
qed simp

lemma repair_loop_keeps: "list_all wire_ok ms \<Longrightarrow> subseq ms (fst (repair_loop ms))"
proof (induction ms rule: history_induct)
  case (Run m ms)
  have "subseq (takeWhile is_tool ms @ dropWhile is_tool ms)
      (takeWhile is_tool ms @ missing_results (ids_of m) (answers ms) @ fst (repair_loop (dropWhile is_tool ms)))"
    using Run.IH by (intro list_emb_append_mono) (auto intro: list_emb_append2)
  then show ?case using Run by (simp add: repair_loop_step)
qed (simp_all add: repair_loop_skip)

lemma paired_dropWhile: "paired ms \<Longrightarrow> paired (dropWhile P ms)"
  by (induction ms) auto

lemma repair_loop_id: "list_all wire_ok ms \<Longrightarrow> paired ms \<Longrightarrow> fst (repair_loop ms) = ms"
proof (induction ms rule: history_induct)
  case (Run m ms)
  have "missing_results (ids_of m) (answers ms) = []"
    using Run.prems by (auto simp: missing_results_def filter_empty_conv)
  moreover have "fst (repair_loop (dropWhile is_tool ms)) = dropWhile is_tool ms"
    using Run by (simp add: paired_dropWhile)
  ultimately show ?case using Run by (simp add: repair_loop_step)
qed (simp_all add: repair_loop_skip)

section \<open>Image references\<close>

definition refs_of :: "json \<Rightarrow> string set" where
  "refs_of m = image_key ` {item \<in> set (content_items m). IsImageRef item}"

lemma set_collect_key: "set (foldl collect_key keys items) = set keys \<union> image_key ` {item \<in> set items. IsImageRef item}"
  by (induction items arbitrary: keys) (auto simp: collect_key_def)

lemma distinct_collect_key: "distinct keys \<Longrightarrow> distinct (foldl collect_key keys items)"
  by (induction items arbitrary: keys) (auto simp: collect_key_def)

lemma collect_messages:
  "set (foldl (\<lambda>keys m. foldl collect_key keys (content_items m)) keys ms) = set keys \<union> \<Union> (refs_of ` set ms)"
  "distinct keys \<Longrightarrow> distinct (foldl (\<lambda>keys m. foldl collect_key keys (content_items m)) keys ms)"
  by (induction ms arbitrary: keys) (auto simp: set_collect_key distinct_collect_key refs_of_def)

lemma set_CollectImageRefKeys: "set (CollectImageRefKeys ms) = \<Union> (refs_of ` set ms)"
  by (simp add: CollectImageRefKeys_def collect_messages)

lemma distinct_CollectImageRefKeys: "distinct (CollectImageRefKeys ms)"
  by (simp add: CollectImageRefKeys_def collect_messages)

lemma length_CollectImageRefKeys: "length (CollectImageRefKeys ms) = card (\<Union> (refs_of ` set ms))"
  by (metis distinct_CollectImageRefKeys distinct_card set_CollectImageRefKeys)

lemma length_Collect_mono: "\<Union> (refs_of ` set ms) \<subseteq> \<Union> (refs_of ` set ns) \<Longrightarrow>
    length (CollectImageRefKeys ms) \<le> length (CollectImageRefKeys ns)"
  unfolding length_CollectImageRefKeys by (rule card_mono) (auto simp flip: set_CollectImageRefKeys)

text \<open>Rewriting the content array leaves the other members alone.\<close>

lemma rewrite_content:
  assumes "jarray m ''content'' = Some items"
  shows "content_items (jput ''content'' (JArr xs) m) = xs"
    and "k \<noteq> ''content'' \<Longrightarrow> jfind (jput ''content'' (JArr xs) m) k = jfind m k"
proof -
  have "is_object m" using assms by (auto simp: jarray_Some_iff dest: jfind_Some_object)
  then show "content_items (jput ''content'' (JArr xs) m) = xs"
      "k \<noteq> ''content'' \<Longrightarrow> jfind (jput ''content'' (JArr xs) m) k = jfind m k"
    by (simp_all add: content_items_def jarray_def)
qed

lemma content_items_Some: "jarray m ''content'' = Some items \<Longrightarrow> content_items m = items"
  by (simp add: content_items_def)

lemma text_item_not_ref [simp]: "\<not> IsImageRef (text_item t)"
  by (simp add: IsImageRef_def)

lemma refs_expire_message: "refs_of (expire_message keys m) = refs_of m - set keys"
proof (cases "jarray m ''content''")
  case None
  then show ?thesis by (simp add: expire_message_def refs_of_def content_items_def)
next
  case (Some items)
  then have "content_items (expire_message keys m) = map (expire_item keys) items" "content_items m = items"
    by (simp_all add: expire_message_def rewrite_content[OF Some] content_items_Some)
  then show ?thesis by (auto simp: refs_of_def expire_item_def image_iff split: if_splits)
qed

definition unresolved :: "(string \<times> string) list \<Rightarrow> string set" where
  "unresolved urls = {k. map_of urls k = None}"

lemma substitute_items:
  assumes "map_accum (substitute_item urls) missing items = (items', missing')"
  shows "image_key ` {item \<in> set items'. IsImageRef item} = image_key ` {item \<in> set items. IsImageRef item} \<inter> unresolved urls \<and>
    set missing' = set missing \<union> (image_key ` {item \<in> set items. IsImageRef item} \<inter> unresolved urls)"
  using assms
proof (induction items arbitrary: missing items' missing')
  case (Cons item items)
  obtain y m1 where y: "substitute_item urls missing item = (y, m1)" by fastforce
  obtain ys where ys: "map_accum (substitute_item urls) m1 items = (ys, missing')" "items' = y # ys"
    using Cons.prems y by (auto split: prod.splits)
  have url: "\<not> IsImageRef (jobj [(''type'', JStr ''image_url''), (''image_url'', u)])" for u
    by (simp add: IsImageRef_def jstring_def)
  show ?case using Cons.IH[OF ys(1)] y ys(2)
    by (cases "map_of urls (image_key item)") (auto simp: substitute_item_def unresolved_def url split: if_splits)
qed simp

lemma substitute_message_refs:
  assumes "substitute_message urls missing m = (m', missing')"
  shows "refs_of m' = refs_of m \<inter> unresolved urls \<and> set missing' = set missing \<union> (refs_of m \<inter> unresolved urls)"
proof (cases "jarray m ''content''")
  case None
  then show ?thesis using assms by (auto simp: substitute_message_def refs_of_def content_items_def)
next
  case (Some items)
  obtain items' where items': "map_accum (substitute_item urls) missing items = (items', missing')"
      "m' = jput ''content'' (JArr items') m"
    using assms Some by (auto simp: substitute_message_def split: prod.splits)
  then show ?thesis using substitute_items[OF items'(1)] Some
    by (simp add: refs_of_def rewrite_content[OF Some] content_items_Some)
qed

lemma substitute_messages_refs:
  assumes "map_accum (substitute_message urls) missing ms = (ms', missing')"
  shows "\<Union> (refs_of ` set ms') = \<Union> (refs_of ` set ms) \<inter> unresolved urls \<and>
    set missing' = set missing \<union> (\<Union> (refs_of ` set ms) \<inter> unresolved urls)"
  using assms
proof (induction ms arbitrary: missing ms' missing')
  case (Cons m ms)
  obtain y m1 where y: "substitute_message urls missing m = (y, m1)" by fastforce
  obtain ys where ys: "map_accum (substitute_message urls) m1 ms = (ys, missing')" "ms' = y # ys"
    using Cons.prems y by (auto split: prod.splits)
  show ?case using Cons.IH[OF ys(1)] substitute_message_refs[OF y] ys(2) by auto
qed simp

text \<open>Neither operation touches what pairing reads.\<close>

definition same_calls :: "json \<Rightarrow> json \<Rightarrow> bool" where
  "same_calls m n \<longleftrightarrow> role_of m = role_of n \<and> answer_of m = answer_of n \<and> ids_of m = ids_of n \<and> wire_ok m = wire_ok n"

lemma same_calls_rewrite:
  assumes "jarray m ''content'' = Some items"
  shows "same_calls (jput ''content'' (JArr xs) m) m"
proof -
  have "jstring (jput ''content'' (JArr xs) m) k = jstring m k" "jarray (jput ''content'' (JArr xs) m) k = jarray m k"
    if "k \<noteq> ''content''" for k
    using rewrite_content(2)[OF assms that] by (simp_all add: jstring_def jarray_def)
  then show ?thesis
    by (simp add: same_calls_def role_of_def answer_of_def ids_of_def calls_of_def wire_ok_def cong: option.case_cong)
qed

lemma same_calls_refl: "same_calls m m"
  by (simp add: same_calls_def)

lemma same_calls_expire: "same_calls (expire_message keys m) m"
  by (auto simp: expire_message_def same_calls_rewrite same_calls_refl split: option.splits)

lemma same_calls_substitute: "same_calls (fst (substitute_message urls missing m)) m"
  by (auto simp: substitute_message_def same_calls_rewrite same_calls_refl split: option.splits prod.splits)

lemma same_calls_map_accum:
  "list_all2 same_calls (fst (map_accum (substitute_message urls) missing ms)) ms"
proof (induction ms arbitrary: missing)
  case (Cons m ms)
  then show ?case using same_calls_substitute[of urls missing m] by (simp add: case_prod_beta)
qed simp

lemma same_calls_answers: "list_all2 same_calls ms ns \<Longrightarrow> answers ms = answers ns"
  by (induction rule: list_all2_induct) (auto simp: answers_def same_calls_def)

lemma same_calls_paired: "list_all2 same_calls ms ns \<Longrightarrow> paired ms = paired ns"
  by (induction rule: list_all2_induct) (auto simp: same_calls_answers, auto simp: same_calls_def)

section \<open>What enters a history\<close>

lemma jstring_jput_other [simp]: "is_object j \<Longrightarrow> jstring (jput k v j) k' = (if k' = k then (case v of JStr s \<Rightarrow> Some s | _ \<Rightarrow> None) else jstring j k')"
  by (simp add: jstring_def)

lemma wire_message_ok:
  assumes "wire_message role m = Inr msg" and "role \<noteq> ''tool''"
  shows "wire_ok msg" and "role_of msg = role"
proof -
  have "jstring msg ''role'' = Some role"
    using assms(1) by (auto simp: wire_message_def Let_def bind_status_Inr_iff jstring_def split: option.splits if_splits)
  then show "wire_ok msg" "role_of msg = role" using assms(2) by (simp_all add: wire_ok_def role_of_def)
qed

lemma tool_results_ok:
  assumes "fold_status (add_tool_result dump) [] entries = Inr out"
  shows "list_all (\<lambda>m. wire_ok m \<and> is_tool m \<and> content_items m = []) out"
  by (rule fold_status_inv[where I = "list_all (\<lambda>m. wire_ok m \<and> is_tool m \<and> content_items m = [])", OF assms])
    (auto simp: add_tool_result_def Let_def split: if_splits)

lemma ToOpenAiMessages_ok:
  assumes "ToOpenAiMessages parse dump s = Inr (Inr out)"
  shows "list_all wire_ok out"
proof -
  obtain m where m: "parse s = Some m" "is_object m"
    using assms by (auto simp: ToOpenAiMessages_def split: option.splits if_splits)
  show ?thesis
  proof (cases "jstring m ''role'' = Some ''tool''")
    case True
    then obtain entries where "fold_status (add_tool_result dump) [] entries = Inr out"
      using assms m by (auto simp: ToOpenAiMessages_def Let_def split: option.splits)
    then show ?thesis using tool_results_ok[of dump entries out] by (auto simp: list_all_iff)
  next
    case False
    then obtain role msg where "wire_message role m = Inr msg" "role \<noteq> ''tool''" "out = [msg]"
      using assms m by (auto simp: ToOpenAiMessages_def Let_def bind_status_Inr_iff split: option.splits if_splits)
    then show ?thesis using wire_message_ok by simp
  qed
qed

lemma SystemMessage_ok: "SystemMessage parse s = Some m \<Longrightarrow> wire_ok m \<and> content_items m = []"
  by (auto simp: SystemMessage_def Let_def wire_ok_def content_items_def jstring_def jarray_def split: option.splits if_splits)

section \<open>Streamed calls\<close>

fun feed_all :: "json_parser \<Rightarrow> accumulator \<Rightarrow> string list \<Rightarrow> accumulator \<times> string list" where
  "feed_all parse acc [] = (acc, [])"
| "feed_all parse acc (f # fs) =
     (let (acc1, d) = Accumulator_Feed parse acc f; (acc2, ds) = feed_all parse acc1 fs in (acc2, d # ds))"

text \<open>The entries of \<open>choices[0].delta.tool_calls\<close> of a frame, and the piece of arguments an entry carries.\<close>

definition frame_calls :: "json_parser \<Rightarrow> string \<Rightarrow> json list" where
  "frame_calls parse frame = (case parse frame of
       None \<Rightarrow> []
     | Some f \<Rightarrow> (case jarray f ''choices'' of
           Some (choice # _) \<Rightarrow> (case jobject choice ''delta'' of
               Some delta \<Rightarrow> (case jarray delta ''tool_calls'' of Some tcs \<Rightarrow> tcs | None \<Rightarrow> [])
             | None \<Rightarrow> [])
         | _ \<Rightarrow> []))"

definition argument_piece :: "json \<Rightarrow> string" where
  "argument_piece tc = (case jobject tc ''function'' of
       Some fn \<Rightarrow> (case jstring fn ''arguments'' of Some s \<Rightarrow> s | None \<Rightarrow> [])
     | None \<Rightarrow> [])"

lemma feed_header_keeps [simp]: "sa_text (feed_header f acc) = sa_text acc" "sa_calls (feed_header f acc) = sa_calls acc"
  by (simp_all add: feed_header_def Let_def split: option.splits)

lemma feed_delta_effect:
  "sa_text (fst (feed_delta delta acc)) = sa_text acc @ snd (feed_delta delta acc)"
  "sa_calls (fst (feed_delta delta acc)) =
     foldl feed_call (sa_calls acc) (case jarray delta ''tool_calls'' of Some tcs \<Rightarrow> tcs | None \<Rightarrow> [])"
  by (simp_all add: feed_delta_def Let_def split: option.splits)

lemma feed_choice_effect:
  "sa_text (fst (feed_choice choice acc)) = sa_text acc @ snd (feed_choice choice acc)"
  "sa_calls (fst (feed_choice choice acc)) =
     foldl feed_call (sa_calls acc) (case jobject choice ''delta'' of
       Some delta \<Rightarrow> (case jarray delta ''tool_calls'' of Some tcs \<Rightarrow> tcs | None \<Rightarrow> []) | None \<Rightarrow> [])"
proof -
  have "jobject choice ''delta'' = None" if "\<not> is_object choice"
    using that by (cases choice) (simp_all add: jobject_def)
  then show
    "sa_text (fst (feed_choice choice acc)) = sa_text acc @ snd (feed_choice choice acc)"
    "sa_calls (fst (feed_choice choice acc)) =
       foldl feed_call (sa_calls acc) (case jobject choice ''delta'' of
         Some delta \<Rightarrow> (case jarray delta ''tool_calls'' of Some tcs \<Rightarrow> tcs | None \<Rightarrow> []) | None \<Rightarrow> [])"
    by (auto simp: feed_choice_def Let_def feed_delta_effect split: option.split)
qed

lemma Accumulator_Feed_effect:
  assumes "Accumulator_Feed parse acc frame = (acc', d)"
  shows "sa_text acc' = sa_text acc @ d \<and> sa_calls acc' = foldl feed_call (sa_calls acc) (frame_calls parse frame)"
proof -
  have ad: "acc' = fst (Accumulator_Feed parse acc frame)" "d = snd (Accumulator_Feed parse acc frame)"
    using assms by simp_all
  show ?thesis
  proof (cases "parse frame")
    case (Some f)
    consider (choice) c rest where "jarray f ''choices'' = Some (c # rest)"
      | (none) "jarray f ''choices'' = None \<or> jarray f ''choices'' = Some []"
      by (metis list.exhaust option.exhaust)
    then show ?thesis
    proof cases
      case choice
      then show ?thesis unfolding ad by (simp add: Accumulator_Feed_def Some frame_calls_def feed_choice_effect)
    next
      case none
      then show ?thesis unfolding ad by (auto simp: Accumulator_Feed_def Some frame_calls_def)
    qed
  qed (simp add: ad Accumulator_Feed_def frame_calls_def)
qed

lemma feed_all_effect:
  "feed_all parse acc frames = (acc', ds) \<Longrightarrow>
     sa_text acc' = sa_text acc @ concat ds \<and>
     sa_calls acc' = foldl feed_call (sa_calls acc) (concat (map (frame_calls parse) frames))"
proof (induction frames arbitrary: acc ds)
  case (Cons f fs)
  obtain acc1 d where one: "Accumulator_Feed parse acc f = (acc1, d)" by fastforce
  obtain ds1 where rest: "feed_all parse acc1 fs = (acc', ds1)" "ds = d # ds1"
    using Cons.prems one by (auto split: prod.splits)
  show ?case using Cons.IH[OF rest(1)] Accumulator_Feed_effect[OF one] rest(2) by simp
qed simp

lemma merge_call_arguments: "pc_arguments (merge_call tc call) = pc_arguments call @ argument_piece tc"
  by (simp add: merge_call_def Let_def argument_piece_def split: option.splits)

lemma feed_call_lookup:
  "map_of (feed_call calls tc) i =
     (if call_index tc = Some i then Some (merge_call tc (alist_get empty_call calls i)) else map_of calls i)"
  by (auto simp: feed_call_def split: option.splits)

lemma feed_calls_lookup:
  "map_of (foldl feed_call calls tcs) i =
     (let own = filter (\<lambda>tc. call_index tc = Some i) tcs in
      if own = [] then map_of calls i
      else Some (foldl (\<lambda>c tc. merge_call tc c) (alist_get empty_call calls i) own))"
proof (induction tcs arbitrary: calls)
  case (Cons tc tcs)
  have "alist_get empty_call (feed_call calls tc) i =
      (if call_index tc = Some i then merge_call tc (alist_get empty_call calls i) else alist_get empty_call calls i)"
    using feed_call_lookup[of calls tc i] by (simp add: alist_get_def)
  then show ?case by (simp add: Cons.IH Let_def feed_call_lookup)
qed simp

lemma merge_calls_arguments:
  "pc_arguments (foldl (\<lambda>c tc. merge_call tc c) call tcs) = pc_arguments call @ concat (map argument_piece tcs)"
  by (induction tcs arbitrary: call) (simp_all add: merge_call_arguments)

lemma feed_calls_sorted:
  "sorted (map fst calls) \<and> distinct (map fst calls) \<Longrightarrow>
   sorted (map fst (foldl feed_call calls tcs)) \<and> distinct (map fst (foldl feed_call calls tcs))"
proof (induction tcs arbitrary: calls)
  case (Cons tc tcs)
  have "sorted (map fst (feed_call calls tc)) \<and> distinct (map fst (feed_call calls tc))"
    using Cons.prems sorted_sorted_insert[of calls] by (simp add: feed_call_def split: option.splits)
  then show ?case using Cons.IH by simp
qed simp

section \<open>Properties\<close>

text \<open>
  C21. On a well-typed history \<open>RepairToolCallPairing\<close> never throws, keeps every message in its order, and
  leaves each assistant tool call answered in the run of tool messages after it; a history that was
  already paired comes back unchanged, so repairing twice is repairing once.
\<close>

theorem repair_pairs_calls:
  assumes "list_all wire_ok ms"
  shows "\<exists>ms'. RepairToolCallPairing (Some ms) = (Some ms', None) \<and> paired ms' \<and> subseq ms ms' \<and>
    (paired ms \<longrightarrow> ms' = ms) \<and> RepairToolCallPairing (Some ms') = (Some ms', None)"
proof -
  obtain ms' where ms': "repair_loop ms = (ms', None)" using repair_loop_total[OF assms] by (metis prod.collapse)
  then have ok: "list_all wire_ok ms'" "paired ms'" "subseq ms ms'" "paired ms \<longrightarrow> ms' = ms"
    using repair_loop_ok[OF assms] repair_loop_paired[OF assms] repair_loop_keeps[OF assms] repair_loop_id[OF assms] by auto
  have "repair_loop ms' = (ms', None)"
    using repair_loop_id[OF ok(1,2)] repair_loop_total[OF ok(1)] by (metis prod.collapse)
  with ms' ok show ?thesis by (auto simp: RepairToolCallPairing_def)
qed

theorem repair_pairs_calls_witness:
  "\<exists>ms'. RepairToolCallPairing (Some [JObj [(''role'', JStr ''assistant''),
       (''tool_calls'', JArr [JObj [(''id'', JStr ''a'')], JObj [(''id'', JStr ''b'')]])], tool_result ''b'' ''ok'']) = (Some ms', None) \<and>
     paired ms' \<and> length ms' = 3"
proof -
  let ?ms = "[JObj [(''role'', JStr ''assistant''),
       (''tool_calls'', JArr [JObj [(''id'', JStr ''a'')], JObj [(''id'', JStr ''b'')]])], tool_result ''b'' ''ok'']"
  have "list_all wire_ok ?ms" by code_simp
  moreover have "map_option length (fst (RepairToolCallPairing (Some ?ms))) = Some 3" by code_simp
  ultimately show ?thesis using repair_pairs_calls[of ?ms] by auto
qed

text \<open>
  Image references: the keys reported missing are exactly those in the history that the resolver gave
  no URL for, those are the only references left on the wire, and marking them expired removes them and
  no others from the history.
\<close>

lemma image_refs_accounted:
  "set (snd (SubstituteImageRefs ms urls [])) = {k \<in> set (CollectImageRefKeys ms). map_of urls k = None} \<and>
   set (CollectImageRefKeys (fst (SubstituteImageRefs ms urls []))) = set (snd (SubstituteImageRefs ms urls [])) \<and>
   set (CollectImageRefKeys (MarkImageRefsExpired ms keys)) = set (CollectImageRefKeys ms) - set keys"
proof -
  obtain wire missing where sub: "map_accum (substitute_message urls) [] ms = (wire, missing)" by fastforce
  show ?thesis using substitute_messages_refs[OF sub] sub
    by (auto simp: SubstituteImageRefs_def set_CollectImageRefKeys unresolved_def MarkImageRefsExpired_def refs_expire_message)
qed

text \<open>
  C24. However the fragments of parallel tool calls are interleaved in a stream, the accumulated text is the
  concatenation of the deltas handed out, the calls come out in index order, and the arguments of each
  call are the concatenation of exactly the fragments addressed to its index.
\<close>

theorem stream_keeps_calls_apart:
  assumes "feed_all parse (new_accumulator provider) frames = (acc, deltas)"
  shows "sa_text acc = concat deltas \<and> sorted (map fst (sa_calls acc)) \<and> distinct (map fst (sa_calls acc)) \<and>
    map_option pc_arguments (map_of (sa_calls acc) i) =
      (let own = filter (\<lambda>tc. call_index tc = Some i) (concat (map (frame_calls parse) frames)) in
       if own = [] then None else Some (concat (map argument_piece own)))"
proof -
  have calls: "sa_text acc = concat deltas" "sa_calls acc = foldl feed_call [] (concat (map (frame_calls parse) frames))"
    using feed_all_effect[OF assms] by (simp_all add: new_accumulator_def)
  then show ?thesis using feed_calls_sorted[of "[]"]
    by (simp add: feed_calls_lookup Let_def merge_calls_arguments alist_get_def empty_call_def)
qed

definition fragment :: "nat \<Rightarrow> string \<Rightarrow> json" where
  "fragment i s = JObj [(''choices'', JArr [JObj [(''delta'', JObj [(''tool_calls'',
     JArr [JObj [(''index'', JUInt (of_nat i)), (''function'', JObj [(''arguments'', JStr s)])]])])]])]"

definition fragment_parse :: json_parser where
  "fragment_parse s = Some (fragment (if hd s = CHR ''a'' then 0 else 1) (tl s))"

theorem stream_keeps_calls_apart_witness:
  "map_option pc_arguments (map_of (sa_calls (fst (feed_all fragment_parse (new_accumulator kOpenAi) [''b1'', ''a2'', ''b3'']))) 1) = Some ''13''"
proof -
  obtain acc ds where run: "feed_all fragment_parse (new_accumulator kOpenAi) [''b1'', ''a2'', ''b3''] = (acc, ds)" by fastforce
  have "concat (map argument_piece (filter (\<lambda>tc. call_index tc = Some 1)
      (concat (map (frame_calls fragment_parse) [''b1'', ''a2'', ''b3''])))) = ''13''" by code_simp
  then show ?thesis using stream_keeps_calls_apart[OF run, of 1] run by (auto simp: Let_def split: if_splits)
qed

text \<open>An entry of \<open>tool_calls\<close> that is not an object makes \<open>ToOpenAiMessages\<close> throw.\<close>

lemma bare_tool_call_throws:
  "ToOpenAiMessages (\<lambda>_. Some (JObj [(''role'', JStr ''assistant''), (''tool_calls'', JArr [JStr ''x''])])) dump s =
     Inl (OtherException ''type_error.305'')"
  by (simp add: ToOpenAiMessages_def wire_message_def wire_content_def wire_call_def jset_def contains_def jstring_def jarray_def)

end
