(* ===== verification/Schema_Props.thy ===== *)
theory Schema_Props
  imports Message_Props
begin




text \<open>The body of the loop over the properties.\<close>

definition strict_prop :: "string \<times> json \<Rightarrow> (string \<times> json) exn_or" where
  "strict_prop kv =
     (let val = erase_keywords (snd kv) in
      if \<not> is_object val then Inr (fst kv, val)
      else bind_status (value_string val ''type'' []) (\<lambda>ty.
           bind_status (if ty = ''object'' then strict_node val else Inr val) (\<lambda>val1.
           case jobject val ''items'' of
             None \<Rightarrow> Inr (fst kv, val1)
           | Some items \<Rightarrow> bind_status (strict_node items) (\<lambda>items'.
               Inr (fst kv, jput ''items'' items' val1)))))"


lemma map_status_Inr:
  "map_status f xs = Inr ys \<Longrightarrow> list_all2 (\<lambda>x y. f x = Inr y) xs ys"
  by (induction xs arbitrary: ys) (auto simp: bind_status_Inr_iff)



lemma strict_prop_key: "strict_prop kv = Inr kv' \<Longrightarrow> fst kv' = fst kv"
  by (auto simp: strict_prop_def Let_def bind_status_Inr_iff split: if_splits option.splits)

lemma strict_props_keys: "map_status strict_prop props = Inr props' \<Longrightarrow> map fst props' = map fst props"
  by (drule map_status_Inr) (induction rule: list_all2_induct, auto dest: strict_prop_key)








section \<open>What normalization keeps\<close>

text \<open>
  What a schema node may differ in from its normalized form. Of an object node only the properties, the list of
  required names and \<open>additionalProperties\<close> may; the properties keep their names, their number and their order
  and are related one by one, and a node without properties keeps its list of required names. Of a property
  only the unsupported keywords disappear: everything else (\<open>type\<close>, \<open>description\<close>, \<open>enum\<close>, \<open>default\<close>, ...) is the
  same, a schema under \<open>items\<close> is again such a node, and only a property of type object is itself treated as a
  node.
\<close>

definition node_kept :: "(json \<Rightarrow> json \<Rightarrow> bool) \<Rightarrow> json \<Rightarrow> json \<Rightarrow> bool" where
  "node_kept R p q \<longleftrightarrow> is_object q \<and>
     (case jfind p ''properties'' of
        Some (JObj props) \<Rightarrow> \<exists>props'. jfind q ''properties'' = Some (JObj props') \<and>
          list_all2 (\<lambda>a b. fst b = fst a \<and> R (snd a) (snd b)) props props'
      | old \<Rightarrow> jfind q ''properties'' = old \<and> jfind q ''required'' = jfind p ''required'')"

lemma node_kept_mono [mono]: "(\<And>x y. R x y \<longrightarrow> S x y) \<Longrightarrow> node_kept R p q \<longrightarrow> node_kept S p q"
  by (auto simp: node_kept_def split: option.splits json.splits elim!: list_all2_mono)








section \<open>A scanned schema normalizes without an exception\<close>








section \<open>Properties\<close>


definition sample_function :: "string \<Rightarrow> json" where
  "sample_function param = JObj [(''name'', JStr ''search''), (''parameters'', JObj [
     (''properties'', JObj [(param, JObj [(''minLength'', JUInt 1), (''type'', JStr ''string'')]),
        (''tags'', JObj [(''items'', JObj [(''properties'', JObj [(''k'', JObj [(''type'', JStr ''string'')])]),
           (''type'', JStr ''object'')]), (''type'', JStr ''array'')])]),
     (''type'', JStr ''object'')])]"


text \<open>
  A tool with a parameter called \<open>type\<close>: the scan reads that property's schema as if it were the type of the
  \<open>properties\<close> object and leaves with an exception.
\<close>

lemma type_parameter_throws:
  "NormalizeStrictSchema (sample_function ''type'') = Inl (OtherException ''type_error.302'')"
  by code_simp

end
