(* ===== verification/Openai_Conversation.thy ===== *)
theory Openai_Conversation
  imports Schema_Props Https_Client
begin

text \<open>
  The remote conversation, \<open>agentflow/inference/openai/openai_chat_backend.{h,cc}\<close>: the message history it owns and
  \<open>SendAsync\<close> with its retry loop. The HTTP client, the image resolver and the cancel token are seen through what
  they answer on each attempt (\<open>attempt\<close>); the requests posted and the text deltas handed to the token sink are
  returned as a log. Back-off delays have no effect on the state and are left out.
\<close>

record openai_options =
  oo_base_url :: string
  oo_api_key :: string
  oo_model :: string
  oo_provider :: usage_provider
  oo_max_retries :: int
  oo_strict_tools :: bool

record attempt =
  att_cancelled_before :: bool
  att_urls :: "string list \<Rightarrow> (string \<times> string) list status_or"
  att_frames :: "string list"
  att_status :: "unit status_or"
  att_cancelled_after :: bool

record send_env =
  se_parse :: json_parser
  se_dump :: json_dumper
  se_options :: openai_options
  se_conv :: conversation_options
  se_has_resolver :: bool
  se_has_sink :: bool

record send_log =
  sl_requests :: "http_request list"
  sl_tokens :: "string list"

type_synonym send_result = "json list \<times> send_log \<times> string status_or exn_or"

definition IsRetryable :: "status \<Rightarrow> bool" where
  "IsRetryable s \<longleftrightarrow> code s = Unavailable \<or> code s = ResourceExhausted"

definition new_conversation :: "send_env \<Rightarrow> json list" where
  "new_conversation env = (case SystemMessage (se_parse env) (co_system_message_json (se_conv env)) of
       Some sys \<Rightarrow> [sys] | None \<Rightarrow> [])"

definition attachment_invalid :: "string list \<Rightarrow> status" where
  "attachment_invalid missing = Status FailedPrecondition (''attachment_invalid: '' @ join_with '','' missing)"

text \<open>The messages to put on the wire, or the failure and the keys known to be invalid.\<close>

definition resolve_images :: "bool \<Rightarrow> (string list \<Rightarrow> (string \<times> string) list status_or) \<Rightarrow> json list \<Rightarrow>
    (status \<times> string list) + json list" where
  "resolve_images has_resolver resolver messages =
     (let keys = CollectImageRefKeys messages in
      if keys = [] then Inr messages
      else if \<not> has_resolver then Inl (attachment_invalid keys, keys)
      else case resolver keys of
        Inl s \<Rightarrow> Inl (s, [])
      | Inr urls \<Rightarrow>
         (let (wire, missing) = SubstituteImageRefs messages urls [] in
          if missing = [] then Inr wire else Inl (attachment_invalid missing, missing)))"

definition make_request :: "send_env \<Rightarrow> string \<Rightarrow> http_request" where
  "make_request env body = \<lparr>
     hr_url = oo_base_url (se_options env) @ ''/chat/completions'',
     hr_body = body,
     hr_headers = (''Content-Type'', ''application/json'') #
       (if oo_api_key (se_options env) = [] then [] else [(''Authorization'', ''Bearer '' @ oo_api_key (se_options env))])\<rparr>"

definition record_reply :: "send_env \<Rightarrow> json list \<Rightarrow> send_log \<Rightarrow> string \<Rightarrow> send_result" where
  "record_reply env messages log canonical =
     (case ToOpenAiMessages (se_parse env) (se_dump env) canonical of
        Inl e \<Rightarrow> (messages, log, Inl e)
      | Inr (Inl s) \<Rightarrow> (messages, log, Inr (Inr canonical))
      | Inr (Inr assistant) \<Rightarrow> (messages @ assistant, log, Inr (Inr canonical)))"

definition cancelled_error :: status where
  "cancelled_error = Status Cancelled ''cancelled''"

definition stream_reply :: "send_env \<Rightarrow> attempt \<Rightarrow> accumulator \<times> string list" where
  "stream_reply env a =
     (let (acc, deltas) = feed_all (se_parse env) (new_accumulator (oo_provider (se_options env))) (att_frames a)
      in (acc, filter (\<lambda>d. d \<noteq> []) deltas))"

text \<open>\<open>retries\<close> attempts are left, the next one is number \<open>i\<close>.\<close>

fun send_loop :: "send_env \<Rightarrow> (nat \<Rightarrow> attempt) \<Rightarrow> json list \<Rightarrow> json list \<Rightarrow> send_log \<Rightarrow> status \<Rightarrow> nat \<Rightarrow> nat \<Rightarrow> send_result" where
  "send_loop env atts previous messages log last_status i 0 = (messages, log, Inr (Inl last_status))"
| "send_loop env atts previous messages log last_status i (Suc retries) =
     (let a = atts i in
      if att_cancelled_before a then (messages, log, Inr (Inl cancelled_error))
      else case resolve_images (se_has_resolver env) (att_urls a) messages of
        Inl (fail, missing) \<Rightarrow> (MarkImageRefsExpired previous missing, log, Inr (Inl fail))
      | Inr wire \<Rightarrow>
         (case BuildRequestBody (se_parse env) (se_dump env) (oo_model (se_options env)) (se_conv env) wire True
                 (oo_strict_tools (se_options env)) of
            Inl e \<Rightarrow> (messages, log, Inl e)
          | Inr body \<Rightarrow>
             (let (acc, shown) = stream_reply env a;
                  log' = \<lparr>sl_requests = sl_requests log @ [make_request env body],
                          sl_tokens = sl_tokens log @ (if se_has_sink env then shown else [])\<rparr>
              in case att_status a of
                   Inr _ \<Rightarrow> record_reply env messages log' (Canonical (se_dump env) acc)
                 | Inl s \<Rightarrow>
                     if att_cancelled_after a then (messages, log', Inr (Inl cancelled_error))
                     else if shown \<noteq> []
                     then (messages, log', Inr (Inl (Status (code s) (''stream interrupted after partial output: '' @ message s))))
                     else if \<not> IsRetryable s then (messages, log', Inr (Inl s))
                     else send_loop env atts previous messages log' s (Suc i) retries)))"

definition too_many_images :: status where
  "too_many_images = Status InvalidArgument ''too many images in session (max 20)''"

definition SendAsync :: "send_env \<Rightarrow> (nat \<Rightarrow> attempt) \<Rightarrow> string \<Rightarrow> json list \<Rightarrow> send_result" where
  "SendAsync env atts message_json messages =
     (let log = \<lparr>sl_requests = [], sl_tokens = []\<rparr> in
      case ToOpenAiMessages (se_parse env) (se_dump env) message_json of
        Inl e \<Rightarrow> (messages, log, Inl e)
      | Inr (Inl s) \<Rightarrow> (messages, log, Inr (Inl s))
      | Inr (Inr incoming) \<Rightarrow>
         (case repair_loop (messages @ incoming) of
            (repaired, Some e) \<Rightarrow> (repaired, log, Inl e)
          | (repaired, None) \<Rightarrow>
              if length (CollectImageRefKeys repaired) > 20
              then ((if CollectImageRefKeys incoming \<noteq> [] then messages else repaired), log, Inr (Inl too_many_images))
              else send_loop env atts messages repaired log (Status Unknown ''no attempt made'') 0
                     (nat (oo_max_retries (se_options env)))))"

section \<open>The backend\<close>

record chat_backend =
  bk_options :: openai_options
  bk_describe :: string
  bk_last_warning :: string

definition OpenAiChatBackend_Create :: "openai_options \<Rightarrow> chat_backend" where
  "OpenAiChatBackend_Create opts = \<lparr>bk_options = opts, bk_describe = ''openai:'' @ oo_model opts, bk_last_warning = []\<rparr>"

definition CreateConversation :: "json_parser \<Rightarrow> conversation_options \<Rightarrow> chat_backend \<Rightarrow> json list \<times> chat_backend" where
  "CreateConversation parse opts b =
     (case SystemMessage parse (co_system_message_json opts) of Some sys \<Rightarrow> [sys] | None \<Rightarrow> [],
      if co_constrained_tool_calls opts
      then b\<lparr>bk_last_warning := ''backend '' @ bk_describe b @ '' does not support constrained tool calls; running unconstrained''\<rparr>
      else b)"

section \<open>The history\<close>

definition history_ok :: "json list \<Rightarrow> bool" where
  "history_ok ms \<longleftrightarrow> list_all wire_ok ms \<and> length (CollectImageRefKeys ms) \<le> 20"

lemma new_conversation_ok: "history_ok (new_conversation env)"
  by (auto simp: history_ok_def new_conversation_def length_CollectImageRefKeys refs_of_def dest: SystemMessage_ok split: option.splits)

lemma expire_ok: "list_all wire_ok ms \<Longrightarrow> list_all wire_ok (MarkImageRefsExpired ms keys)"
  using same_calls_expire by (auto simp: MarkImageRefsExpired_def list_all_iff same_calls_def)

lemma refs_expire: "\<Union> (refs_of ` set (MarkImageRefsExpired ms keys)) = \<Union> (refs_of ` set ms) - set keys"
  by (auto simp: MarkImageRefsExpired_def refs_expire_message)

lemma history_ok_expire: "history_ok ms \<Longrightarrow> history_ok (MarkImageRefsExpired ms keys)"
  using length_Collect_mono[of "MarkImageRefsExpired ms keys" ms]
  by (auto simp: history_ok_def expire_ok refs_expire)

text \<open>A printed object parses to one with the same string members.\<close>

definition prints_text :: "json_parser \<Rightarrow> json_dumper \<Rightarrow> bool" where
  "prints_text parse dump \<longleftrightarrow> (\<forall>j k s. jstring j k = Some s \<longrightarrow> (\<exists>c. parse (dump j) = Some c \<and> jstring c k = Some s))"

lemma content_items_wire:
  "wire_message role m = Inr msg \<Longrightarrow> role \<noteq> ''user'' \<Longrightarrow> content_items msg = []"
  by (auto simp: wire_message_def wire_content_def content_items_def jarray_def Let_def bind_status_Inr_iff
      split: option.splits if_splits)

lemma canonical_role: "jstring (canonical_json acc) ''role'' = Some ''assistant''"
  by (simp add: canonical_json_def Let_def jstring_def)

lemma reply_refs:
  assumes "prints_text parse dump" and "ToOpenAiMessages parse dump (Canonical dump acc) = Inr (Inr out)"
  shows "\<Union> (refs_of ` set out) = {}"
proof -
  obtain c where c: "parse (Canonical dump acc) = Some c" "jstring c ''role'' = Some ''assistant''"
    using assms(1) canonical_role[of acc] unfolding prints_text_def Canonical_def by blast
  then obtain msg where "wire_message ''assistant'' c = Inr msg" "out = [msg]"
    using assms(2) jstring_object[OF c(2)] by (auto simp: ToOpenAiMessages_def bind_status_Inr_iff)
  then show ?thesis using content_items_wire[of "''assistant''" c msg] by (simp add: refs_of_def)
qed

lemma record_reply_cases:
  assumes "record_reply env messages log canonical = (ms', log', res)"
  shows "log' = log \<and> (res = Inr (Inr canonical) \<or> (\<exists>e. res = Inl e)) \<and>
    (ms' = messages \<or> (\<exists>out. ToOpenAiMessages (se_parse env) (se_dump env) canonical = Inr (Inr out) \<and> ms' = messages @ out))"
  using assms by (auto simp: record_reply_def split: sum.splits)

lemma history_ok_reply:
  assumes "record_reply env messages log (Canonical (se_dump env) acc) = (ms', log', res)"
    and "history_ok messages" and "prints_text (se_parse env) (se_dump env)"
  shows "history_ok ms'"
proof -
  consider "ms' = messages" | out where "ToOpenAiMessages (se_parse env) (se_dump env) (Canonical (se_dump env) acc) = Inr (Inr out)"
      "ms' = messages @ out"
    using record_reply_cases[OF assms(1)] by blast
  then show ?thesis
  proof cases
    case 2
    then show ?thesis using assms(2) ToOpenAiMessages_ok[OF 2(1)] reply_refs[OF assms(3) 2(1)]
        length_Collect_mono[of "messages @ out" messages] by (simp add: history_ok_def)
  qed (use assms in simp)
qed

lemma history_ok_loop:
  assumes "send_loop env atts previous messages log st i n = (ms', log', res)"
    and "history_ok messages" and "history_ok previous" and "prints_text (se_parse env) (se_dump env)"
  shows "history_ok ms'"
  using assms(1)
proof (induction n arbitrary: log st i)
  case (Suc n)
  show ?case
  proof (cases "\<exists>acc log1. record_reply env messages log1 (Canonical (se_dump env) acc) = (ms', log', res)")
    case True
    then show ?thesis using history_ok_reply assms(2,4) by blast
  next
    case False
    then show ?thesis using Suc assms(2,3) history_ok_expire
      by (fastforce simp: Let_def split: if_splits sum.splits prod.splits)
  qed
qed (use assms in simp)

section \<open>Requests\<close>

lemma resolve_images_wire:
  assumes "resolve_images hr f messages = Inr wire"
  shows "list_all2 same_calls wire messages" and "CollectImageRefKeys wire = []"
proof -
  consider "wire = messages" "CollectImageRefKeys messages = []"
    | urls where "SubstituteImageRefs messages urls [] = (wire, [])"
    using assms by (auto simp: resolve_images_def Let_def split: if_splits sum.splits prod.splits)
  then have "list_all2 same_calls wire messages \<and> CollectImageRefKeys wire = []"
  proof cases
    case 1
    then show ?thesis by (simp add: same_calls_refl list_all2_same)
  next
    case (2 urls)
    then have sub: "map_accum (substitute_message urls) [] messages = (wire, [])" by (simp add: SubstituteImageRefs_def)
    then have "\<Union> (refs_of ` set wire) = {}" using substitute_messages_refs[OF sub] by auto
    then have "CollectImageRefKeys wire = []" by (simp flip: set_CollectImageRefKeys)
    moreover have "list_all2 same_calls wire messages" using same_calls_map_accum[of urls "[]" messages] sub by simp
    ultimately show ?thesis by blast
  qed
  then show "list_all2 same_calls wire messages" "CollectImageRefKeys wire = []" by blast+
qed

text \<open>A posted request: a body over messages that are paired and free of image references.\<close>

definition posted_ok :: "send_env \<Rightarrow> http_request \<Rightarrow> bool" where
  "posted_ok env r \<longleftrightarrow> (\<exists>wire tools. paired wire \<and> CollectImageRefKeys wire = [] \<and>
     r = make_request env (se_dump env (request_json (oo_model (se_options env)) (se_conv env) wire True tools)))"

lemma attempt_posts:
  assumes "resolve_images hr f messages = Inr wire" and "paired messages"
    and "BuildRequestBody (se_parse env) (se_dump env) (oo_model (se_options env)) (se_conv env) wire True strict = Inr body"
  shows "posted_ok env (make_request env body)"
  using assms(3) resolve_images_wire[OF assms(1)] same_calls_paired[of wire messages] assms(2)
  by (auto simp: posted_ok_def BuildRequestBody_def bind_status_Inr_iff)

text \<open>What a reply adds to the history, and that \<open>record_reply\<close> adds exactly that when it returns the reply.\<close>

definition reply_messages :: "send_env \<Rightarrow> string \<Rightarrow> json list" where
  "reply_messages env canonical =
     (case ToOpenAiMessages (se_parse env) (se_dump env) canonical of Inr (Inr assistant) \<Rightarrow> assistant | _ \<Rightarrow> [])"

lemma record_reply_returns:
  assumes "record_reply env messages log canonical = (ms', log', Inr (Inr c))"
  shows "log' = log \<and> c = canonical \<and> ms' = messages @ reply_messages env c"
  using assms by (auto simp: record_reply_def reply_messages_def split: sum.splits)

text \<open>One turn of the loop: it ends without posting, posts and ends, or posts silently and goes on.\<close>

lemma send_loop_turn:
  assumes "send_loop env atts previous messages log st i (Suc n) = (ms', log', res)"
  obtains (unposted) "log' = log" "\<And>c. res \<noteq> Inr (Inr c)"
    | (posted) wire body where
        "resolve_images (se_has_resolver env) (att_urls (atts i)) messages = Inr wire"
        "BuildRequestBody (se_parse env) (se_dump env) (oo_model (se_options env)) (se_conv env) wire True
           (oo_strict_tools (se_options env)) = Inr body"
        "log' = \<lparr>sl_requests = sl_requests log @ [make_request env body],
           sl_tokens = sl_tokens log @ (if se_has_sink env then snd (stream_reply env (atts i)) else [])\<rparr>"
        "\<And>c. res = Inr (Inr c) \<Longrightarrow> att_status (atts i) = Inr () \<and>
           c = Canonical (se_dump env) (fst (stream_reply env (atts i))) \<and> ms' = messages @ reply_messages env c"
    | (retry) wire body s where
        "resolve_images (se_has_resolver env) (att_urls (atts i)) messages = Inr wire"
        "BuildRequestBody (se_parse env) (se_dump env) (oo_model (se_options env)) (se_conv env) wire True
           (oo_strict_tools (se_options env)) = Inr body"
        "IsRetryable s" "snd (stream_reply env (atts i)) = []"
        "send_loop env atts previous messages \<lparr>sl_requests = sl_requests log @ [make_request env body], sl_tokens = sl_tokens log\<rparr>
           s (Suc i) n = (ms', log', res)"
proof (cases "att_cancelled_before (atts i)")
  case True
  then show ?thesis using assms unposted by (auto simp: Let_def)
next
  case run: False
  show ?thesis
  proof (cases "resolve_images (se_has_resolver env) (att_urls (atts i)) messages")
    case (Inl p)
    then show ?thesis using assms run unposted by (cases p) (auto simp: Let_def)
  next
    case wire: (Inr wire)
    show ?thesis
    proof (cases "BuildRequestBody (se_parse env) (se_dump env) (oo_model (se_options env)) (se_conv env) wire True
           (oo_strict_tools (se_options env))")
      case (Inl e)
      then show ?thesis using assms run wire unposted by (auto simp: Let_def)
    next
      case body: (Inr body)
      obtain acc shown where rep: "stream_reply env (atts i) = (acc, shown)" by fastforce
      note turn = assms[unfolded send_loop.simps Let_def]
      show ?thesis
      proof (cases "att_status (atts i)")
        case (Inr u)
        then show ?thesis using turn run wire body rep
          by (intro posted[OF wire body]) (auto dest: record_reply_cases record_reply_returns)
      next
        case (Inl s)
        show ?thesis
        proof (cases "att_cancelled_after (atts i) \<or> shown \<noteq> [] \<or> \<not> IsRetryable s")
          case True
          then show ?thesis using turn run wire body rep Inl
            by (intro posted[OF wire body]) (auto split: if_splits)
        next
          case False
          then show ?thesis using turn run wire body rep Inl
            by (intro retry[OF wire body, of s]) auto
        qed
      qed
    qed
  qed
qed

lemma send_loop_posts:
  assumes "send_loop env atts previous messages log st i n = (ms', log', res)" and "paired messages"
    and "list_all (posted_ok env) (sl_requests log)"
  shows "list_all (posted_ok env) (sl_requests log') \<and> length (sl_requests log') \<le> length (sl_requests log) + n"
  using assms(1,3)
proof (induction n arbitrary: log st i)
  case (Suc n)
  from Suc.prems(1) show ?case
  proof (cases rule: send_loop_turn)
    case (posted wire body)
    then show ?thesis using Suc.prems attempt_posts[OF posted(1) assms(2) posted(2)] by simp
  next
    case (retry wire body s)
    then show ?thesis using Suc.IH[OF retry(5)] Suc.prems attempt_posts[OF retry(1) assms(2) retry(2)] by simp
  qed (use Suc.prems in simp)
qed simp

text \<open>What the sink has been given comes from the last attempt posted, and a reply is that attempt's.\<close>

lemma send_loop_tokens:
  assumes "send_loop env atts previous messages log st i n = (ms', log', res)"
    and "sl_tokens log = []" and "i = length (sl_requests log)"
  shows "(sl_tokens log' = [] \<or> sl_tokens log' = snd (stream_reply env (atts (length (sl_requests log') - 1)))) \<and>
    (\<forall>c. res = Inr (Inr c) \<longrightarrow> sl_requests log' \<noteq> [] \<and>
       att_status (atts (length (sl_requests log') - 1)) = Inr () \<and>
       c = Canonical (se_dump env) (fst (stream_reply env (atts (length (sl_requests log') - 1)))) \<and>
       ms' = messages @ reply_messages env c \<and>
       sl_tokens log' = (if se_has_sink env then snd (stream_reply env (atts (length (sl_requests log') - 1))) else []))"
  using assms
proof (induction n arbitrary: log st i)
  case (Suc n)
  from Suc.prems(1) show ?case
  proof (cases rule: send_loop_turn)
    case (posted wire body)
    then show ?thesis using Suc.prems by simp
  next
    case (retry wire body s)
    show ?thesis by (rule Suc.IH[OF retry(5)]) (use Suc.prems in simp_all)
  qed (use Suc.prems in simp)
qed auto

lemma repair_loop_refs: "list_all wire_ok ms \<Longrightarrow> \<Union> (refs_of ` set (fst (repair_loop ms))) = \<Union> (refs_of ` set ms)"
proof (induction ms rule: history_induct)
  case (Run m ms)
  have "refs_of r = {}" if "r \<in> set (missing_results want answered)" for r want answered
    using that by (auto simp: missing_results_def refs_of_def)
  moreover have "set ms = set (takeWhile is_tool ms) \<union> set (dropWhile is_tool ms)"
    by (metis set_append takeWhile_dropWhile_id)
  ultimately show ?case using Run by (simp add: repair_loop_step)
qed (simp_all add: repair_loop_skip)

lemma SendAsync_cases:
  assumes "SendAsync env atts msg ms = (ms', log, res)" and "history_ok ms"
  obtains (early) "ms' = ms" "sl_requests log = []" "sl_tokens log = []" "\<And>c. res \<noteq> Inr (Inr c)"
    | (loop) incoming where
        "ToOpenAiMessages (se_parse env) (se_dump env) msg = Inr (Inr incoming)"
        "history_ok (fst (repair_loop (ms @ incoming)))" "paired (fst (repair_loop (ms @ incoming)))"
        "send_loop env atts ms (fst (repair_loop (ms @ incoming))) \<lparr>sl_requests = [], sl_tokens = []\<rparr>
           (Status Unknown ''no attempt made'') 0 (nat (oo_max_retries (se_options env))) = (ms', log, res)"
proof (cases "\<exists>incoming. ToOpenAiMessages (se_parse env) (se_dump env) msg = Inr (Inr incoming)")
  case False
  then show ?thesis using assms(1)
    by (intro early) (auto simp: SendAsync_def Let_def split: sum.splits)
next
  case True
  then obtain incoming where inc: "ToOpenAiMessages (se_parse env) (se_dump env) msg = Inr (Inr incoming)" by blast
  have ok: "list_all wire_ok (ms @ incoming)" using assms(2) ToOpenAiMessages_ok[OF inc] by (simp add: history_ok_def)
  obtain rep where rep: "repair_loop (ms @ incoming) = (rep, None)"
    using repair_loop_total[OF ok] by (metis prod.collapse)
  have facts: "list_all wire_ok rep" "paired rep" "\<Union> (refs_of ` set rep) = \<Union> (refs_of ` set (ms @ incoming))"
    using repair_loop_ok[OF ok] repair_loop_paired[OF ok] repair_loop_refs[OF ok] by (simp_all add: rep)
  show ?thesis
  proof (cases "length (CollectImageRefKeys rep) > 20")
    case many: True
    have "CollectImageRefKeys incoming \<noteq> []"
    proof
      assume "CollectImageRefKeys incoming = []"
      then have "\<Union> (refs_of ` set rep) \<subseteq> \<Union> (refs_of ` set ms)"
        using facts(3) set_CollectImageRefKeys[of incoming] by simp
      then show False using length_Collect_mono[of rep ms] many assms(2) by (simp add: history_ok_def)
    qed
    then show ?thesis using assms(1) many by (intro early) (auto simp: SendAsync_def Let_def inc rep)
  next
    case False
    then have "history_ok rep" using facts(1) by (simp add: history_ok_def)
    then show ?thesis using assms(1) False facts(2)
      by (intro loop[OF inc]) (auto simp: SendAsync_def Let_def inc rep)
  qed
qed

lemma concat_nonempty: "concat (filter (\<lambda>d. d \<noteq> []) ds) = concat ds"
  by (induction ds) auto

section \<open>A sample conversation\<close>

definition sample_call :: "string \<Rightarrow> json" where
  "sample_call i = jobj [(''id'', JStr i), (''type'', JStr ''function'')]"

definition sample_history :: "json list" where
  "sample_history = [jobj [(''role'', JStr ''user''), (''content'', JStr ''go'')],
     JObj [(''content'', JStr []), (''role'', JStr ''assistant''), (''tool_calls'', JArr [sample_call ''a'', sample_call ''b''])],
     tool_result ''b'' ''done'']"

definition sample_send_env :: send_env where
  "sample_send_env = \<lparr>se_parse = counting_parse, se_dump = counting_dump,
     se_options = \<lparr>oo_base_url = ''https://api'', oo_api_key = [], oo_model = ''m'', oo_provider = kOpenAi,
       oo_max_retries = 2, oo_strict_tools = False\<rparr>,
     se_conv = \<lparr>co_system_message_json = [], co_tools_json = counting_dump (JArr []), co_max_output_tokens = 16,
       co_constrained_tool_calls = False\<rparr>,
     se_has_resolver = False, se_has_sink = True\<rparr>"

definition sample_attempts :: "nat \<Rightarrow> attempt" where
  "sample_attempts i = \<lparr>att_cancelled_before = False, att_urls = (\<lambda>_. Inr []),
     att_frames = (if i = 0 then [] else [counting_dump (JObj [(''choices'', JArr [JObj [(''delta'', JObj [(''content'', JStr ''hi'')])]])])]),
     att_status = (if i = 0 then Inl (Status Unavailable ''down'') else Inr ()), att_cancelled_after = False\<rparr>"

definition sample_turn :: string where
  "sample_turn = counting_dump (JObj [(''content'', JStr ''next''), (''role'', JStr ''user'')])"

text \<open>A server whose second answer says hello, read by a parser that knows four texts.\<close>

definition scripted_parse :: json_parser where
  "scripted_parse s =
     (if s = ''turn'' then Some (jobj [(''role'', JStr ''user''), (''content'', JStr ''next'')])
      else if s = ''hi'' then Some (JObj [(''choices'', JArr [JObj [(''delta'', JObj [(''content'', JStr ''hi'')])]])])
      else if s = ''tools'' then Some (JArr [])
      else if s = ''printed'' then Some (jobj [(''role'', JStr ''assistant''), (''content'', JStr ''hi'')])
      else None)"

definition scripted_env :: send_env where
  "scripted_env = sample_send_env\<lparr>se_parse := scripted_parse, se_dump := (\<lambda>_. ''printed''),
     se_conv := \<lparr>co_system_message_json = [], co_tools_json = ''tools'', co_max_output_tokens = 16,
       co_constrained_tool_calls = False\<rparr>\<rparr>"

definition scripted_attempts :: "nat \<Rightarrow> attempt" where
  "scripted_attempts i = (sample_attempts i)\<lparr>att_frames := (if i = 0 then [] else [''hi''])\<rparr>"

lemma sample_prints: "prints_text (se_parse sample_send_env) (se_dump sample_send_env)"
  by (simp add: prints_text_def sample_send_env_def)

lemma sample_history_ok: "history_ok sample_history"
  by code_simp

section \<open>Properties\<close>

text \<open>
  C22. From a well-typed history with at most 20 images, whatever the message, the server and the resolver
  answer, \<open>SendAsync\<close> leaves such a history, posts at most \<open>max_retries\<close> requests, and every request it
  posts answers each tool call right after the message that asked for it and contains no unresolved image
  reference.
\<close>

theorem send_posts_paired:
  assumes "history_ok ms" and "prints_text (se_parse env) (se_dump env)"
    and "SendAsync env atts msg ms = (ms', log, res)"
  shows "history_ok ms' \<and> list_all (posted_ok env) (sl_requests log) \<and>
    length (sl_requests log) \<le> nat (oo_max_retries (se_options env))"
  using assms(3,1)
proof (cases rule: SendAsync_cases)
  case early
  then show ?thesis using assms(1) by simp
next
  case (loop incoming)
  then show ?thesis
    using history_ok_loop[OF loop(4) loop(2) assms(1,2)] send_loop_posts[OF loop(4) loop(3)] by simp
qed

theorem send_posts_paired_witness:
  "\<exists>ms' log res. SendAsync sample_send_env sample_attempts sample_turn sample_history = (ms', log, res) \<and>
     history_ok ms' \<and> list_all (posted_ok sample_send_env) (sl_requests log) \<and> length (sl_requests log) \<le> 2"
proof -
  obtain ms' log res where run: "SendAsync sample_send_env sample_attempts sample_turn sample_history = (ms', log, res)"
    by (metis prod.collapse)
  have "nat (oo_max_retries (se_options sample_send_env)) = 2" by (simp add: sample_send_env_def)
  with send_posts_paired[OF sample_history_ok sample_prints run] run show ?thesis by metis
qed

text \<open>
  C23. The output of two attempts is never mixed. What the sink received is the text of the last attempt
  posted, or nothing. When \<open>SendAsync\<close> returns a reply, a request was posted, the last attempt posted
  succeeded, and with \<open>acc\<close> the accumulator that started empty and was fed the frames of that attempt and no
  others: the reply is the canonical message of \<open>acc\<close>, its text, reasoning and tool calls being those of that
  attempt alone; the sink, if there is one, was given exactly the non-empty deltas of those frames, in order;
  the text of \<open>acc\<close> is their concatenation; and the history is the one sent, repaired, followed by the wire
  form of that very reply.
\<close>

theorem shown_text_is_recorded:
  assumes "history_ok ms" and "SendAsync env atts msg ms = (ms', log, res)"
    and "final = atts (length (sl_requests log) - 1)"
    and "feed_all (se_parse env) (new_accumulator (oo_provider (se_options env))) (att_frames final) = (acc, deltas)"
  shows "sl_tokens log \<in> {[], filter (\<lambda>d. d \<noteq> []) deltas} \<and>
    (\<forall>canonical. res = Inr (Inr canonical) \<longrightarrow>
       sl_requests log \<noteq> [] \<and> att_status final = Inr () \<and>
       canonical = Canonical (se_dump env) acc \<and>
       sl_tokens log = (if se_has_sink env then filter (\<lambda>d. d \<noteq> []) deltas else []) \<and>
       sa_text acc = concat (filter (\<lambda>d. d \<noteq> []) deltas) \<and>
       (\<exists>incoming. ToOpenAiMessages (se_parse env) (se_dump env) msg = Inr (Inr incoming) \<and>
          ms' = fst (repair_loop (ms @ incoming)) @ reply_messages env canonical))"
proof -
  have reply: "stream_reply env final = (acc, filter (\<lambda>d. d \<noteq> []) deltas)"
    using assms(4) by (simp add: stream_reply_def)
  have spoken: "sa_text acc = concat (filter (\<lambda>d. d \<noteq> []) deltas)"
    using feed_all_effect[OF assms(4)] by (simp add: new_accumulator_def concat_nonempty)
  from assms(2,1) show ?thesis
  proof (cases rule: SendAsync_cases)
    case early
    then show ?thesis by simp
  next
    case (loop incoming)
    have "snd (stream_reply env final) = filter (\<lambda>d. d \<noteq> []) deltas" "fst (stream_reply env final) = acc"
      using reply by simp_all
    with send_loop_tokens[OF loop(4)] loop(1) spoken show ?thesis unfolding assms(3) by auto
  qed
qed

theorem shown_text_is_recorded_witness:
  "\<exists>ms' log canonical acc.
     SendAsync scripted_env scripted_attempts ''turn'' sample_history = (ms', log, Inr (Inr canonical)) \<and>
     length (sl_requests log) = 2 \<and> canonical = Canonical (se_dump scripted_env) acc \<and>
     sl_tokens log = [''hi''] \<and> sa_text acc = ''hi''"
proof -
  let ?run = "SendAsync scripted_env scripted_attempts ''turn'' sample_history"
  let ?fed = "feed_all (se_parse scripted_env) (new_accumulator (oo_provider (se_options scripted_env)))
     (att_frames (scripted_attempts 1))"
  have "length (sl_requests (fst (snd ?run))) = 2 \<and> (case snd (snd ?run) of Inr (Inr c) \<Rightarrow> True | _ \<Rightarrow> False) \<and> snd ?fed = [''hi'']"
    by code_simp
  then obtain ms' log canonical acc where run: "?run = (ms', log, Inr (Inr canonical))" "length (sl_requests log) = 2"
      and fed: "?fed = (acc, [''hi''])"
    by (cases ?run; cases ?fed) (auto split: sum.splits)
  have "scripted_attempts 1 = scripted_attempts (length (sl_requests log) - 1)" using run(2) by simp
  from shown_text_is_recorded[OF sample_history_ok run(1) this fed]
  have "canonical = Canonical (se_dump scripted_env) acc \<and> sl_tokens log = [''hi''] \<and> sa_text acc = ''hi''"
    by (simp add: scripted_env_def sample_send_env_def)
  with run show ?thesis by blast
qed

end
