(* ===== verification/Tools.thy ===== *)
theory Tools
  imports Json_Value
begin

text \<open>
  The tool layer: \<open>agentflow/tools/tool.h\<close>, \<open>tool_registry\<close>, \<open>mcp_tool_adapter\<close>, \<open>gated_tool\<close> and
  \<open>invocation_tool_view\<close>. A tool is its schema and what an invocation does to the world \<open>'w\<close> around the
  program; an exception is a result. The cancel token is read through the world, since it may be flipped while
  a tool runs. The MCP client is a record of what it answers.
\<close>

section \<open>Tools\<close>

record tool_schema =
  ts_name :: string
  ts_description :: string
  ts_params_json_schema :: string

type_synonym 'w invocation = "string \<Rightarrow> string \<Rightarrow> 'w \<Rightarrow> string exn_or \<times> 'w"

text \<open>\<open>tl_with_session\<close> is present on MCP adapters only: the invocation of \<open>WithCallContext\<close>'s clone.\<close>

record 'w tool =
  tl_schema :: tool_schema
  tl_invoke :: "'w invocation"
  tl_with_session :: "(string \<Rightarrow> 'w invocation) option"

definition tl_name :: "'w tool \<Rightarrow> string" where
  "tl_name t = ts_name (tl_schema t)"

definition NativeFnTool :: "tool_schema \<Rightarrow> 'w invocation \<Rightarrow> 'w tool" where
  "NativeFnTool schema fn = \<lparr>tl_schema = schema, tl_invoke = fn, tl_with_session = None\<rparr>"

section \<open>MCP adapters\<close>

text \<open>\<open>mc_race\<close> runs the call against a timer and answers nothing when the timer wins.\<close>

record 'w mcp_client =
  mc_connect :: "'w \<Rightarrow> unit status_or \<times> 'w"
  mc_list_tools :: "'w \<Rightarrow> tool_schema list status_or \<times> 'w"
  mc_call_tool :: "string \<Rightarrow> string \<Rightarrow> string \<Rightarrow> 'w \<Rightarrow> string status_or \<times> 'w"
  mc_race :: "nat \<Rightarrow> string \<Rightarrow> string \<Rightarrow> string \<Rightarrow> 'w \<Rightarrow> string status_or option \<times> 'w"

definition McpErrorJson :: "json_dumper \<Rightarrow> string \<Rightarrow> string" where
  "McpErrorJson dump_lenient msg =
     dump_lenient (jobj [(''isError'', JBool True), (''content'', JArr [text_item msg])])"

definition call_result :: "json_dumper \<Rightarrow> string status_or \<Rightarrow> string" where
  "call_result dump_lenient r = (case r of
       Inl s \<Rightarrow> McpErrorJson dump_lenient (''tool error: '' @ message s)
     | Inr v \<Rightarrow> v)"

definition McpToolAdapter_Invoke :: "json_dumper \<Rightarrow> ('w \<Rightarrow> bool) \<Rightarrow> 'w mcp_client \<Rightarrow> string \<Rightarrow> nat \<Rightarrow> string \<Rightarrow> 'w invocation" where
  "McpToolAdapter_Invoke dump_lenient cancelled client remote timeout session args_json call_id w =
     (if cancelled w then (Inr (McpErrorJson dump_lenient ''tool error: cancelled before invoke''), w)
      else if timeout = 0
      then (let (r, w') = mc_call_tool client remote args_json session w in (Inr (call_result dump_lenient r), w'))
      else (let (r, w') = mc_race client timeout remote args_json session w in
            case r of
              None \<Rightarrow> (Inr (McpErrorJson dump_lenient (''tool error: timeout after '' @ nat_to_dec timeout @ ''ms'')), w')
            | Some v \<Rightarrow> (Inr (call_result dump_lenient v), w')))"

definition McpToolAdapter :: "json_dumper \<Rightarrow> ('w \<Rightarrow> bool) \<Rightarrow> 'w mcp_client \<Rightarrow> tool_schema \<Rightarrow> nat \<Rightarrow> 'w tool" where
  "McpToolAdapter dump_lenient cancelled client schema timeout =
     \<lparr>tl_schema = schema,
      tl_invoke = McpToolAdapter_Invoke dump_lenient cancelled client (ts_name schema) timeout [],
      tl_with_session = Some (McpToolAdapter_Invoke dump_lenient cancelled client (ts_name schema) timeout)\<rparr>"

section \<open>The registry\<close>

record 'w tool_registry =
  tr_has_pool :: bool
  tr_tools :: "(string \<times> 'w tool) list"

definition new_tool_registry :: "bool \<Rightarrow> 'w tool_registry" where
  "new_tool_registry pool = \<lparr>tr_has_pool = pool, tr_tools = []\<rparr>"

definition Register_tool :: "'w tool \<Rightarrow> 'w tool_registry \<Rightarrow> 'w tool_registry" where
  "Register_tool t r = r\<lparr>tr_tools := AList.update (tl_name t) t (tr_tools r)\<rparr>"

definition Has :: "'w tool_registry \<Rightarrow> string \<Rightarrow> bool" where
  "Has r name = has_key (tr_tools r) name"

definition Find :: "'w tool_registry \<Rightarrow> string \<Rightarrow> 'w tool option" where
  "Find r name = map_of (tr_tools r) name"

definition TryRegisterIfAbsent :: "'w tool \<Rightarrow> 'w tool_registry \<Rightarrow> bool \<times> 'w tool_registry" where
  "TryRegisterIfAbsent t r =
     (if has_key (tr_tools r) (tl_name t) then (False, r)
      else (True, r\<lparr>tr_tools := tr_tools r @ [(tl_name t, t)]\<rparr>))"

record mcp_server_spec =
  mp_include_tools :: "string list"
  mp_exclude_tools :: "string list"
  mp_call_timeout_ms :: nat
  mp_lazy_start :: bool

definition passes_filter :: "string list \<Rightarrow> string list \<Rightarrow> string \<Rightarrow> bool" where
  "passes_filter include_set exclude_set name \<longleftrightarrow>
     (include_set = [] \<or> name \<in> set include_set) \<and> name \<notin> set exclude_set"

definition attach_schemas :: "(tool_schema \<Rightarrow> 'w tool) \<Rightarrow> string list \<Rightarrow> string list \<Rightarrow> tool_schema list \<Rightarrow>
    'w tool_registry \<Rightarrow> 'w tool_registry" where
  "attach_schemas adapter include_set exclude_set schemas r =
     foldl (\<lambda>r s. if passes_filter include_set exclude_set (ts_name s) then snd (TryRegisterIfAbsent (adapter s) r) else r) r schemas"

definition AttachMcpServer :: "json_dumper \<Rightarrow> ('w \<Rightarrow> bool) \<Rightarrow> 'w mcp_client \<Rightarrow> mcp_server_spec \<Rightarrow> string list \<Rightarrow> string list \<Rightarrow>
    'w tool_registry \<Rightarrow> 'w \<Rightarrow> unit status_or \<times> 'w tool_registry \<times> 'w" where
  "AttachMcpServer dump_lenient cancelled client spec include_tools exclude_tools r w =
     (if \<not> tr_has_pool r
      then (Inl (Status FailedPrecondition ''AttachMcpServer requires the io_context-aware ToolRegistry ctor''), r, w)
      else
        (let include_set = (if include_tools = [] then mp_include_tools spec else include_tools);
             exclude_set = (if exclude_tools = [] then mp_exclude_tools spec else exclude_tools);
             lazy = mp_lazy_start spec;
             (connected, w1) = (if lazy then (Inr (), w) else mc_connect client w)
         in case connected of
              Inl s \<Rightarrow> (Inl s, r, w1)
            | Inr _ \<Rightarrow>
               (let (listed, w2) = mc_list_tools client w1 in
                case listed of
                  Inl s \<Rightarrow> (if lazy then (Inr (), r, w2) else (Inl s, r, w2))
                | Inr schemas \<Rightarrow>
                    (Inr (), attach_schemas (\<lambda>s. McpToolAdapter dump_lenient cancelled client s (mp_call_timeout_ms spec))
                               include_set exclude_set schemas r, w2))))"

definition Registry_Invoke :: "'w tool_registry \<Rightarrow> string \<Rightarrow> 'w invocation" where
  "Registry_Invoke r name args_json call_id w = (case map_of (tr_tools r) name of
       None \<Rightarrow> (Inl (AgentflowError (''Tool not found: '' @ name)), w)
     | Some t \<Rightarrow> tl_invoke t args_json call_id w)"

definition SchemaToJson :: "json_parser \<Rightarrow> tool_schema \<Rightarrow> json exn_or" where
  "SchemaToJson parse schema = (case parse (ts_params_json_schema schema) of
       None \<Rightarrow> Inl (OtherException ''parse_error.101'')
     | Some params \<Rightarrow> Inr (jobj [(''type'', JStr ''function''),
         (''function'', jobj [(''name'', JStr (ts_name schema)), (''description'', JStr (ts_description schema)),
            (''parameters'', params)])]))"

definition export_schemas :: "json_parser \<Rightarrow> json_dumper \<Rightarrow> tool_schema list \<Rightarrow> string exn_or" where
  "export_schemas parse dump schemas =
     bind_status (fold_status (\<lambda>arr s. bind_status (SchemaToJson parse s) (\<lambda>j. Inr (arr @ [j]))) [] schemas)
       (\<lambda>arr. Inr (dump (JArr arr)))"

definition Registry_ExportToolsJson :: "json_parser \<Rightarrow> json_dumper \<Rightarrow> 'w tool_registry \<Rightarrow> string list \<Rightarrow> string exn_or" where
  "Registry_ExportToolsJson parse dump r tool_names =
     export_schemas parse dump
       (if tool_names = [] then map (tl_schema \<circ> snd) (tr_tools r)
        else map tl_schema (List.map_filter (map_of (tr_tools r)) tool_names))"

section \<open>Gated tools\<close>

datatype tool_tier = kReadonly | kConfirm | kBlocked

record invocation_ids =
  iv_root_invocation_id :: string
  iv_caller :: string
  iv_delegate_depth :: nat
  iv_session_id :: string

text \<open>\<open>event phase ids tool_name call_id\<close>, when a callback is installed.\<close>

record 'w invocation_context =
  ic_ids :: invocation_ids
  ic_event :: "(string \<Rightarrow> invocation_ids \<Rightarrow> string \<Rightarrow> string \<Rightarrow> 'w \<Rightarrow> 'w) option"

record gate_decision =
  gd_approved :: bool
  gd_reason :: string
  gd_approved_args_json :: string

type_synonym 'w gate = "string \<Rightarrow> string \<Rightarrow> invocation_ids \<Rightarrow> string \<Rightarrow> 'w \<Rightarrow> gate_decision exn_or \<times> 'w"

definition error_json :: "string \<Rightarrow> string" where
  "error_json reason = [CHR 0x7B, CHR 0x22] @ ''error'' @ [CHR 0x22, CHR 0x3A, CHR 0x22] @ reason @ [CHR 0x22, CHR 0x7D]"

definition emit_phase :: "'w invocation_context \<Rightarrow> invocation_ids \<Rightarrow> string \<Rightarrow> string \<Rightarrow> string \<Rightarrow> 'w \<Rightarrow> 'w" where
  "emit_phase context ids name call_id phase w =
     (case ic_event context of Some f \<Rightarrow> f phase ids name call_id w | None \<Rightarrow> w)"

definition run_inner :: "'w tool \<Rightarrow> (string \<Rightarrow> 'w \<Rightarrow> 'w) \<Rightarrow> string \<Rightarrow> string \<Rightarrow> 'w \<Rightarrow> string exn_or \<times> 'w" where
  "run_inner inner emit args call_id w =
     (case tl_invoke inner args call_id w of
        (Inr result, w') \<Rightarrow> (Inr result, emit ''completed'' w')
      | (Inl e, w') \<Rightarrow> (Inl e, emit ''failed'' w'))"

definition decide :: "('w \<Rightarrow> bool) \<Rightarrow> 'w gate \<Rightarrow> 'w tool \<Rightarrow> (string \<Rightarrow> 'w \<Rightarrow> 'w) \<Rightarrow> invocation_ids \<Rightarrow> 'w invocation" where
  "decide cancelled gate inner emit ids args_json call_id w =
     (case gate (tl_name inner) args_json ids call_id w of
        (Inl e, w') \<Rightarrow> (Inl e, emit ''failed'' w')
      | (Inr decision, w') \<Rightarrow>
          if cancelled w' then (Inr (error_json ''cancelled''), emit ''cancelled'' w')
          else if \<not> gd_approved decision
          then (Inr (error_json (if gd_reason decision = [] then ''rejected_by_user'' else gd_reason decision)), emit ''rejected'' w')
          else run_inner inner emit
                 (if gd_approved_args_json decision = [] then args_json else gd_approved_args_json decision) call_id w')"

definition GatedTool_Invoke :: "('w \<Rightarrow> bool) \<Rightarrow> 'w tool \<Rightarrow> tool_tier \<Rightarrow> 'w invocation_context \<Rightarrow> 'w gate option \<Rightarrow> 'w invocation" where
  "GatedTool_Invoke cancelled inner tier context gate args_json call_id w =
     (let ids = (if iv_root_invocation_id (ic_ids context) = [] then (ic_ids context)\<lparr>iv_root_invocation_id := call_id\<rparr>
                 else ic_ids context);
          emit = emit_phase context ids (tl_name inner) call_id;
          w1 = emit ''requested'' w
      in if tier = kBlocked then (Inr (error_json ''tool_not_allowed''), emit ''blocked'' w1)
         else if cancelled w1 then (Inr (error_json ''cancelled''), emit ''cancelled'' w1)
         else case gate of
           Some g \<Rightarrow> if tier = kConfirm then decide cancelled g inner emit ids args_json call_id w1
                     else run_inner inner emit args_json call_id w1
         | None \<Rightarrow> run_inner inner emit args_json call_id w1)"

definition GatedTool :: "('w \<Rightarrow> bool) \<Rightarrow> 'w tool \<Rightarrow> tool_tier \<Rightarrow> 'w invocation_context \<Rightarrow> 'w gate option \<Rightarrow> 'w tool" where
  "GatedTool cancelled inner tier context gate =
     \<lparr>tl_schema = tl_schema inner, tl_invoke = GatedTool_Invoke cancelled inner tier context gate, tl_with_session = None\<rparr>"

section \<open>The view of one invocation\<close>

type_synonym 'w tool_view = "(string \<times> 'w tool) list"

definition with_session :: "string \<Rightarrow> 'w tool \<Rightarrow> 'w tool" where
  "with_session session t = (case tl_with_session t of
       Some f \<Rightarrow> if session = [] then t else t\<lparr>tl_invoke := f session\<rparr>
     | None \<Rightarrow> t)"

definition tier_of :: "(string \<times> tool_tier) list \<Rightarrow> string \<Rightarrow> tool_tier" where
  "tier_of tiers name = (case map_of tiers name of Some t \<Rightarrow> t | None \<Rightarrow> kReadonly)"

definition view_entry :: "('w \<Rightarrow> bool) \<Rightarrow> 'w tool_registry \<Rightarrow> (string \<times> tool_tier) list \<Rightarrow> 'w invocation_context \<Rightarrow>
    'w gate option \<Rightarrow> string \<Rightarrow> 'w tool option" where
  "view_entry cancelled r tiers context gate name = (case Find r name of
       None \<Rightarrow> None
     | Some inner \<Rightarrow>
         if tier_of tiers name = kBlocked then None
         else Some (GatedTool cancelled (with_session (iv_session_id (ic_ids context)) inner) (tier_of tiers name) context gate))"

definition InvocationToolView :: "('w \<Rightarrow> bool) \<Rightarrow> 'w tool_registry \<Rightarrow> string list \<Rightarrow> (string \<times> tool_tier) list \<Rightarrow>
    'w invocation_context \<Rightarrow> 'w gate option \<Rightarrow> 'w tool_view" where
  "InvocationToolView cancelled r declared_tools tiers context gate =
     foldl (\<lambda>view name. case view_entry cancelled r tiers context gate name of
         None \<Rightarrow> view
       | Some t \<Rightarrow> if has_key view name then view else view @ [(name, t)]) [] declared_tools"

definition View_ExportToolsJson :: "json_parser \<Rightarrow> json_dumper \<Rightarrow> 'w tool_view \<Rightarrow> string exn_or" where
  "View_ExportToolsJson parse dump view = export_schemas parse dump (map (tl_schema \<circ> snd) view)"

definition View_Invoke :: "'w tool_view \<Rightarrow> string \<Rightarrow> 'w invocation" where
  "View_Invoke view name args_json call_id w = (case map_of view name of
       None \<Rightarrow> (Inr (error_json ''tool_not_allowed''), w)
     | Some t \<Rightarrow> tl_invoke t args_json call_id w)"

definition View_Has :: "'w tool_view \<Rightarrow> string \<Rightarrow> bool" where
  "View_Has view name = has_key view name"

definition View_Add :: "'w tool option \<Rightarrow> 'w tool_view \<Rightarrow> 'w tool_view" where
  "View_Add t view = (case t of Some tool \<Rightarrow> AList.update (tl_name tool) tool view | None \<Rightarrow> view)"

section \<open>Lookups\<close>

lemma map_of_snoc_new: "\<not> has_key m k \<Longrightarrow> map_of (m @ [(k, v)]) k' = (if k' = k then Some v else map_of m k')"
  by (auto simp: has_key_def map_add_def split: option.splits)

lemma Find_TryRegister:
  "Find (snd (TryRegisterIfAbsent t r)) name =
     (if name = tl_name t \<and> Find r name = None then Some t else Find r name)"
  by (auto simp: TryRegisterIfAbsent_def Find_def map_of_snoc_new has_key_def simp del: map_of_append)

lemma Find_Register: "Find (Register_tool t r) name = (if name = tl_name t then Some t else Find r name)"
  by (simp add: Find_def Register_tool_def)

text \<open>A tool registered before is never replaced by one a server offers.\<close>

lemma attach_keeps: "Find r name = Some t \<Longrightarrow> Find (attach_schemas adapter inc exc schemas r) name = Some t"
  unfolding attach_schemas_def by (induction schemas arbitrary: r) (simp_all add: Find_TryRegister)

lemma attach_offers:
  assumes "Find r name = None" and "\<And>s. tl_name (adapter s) = ts_name s"
  shows "Find (attach_schemas adapter inc exc schemas r) name =
    map_option adapter (find (\<lambda>s. ts_name s = name \<and> passes_filter inc exc name) schemas)"
  using assms(1)
proof (induction schemas arbitrary: r)
  case Nil
  then show ?case by (simp add: attach_schemas_def)
next
  case (Cons s schemas)
  let ?r = "if passes_filter inc exc (ts_name s) then snd (TryRegisterIfAbsent (adapter s) r) else r"
  have step: "attach_schemas adapter inc exc (s # schemas) r = attach_schemas adapter inc exc schemas ?r"
    by (simp add: attach_schemas_def)
  show ?case
  proof (cases "ts_name s = name \<and> passes_filter inc exc name")
    case True
    then have "Find ?r name = Some (adapter s)" using Cons.prems by (simp add: Find_TryRegister assms(2))
    then show ?thesis using True unfolding step by (simp add: attach_keeps)
  next
    case False
    then have "Find ?r name = None" using Cons.prems by (auto simp: Find_TryRegister assms(2))
    then show ?thesis using False unfolding step by (auto simp: Cons.IH)
  qed
qed

lemma view_fold_lookup:
  "map_of (foldl (\<lambda>view name. case view_entry cancelled r tiers context gate name of
       None \<Rightarrow> view | Some t \<Rightarrow> if has_key view name then view else view @ [(name, t)]) view names) n =
     (case map_of view n of
        Some t \<Rightarrow> Some t
      | None \<Rightarrow> if n \<in> set names then view_entry cancelled r tiers context gate n else None)"
proof (induction names arbitrary: view)
  case (Cons name names)
  show ?case
  proof (cases "view_entry cancelled r tiers context gate name")
    case None
    then show ?thesis by (auto simp: Cons.IH split: option.splits)
  next
    case (Some t)
    then show ?thesis
      by (auto simp: Cons.IH map_of_snoc_new has_key_def split: option.splits)
  qed
qed (simp split: option.splits)

lemma view_lookup:
  "map_of (InvocationToolView cancelled r declared tiers context gate) name =
     (if name \<in> set declared then view_entry cancelled r tiers context gate name else None)"
  by (simp add: InvocationToolView_def view_fold_lookup)

section \<open>What a view lets through\<close>

text \<open>The registry with the behaviour of every tool replaced, the schemas kept.\<close>

definition mute_tool :: "'w invocation \<Rightarrow> 'w tool \<Rightarrow> 'w tool" where
  "mute_tool f t = t\<lparr>tl_invoke := f, tl_with_session := map_option (\<lambda>_ _. f) (tl_with_session t)\<rparr>"

definition mute :: "'w invocation \<Rightarrow> 'w tool_registry \<Rightarrow> 'w tool_registry" where
  "mute f r = r\<lparr>tr_tools := map (\<lambda>(n, t). (n, mute_tool f t)) (tr_tools r)\<rparr>"

definition ids_for :: "'w invocation_context \<Rightarrow> string \<Rightarrow> invocation_ids" where
  "ids_for context call_id = (if iv_root_invocation_id (ic_ids context) = []
     then (ic_ids context)\<lparr>iv_root_invocation_id := call_id\<rparr> else ic_ids context)"

text \<open>What the policy asks for before a registered tool may run.\<close>

definition permitted :: "('w \<Rightarrow> bool) \<Rightarrow> 'w tool_registry \<Rightarrow> string list \<Rightarrow> (string \<times> tool_tier) list \<Rightarrow>
    'w invocation_context \<Rightarrow> 'w gate option \<Rightarrow> string \<Rightarrow> string \<Rightarrow> string \<Rightarrow> 'w \<Rightarrow> bool" where
  "permitted cancelled r declared tiers context gate name args call_id w \<longleftrightarrow>
     name \<in> set declared \<and>
     (case Find r name of
        None \<Rightarrow> False
      | Some t \<Rightarrow>
         (let w1 = emit_phase context (ids_for context call_id) (tl_name t) call_id ''requested'' w in
          \<not> cancelled w1 \<and>
          (case tier_of tiers name of
             kBlocked \<Rightarrow> False
           | kReadonly \<Rightarrow> True
           | kConfirm \<Rightarrow> (case gate of
                None \<Rightarrow> True
              | Some g \<Rightarrow> (case g (tl_name t) args (ids_for context call_id) call_id w1 of
                    (Inr d, w2) \<Rightarrow> gd_approved d \<and> \<not> cancelled w2
                  | (Inl _, _) \<Rightarrow> False)))))"

lemma Find_mute: "Find (mute f r) name = map_option (mute_tool f) (Find r name)"
proof -
  have "map_of (map (\<lambda>(n, t). (n, mute_tool f t)) m) name = map_option (mute_tool f) (map_of m name)" for m
    by (induction m) auto
  then show ?thesis by (simp add: Find_def mute_def)
qed

lemma tl_name_simps [simp]: "tl_name (mute_tool f t) = tl_name t" "tl_name (with_session s t) = tl_name t"
  by (simp_all add: tl_name_def mute_tool_def with_session_def split: option.splits)

lemma gated_unpermitted:
  assumes "tl_name a = tl_name b" and "tier_of tiers name = tier"
    and "\<not> permitted cancelled r declared tiers context gate name args call_id w"
    and "name \<in> set declared" and "Find r name = Some t" and "tl_name t = tl_name a"
  shows "GatedTool_Invoke cancelled a tier context gate args call_id w = GatedTool_Invoke cancelled b tier context gate args call_id w"
proof (cases tier)
  case kBlocked
  then show ?thesis using assms(1) by (simp add: GatedTool_Invoke_def Let_def)
next
  case kReadonly
  then show ?thesis using assms by (simp add: GatedTool_Invoke_def Let_def permitted_def ids_for_def)
next
  case kConfirm
  then show ?thesis using assms
    by (cases gate) (auto simp: GatedTool_Invoke_def Let_def permitted_def ids_for_def decide_def split: prod.splits sum.splits)
qed

section \<open>Properties\<close>

text \<open>
  C28. No tool runs against the policy of its invocation: when the name is not declared, not registered or
  blocked, or the token is cancelled, or a confirmation gate fails or does not approve, the outcome of
  \<open>Invoke\<close> on the view is the same whatever the registered tools do.
\<close>

theorem unpermitted_never_runs:
  assumes "\<not> permitted cancelled r declared tiers context gate name args call_id w"
  shows "View_Invoke (InvocationToolView cancelled r declared tiers context gate) name args call_id w =
    View_Invoke (InvocationToolView cancelled (mute f r) declared tiers context gate) name args call_id w"
proof (cases "name \<in> set declared")
  case False
  then show ?thesis by (simp add: View_Invoke_def view_lookup)
next
  case declared: True
  show ?thesis
  proof (cases "Find r name")
    case None
    then show ?thesis by (simp add: View_Invoke_def view_lookup view_entry_def Find_mute)
  next
    case (Some t)
    let ?s = "iv_session_id (ic_ids context)"
    have "GatedTool_Invoke cancelled (with_session ?s t) (tier_of tiers name) context gate args call_id w =
        GatedTool_Invoke cancelled (with_session ?s (mute_tool f t)) (tier_of tiers name) context gate args call_id w"
      by (rule gated_unpermitted[OF _ refl assms declared Some]) simp_all
    then show ?thesis using Some declared
      by (simp add: View_Invoke_def view_lookup view_entry_def Find_mute GatedTool_def)
  qed
qed

text \<open>A world that is the list of what happened in it.\<close>

definition log_tool :: "string \<Rightarrow> string list tool" where
  "log_tool name = NativeFnTool \<lparr>ts_name = name, ts_description = [], ts_params_json_schema = ''{}''\<rparr>
     (\<lambda>args call_id w. (Inr ''done'', w @ [name @ args]))"

definition log_context :: "string list invocation_context" where
  "log_context = \<lparr>ic_ids = \<lparr>iv_root_invocation_id = [], iv_caller = ''main'', iv_delegate_depth = 0, iv_session_id = []\<rparr>,
     ic_event = Some (\<lambda>phase ids name call_id w. w @ [phase])\<rparr>"

definition deny_gate :: "string list gate" where
  "deny_gate name args ids call_id w = (Inr \<lparr>gd_approved = False, gd_reason = [], gd_approved_args_json = []\<rparr>, w @ [''asked''])"

definition log_registry :: "string list tool_registry" where
  "log_registry = Register_tool (log_tool ''write'') (new_tool_registry False)"

theorem unpermitted_never_runs_witness:
  "View_Invoke (InvocationToolView (\<lambda>_. False) log_registry [''write''] [(''write'', kConfirm)] log_context (Some deny_gate))
      ''write'' ''x'' ''c1'' [] =
   View_Invoke (InvocationToolView (\<lambda>_. False) (mute (\<lambda>_ _ _. (Inl NonStdException, [''ran''])) log_registry) [''write'']
      [(''write'', kConfirm)] log_context (Some deny_gate)) ''write'' ''x'' ''c1'' [] \<and>
   snd (View_Invoke (InvocationToolView (\<lambda>_. False) log_registry [''write''] [(''write'', kConfirm)] log_context (Some deny_gate))
      ''write'' ''x'' ''c1'' []) = [''requested'', ''asked'', ''rejected'']"
proof
  show "snd (View_Invoke (InvocationToolView (\<lambda>_. False) log_registry [''write''] [(''write'', kConfirm)] log_context (Some deny_gate))
      ''write'' ''x'' ''c1'' []) = [''requested'', ''asked'', ''rejected'']" by code_simp
  have "\<not> permitted (\<lambda>_. False) log_registry [''write''] [(''write'', kConfirm)] log_context (Some deny_gate) ''write'' ''x'' ''c1'' []"
    by code_simp
  then show "View_Invoke (InvocationToolView (\<lambda>_. False) log_registry [''write''] [(''write'', kConfirm)] log_context (Some deny_gate))
      ''write'' ''x'' ''c1'' [] =
   View_Invoke (InvocationToolView (\<lambda>_. False) (mute (\<lambda>_ _ _. (Inl NonStdException, [''ran''])) log_registry) [''write'']
      [(''write'', kConfirm)] log_context (Some deny_gate)) ''write'' ''x'' ''c1'' []"
    by (rule unpermitted_never_runs)
qed

end
