(* ===== verification/Canonical_Message.thy ===== *)
theory Canonical_Message
  imports Message_Map
begin

text \<open>
  Canonical assistant messages on the device side: \<open>agentflow/inference/canonical_message.{h,cc}\<close> and the special
  tokens they are cleaned of, \<open>agentflow/inference/special_token_probe.{h,cc}\<close>. The tokenizer is a pair of
  arguments.
\<close>

section \<open>Text of a message\<close>

definition ExtractAssistantText :: "json_parser \<Rightarrow> string \<Rightarrow> string" where
  "ExtractAssistantText parse canonical = (case parse canonical of
       None \<Rightarrow> []
     | Some resp \<Rightarrow> (case jarray resp ''content'' of
           None \<Rightarrow> []
         | Some items \<Rightarrow> concat (map item_text items)))"

section \<open>Special tokens\<close>

definition JsonEscape :: "string \<Rightarrow> string" where
  "JsonEscape raw = concat (map (\<lambda>c. if c = CHR 0x22 \<or> c = CHR 0x5C then [CHR 0x5C, c] else [c]) raw)"

text \<open>The \<open>find\<close>/\<open>erase\<close> loop resumes where it erased, so what lies before that place is final.\<close>

function strip_needle :: "string \<Rightarrow> string \<Rightarrow> string" where
  "strip_needle needle out =
     (if needle = [] then out
      else case find_sub needle out of
        None \<Rightarrow> out
      | Some pos \<Rightarrow> take pos out @ strip_needle needle (drop (pos + length needle) out))"
  by pat_completeness auto
termination
proof (relation "measure (\<lambda>(needle, out). length out)", goal_cases)
  case (2 needle out pos)
  then have "pos + length needle \<le> length out" using find_sub_Some_le by blast
  then show ?case using 2 by (cases needle) auto
qed simp

declare strip_needle.simps [simp del]

definition DecodeSpecialTokens :: "string \<Rightarrow> string list \<Rightarrow> string" where
  "DecodeSpecialTokens response_json tokens =
     (if tokens = [] then response_json
      else foldl (\<lambda>out needle. strip_needle needle out) response_json
             (filter (\<lambda>n. n \<noteq> []) (map JsonEscape tokens)))"

datatype model_family = kUnknown | kGemma | kQwen

record tokenizer_probe =
  tokenize :: "string \<Rightarrow> int list option"
  detokenize :: "int list \<Rightarrow> string option"

definition kGemmaCandidates :: "string list" where
  "kGemmaCandidates = [''<escape>'', ''<start_of_turn>'', ''<end_of_turn>'',
     ''<start_function_call>'', ''<end_function_call>'', ''<start_function_declaration>'', ''<end_function_declaration>'',
     ''<start_function_response>'', ''<end_function_response>'', ''<start_of_image>'', ''<end_of_image>'',
     ''<start_of_audio>'', ''<end_of_audio>'']"

definition kQwenCandidates :: "string list" where
  "kQwenCandidates = [''<|im_start|>'', ''<|im_end|>'', ''<tool_call>'', ''</tool_call>'']"

definition TokenizesToSingleId :: "tokenizer_probe \<Rightarrow> string \<Rightarrow> int option" where
  "TokenizesToSingleId probe txt = (case tokenize probe txt of Some [i] \<Rightarrow> Some i | _ \<Rightarrow> None)"

definition ResolveCandidate :: "tokenizer_probe \<Rightarrow> string \<Rightarrow> string option" where
  "ResolveCandidate probe candidate = (case TokenizesToSingleId probe candidate of
       None \<Rightarrow> None
     | Some i \<Rightarrow> (case detokenize probe [i] of
           Some txt \<Rightarrow> if txt = [] then None else Some txt
         | None \<Rightarrow> None))"

definition AddIfNew :: "string list \<Rightarrow> string \<Rightarrow> string list" where
  "AddIfNew tokens txt = (if txt \<in> set tokens then tokens else tokens @ [txt])"

definition probe_candidates :: "tokenizer_probe \<Rightarrow> string list \<Rightarrow> string list" where
  "probe_candidates probe candidates =
     foldl (\<lambda>tokens c. case ResolveCandidate probe c of Some t \<Rightarrow> AddIfNew tokens t | None \<Rightarrow> tokens) [] candidates"

definition ProbeModelSpecialTokens :: "tokenizer_probe \<Rightarrow> string list" where
  "ProbeModelSpecialTokens probe =
     (if detokenize probe [1] = Some ''<start_of_turn>'' then probe_candidates probe kGemmaCandidates
      else if TokenizesToSingleId probe ''<|im_start|>'' \<noteq> None then probe_candidates probe kQwenCandidates
      else [])"

fun FamilySpecialTokens :: "model_family \<Rightarrow> string list" where
  "FamilySpecialTokens kGemma = [[CHR 0x3C, CHR 0x7C, CHR 0x22, CHR 0x7C, CHR 0x3E],
     ''<|tool_call>'', ''</tool_call>'', ''<tool_call|>'', ''<|tool_call_ignore>'',
     ''<|tool_response>'', ''</tool_response>'', ''<tool_response|>'',
     ''<|image>'', ''<image|>'', ''<|audio>'', ''<audio|>'',
     ''<start_of_turn>'', ''<end_of_turn>'', ''<start_function_call>'', ''<end_function_call>'',
     ''<start_function_declaration>'', ''<end_function_declaration>'',
     ''<start_function_response>'', ''<end_function_response>'',
     ''<start_of_image>'', ''<end_of_image>'', ''<start_of_audio>'', ''<end_of_audio>'']"
| "FamilySpecialTokens kQwen = [''<|im_start|>'', ''<|im_end|>'', ''<tool_call>'', ''</tool_call>'']"
| "FamilySpecialTokens kUnknown = []"

definition ResolveSpecialTokens :: "tokenizer_probe option \<Rightarrow> model_family \<Rightarrow> string list" where
  "ResolveSpecialTokens probe declared_family =
     (case probe of
        Some p \<Rightarrow> (let probed = ProbeModelSpecialTokens p in
                   if probed \<noteq> [] then probed else FamilySpecialTokens declared_family)
      | None \<Rightarrow> FamilySpecialTokens declared_family)"

section \<open>Assembling device streams\<close>

record assembler =
  as_deltas :: "string list"
  as_text :: string
  as_tool_call_json :: string

definition new_assembler :: assembler where
  "new_assembler = \<lparr>as_deltas = [], as_text = [], as_tool_call_json = []\<rparr>"

definition add_delta :: "string \<Rightarrow> assembler \<Rightarrow> assembler" where
  "add_delta d a = a\<lparr>as_deltas := as_deltas a @ [d], as_text := as_text a @ d\<rparr>"

definition Assembler_Feed :: "json_parser \<Rightarrow> json_dumper \<Rightarrow> assembler \<Rightarrow> string \<Rightarrow> assembler" where
  "Assembler_Feed parse dump a chunk =
     (if chunk = [] then a
      else case parse chunk of
        None \<Rightarrow> add_delta chunk a
      | Some cj \<Rightarrow>
         (case jarray cj ''tool_calls'' of
            Some (_ # _) \<Rightarrow> a\<lparr>as_tool_call_json := dump cj\<rparr>
          | _ \<Rightarrow> (let delta = ExtractAssistantText parse chunk in if delta = [] then a else add_delta delta a)))"

definition Assembler_Canonical :: "json_dumper \<Rightarrow> assembler \<Rightarrow> string" where
  "Assembler_Canonical dump a =
     (if as_tool_call_json a \<noteq> [] then as_tool_call_json a
      else dump (jobj [(''role'', JStr ''assistant''), (''content'', JArr [text_item (as_text a)])]))"

section \<open>Facts\<close>

lemma Assembler_Feed_text:
  "as_text a = concat (as_deltas a) \<Longrightarrow> as_text (Assembler_Feed parse dump a chunk) = concat (as_deltas (Assembler_Feed parse dump a chunk))"
  by (auto simp: Assembler_Feed_def add_delta_def Let_def split: option.splits list.splits)

lemma assembled_text:
  "as_text (foldl (Assembler_Feed parse dump) new_assembler chunks) = concat (as_deltas (foldl (Assembler_Feed parse dump) new_assembler chunks))"
proof -
  have "as_text a = concat (as_deltas a) \<Longrightarrow>
      as_text (foldl (Assembler_Feed parse dump) a chunks) = concat (as_deltas (foldl (Assembler_Feed parse dump) a chunks))" for a
    by (induction chunks arbitrary: a) (simp_all add: Assembler_Feed_text)
  then show ?thesis by (simp add: new_assembler_def)
qed

lemma ResolveCandidate_Some:
  "ResolveCandidate probe c = Some t \<Longrightarrow> t \<noteq> [] \<and> (\<exists>i. tokenize probe c = Some [i] \<and> detokenize probe [i] = Some t)"
  by (auto simp: ResolveCandidate_def TokenizesToSingleId_def split: option.splits list.splits if_splits)

lemma probe_fold_source:
  "t \<in> set (foldl (\<lambda>tokens c. case ResolveCandidate probe c of Some t \<Rightarrow> AddIfNew tokens t | None \<Rightarrow> tokens) ts candidates) \<Longrightarrow>
   t \<in> set ts \<or> (\<exists>c\<in>set candidates. ResolveCandidate probe c = Some t)"
proof (induction candidates arbitrary: ts)
  case (Cons c candidates)
  show ?case
  proof (cases "ResolveCandidate probe c")
    case None
    then show ?thesis using Cons by simp
  next
    case (Some u)
    then show ?thesis using Cons.IH[of "AddIfNew ts u"] Cons.prems by (auto simp: AddIfNew_def split: if_splits)
  qed
qed simp

lemma probe_candidates_verified:
  "t \<in> set (probe_candidates probe candidates) \<Longrightarrow>
   t \<noteq> [] \<and> (\<exists>c\<in>set candidates. \<exists>i. tokenize probe c = Some [i] \<and> detokenize probe [i] = Some t)"
  unfolding probe_candidates_def using ResolveCandidate_Some probe_fold_source[of t probe "[]" candidates] by fastforce

text \<open>Removing a token can join the pieces of another one, so decoding once more may still change the text.\<close>

lemma decode_not_idempotent:
  "DecodeSpecialTokens ''<|im_<tool_call>end|>'' (FamilySpecialTokens kQwen) = ''<|im_end|>''"
  "DecodeSpecialTokens ''<|im_end|>'' (FamilySpecialTokens kQwen) = []"
  by code_simp+

end
