(* ===== verification/Skill_Utf8.thy ===== *)
theory Skill_Utf8
  imports Prelude
begin

text \<open>
  \<open>agentflow/skills/skill_utf8.cc\<close>, the strict UTF-8 validator of the skill files, and the encoding it is measured
  against. Code points stay below \<open>2^21\<close>, so the \<open>unsigned int\<close> arithmetic of the source is arithmetic on \<^typ>\<open>nat\<close>.
\<close>

unbundle bit_operations_syntax

section \<open>The validator\<close>

text \<open>Trailing bytes, first bits and least code point announced by a lead byte.\<close>

definition lead_info :: "nat \<Rightarrow> (nat \<times> nat \<times> nat) option" where
  "lead_info lead =
     (if 0xC2 \<le> lead \<and> lead \<le> 0xDF then Some (1, lead AND 0x1F, 0x80)
      else if 0xE0 \<le> lead \<and> lead \<le> 0xEF then Some (2, lead AND 0x0F, 0x800)
      else if 0xF0 \<le> lead \<and> lead \<le> 0xF4 then Some (3, lead AND 0x07, 0x10000)
      else None)"

fun trailing_point :: "nat \<Rightarrow> string \<Rightarrow> nat option" where
  "trailing_point point [] = Some point"
| "trailing_point point (c # cs) =
     (if byte_val c AND 0xC0 \<noteq> 0x80 then None
      else trailing_point (push_bit 6 point OR (byte_val c AND 0x3F)) cs)"

definition bad_point :: "nat \<Rightarrow> nat \<Rightarrow> bool" where
  "bad_point minimum point \<longleftrightarrow> point < minimum \<or> point > 0x10FFFF \<or> (0xD800 \<le> point \<and> point \<le> 0xDFFF)"

function IsValidUtf8 :: "string \<Rightarrow> bool" where
  "IsValidUtf8 [] = True"
| "IsValidUtf8 (c # rest) =
     (if byte_val c < 0x80 then IsValidUtf8 rest
      else case lead_info (byte_val c) of
        None \<Rightarrow> False
      | Some (trailing, point, minimum) \<Rightarrow>
          if trailing > length rest then False
          else (case trailing_point point (take trailing rest) of
             None \<Rightarrow> False
           | Some p \<Rightarrow> if bad_point minimum p then False else IsValidUtf8 (drop trailing rest)))"
  by pat_completeness auto
termination
  by (relation "measure length") auto

declare IsValidUtf8.simps(2) [simp del]

section \<open>The encoding\<close>

text \<open>Unicode scalar values and their bytes, RFC 3629.\<close>

definition scalar_value :: "nat \<Rightarrow> bool" where
  "scalar_value n \<longleftrightarrow> n \<le> 0x10FFFF \<and> \<not> (0xD800 \<le> n \<and> n \<le> 0xDFFF)"

definition utf8_bytes :: "nat \<Rightarrow> nat list" where
  "utf8_bytes n =
     (if n < 0x80 then [n]
      else if n < 0x800 then [0xC0 + n div 64, 0x80 + n mod 64]
      else if n < 0x10000 then [0xE0 + n div 4096, 0x80 + n div 64 mod 64, 0x80 + n mod 64]
      else [0xF0 + n div 262144, 0x80 + n div 4096 mod 64, 0x80 + n div 64 mod 64, 0x80 + n mod 64])"

definition utf8_encode :: "nat \<Rightarrow> string" where
  "utf8_encode n = map char_of (utf8_bytes n)"

section \<open>Bytes and bits\<close>

lemma nat_and_mask: "(n::nat) AND 0x3F = n mod 64" "n AND 0x1F = n mod 32" "n AND 0x0F = n mod 16" "n AND 0x07 = n mod 8"
proof -
  have "mask 6 = (0x3F :: nat)" "mask 5 = (0x1F :: nat)" "mask 4 = (0x0F :: nat)" "mask 3 = (0x07 :: nat)"
    by (simp_all add: mask_eq_exp_minus_1)
  then show "n AND 0x3F = n mod 64" "n AND 0x1F = n mod 32" "n AND 0x0F = n mod 16" "n AND 0x07 = n mod 8"
    using take_bit_eq_mask[of 6 n] take_bit_eq_mask[of 5 n] take_bit_eq_mask[of 4 n] take_bit_eq_mask[of 3 n]
    by (simp_all add: take_bit_eq_mod)
qed

lemma shift_or: "push_bit 6 p OR ((b::nat) mod 64) = p * 64 + b mod 64"
proof -
  have "push_bit 6 p AND take_bit 6 b = 0"
    by (auto simp: bit_eq_iff bit_simps)
  then have "push_bit 6 p + take_bit 6 b = push_bit 6 p OR take_bit 6 b" by (rule disjunctive_add_eq_or)
  then show ?thesis by (simp add: take_bit_eq_mod push_bit_eq_mult)
qed

lemma continuation_byte: "(byte_val c AND 0xC0 = 0x80) \<longleftrightarrow> byte_val c div 64 = 2"
proof -
  have "\<forall>b\<in>set [0..<256]. (b AND 0xC0 = (0x80::nat)) \<longleftrightarrow> b div 64 = 2" by code_simp
  then show ?thesis using byte_val_less[of c] by simp
qed

lemma trailing_point_Cons:
  "trailing_point p (c # cs) = (if byte_val c div 64 = 2 then trailing_point (p * 64 + byte_val c mod 64) cs else None)"
  by (simp add: continuation_byte nat_and_mask shift_or)

declare trailing_point.simps(2) [simp del]

lemma char_of_byte_val [simp]: "char_of (byte_val c) = c"
  by (simp add: byte_val_def)

lemma byte_val_char_of: "n < 256 \<Longrightarrow> byte_val (char_of n) = n"
  by (simp add: byte_val_def)

section \<open>One code point\<close>

lemma encode_2: "0x80 \<le> n \<Longrightarrow> n < 0x800 \<Longrightarrow> utf8_encode n = [char_of (0xC0 + n div 64), char_of (0x80 + n mod 64)]"
  by (simp add: utf8_encode_def utf8_bytes_def)

lemma encode_3: "0x800 \<le> n \<Longrightarrow> n < 0x10000 \<Longrightarrow>
    utf8_encode n = [char_of (0xE0 + n div 4096), char_of (0x80 + n div 64 mod 64), char_of (0x80 + n mod 64)]"
  by (simp add: utf8_encode_def utf8_bytes_def)

lemma encode_4: "0x10000 \<le> n \<Longrightarrow>
    utf8_encode n = [char_of (0xF0 + n div 262144), char_of (0x80 + n div 4096 mod 64), char_of (0x80 + n div 64 mod 64), char_of (0x80 + n mod 64)]"
  by (simp add: utf8_encode_def utf8_bytes_def)

lemma tail_byte: "(0x80 + m mod 64) div 64 = (2::nat)" "(0x80 + m mod 64) mod 64 = (m mod 64 :: nat)" "0x80 + m mod 64 < (256::nat)"
proof -
  have "m mod 64 < 64" by simp
  then show "(0x80 + m mod 64) div 64 = (2::nat)" "0x80 + m mod 64 < (256::nat)" by linarith+
  show "(0x80 + m mod 64) mod 64 = (m mod 64 :: nat)" using mod_mult_self1[of "m mod 64" 2 64] by (simp add: add.commute)
qed

lemma lead_mod: "q < 32 \<Longrightarrow> (0xC0 + q) mod 32 = (q::nat)" "q < 16 \<Longrightarrow> (0xE0 + q) mod 16 = q" "q < 8 \<Longrightarrow> (0xF0 + q) mod 8 = q"
  using mod_mult_self1[of q 6 32] mod_mult_self1[of q 14 16] mod_mult_self1[of q 30 8] by (simp_all add: add.commute)

lemma lead_split:
  "0xC0 \<le> b \<Longrightarrow> b \<le> 0xDF \<Longrightarrow> b = 0xC0 + b mod (32::nat)"
  "0xE0 \<le> b \<Longrightarrow> b \<le> 0xEF \<Longrightarrow> b = 0xE0 + b mod 16"
  "0xF0 \<le> b \<Longrightarrow> b \<le> 0xF4 \<Longrightarrow> b = 0xF0 + b mod 8"
  using lead_mod(1)[of "b - 0xC0"] lead_mod(2)[of "b - 0xE0"] lead_mod(3)[of "b - 0xF0"] by simp_all

text \<open>The digits of a number to the base 64.\<close>

lemma div_4096: "(n::nat) div 4096 = n div 64 div 64" "n div 262144 = n div 64 div 64 div 64"
  using div_mult2_eq[of n 64 64] div_mult2_eq[of n 4096 64] by simp_all

lemma digit: "(x * 64 + y mod 64) div 64 = (x::nat)" "(x * 64 + y mod 64) mod 64 = y mod 64"
  by simp_all

lemma digits_join: "(n div 4096 * 64 + n div 64 mod 64) * 64 + n mod 64 = (n::nat)"
    "((n div 262144 * 64 + n div 4096 mod 64) * 64 + n div 64 mod 64) * 64 + n mod 64 = n"
  by (simp_all add: div_4096)

lemma valid_encode:
  assumes "scalar_value n"
  shows "IsValidUtf8 (utf8_encode n @ s) = IsValidUtf8 s"
proof -
  note simps = IsValidUtf8.simps(2) lead_info_def byte_val_char_of nat_and_mask bad_point_def
  note point = trailing_point_Cons byte_val_char_of tail_byte
  consider "n < 0x80" | "0x80 \<le> n" "n < 0x800" | "0x800 \<le> n" "n < 0x10000" | "0x10000 \<le> n" by linarith
  then show ?thesis
  proof cases
    case 1
    then show ?thesis by (simp add: utf8_encode_def utf8_bytes_def IsValidUtf8.simps(2) byte_val_char_of)
  next
    case 2
    let ?l = "0xC0 + n div 64"
    have l: "0xC2 \<le> ?l" "?l \<le> 0xDF" using 2 by linarith+
    then have "?l mod 32 = n div 64" by (intro lead_mod) simp
    moreover have "trailing_point (n div 64) [char_of (0x80 + n mod 64)] = Some n" by (simp add: point)
    ultimately show ?thesis using 2 l assms by (simp add: simps encode_2 scalar_value_def)
  next
    case 3
    let ?l = "0xE0 + n div 4096"
    have l: "0xE0 \<le> ?l" "?l \<le> 0xEF" using 3 by linarith+
    then have "?l mod 16 = n div 4096" by (intro lead_mod) simp
    moreover have "trailing_point (n div 4096) [char_of (0x80 + n div 64 mod 64), char_of (0x80 + n mod 64)] =
        Some ((n div 4096 * 64 + n div 64 mod 64) * 64 + n mod 64)" by (simp add: point)
    ultimately show ?thesis using 3 l assms unfolding digits_join by (auto simp: simps encode_3 scalar_value_def)
  next
    case 4
    let ?l = "0xF0 + n div 262144"
    have l: "0xF0 \<le> ?l" "?l \<le> 0xF4" using assms by (auto simp: scalar_value_def)
    then have "?l mod 8 = n div 262144" by (intro lead_mod) simp
    moreover have "trailing_point (n div 262144) [char_of (0x80 + n div 4096 mod 64), char_of (0x80 + n div 64 mod 64), char_of (0x80 + n mod 64)] =
        Some (((n div 262144 * 64 + n div 4096 mod 64) * 64 + n div 64 mod 64) * 64 + n mod 64)" by (simp add: point)
    ultimately show ?thesis using 4 l assms unfolding digits_join by (auto simp: simps encode_4 scalar_value_def)
  qed
qed

lemma decode_lead:
  assumes "IsValidUtf8 (c # rest)" and "\<not> byte_val c < 0x80"
  obtains trailing point minimum p where "lead_info (byte_val c) = Some (trailing, point, minimum)" and "trailing \<le> length rest"
    and "trailing_point point (take trailing rest) = Some p" and "\<not> bad_point minimum p" and "IsValidUtf8 (drop trailing rest)"
  using assms by (auto simp: IsValidUtf8.simps(2) not_less split: option.splits if_splits)

lemma tail_join: "b div 64 = 2 \<Longrightarrow> 0x80 + b mod 64 = (b::nat)"
  using div_mult_mod_eq[of b 64] by simp

lemma decode_encode:
  assumes "lead_info (byte_val c) = Some (trailing, point, minimum)" and "trailing_point point cs = Some p"
    and "length cs = trailing" and "\<not> bad_point minimum p"
  shows "utf8_encode p = c # cs"
proof -
  let ?b = byte_val
  consider "0xC2 \<le> ?b c" "?b c \<le> 0xDF" "trailing = 1" "point = ?b c mod 32" "minimum = 0x80"
    | "0xE0 \<le> ?b c" "?b c \<le> 0xEF" "trailing = 2" "point = ?b c mod 16" "minimum = 0x800"
    | "0xF0 \<le> ?b c" "?b c \<le> 0xF4" "trailing = 3" "point = ?b c mod 8" "minimum = 0x10000"
    using assms(1) by (auto simp: lead_info_def nat_and_mask split: if_splits)
  then show ?thesis
  proof cases
    case 1
    have "length cs = Suc 0" using assms(3) 1(3) by simp
    then obtain d where cs: "cs = [d]" by (auto simp: length_Suc_conv)
    then have d: "?b d div 64 = 2" "p = point * 64 + ?b d mod 64"
      using assms(2) by (auto simp: trailing_point_Cons split: if_splits)
    have "0xC0 + point = ?b c" using 1 lead_split(1)[of "?b c"] by simp
    moreover have "0x80 \<le> p" "p < 0x800" using 1 assms(4) d by (auto simp: bad_point_def)
    moreover have "p div 64 = point" "p mod 64 = ?b d mod 64" using d(2) by simp_all
    ultimately show ?thesis by (simp add: encode_2 cs tail_join[OF d(1)])
  next
    case 2
    have "length cs = Suc (Suc 0)" using assms(3) 2(3) by simp
    then obtain d e where cs: "cs = [d, e]" by (auto simp: length_Suc_conv)
    then have d: "?b d div 64 = 2" "?b e div 64 = 2" "p = (point * 64 + ?b d mod 64) * 64 + ?b e mod 64"
      using assms(2) by (auto simp: trailing_point_Cons split: if_splits)
    have "0xE0 + point = ?b c" using 2 lead_split(2)[of "?b c"] by simp
    moreover have "0x800 \<le> p" "p < 0x10000" using 2 assms(4) d by (auto simp: bad_point_def)
    moreover have "p div 4096 = point" "p div 64 mod 64 = ?b d mod 64" "p mod 64 = ?b e mod 64"
      by (simp_all only: d(3) div_4096 digit)
    ultimately show ?thesis by (simp add: encode_3 cs tail_join[OF d(1)] tail_join[OF d(2)])
  next
    case 3
    have "length cs = Suc (Suc (Suc 0))" using assms(3) 3(3) by simp
    then obtain d e f where cs: "cs = [d, e, f]" by (auto simp: length_Suc_conv)
    then have d: "?b d div 64 = 2" "?b e div 64 = 2" "?b f div 64 = 2"
        "p = ((point * 64 + ?b d mod 64) * 64 + ?b e mod 64) * 64 + ?b f mod 64"
      using assms(2) by (auto simp: trailing_point_Cons split: if_splits)
    have "0xF0 + point = ?b c" using 3 lead_split(3)[of "?b c"] by simp
    moreover have "0x10000 \<le> p" using 3 assms(4) by (auto simp: bad_point_def)
    moreover have "p div 262144 = point" "p div 4096 mod 64 = ?b d mod 64" "p div 64 mod 64 = ?b e mod 64" "p mod 64 = ?b f mod 64"
      by (simp_all only: d(4) div_4096 digit)
    ultimately show ?thesis by (simp add: encode_4 cs tail_join[OF d(1)] tail_join[OF d(2)] tail_join[OF d(3)])
  qed
qed

lemma valid_decode:
  assumes "IsValidUtf8 (c # rest)"
  shows "\<exists>n k. scalar_value n \<and> c # rest = utf8_encode n @ drop k rest \<and> IsValidUtf8 (drop k rest)"
proof (cases "byte_val c < 0x80")
  case True
  then have "utf8_encode (byte_val c) = [c]" by (simp add: utf8_encode_def utf8_bytes_def)
  moreover have "IsValidUtf8 rest" using assms True by (simp add: IsValidUtf8.simps(2))
  ultimately show ?thesis using True by (intro exI[of _ "byte_val c"] exI[of _ 0]) (simp add: scalar_value_def)
next
  case False
  from decode_lead[OF assms False] obtain k point minimum p where d: "lead_info (byte_val c) = Some (k, point, minimum)" "k \<le> length rest"
      "trailing_point point (take k rest) = Some p" "\<not> bad_point minimum p" "IsValidUtf8 (drop k rest)" .
  have "utf8_encode p = c # take k rest" using decode_encode[OF d(1,3) _ d(4)] d(2) by simp
  then show ?thesis using d(4,5) by (intro exI[of _ p] exI[of _ k]) (auto simp: scalar_value_def bad_point_def)
qed

section \<open>Whole strings\<close>

lemma valid_sound: "IsValidUtf8 s \<Longrightarrow> \<exists>ns. list_all scalar_value ns \<and> s = concat (map utf8_encode ns)"
proof (induction "length s" arbitrary: s rule: less_induct)
  case less
  show ?case
  proof (cases s)
    case Nil
    then show ?thesis by (intro exI[of _ "[]"]) simp
  next
    case (Cons c rest)
    from valid_decode[OF less.prems[unfolded Cons]] obtain n k
      where n: "scalar_value n" "c # rest = utf8_encode n @ drop k rest" "IsValidUtf8 (drop k rest)" by blast
    moreover obtain ns where "list_all scalar_value ns" "drop k rest = concat (map utf8_encode ns)"
      using less.hyps[of "drop k rest", OF _ n(3)] Cons by (auto simp: less_Suc_eq_le)
    ultimately show ?thesis using Cons by (intro exI[of _ "n # ns"]) simp
  qed
qed

lemma valid_complete: "list_all scalar_value ns \<Longrightarrow> IsValidUtf8 (concat (map utf8_encode ns))"
  by (induction ns) (simp_all add: valid_encode)

lemma valid_iff: "IsValidUtf8 s \<longleftrightarrow> (\<exists>ns. list_all scalar_value ns \<and> s = concat (map utf8_encode ns))"
  using valid_sound valid_complete by blast

end
