(* ===== verification/Agent_Node.thy ===== *)
theory Agent_Node
  imports Tools Canonical_Message Graph_State Message_Props Skill_Utf8
begin

text \<open>
  The nodes that talk to a model: \<open>agentflow/nodes/agent_node.{h,cc}\<close> with its tool loop, \<open>llm_node\<close>, \<open>router_node\<close>
  and \<open>aggregator_node\<close>. A conversation is seen through \<open>ae_send\<close>; concurrent tool calls run in an order the
  executor chooses (\<open>ae_order\<close>), one after the other between suspension points, each writing its own result slot.
\<close>

record 'w agent_env =
  ae_parse :: json_parser
  ae_dump :: json_dumper
  ae_dump_lenient :: json_dumper
  ae_cancelled :: "'w \<Rightarrow> bool"
  ae_create :: "string \<Rightarrow> string \<Rightarrow> 'w \<Rightarrow> bool \<times> 'w"
  ae_describe :: string
  ae_send :: "string \<Rightarrow> 'w \<Rightarrow> string status_or exn_or \<times> 'w"
  ae_tool_call :: "string \<Rightarrow> string \<Rightarrow> string \<Rightarrow> 'w \<Rightarrow> 'w"
  ae_tool_return :: "string \<Rightarrow> string \<Rightarrow> string \<Rightarrow> 'w \<Rightarrow> 'w"
  ae_order :: "nat \<Rightarrow> nat \<Rightarrow> nat list"

record 'w agent_config =
  ac_configured :: bool
  ac_system_prompt :: string
  ac_registry :: "'w tool_registry option"
  ac_view :: "'w tool_view option"
  ac_max_iter :: int
  ac_input_field :: string
  ac_output_field :: string
  ac_tool_names :: "string list"
  ac_extra_tools :: "'w tool option list"

section \<open>Requests\<close>

definition BuildSystemMessageJson :: "json_dumper \<Rightarrow> string \<Rightarrow> string" where
  "BuildSystemMessageJson dump system_prompt = (if system_prompt = [] then [] else dump (JArr [text_item system_prompt]))"

definition parse_or_throw :: "json_parser \<Rightarrow> string \<Rightarrow> json exn_or" where
  "parse_or_throw parse s = (case parse s of Some j \<Rightarrow> Inr j | None \<Rightarrow> Inl (OtherException ''parse_error.101''))"

text \<open>\<open>arr.push_back(entry)\<close>: null becomes an array, any other non-array throws.\<close>

definition push_back :: "json \<Rightarrow> json \<Rightarrow> json exn_or" where
  "push_back arr v = (case arr of
       JArr xs \<Rightarrow> Inr (JArr (xs @ [v]))
     | JNull \<Rightarrow> Inr (JArr [v])
     | _ \<Rightarrow> Inl (OtherException ''type_error.308''))"

definition BuildToolsJson :: "'w agent_env \<Rightarrow> 'w agent_config \<Rightarrow> string exn_or" where
  "BuildToolsJson env cfg =
     (if ac_registry cfg = None \<and> ac_view cfg = None \<and> ac_extra_tools cfg = [] then Inr ''[]''
      else bind_status
        (case ac_view cfg of
           Some view \<Rightarrow> bind_status (View_ExportToolsJson (ae_parse env) (ae_dump env) view) (parse_or_throw (ae_parse env))
         | None \<Rightarrow> (case ac_registry cfg of
               Some r \<Rightarrow> bind_status (Registry_ExportToolsJson (ae_parse env) (ae_dump env) r (ac_tool_names cfg))
                           (parse_or_throw (ae_parse env))
             | None \<Rightarrow> Inr (JArr [])))
        (\<lambda>arr. bind_status
          (fold_status (\<lambda>arr t. case t of
              None \<Rightarrow> Inr arr
            | Some tool \<Rightarrow> bind_status (SchemaToJson (ae_parse env) (tl_schema tool)) (push_back arr))
            arr (ac_extra_tools cfg))
          (\<lambda>arr'. Inr (ae_dump env arr'))))"

definition BuildUserMessageJson :: "json_dumper \<Rightarrow> string \<Rightarrow> string" where
  "BuildUserMessageJson dump user_text =
     dump (jobj [(''role'', JStr ''user''), (''content'', JArr [text_item user_text])])"

section \<open>Tool calls\<close>

record agent_call =
  cl_name :: string
  cl_call_id :: string
  cl_args :: string

definition text_or_dump :: "json_dumper \<Rightarrow> json \<Rightarrow> string" where
  "text_or_dump dump v = (case v of JStr s \<Rightarrow> s | _ \<Rightarrow> dump v)"

definition normalize_call :: "json_dumper \<Rightarrow> json \<Rightarrow> agent_call" where
  "normalize_call dump tc = \<lparr>
     cl_name = (case jstring tc ''name'' of
         Some n \<Rightarrow> n
       | None \<Rightarrow> (case jobject tc ''function'' of
             Some fn \<Rightarrow> (case jstring fn ''name'' of Some n \<Rightarrow> n | None \<Rightarrow> [])
           | None \<Rightarrow> [])),
     cl_call_id = (case jstring tc ''id'' of Some i \<Rightarrow> i | None \<Rightarrow> []),
     cl_args = (case jfind tc ''arguments'' of
         Some a \<Rightarrow> text_or_dump dump a
       | None \<Rightarrow> (case jfind tc ''function'' of
             Some fn \<Rightarrow> (case jfind fn ''arguments'' of Some a \<Rightarrow> text_or_dump dump a | None \<Rightarrow> [])
           | None \<Rightarrow> []))\<rparr>"

definition normalize_calls :: "json_dumper \<Rightarrow> json list \<Rightarrow> agent_call list" where
  "normalize_calls dump tcs = map (normalize_call dump) (filter is_object tcs)"

definition tool_error_text :: "string exn_or \<Rightarrow> string exn_or" where
  "tool_error_text r = (case r of
       Inr v \<Rightarrow> Inr v
     | Inl e \<Rightarrow> (case exn_what e of Some m \<Rightarrow> Inr (''Tool error: '' @ m) | None \<Rightarrow> Inl e))"

definition emitted_call :: "'w agent_env \<Rightarrow> 'w invocation \<Rightarrow> agent_call \<Rightarrow> 'w \<Rightarrow> string exn_or \<times> 'w" where
  "emitted_call env invoke c w =
     (case invoke (cl_args c) (cl_call_id c) (ae_tool_call env (cl_name c) (cl_args c) (cl_call_id c) w) of
        (r, w') \<Rightarrow> (case tool_error_text r of
            Inr result \<Rightarrow> (Inr result, ae_tool_return env (cl_name c) result (cl_call_id c) w')
          | Inl e \<Rightarrow> (Inl e, w')))"

definition find_extra :: "'w tool option list \<Rightarrow> string \<Rightarrow> 'w tool option" where
  "find_extra extras name = find (\<lambda>t. tl_name t = name) (List.map_filter id extras)"

definition DispatchTool :: "'w agent_env \<Rightarrow> 'w agent_config \<Rightarrow> agent_call \<Rightarrow> 'w \<Rightarrow> string exn_or \<times> 'w" where
  "DispatchTool env cfg c w =
     (case find_extra (ac_extra_tools cfg) (cl_name c) of
        Some tool \<Rightarrow> emitted_call env (tl_invoke tool) c w
      | None \<Rightarrow>
         (case ac_view cfg of
            Some view \<Rightarrow> emitted_call env (View_Invoke view (cl_name c)) c w
          | None \<Rightarrow> (case ac_registry cfg of
                Some r \<Rightarrow> emitted_call env (Registry_Invoke r (cl_name c)) c w
              | None \<Rightarrow> (Inr [], w))))"

text \<open>What the receiver of a slot's channel reads: the result, or a placeholder when the channel was closed.\<close>

definition slot_value :: "string exn_or \<Rightarrow> string" where
  "slot_value r = (case r of Inr v \<Rightarrow> v | Inl _ \<Rightarrow> error_json ''tool_execution_failed'')"

definition run_slot :: "'w agent_env \<Rightarrow> 'w agent_config \<Rightarrow> agent_call list \<Rightarrow> string list \<times> 'w \<Rightarrow> nat \<Rightarrow> string list \<times> 'w" where
  "run_slot env cfg calls sw i =
     (case DispatchTool env cfg (calls ! i) (snd sw) of (r, w') \<Rightarrow> ((fst sw)[i := slot_value r], w'))"

definition dispatch_all :: "'w agent_env \<Rightarrow> 'w agent_config \<Rightarrow> nat list \<Rightarrow> agent_call list \<Rightarrow> 'w \<Rightarrow> string list \<times> 'w" where
  "dispatch_all env cfg order calls w = foldl (run_slot env cfg calls) (replicate (length calls) [], w) order"

definition result_entry :: "agent_call \<Rightarrow> string \<Rightarrow> json" where
  "result_entry c value =
     (let entry = jobj [(''name'', JStr (cl_name c)), (''response'', jobj [(''value'', JStr value)])] in
      if cl_call_id c = [] then entry else jput ''id'' (JStr (cl_call_id c)) entry)"

definition tool_message :: "agent_call list \<Rightarrow> string list \<Rightarrow> json" where
  "tool_message calls results =
     jobj [(''role'', JStr ''tool''), (''content'', JArr (map2 result_entry calls results))]"

section \<open>The loop\<close>

text \<open>\<open>n\<close> iterations are left, the next one is number \<open>iter\<close>; the messages sent are collected.\<close>

fun agent_loop :: "'w agent_env \<Rightarrow> 'w agent_config \<Rightarrow> nat \<Rightarrow> nat \<Rightarrow> string \<Rightarrow> 'w \<Rightarrow> string exn_or \<times> string list \<times> 'w" where
  "agent_loop env cfg 0 iter msg w = (Inr [], [], w)"
| "agent_loop env cfg (Suc n) iter msg w =
     (if ae_cancelled env w then (Inr [], [], w)
      else case ae_send env msg w of
        (Inl e, w1) \<Rightarrow> (Inl e, [msg], w1)
      | (Inr (Inl s), w1) \<Rightarrow>
          if code s = Cancelled then (Inr [], [msg], w1)
          else (Inl (AgentflowError (''AgentNode: backend send failed: '' @ message s)), [msg], w1)
      | (Inr (Inr resp_str), w1) \<Rightarrow>
         (case ae_parse env resp_str of
            None \<Rightarrow> (Inr resp_str, [msg], w1)
          | Some resp \<Rightarrow>
             (case jarray resp ''tool_calls'' of
                Some (tc # tcs) \<Rightarrow>
                  (let calls = normalize_calls (ae_dump env) (tc # tcs);
                       (results, w2) = dispatch_all env cfg (ae_order env iter (length calls)) calls w1;
                       (res, sent, w3) = agent_loop env cfg n (Suc iter) (ae_dump_lenient env (tool_message calls results)) w2
                   in (res, msg # sent, w3))
              | _ \<Rightarrow>
                  (let answer = ExtractAssistantText (ae_parse env) resp_str
                   in (Inr (if answer = [] then resp_str else answer), [msg], w1)))))"

definition max_iterations_text :: string where
  "max_iterations_text = ''Agent reached maximum iterations without a final answer.''"

definition AgentNode_Run :: "'m proto_api \<Rightarrow> 'w agent_env \<Rightarrow> 'w agent_config \<Rightarrow> 'm gstate \<Rightarrow> 'w \<Rightarrow>
    'm gstate exn_or \<times> string list \<times> 'w" where
  "AgentNode_Run api env cfg state w =
     (if \<not> ac_configured cfg then (Inl (AgentflowError ''AgentNode: backend and io_ctx must be configured''), [], w)
      else if ae_cancelled env w then (Inr state, [], w)
      else case BuildToolsJson env cfg of
        Inl e \<Rightarrow> (Inl e, [], w)
      | Inr tools \<Rightarrow>
         (case ae_create env (BuildSystemMessageJson (ae_dump env) (ac_system_prompt cfg)) tools w of
            (False, w1) \<Rightarrow> (Inl (AgentflowError (''AgentNode: failed to create conversation on backend '' @ ae_describe env)), [], w1)
          | (True, w1) \<Rightarrow>
             (case agent_loop env cfg (nat (ac_max_iter cfg)) 0
                     (BuildUserMessageJson (ae_dump env) (ReadStringField api (ae_dump env) state (ac_input_field cfg))) w1 of
                (Inl e, sent, w2) \<Rightarrow> (Inl e, sent, w2)
              | (Inr final_answer, sent, w2) \<Rightarrow>
                  (Inr (WriteStringField api state (ac_output_field cfg)
                     (if final_answer = [] \<and> \<not> ae_cancelled env w2 then max_iterations_text else final_answer)), sent, w2))))"

section \<open>The other nodes\<close>

text \<open>\<open>ReadField\<close> and \<open>WriteField\<close> of \<open>llm_node.cc\<close>, and the like in \<open>router_node.cc\<close>: protobuf states only.\<close>

definition ReadField :: "'m proto_api \<Rightarrow> 'm gstate \<Rightarrow> string \<Rightarrow> string" where
  "ReadField api s f = (case UnsafeMessage s of
       None \<Rightarrow> []
     | Some m \<Rightarrow> if has_string_field api m f then get_string api m f else [])"

definition WriteField :: "'m proto_api \<Rightarrow> 'm gstate \<Rightarrow> string \<Rightarrow> string \<Rightarrow> 'm gstate" where
  "WriteField api s f v = (case UnsafeMessage s of
       None \<Rightarrow> s
     | Some m \<Rightarrow> if has_string_field api m f then s\<lparr>st_backing := ProtoArm (Some (set_string api m f v))\<rparr> else s)"

definition RouterNode_Run :: "'m proto_api \<Rightarrow> ('m gstate \<Rightarrow> string) \<Rightarrow> string \<Rightarrow> bool \<Rightarrow> 'm gstate \<Rightarrow> 'm gstate" where
  "RouterNode_Run api chooser output_field cancelled state =
     (if cancelled then state
      else if output_field = [] then state else WriteField api state output_field (chooser state))"

definition AggregatorNode_Run :: "('m gstate \<Rightarrow> 'm gstate) option \<Rightarrow> bool \<Rightarrow> 'm gstate \<Rightarrow> 'm gstate" where
  "AggregatorNode_Run merger cancelled state =
     (if cancelled then state else case merger of Some f \<Rightarrow> f state | None \<Rightarrow> state)"

record 'w llm_config =
  lc_system_prompt :: string
  lc_registry :: "'w tool_registry option"
  lc_tool_names :: "string list"
  lc_input_field :: string
  lc_output_field :: string

definition LlmNode_Run :: "'m proto_api \<Rightarrow> 'w agent_env \<Rightarrow> 'w llm_config \<Rightarrow> 'm gstate \<Rightarrow> 'w \<Rightarrow> 'm gstate exn_or \<times> 'w" where
  "LlmNode_Run api env cfg state w =
     (if ae_cancelled env w then (Inr state, w)
      else case (case lc_registry cfg of
                   Some r \<Rightarrow> Registry_ExportToolsJson (ae_parse env) (ae_dump env) r (lc_tool_names cfg)
                 | None \<Rightarrow> Inr ''[]'') of
        Inl e \<Rightarrow> (Inl e, w)
      | Inr tools \<Rightarrow>
         (case ae_create env (BuildSystemMessageJson (ae_dump env) (lc_system_prompt cfg)) tools w of
            (False, w1) \<Rightarrow> (Inl (AgentflowError (''LlmNode: failed to create conversation on backend '' @ ae_describe env)), w1)
          | (True, w1) \<Rightarrow>
             (case ae_send env (BuildUserMessageJson (ae_dump env) (ReadField api state (lc_input_field cfg))) w1 of
                (Inl e, w2) \<Rightarrow> (Inl e, w2)
              | (Inr (Inl s), w2) \<Rightarrow>
                  if code s = Cancelled then (Inr state, w2)
                  else (Inl (AgentflowError (''LlmNode: backend send failed: '' @ message s)), w2)
              | (Inr (Inr resp), w2) \<Rightarrow>
                  (let txt = ExtractAssistantText (ae_parse env) resp in
                   (Inr (WriteField api state (lc_output_field cfg) (if txt = [] then resp else txt)), w2)))))"

text \<open>On a JSON state the two helpers of the LLM node read nothing and write nothing.\<close>

lemma llm_node_ignores_json:
  "ReadField api (FromJson j) f = [] \<and> WriteField api (FromJson j) f v = FromJson j"
  by (simp add: ReadField_def WriteField_def UnsafeMessage_def FromJson_def)

section \<open>Every call gets its own answer\<close>

lemma run_slot_fst:
  "fst (run_slot env cfg calls sw i) = (fst sw)[i := slot_value (fst (DispatchTool env cfg (calls ! i) (snd sw)))]"
  by (simp add: run_slot_def case_prod_beta)

lemma length_dispatch: "length (fst (foldl (run_slot env cfg calls) sw order)) = length (fst sw)"
  by (induction order arbitrary: sw) (simp_all add: run_slot_fst)

lemma dispatch_slots:
  assumes "i \<in> set order" and "i < length (fst sw)"
  shows "\<exists>w. fst (foldl (run_slot env cfg calls) sw order) ! i = slot_value (fst (DispatchTool env cfg (calls ! i) w))"
  using assms
proof (induction order arbitrary: sw rule: rev_induct)
  case (snoc j order)
  let ?sw = "foldl (run_slot env cfg calls) sw order"
  have len: "i < length (fst ?sw)" using snoc.prems(2) by (simp add: length_dispatch)
  show ?case
  proof (cases "i = j")
    case True
    then show ?thesis using len by (auto simp: run_slot_fst)
  next
    case False
    then show ?thesis using snoc len by (simp add: run_slot_fst)
  qed
qed simp

text \<open>
  What printing with \<open>DumpJsonLenient\<close> and parsing does to a value built of arrays, of objects with valid keys in
  the order of a \<open>json\<close> object, and of strings: each string that is not valid UTF-8 has its invalid bytes
  replaced (\<open>repl\<close>, which is the printer's), everything else comes back as it was.
\<close>

fun text_only :: "json \<Rightarrow> bool" where
  "text_only (JStr s) \<longleftrightarrow> True"
| "text_only (JArr xs) \<longleftrightarrow> list_all text_only xs"
| "text_only (JObj m) \<longleftrightarrow> sorted (map fst m) \<and> distinct (map fst m) \<and> list_all IsValidUtf8 (map fst m) \<and>
     list_all text_only (map snd m)"
| "text_only _ \<longleftrightarrow> False"

fun replace_text :: "(string \<Rightarrow> string) \<Rightarrow> json \<Rightarrow> json" where
  "replace_text repl (JStr s) = JStr (repl s)"
| "replace_text repl (JArr xs) = JArr (map (replace_text repl) xs)"
| "replace_text repl (JObj m) = JObj (map (\<lambda>kv. (fst kv, replace_text repl (snd kv))) m)"
| "replace_text repl j = j"

definition prints_leniently :: "json_parser \<Rightarrow> json_dumper \<Rightarrow> (string \<Rightarrow> string) \<Rightarrow> bool" where
  "prints_leniently parse dump repl \<longleftrightarrow> (\<forall>s. IsValidUtf8 s \<longrightarrow> repl s = s) \<and>
     (\<forall>j. text_only j \<longrightarrow> parse (dump j) = Some (replace_text repl j))"

lemma jfind_replace [simp]: "jfind (replace_text repl j) k = map_option (replace_text repl) (jfind j k)"
proof (cases j)
  case (JObj m)
  then show ?thesis by (induction m arbitrary: j) auto
qed auto

lemma is_object_replace [simp]: "is_object (replace_text repl j) = is_object j"
  by (cases j) auto

lemma text_only_insert:
  "text_only (JObj m) \<Longrightarrow> text_only v \<Longrightarrow> IsValidUtf8 k \<Longrightarrow> text_only (JObj (sorted_insert k v m))"
proof -
  assume m: "text_only (JObj m)" and v: "text_only v" "IsValidUtf8 k"
  have "set (map snd (sorted_insert k v m)) \<subseteq> insert v (set (map snd m))"
    by (induction m) (auto simp: image_iff split: if_splits, force+)
  moreover have "set (map fst (sorted_insert k v m)) = insert k (set (map fst m))"
    using keys_sorted_insert[of k v m] by simp
  ultimately show ?thesis using m v sorted_sorted_insert[of m k v]
    by (simp add: list_all_iff del: set_map keys_sorted_insert) blast
qed

lemma valid_names: "IsValidUtf8 ''id''" "IsValidUtf8 ''name''" "IsValidUtf8 ''response''" "IsValidUtf8 ''value''"
    "IsValidUtf8 ''role''" "IsValidUtf8 ''content''"
  by code_simp+

lemma valid_tool: "IsValidUtf8 ''tool''"
  by code_simp

lemma text_only_jobj: "list_all (\<lambda>kv. IsValidUtf8 (fst kv) \<and> text_only (snd kv)) kvs \<Longrightarrow> text_only (jobj kvs)"
proof -
  assume "list_all (\<lambda>kv. IsValidUtf8 (fst kv) \<and> text_only (snd kv)) kvs"
  then have "text_only (JObj (foldl (\<lambda>m (k, v). sorted_insert k v m) m kvs))" if "text_only (JObj m)" for m
    using that
  proof (induction kvs arbitrary: m)
    case (Cons kv kvs)
    then have "text_only (JObj (sorted_insert (fst kv) (snd kv) m))" by (intro text_only_insert) simp_all
    then show ?case using Cons by (simp add: case_prod_beta del: text_only.simps(3))
  qed simp
  from this[of "[]"] show ?thesis by (simp add: jobj_def)
qed

lemma text_only_jput: "is_object j \<Longrightarrow> text_only j \<Longrightarrow> text_only v \<Longrightarrow> IsValidUtf8 k \<Longrightarrow> text_only (jput k v j)"
  by (cases j) (simp_all add: text_only_insert del: text_only.simps(3))

lemma text_only_result: "text_only (result_entry c v)"
  by (auto simp: result_entry_def Let_def valid_names intro!: text_only_jput text_only_jobj)

lemma text_only_tool_message: "text_only (tool_message calls vs)"
  by (auto simp: tool_message_def list_all_iff text_only_result valid_names intro!: text_only_jobj)

lemma result_entry_tool:
  "cl_call_id c \<noteq> [] \<Longrightarrow> repl (cl_call_id c) = cl_call_id c \<Longrightarrow>
   add_tool_result dump out (replace_text repl (result_entry c v)) = Inr (out @ [tool_result (cl_call_id c) (repl v)])"
  by (simp add: add_tool_result_def result_entry_def Let_def jstring_def response_value_def jfind_jobj)

lemma result_entries_tool:
  "length vs = length calls \<Longrightarrow> list_all (\<lambda>c. cl_call_id c \<noteq> [] \<and> repl (cl_call_id c) = cl_call_id c) calls \<Longrightarrow>
   fold_status (add_tool_result dump) out (map (replace_text repl) (map2 result_entry calls vs)) =
     Inr (out @ map2 (\<lambda>c v. tool_result (cl_call_id c) (repl v)) calls vs)"
proof (induction calls arbitrary: vs out)
  case (Cons c calls)
  then obtain v us where "vs = v # us" by (cases vs) auto
  then show ?case using Cons by (simp add: result_entry_tool)
qed simp

section \<open>Properties\<close>

text \<open>
  C29. Suppose every call of a turn has a non-empty id that is valid UTF-8. Whatever order the executor runs
  the calls in, the tool message the agent prints with \<open>DumpJsonLenient\<close> translates to exactly one wire message
  per call, in the order of the calls, each carrying its call's id and a result of its own call, with the
  bytes that are not UTF-8 replaced by the printer (a result that is UTF-8 arrives as it is), so that the
  history it is appended to is paired without any placeholder.
\<close>

theorem agent_answers_every_call:
  assumes "prints_leniently parse (ae_dump_lenient env) repl"
    and "calls = normalize_calls (ae_dump env) tcs"
    and "list_all (\<lambda>c. cl_call_id c \<noteq> [] \<and> IsValidUtf8 (cl_call_id c)) calls"
    and "set order = {..<length calls}" and "dispatch_all env cfg order calls w = (results, w')"
  shows "\<exists>out. ToOpenAiMessages parse dump (ae_dump_lenient env (tool_message calls results)) = Inr (Inr out) \<and>
    answers out = map cl_call_id calls \<and> paired out \<and> length out = length calls \<and>
    (\<forall>i<length calls. \<exists>u. let r = slot_value (fst (DispatchTool env cfg (calls ! i) u)) in
       out ! i = tool_result (cl_call_id (calls ! i)) (if IsValidUtf8 r then r else repl r))"
proof -
  let ?out = "map2 (\<lambda>c v. tool_result (cl_call_id c) (repl v)) calls results"
  have repl: "IsValidUtf8 s \<Longrightarrow> repl s = s" for s using assms(1) by (simp add: prints_leniently_def)
  have vals: "results = fst (foldl (run_slot env cfg calls) (replicate (length calls) [], w) order)"
    using assms(5) by (simp add: dispatch_all_def)
  then have len: "length results = length calls" by (simp add: length_dispatch)
  have tools: "list_all is_tool ?out" by (auto simp: list_all_iff)
  have "map answer_of ?out = map cl_call_id calls"
    using len by (simp add: comp_def case_prod_beta map_fst_zip flip: map_map[of cl_call_id fst, unfolded comp_def])
  then have ans: "answers ?out = map cl_call_id calls" "paired ?out"
    using answers_tools[OF tools, of "[]"] paired_tools[OF tools, of "[]"] by (simp_all add: answers_def)
  have ids: "list_all (\<lambda>c. cl_call_id c \<noteq> [] \<and> repl (cl_call_id c) = cl_call_id c) calls"
    using assms(3) repl by (simp add: list_all_iff)
  have "parse (ae_dump_lenient env (tool_message calls results)) = Some (replace_text repl (tool_message calls results))"
    using assms(1) text_only_tool_message by (simp add: prints_leniently_def)
  then have "ToOpenAiMessages parse dump (ae_dump_lenient env (tool_message calls results)) = Inr (Inr ?out)"
    using result_entries_tool[OF len ids, of dump "[]"] repl[OF valid_tool]
    by (simp add: ToOpenAiMessages_def tool_message_def jstring_def jarray_def jfind_jobj)
  moreover have "\<exists>u. let r = slot_value (fst (DispatchTool env cfg (calls ! i) u)) in
      ?out ! i = tool_result (cl_call_id (calls ! i)) (if IsValidUtf8 r then r else repl r)"
    if i: "i < length calls" for i
  proof -
    obtain u where u: "results ! i = slot_value (fst (DispatchTool env cfg (calls ! i) u))"
      using dispatch_slots[of i order "(replicate (length calls) [], w)" env cfg calls] assms(4) i vals by auto
    then have "?out ! i = tool_result (cl_call_id (calls ! i)) (repl (slot_value (fst (DispatchTool env cfg (calls ! i) u))))"
      using i len by simp
    then show ?thesis using repl by (intro exI[of _ u]) (simp add: Let_def)
  qed
  ultimately show ?thesis using ans len by (intro exI[of _ ?out]) simp
qed

text \<open>A printer that replaces a string that is not UTF-8 by U+FFFD.\<close>

definition replacement :: "string \<Rightarrow> string" where
  "replacement s = (if IsValidUtf8 s then s else [CHR 0xEF, CHR 0xBF, CHR 0xBD])"

definition lenient_dump :: json_dumper where
  "lenient_dump j = counting_dump (replace_text replacement j)"

lemma lenient_prints: "prints_leniently counting_parse lenient_dump replacement"
  by (simp add: prints_leniently_def lenient_dump_def replacement_def)

definition sample_agent_env :: "string list agent_env" where
  "sample_agent_env = \<lparr>ae_parse = counting_parse, ae_dump = counting_dump, ae_dump_lenient = lenient_dump,
     ae_cancelled = (\<lambda>_. False), ae_create = (\<lambda>_ _ w. (True, w)), ae_describe = ''m'', ae_send = (\<lambda>_ w. (Inr (Inr []), w)),
     ae_tool_call = (\<lambda>n a i w. w), ae_tool_return = (\<lambda>n r i w. w), ae_order = (\<lambda>_ n. rev [0..<n])\<rparr>"

definition sample_agent_config :: "string list agent_config" where
  "sample_agent_config = \<lparr>ac_configured = True, ac_system_prompt = [], ac_registry = Some log_registry, ac_view = None,
     ac_max_iter = 8, ac_input_field = ''q'', ac_output_field = ''a'', ac_tool_names = [], ac_extra_tools = []\<rparr>"

definition sample_calls :: "json list" where
  "sample_calls = [JObj [(''id'', JStr ''c1''), (''name'', JStr ''write''), (''arguments'', JStr ''x'')],
     JObj [(''id'', JStr ''c2''), (''name'', JStr ''erase''), (''arguments'', JStr ''y'')]]"

theorem agent_answers_every_call_witness:
  "\<exists>out. ToOpenAiMessages counting_parse counting_dump (lenient_dump (tool_message (normalize_calls counting_dump sample_calls)
       (fst (dispatch_all sample_agent_env sample_agent_config [1, 0] (normalize_calls counting_dump sample_calls) [])))) = Inr (Inr out) \<and>
     answers out = [''c1'', ''c2''] \<and>
     fst (dispatch_all sample_agent_env sample_agent_config [1, 0] (normalize_calls counting_dump sample_calls) []) =
       [''done'', ''Tool error: Tool not found: erase'']"
proof -
  let ?calls = "normalize_calls counting_dump sample_calls"
  have calls: "?calls = [\<lparr>cl_name = ''write'', cl_call_id = ''c1'', cl_args = ''x''\<rparr>,
      \<lparr>cl_name = ''erase'', cl_call_id = ''c2'', cl_args = ''y''\<rparr>]"
    by (simp add: normalize_calls_def normalize_call_def sample_calls_def jstring_def text_or_dump_def)
  obtain vs w' where run: "dispatch_all sample_agent_env sample_agent_config [1, 0] ?calls [] = (vs, w')" by fastforce
  have "vs = [''done'', ''Tool error: Tool not found: erase'']"
    using run unfolding calls
    by (simp add: dispatch_all_def run_slot_def DispatchTool_def find_extra_def sample_agent_config_def sample_agent_env_def
        emitted_call_def Registry_Invoke_def log_registry_def Register_tool_def new_tool_registry_def log_tool_def
        NativeFnTool_def tl_name_def slot_value_def tool_error_text_def List.map_filter_def)
  moreover have "ae_dump_lenient sample_agent_env = lenient_dump" "ae_dump sample_agent_env = counting_dump"
    by (simp_all add: sample_agent_env_def)
  moreover have "IsValidUtf8 ''c1''" "IsValidUtf8 ''c2''" by code_simp+
  then have "list_all (\<lambda>c. cl_call_id c \<noteq> [] \<and> IsValidUtf8 (cl_call_id c)) ?calls" "set [1, 0] = {..<length ?calls}"
    by (auto simp: calls)
  moreover have "map cl_call_id ?calls = [''c1'', ''c2'']" by (simp add: calls)
  ultimately show ?thesis
    using agent_answers_every_call[where parse = counting_parse and env = sample_agent_env and repl = replacement and tcs = sample_calls
        and calls = ?calls and order = "[1, 0]" and dump = counting_dump, OF _ _ _ _ run] run lenient_prints by force
qed

end
