(* ===== verification/Delegation.thy ===== *)
theory Delegation
  imports Agent_Node Workflow_Props
begin

text \<open>
  Sub-agents: \<open>agentflow/workflow/sub_agent_runtime.{h,cc}\<close>, \<open>sub_agent_context.h\<close>, \<open>delegate_tool.{h,cc}\<close> and
  \<open>workflow_runner.{h,cc}\<close>. A run of a sub-agent is a function on the world \<open>'w\<close>; conversations, host tools, gates and the
  trace emitter are what the host passes in. The runtime calls itself through the \<open>delegate\<close> tool of the child's tool view,
  one level deeper each time, which is what makes \<open>RunAsync\<close> terminate.
\<close>

section \<open>Context and environment\<close>

text \<open>\<open>EmitSubAgentStart\<close>, \<open>EmitSubAgentEnd\<close> and \<open>EmitSubAgentExtractFailed\<close> of \<open>core/event.cc\<close>.\<close>

datatype sub_event =
    SubAgentStart string string string string "32 word" string
  | SubAgentEnd string "32 word" bool string "32 word"
  | SubAgentExtractFailed string string

type_synonym 'w token_sink = "(string \<Rightarrow> 'w \<Rightarrow> 'w) option"

type_synonym 'w send_fn = "string \<Rightarrow> 'w token_sink \<Rightarrow> ('w \<Rightarrow> bool) \<Rightarrow> 'w \<Rightarrow> string status_or exn_or \<times> 'w"

type_synonym 'w conversation_factory = "string \<Rightarrow> string \<Rightarrow> conversation_options \<Rightarrow> 'w \<Rightarrow> 'w send_fn option exn_or \<times> 'w"

record 'w chat_backend_if =
  cb_create :: "conversation_options \<Rightarrow> 'w \<Rightarrow> 'w send_fn option exn_or \<times> 'w"

record 'w sub_agent_context =
  sc_depth :: "32 word"
  sc_root_invocation_id :: string
  sc_parent_cancel :: "('w \<Rightarrow> bool) option"
  sc_gate :: "'w gate option"
  sc_tool_tiers :: "(string \<times> tool_tier) list"
  sc_tool_event :: "(string \<Rightarrow> invocation_ids \<Rightarrow> string \<Rightarrow> string \<Rightarrow> 'w \<Rightarrow> 'w) option"
  sc_token_channel :: "(string \<Rightarrow> 'w \<Rightarrow> 'w) option"

record ('m, 'w) sub_agent_runtime =
  sr_spec :: workflow_spec
  sr_host_tools :: "'w tool_registry"
  sr_emit :: "sub_event \<Rightarrow> 'w \<Rightarrow> 'w"
  sr_conv_factory :: "'w conversation_factory option"
  sr_gen_uuid :: "'w \<Rightarrow> string \<times> 'w"
  sr_parse :: json_parser
  sr_dump :: json_dumper
  sr_dump_lenient :: json_dumper
  sr_api :: "'m proto_api"
  sr_overflow :: "string \<Rightarrow> int"

definition ResolveNamedBackend :: "string \<Rightarrow> string \<Rightarrow> 'b option \<Rightarrow> (string \<times> 'b option) list \<Rightarrow> 'b option exn_or" where
  "ResolveNamedBackend backend_name requesting_agent default_backend backends =
     (if backend_name = [] then Inr default_backend
      else case map_of backends backend_name of
        None \<Rightarrow> Inl (AgentflowError (''agent '' @ sq requesting_agent @ '' requests backend '' @ sq backend_name @
                  '' which the host did not register''))
      | Some b \<Rightarrow> Inr b)"

text \<open>
  Calling \<open>CreateConversation\<close> through a null backend stops the process; no handler sees it, as with \<^const>\<open>NonStdException\<close>.
\<close>

definition DefaultConversationFactory :: "'w chat_backend_if option \<Rightarrow> (string \<times> 'w chat_backend_if option) list \<Rightarrow>
    'w conversation_factory" where
  "DefaultConversationFactory default_backend backends backend_name requesting_agent opts w =
     (case ResolveNamedBackend backend_name requesting_agent default_backend backends of
        Inl e \<Rightarrow> (Inl e, w)
      | Inr None \<Rightarrow> (Inl NonStdException, w)
      | Inr (Some b) \<Rightarrow> cb_create b opts w)"

definition FindAgent :: "workflow_spec \<Rightarrow> string \<Rightarrow> agent_def option" where
  "FindAgent spec name = map_of (ws_agents spec) name"

definition delegates_of :: "workflow_spec \<Rightarrow> string \<Rightarrow> delegate_spec option" where
  "delegates_of spec name = (case FindAgent spec name of None \<Rightarrow> None | Some def \<Rightarrow> ad_delegates def)"

section \<open>The delegate tool of a child\<close>

definition NestedDelegateSchema :: "json_dumper \<Rightarrow> string list \<Rightarrow> string" where
  "NestedDelegateSchema dump allowed =
     dump (JObj [(''type'', JStr ''object''),
       (''properties'', JObj [(''agent'', JObj [(''type'', JStr ''string''), (''enum'', JArr (map JStr allowed))]),
          (''goal'', JObj [(''type'', JStr ''string'')])]),
       (''required'', JArr [JStr ''agent'', JStr ''goal''])])"

definition result_text :: "json_dumper \<Rightarrow> json \<Rightarrow> string" where
  "result_text dump_lenient r = (case r of JStr s \<Rightarrow> s | _ \<Rightarrow> dump_lenient r)"

definition nested_delegate :: "json_parser \<Rightarrow> json_dumper \<Rightarrow> (string \<Rightarrow> string \<Rightarrow> 'w \<Rightarrow> json exn_or \<times> 'w) \<Rightarrow> 'w invocation" where
  "nested_delegate parse dump_lenient run args_json cid w =
     (case parse args_json of
        None \<Rightarrow> (Inr (error_json ''bad_args''), w)
      | Some args \<Rightarrow>
         (case jstring args ''agent'' of
            None \<Rightarrow> (Inr (error_json ''bad_args''), w)
          | Some agent \<Rightarrow>
             (case jstring args ''goal'' of
                None \<Rightarrow> (Inr (error_json ''bad_args''), w)
              | Some goal \<Rightarrow>
                 (case run agent goal w of
                    (Inl e, w') \<Rightarrow> (Inl e, w')
                  | (Inr r, w') \<Rightarrow> (Inr (result_text dump_lenient r), w')))))"

definition cancel_ref :: "'w sub_agent_context \<Rightarrow> 'w \<Rightarrow> bool" where
  "cancel_ref ctx = (case sc_parent_cancel ctx of Some c \<Rightarrow> c | None \<Rightarrow> (\<lambda>_. False))"

definition nested_context :: "'w sub_agent_context \<Rightarrow> string \<Rightarrow> 'w sub_agent_context" where
  "nested_context ctx root =
     ctx\<lparr>sc_depth := sc_depth ctx + 1, sc_root_invocation_id := root, sc_parent_cancel := Some (cancel_ref ctx)\<rparr>"

definition child_tool_context :: "'w sub_agent_context \<Rightarrow> string \<Rightarrow> string \<Rightarrow> 'w invocation_context" where
  "child_tool_context ctx root child =
     \<lparr>ic_ids = \<lparr>iv_root_invocation_id = root, iv_caller = child, iv_delegate_depth = unat (sc_depth ctx), iv_session_id = []\<rparr>,
      ic_event = sc_tool_event ctx\<rparr>"

definition child_view :: "('m, 'w) sub_agent_runtime \<Rightarrow> (string \<Rightarrow> string \<Rightarrow> 'w \<Rightarrow> json exn_or \<times> 'w) \<Rightarrow> string \<Rightarrow> agent_def \<Rightarrow>
    string \<Rightarrow> 'w sub_agent_context \<Rightarrow> 'w tool_view" where
  "child_view rt run child def root ctx =
     (let view = InvocationToolView (cancel_ref ctx) (sr_host_tools rt) (ad_tools def) (sc_tool_tiers ctx)
                   (child_tool_context ctx root child) (sc_gate ctx)
      in case ad_delegates def of
           None \<Rightarrow> view
         | Some ds \<Rightarrow> View_Add (Some (NativeFnTool \<lparr>ts_name = ''delegate'', ts_description = ''Hand a sub-task to another agent.'',
               ts_params_json_schema = NestedDelegateSchema (sr_dump rt) (ds_agents ds)\<rparr>
               (nested_delegate (sr_parse rt) (sr_dump_lenient rt) run))) view)"

section \<open>The tool loop of a child\<close>

text \<open>One result entry, in the member order of \<open>ordered_json\<close>.\<close>

definition sub_result_entry :: "agent_call \<Rightarrow> string \<Rightarrow> json" where
  "sub_result_entry c result =
     (let entry = JObj [(''name'', JStr (cl_name c)), (''response'', JObj [(''value'', JStr result)])]
      in if cl_call_id c = [] then entry else oput ''id'' (JStr (cl_call_id c)) entry)"

fun sub_dispatch :: "'w tool_view \<Rightarrow> agent_call list \<Rightarrow> 'w \<Rightarrow> json list exn_or \<times> 'w" where
  "sub_dispatch view [] w = (Inr [], w)"
| "sub_dispatch view (c # cs) w =
     (case View_Invoke view (cl_name c) (cl_args c) (cl_call_id c) w of
        (r, w1) \<Rightarrow> (case tool_error_text r of
           Inl e \<Rightarrow> (Inl e, w1)
         | Inr result \<Rightarrow> (case sub_dispatch view cs w1 of
              (Inl e, w2) \<Rightarrow> (Inl e, w2)
            | (Inr entries, w2) \<Rightarrow> (Inr (sub_result_entry c result # entries), w2))))"

datatype sub_outcome = SubFailed string | SubAnswered string

definition sub_tool_message :: "json list \<Rightarrow> json" where
  "sub_tool_message entries = JObj [(''role'', JStr ''tool''), (''content'', JArr entries)]"

text \<open>\<open>n\<close> turns are left; \<open>raw\<close> is the last response.\<close>

fun sub_loop :: "('m, 'w) sub_agent_runtime \<Rightarrow> 'w sub_agent_context \<Rightarrow> 'w tool_view \<Rightarrow> 'w send_fn \<Rightarrow> nat \<Rightarrow> string \<Rightarrow> string \<Rightarrow> 'w \<Rightarrow>
    sub_outcome exn_or \<times> 'w" where
  "sub_loop rt ctx view send 0 msg raw w = (Inr (SubAnswered raw), w)"
| "sub_loop rt ctx view send (Suc n) msg raw w =
     (if cancel_ref ctx w then (Inr (SubFailed ''cancelled''), w)
      else case send msg (sc_token_channel ctx) (cancel_ref ctx) w of
        (Inl e, w1) \<Rightarrow> (Inl e, w1)
      | (Inr (Inl s), w1) \<Rightarrow> (Inr (SubFailed ''engine_error''), w1)
      | (Inr (Inr resp), w1) \<Rightarrow>
         (case sr_parse rt resp of
            None \<Rightarrow> (Inr (SubAnswered resp), w1)
          | Some j \<Rightarrow>
             (case jarray j ''tool_calls'' of
                Some (tc # tcs) \<Rightarrow>
                  (case sub_dispatch view (normalize_calls (sr_dump rt) (tc # tcs)) w1 of
                     (Inl e, w2) \<Rightarrow> (Inl e, w2)
                   | (Inr entries, w2) \<Rightarrow>
                       sub_loop rt ctx view send n (sr_dump_lenient rt (sub_tool_message entries)) resp w2)
              | _ \<Rightarrow> (Inr (SubAnswered resp), w1))))"

definition kSubAgentMaxIter :: nat where "kSubAgentMaxIter = 8"

section \<open>One child\<close>

definition system_text :: "('m, 'w) sub_agent_runtime \<Rightarrow> agent_def \<Rightarrow> string option" where
  "system_text rt def =
     (if ad_system_prompt def = [] then Some []
      else case TemplateString_Parse (ad_system_prompt def) of
        Inl _ \<Rightarrow> None
      | Inr t \<Rightarrow> Some (text_or_dump (sr_dump rt) (Evaluate (sr_api rt) (sr_dump rt)
          \<lparr>ctx_state = None, ctx_parent_state = None, ctx_tool_args = None, ctx_workflow_name = ws_name (sr_spec rt),
           ctx_workflow_version = ws_version (sr_spec rt), ctx_now_iso = [], ctx_now_unix_micros = 0, ctx_now_unix_seconds = 0\<rparr> t)))"

definition child_options :: "('m, 'w) sub_agent_runtime \<Rightarrow> agent_def \<Rightarrow> string \<Rightarrow> string \<Rightarrow> conversation_options" where
  "child_options rt def system tools_json =
     \<lparr>co_system_message_json = (if system = [] then []
        else sr_dump rt (JArr [JObj [(''type'', JStr ''text''), (''text'', JStr system)]])),
      co_tools_json = (if tools_json = [] then ''[]'' else tools_json),
      co_max_output_tokens = (if ms_max_output_tokens (ad_model def) > 0 then ms_max_output_tokens (ad_model def) else 512),
      co_constrained_tool_calls = ms_constrained_tool_calls (ad_model def)\<rparr>"

definition user_message :: "json_dumper \<Rightarrow> string \<Rightarrow> string" where
  "user_message dump goal = dump (JObj [(''role'', JStr ''user''),
     (''content'', JArr [JObj [(''type'', JStr ''text''), (''text'', JStr goal)]])])"

definition error_value :: "string \<Rightarrow> json" where
  "error_value reason = JObj [(''error'', JStr reason)]"

definition fail_end :: "('m, 'w) sub_agent_runtime \<Rightarrow> string \<Rightarrow> 32 word \<Rightarrow> string \<Rightarrow> 'w \<Rightarrow> 'w" where
  "fail_end rt ivk depth reason w = sr_emit rt (SubAgentEnd ivk depth False reason 0) w"

text \<open>The text the parent gets from the last response, and whether the path missed it.\<close>

definition output_path :: "delegate_spec \<Rightarrow> string" where
  "output_path ds = (if ds_output_extract ds = [] then ''$.content[0].text'' else ds_output_extract ds)"

definition extract_output :: "('m, 'w) sub_agent_runtime \<Rightarrow> delegate_spec \<Rightarrow> string \<Rightarrow> string \<times> bool" where
  "extract_output rt ds raw =
     (case JsonPath_Parse (sr_overflow rt) (output_path ds) of
        Inl _ \<Rightarrow> (raw, False)
      | Inr path \<Rightarrow>
         (case sr_parse rt raw of
            None \<Rightarrow> (raw, False)
          | Some root \<Rightarrow>
             (case JsonPath_Resolve path root of
                Some (JStr s) \<Rightarrow> (s, False)
              | _ \<Rightarrow> (raw, True))))"

definition finish_child :: "('m, 'w) sub_agent_runtime \<Rightarrow> delegate_spec \<Rightarrow> string \<Rightarrow> 32 word \<Rightarrow> sub_outcome \<Rightarrow> 'w \<Rightarrow> json \<times> 'w" where
  "finish_child rt ds ivk depth outcome w =
     (case outcome of
        SubFailed reason \<Rightarrow> (error_value reason, fail_end rt ivk depth reason w)
      | SubAnswered raw \<Rightarrow>
         (case extract_output rt ds raw of
            (final, missed) \<Rightarrow>
              (let w1 = (if missed then sr_emit rt (SubAgentExtractFailed ivk (output_path ds)) w else w)
               in (JStr final, sr_emit rt (SubAgentEnd ivk depth True [] (of_nat (length final))) w1))))"

definition run_child :: "('m, 'w) sub_agent_runtime \<Rightarrow> (string \<Rightarrow> string \<Rightarrow> 'w \<Rightarrow> json exn_or \<times> 'w) \<Rightarrow> delegate_spec \<Rightarrow> string \<Rightarrow> agent_def \<Rightarrow>
    string \<Rightarrow> string \<Rightarrow> string \<Rightarrow> 'w sub_agent_context \<Rightarrow> 'w \<Rightarrow> json exn_or \<times> 'w" where
  "run_child rt run ds child def goal ivk root ctx w =
     (case system_text rt def of
        None \<Rightarrow> (Inr (error_value ''bad_template''), fail_end rt ivk (sc_depth ctx) ''bad_template'' w)
      | Some system \<Rightarrow>
         (let view = child_view rt run child def root ctx in
          case View_ExportToolsJson (sr_parse rt) (sr_dump rt) view of
            Inl e \<Rightarrow> (Inl e, w)
          | Inr tools_json \<Rightarrow>
             (case (case sr_conv_factory rt of
                      None \<Rightarrow> (Inr None, w)
                    | Some f \<Rightarrow> f (ms_backend (ad_model def)) child (child_options rt def system tools_json) w) of
                (Inl (AgentflowError m), w1) \<Rightarrow>
                   (Inr (JObj [(''error'', JStr ''unknown_backend''), (''backend'', JStr (ms_backend (ad_model def)))]),
                    fail_end rt ivk (sc_depth ctx) ''unknown_backend'' w1)
              | (Inl (GraphCompileError m), w1) \<Rightarrow>
                   (Inr (JObj [(''error'', JStr ''unknown_backend''), (''backend'', JStr (ms_backend (ad_model def)))]),
                    fail_end rt ivk (sc_depth ctx) ''unknown_backend'' w1)
              | (Inl e, w1) \<Rightarrow> (Inl e, w1)
              | (Inr None, w1) \<Rightarrow> (Inr (error_value ''engine_error''), fail_end rt ivk (sc_depth ctx) ''engine_error'' w1)
              | (Inr (Some send), w1) \<Rightarrow>
                  (case sub_loop rt ctx view send kSubAgentMaxIter (user_message (sr_dump rt) goal) [] w1 of
                     (Inl e, w2) \<Rightarrow> (Inl e, w2)
                   | (Inr outcome, w2) \<Rightarrow> (let (j, w3) = finish_child rt ds ivk (sc_depth ctx) outcome w2 in (Inr j, w3))))))"

section \<open>The run\<close>

lemma depth_step:
  assumes "\<not> m \<le> (d :: 32 word)"
  shows "unat (d + 1) = Suc (unat d)" and "Suc (unat d) < 2 ^ 32"
proof -
  have "unat d < unat m" "unat m < 2 ^ 32"
    using assms unsigned_less[where 'b = 32, of m] by (simp_all add: word_le_nat_alt)
  then show "Suc (unat d) < 2 ^ 32" by linarith
  then show "unat (d + 1) = Suc (unat d)" by (simp add: unat_word_ariths)
qed

text \<open>
  A roster name without a definition stops the process in \<open>Map::at\<close>; no handler sees it, as with \<^const>\<open>NonStdException\<close>.
\<close>

function RunAsync :: "('m, 'w) sub_agent_runtime \<Rightarrow> string \<Rightarrow> string \<Rightarrow> string \<Rightarrow> 'w sub_agent_context \<Rightarrow> 'w \<Rightarrow> json exn_or \<times> 'w" where
  "RunAsync rt parent child goal ctx w =
     (let ivk = fst (sr_gen_uuid rt w); w1 = snd (sr_gen_uuid rt w);
          root = (if sc_depth ctx = 0 then ivk else sc_root_invocation_id ctx)
      in case delegates_of (sr_spec rt) parent of
           None \<Rightarrow> (Inr (error_value ''unknown_agent''), fail_end rt ivk (sc_depth ctx) ''unknown_agent'' w1)
         | Some ds \<Rightarrow>
             if ds_max_depth ds \<le> sc_depth ctx
             then (Inr (JObj [(''error'', JStr ''max_depth_exceeded''), (''depth'', JUInt (ucast (sc_depth ctx)))]),
                   fail_end rt ivk (sc_depth ctx) ''max_depth_exceeded''
                     (sr_emit rt (SubAgentStart parent child ivk root (sc_depth ctx) goal) w1))
             else if child \<notin> set (ds_agents ds)
             then (Inr (error_value ''unknown_agent''), fail_end rt ivk (sc_depth ctx) ''unknown_agent'' w1)
             else
               (let w2 = sr_emit rt (SubAgentStart parent child ivk root (sc_depth ctx) goal) w1
                in case FindAgent (sr_spec rt) child of
                     None \<Rightarrow> (Inl NonStdException, w2)
                   | Some def \<Rightarrow>
                       run_child rt (\<lambda>agent goal' u. RunAsync rt child agent goal' (nested_context ctx root) u)
                         ds child def goal ivk root ctx w2))"
  by pat_completeness auto

termination
proof (relation "measure (\<lambda>(rt, p, c, g, ctx, w). 2 ^ 32 - unat (sc_depth ctx))", goal_cases)
  case 1
  show ?case by simp
next
  case (2 rt parent child goal ctx w ivk w1 root ds w2 def agent goal' u)
  from depth_step[OF 2(5)] show ?case by (simp add: nested_context_def)
qed

declare RunAsync.simps [simp del]

section \<open>What a trace of delegations looks like\<close>

text \<open>The end of a child's span: one closing event, after a note when the output path missed.\<close>

definition closes :: "string \<Rightarrow> 32 word \<Rightarrow> sub_event list \<Rightarrow> bool" where
  "closes i d tail \<longleftrightarrow>
     (\<exists>reason. reason \<noteq> [] \<and> tail = [SubAgentEnd i d False reason 0]) \<or>
     (\<exists>n. tail = [SubAgentEnd i d True [] n]) \<or>
     (\<exists>path n. tail = [SubAgentExtractFailed i path, SubAgentEnd i d True [] n])"

text \<open>
  The events of one delegation by \<open>p\<close> at depth \<open>d\<close>: refused, too deep, or the span of a child of \<open>p\<close>'s roster below
  \<open>p\<close>'s depth limit, with the spans of the child's own delegations, one level deeper, inside.
\<close>

inductive sub_span :: "workflow_spec \<Rightarrow> string \<Rightarrow> string \<Rightarrow> 32 word \<Rightarrow> sub_event list \<Rightarrow> bool" for spec root where
  span_refused: "(\<And>ds. delegates_of spec p = Some ds \<Longrightarrow> c \<notin> set (ds_agents ds)) \<Longrightarrow>
    sub_span spec root p d [SubAgentEnd i d False ''unknown_agent'' 0]"
| span_too_deep: "delegates_of spec p = Some ds \<Longrightarrow> ds_max_depth ds \<le> d \<Longrightarrow>
    sub_span spec root p d [SubAgentStart p c i root d g, SubAgentEnd i d False ''max_depth_exceeded'' 0]"
| span_ran: "delegates_of spec p = Some ds \<Longrightarrow> d < ds_max_depth ds \<Longrightarrow> c \<in> set (ds_agents ds) \<Longrightarrow>
    (\<forall>es\<in>set inner. sub_span spec root c (d + 1) es) \<Longrightarrow> closes i d tail \<Longrightarrow>
    sub_span spec root p d (SubAgentStart p c i root d g # concat inner @ tail)"

definition answer_value :: "json \<Rightarrow> bool" where
  "answer_value j \<longleftrightarrow> is_string j \<or> jstring j ''error'' \<noteq> None"

section \<open>Hosts that do not interfere\<close>

definition std_result :: "'a exn_or \<Rightarrow> bool" where
  "std_result r \<longleftrightarrow> (case r of Inl e \<Rightarrow> exn_what e \<noteq> None | Inr _ \<Rightarrow> True)"

definition quiet_invocation :: "('w \<Rightarrow> 't) \<Rightarrow> 'w invocation \<Rightarrow> bool" where
  "quiet_invocation tr f \<longleftrightarrow> (\<forall>a i w. tr (snd (f a i w)) = tr w \<and> std_result (fst (f a i w)))"

definition quiet_tool :: "('w \<Rightarrow> 't) \<Rightarrow> 'w tool \<Rightarrow> bool" where
  "quiet_tool tr t \<longleftrightarrow> quiet_invocation tr (tl_invoke t) \<and>
     (case tl_with_session t of None \<Rightarrow> True | Some f \<Rightarrow> (\<forall>s. quiet_invocation tr (f s)))"

definition quiet_sink :: "('w \<Rightarrow> 't) \<Rightarrow> 'w token_sink \<Rightarrow> bool" where
  "quiet_sink tr sink \<longleftrightarrow> (case sink of None \<Rightarrow> True | Some push \<Rightarrow> (\<forall>d w. tr (push d w) = tr w))"

definition quiet_send :: "('w \<Rightarrow> 't) \<Rightarrow> 'w send_fn \<Rightarrow> bool" where
  "quiet_send tr send \<longleftrightarrow> (\<forall>msg sink c w. quiet_sink tr sink \<longrightarrow>
     tr (snd (send msg sink c w)) = tr w \<and> (\<exists>r. fst (send msg sink c w) = Inr r))"

definition quiet_factory :: "('w \<Rightarrow> 't) \<Rightarrow> 'w conversation_factory \<Rightarrow> bool" where
  "quiet_factory tr f \<longleftrightarrow> (\<forall>n a opts w. tr (snd (f n a opts w)) = tr w \<and>
     (case fst (f n a opts w) of
        Inl e \<Rightarrow> (\<exists>m. e = AgentflowError m)
      | Inr None \<Rightarrow> True
      | Inr (Some send) \<Rightarrow> quiet_send tr send))"

text \<open>
  What the runtime relies on: the emitter appends to the trace and nothing else of the host does; sends report errors as a
  status, the factory as an \<open>AgentflowError\<close>, tools as \<open>std::exception\<close>s; schemas are JSON.
\<close>

definition host_ok :: "('w \<Rightarrow> sub_event list) \<Rightarrow> ('m, 'w) sub_agent_runtime \<Rightarrow> bool" where
  "host_ok tr rt \<longleftrightarrow>
     (\<forall>e w. tr (sr_emit rt e w) = tr w @ [e]) \<and> (\<forall>w. tr (snd (sr_gen_uuid rt w)) = tr w) \<and>
     (\<forall>name t. Find (sr_host_tools rt) name = Some t \<longrightarrow>
        quiet_tool tr t \<and> sr_parse rt (ts_params_json_schema (tl_schema t)) \<noteq> None) \<and>
     (\<forall>j. sr_parse rt (sr_dump rt j) \<noteq> None) \<and>
     (case sr_conv_factory rt of None \<Rightarrow> True | Some f \<Rightarrow> quiet_factory tr f)"

definition context_ok :: "('w \<Rightarrow> sub_event list) \<Rightarrow> 'w sub_agent_context \<Rightarrow> bool" where
  "context_ok tr ctx \<longleftrightarrow> quiet_sink tr (sc_token_channel ctx) \<and>
     (case sc_gate ctx of None \<Rightarrow> True
      | Some g \<Rightarrow> (\<forall>n a ids c w. tr (snd (g n a ids c w)) = tr w \<and> std_result (fst (g n a ids c w)))) \<and>
     (case sc_tool_event ctx of None \<Rightarrow> True | Some f \<Rightarrow> (\<forall>p ids n c w. tr (f p ids n c w) = tr w))"

section \<open>Runs that add spans\<close>

text \<open>From one world to another, whole spans of the kind \<open>S\<close> were added to the trace.\<close>

definition adds :: "('w \<Rightarrow> 'e list) \<Rightarrow> ('e list \<Rightarrow> bool) \<Rightarrow> 'w \<Rightarrow> 'w \<Rightarrow> bool" where
  "adds tr S w w' \<longleftrightarrow> (\<exists>ess. tr w' = tr w @ concat ess \<and> (\<forall>es\<in>set ess. S es))"

lemma adds_quiet: "tr w' = tr w \<Longrightarrow> adds tr S w w'"
  by (auto simp: adds_def intro: exI[of _ "[]"])

lemma adds_one: "tr w' = tr w @ es \<Longrightarrow> S es \<Longrightarrow> adds tr S w w'"
  by (auto simp: adds_def intro: exI[of _ "[es]"])

lemma adds_trans:
  assumes "adds tr S w w1" and "adds tr S w1 w2"
  shows "adds tr S w w2"
proof -
  obtain xs where "tr w1 = tr w @ concat xs" "\<forall>es\<in>set xs. S es" using assms(1) by (auto simp: adds_def)
  moreover obtain ys where "tr w2 = tr w1 @ concat ys" "\<forall>es\<in>set ys. S es" using assms(2) by (auto simp: adds_def)
  ultimately show ?thesis unfolding adds_def by (intro exI[of _ "xs @ ys"]) auto
qed

definition adding_invocation :: "('w \<Rightarrow> 'e list) \<Rightarrow> ('e list \<Rightarrow> bool) \<Rightarrow> 'w invocation \<Rightarrow> bool" where
  "adding_invocation tr S f \<longleftrightarrow> (\<forall>a i w. adds tr S w (snd (f a i w)) \<and> std_result (fst (f a i w)))"

lemma quiet_adding: "quiet_invocation tr f \<Longrightarrow> adding_invocation tr S f"
  by (simp add: quiet_invocation_def adding_invocation_def adds_quiet)

lemma quiet_with_session: "quiet_tool tr t \<Longrightarrow> quiet_invocation tr (tl_invoke (with_session s t))"
  by (auto simp: quiet_tool_def with_session_def split: option.splits)

lemma std_result_simps [simp]: "std_result (Inr x)" "std_result (Inl e) \<longleftrightarrow> exn_what e \<noteq> None"
  by (simp_all add: std_result_def)

lemma quiet_run_inner:
  assumes "quiet_invocation tr (tl_invoke inner)" and "\<And>p w. tr (emit p w) = tr w"
  shows "tr (snd (run_inner inner emit args cid w)) = tr w \<and> std_result (fst (run_inner inner emit args cid w))"
  using assms(1)[unfolded quiet_invocation_def, rule_format, of args cid w]
  by (cases "tl_invoke inner args cid w") (auto simp: run_inner_def assms(2) std_result_def split: sum.splits)

lemma quiet_gated:
  assumes "quiet_invocation tr (tl_invoke inner)"
    and gate: "\<And>g. gate = Some g \<Longrightarrow> (\<forall>n a ids c w. tr (snd (g n a ids c w)) = tr w \<and> std_result (fst (g n a ids c w)))"
    and event: "\<And>f. ic_event context = Some f \<Longrightarrow> (\<forall>p ids n c w. tr (f p ids n c w) = tr w)"
  shows "quiet_invocation tr (GatedTool_Invoke cancelled inner tier context gate)"
proof -
  have emit: "tr (emit_phase context ids name cid p w) = tr w" for ids name cid p w
    using event by (auto simp: emit_phase_def split: option.splits)
  have inner: "tr (snd (run_inner inner (emit_phase context ids name c) a i w)) = tr w \<and>
      std_result (fst (run_inner inner (emit_phase context ids name c) a i w))" for ids name c a i w
    by (rule quiet_run_inner[OF assms(1)]) (rule emit)
  have decide: "tr (snd (decide cancelled g inner (emit_phase context ids name c) ids' a i w)) = tr w \<and>
      std_result (fst (decide cancelled g inner (emit_phase context ids name c) ids' a i w))" if "gate = Some g" for g ids name c ids' a i w
    using gate[OF that, rule_format, of "tl_name inner" a ids' i w] inner
    by (cases "g (tl_name inner) a ids' i w") (auto simp: decide_def emit split: sum.splits)
  show ?thesis
    unfolding quiet_invocation_def GatedTool_Invoke_def
    using inner decide by (auto simp: Let_def emit split: option.splits)
qed

lemma quiet_view:
  assumes host: "host_ok tr rt" and ctx: "context_ok tr ctx"
    and "map_of (InvocationToolView cancelled (sr_host_tools rt) names tiers (child_tool_context ctx root child) (sc_gate ctx)) n = Some t"
  shows "quiet_invocation tr (tl_invoke t) \<and> sr_parse rt (ts_params_json_schema (tl_schema t)) \<noteq> None"
proof -
  from assms(3) obtain inner where inner: "Find (sr_host_tools rt) n = Some inner"
      "t = GatedTool cancelled (with_session [] inner) (tier_of tiers n) (child_tool_context ctx root child) (sc_gate ctx)"
    by (auto simp: view_lookup view_entry_def child_tool_context_def split: if_splits option.splits)
  have "with_session [] inner = inner" by (simp add: with_session_def split: option.splits)
  moreover have "quiet_tool tr inner \<and> sr_parse rt (ts_params_json_schema (tl_schema inner)) \<noteq> None"
    using host inner(1) by (simp add: host_ok_def)
  ultimately show ?thesis
    using inner(2) ctx
    by (auto simp: GatedTool_def quiet_tool_def context_ok_def child_tool_context_def intro!: quiet_gated split: option.splits)
qed

lemma distinct_view: "distinct (map fst (InvocationToolView cancelled r names tiers context gate))"
proof -
  have "distinct (map fst view) \<Longrightarrow> distinct (map fst (foldl (\<lambda>view name. case view_entry cancelled r tiers context gate name of
      None \<Rightarrow> view | Some t \<Rightarrow> if has_key view name then view else view @ [(name, t)]) view names))" for view
    by (induction names arbitrary: view) (auto simp: has_key_iff split: option.splits)
  then show ?thesis by (simp add: InvocationToolView_def)
qed

definition adding_run :: "('w \<Rightarrow> 'e list) \<Rightarrow> ('e list \<Rightarrow> bool) \<Rightarrow> (string \<Rightarrow> string \<Rightarrow> 'w \<Rightarrow> json exn_or \<times> 'w) \<Rightarrow> bool" where
  "adding_run tr S run \<longleftrightarrow> (\<forall>a g w. \<exists>j w'. run a g w = (Inr j, w') \<and> adds tr S w w')"

lemma child_view_adding:
  assumes host: "host_ok tr rt" and ctx: "context_ok tr ctx"
    and run: "adding_run tr S run"
    and "map_of (child_view rt run child def root ctx) n = Some t"
  shows "adding_invocation tr S (tl_invoke t) \<and> sr_parse rt (ts_params_json_schema (tl_schema t)) \<noteq> None"
proof (cases "n = ''delegate'' \<and> ad_delegates def \<noteq> None")
  case False
  then have "map_of (InvocationToolView (cancel_ref ctx) (sr_host_tools rt) (ad_tools def) (sc_tool_tiers ctx)
      (child_tool_context ctx root child) (sc_gate ctx)) n = Some t"
    using assms(4) by (auto simp: child_view_def Let_def View_Add_def NativeFnTool_def tl_name_def split: option.splits if_splits)
  from quiet_view[OF host ctx this] show ?thesis by (simp add: quiet_adding)
next
  case True
  then obtain ds where ds: "ad_delegates def = Some ds" by auto
  then have t: "t = NativeFnTool \<lparr>ts_name = ''delegate'', ts_description = ''Hand a sub-task to another agent.'',
      ts_params_json_schema = NestedDelegateSchema (sr_dump rt) (ds_agents ds)\<rparr>
      (nested_delegate (sr_parse rt) (sr_dump_lenient rt) run)"
    using assms(4) True by (simp add: child_view_def Let_def View_Add_def NativeFnTool_def tl_name_def)
  have "adds tr S w (snd (nested_delegate p d run a i w)) \<and> std_result (fst (nested_delegate p d run a i w))" for p d a i w
  proof (cases "\<exists>j g h. p a = Some j \<and> jstring j ''agent'' = Some g \<and> jstring j ''goal'' = Some h")
    case True
    then obtain j g h where j: "p a = Some j" "jstring j ''agent'' = Some g" "jstring j ''goal'' = Some h" by blast
    obtain r w' where "run g h w = (Inr r, w')" "adds tr S w w'" using run unfolding adding_run_def by blast
    then show ?thesis by (simp add: nested_delegate_def j)
  next
    case False
    then have "nested_delegate p d run a i w = (Inr (error_json ''bad_args''), w)"
      by (auto simp: nested_delegate_def split: option.splits)
    then show ?thesis by (simp add: adds_quiet)
  qed
  then show ?thesis
    using host by (auto simp: t NativeFnTool_def adding_invocation_def NestedDelegateSchema_def host_ok_def)
qed

lemma export_total:
  assumes "\<And>s. s \<in> set schemas \<Longrightarrow> parse (ts_params_json_schema s) \<noteq> None"
  shows "\<exists>out. export_schemas parse dump schemas = Inr out"
proof -
  have "\<exists>arr'. fold_status (\<lambda>arr s. bind_status (SchemaToJson parse s) (\<lambda>j. Inr (arr @ [j]))) arr schemas = Inr arr'" for arr
    using assms by (induction schemas arbitrary: arr) (auto simp: SchemaToJson_def split: option.splits)
  from this[of "[]"] show ?thesis by (auto simp: export_schemas_def)
qed

lemma child_export_total:
  assumes "host_ok tr rt" and "context_ok tr ctx"
    and "adding_run tr S run"
  shows "\<exists>out. View_ExportToolsJson (sr_parse rt) (sr_dump rt) (child_view rt run child def root ctx) = Inr out"
proof -
  let ?view = "child_view rt run child def root ctx"
  have "distinct (map fst ?view)"
    by (auto simp: child_view_def Let_def View_Add_def distinct_view distinct_update split: option.splits)
  then have "map_of ?view n = Some t" if "(n, t) \<in> set ?view" for n t using that by simp
  then have "sr_parse rt (ts_params_json_schema (tl_schema t)) \<noteq> None" if "(n, t) \<in> set ?view" for n t
    using child_view_adding[OF assms] that by blast
  then show ?thesis unfolding View_ExportToolsJson_def by (intro export_total) auto
qed

definition adding_view :: "('w \<Rightarrow> 'e list) \<Rightarrow> ('e list \<Rightarrow> bool) \<Rightarrow> 'w tool_view \<Rightarrow> bool" where
  "adding_view tr S view \<longleftrightarrow> (\<forall>n t. map_of view n = Some t \<longrightarrow> adding_invocation tr S (tl_invoke t))"

lemma sub_dispatch_adds:
  assumes "adding_view tr S view"
  shows "\<exists>entries w'. sub_dispatch view calls w = (Inr entries, w') \<and> adds tr S w w'"
proof (induction calls arbitrary: w)
  case Nil
  then show ?case by (simp add: adds_quiet)
next
  case (Cons c cs)
  obtain r w1 where inv: "View_Invoke view (cl_name c) (cl_args c) (cl_call_id c) w = (r, w1)" by fastforce
  have "adds tr S w w1 \<and> std_result r"
  proof (cases "map_of view (cl_name c)")
    case None
    then show ?thesis using inv by (auto simp: View_Invoke_def adds_quiet)
  next
    case (Some t)
    then have "adding_invocation tr S (tl_invoke t)" using assms by (simp add: adding_view_def)
    then have "adds tr S w (snd (tl_invoke t (cl_args c) (cl_call_id c) w)) \<and> std_result (fst (tl_invoke t (cl_args c) (cl_call_id c) w))"
      unfolding adding_invocation_def by blast
    then show ?thesis using inv Some by (simp add: View_Invoke_def)
  qed
  then have 1: "adds tr S w w1" and "std_result r" by simp_all
  then obtain result where "tool_error_text r = Inr result" by (auto simp: std_result_def tool_error_text_def split: sum.splits)
  moreover obtain entries w2 where "sub_dispatch view cs w1 = (Inr entries, w2)" "adds tr S w1 w2" using Cons by blast
  ultimately show ?case using inv adds_trans[OF 1] by simp
qed

lemma sub_loop_adds:
  assumes "adding_view tr S view"
    and "quiet_send tr send" and "context_ok tr ctx"
  shows "\<exists>outcome w'. sub_loop rt ctx view send n msg raw w = (Inr outcome, w') \<and> adds tr S w w' \<and>
    outcome \<notin> {SubFailed []}"
proof (induction n arbitrary: msg raw w)
  case 0
  then show ?case by (simp add: adds_quiet)
next
  case (Suc n)
  show ?case
  proof (cases "cancel_ref ctx w")
    case True
    then show ?thesis by (simp add: adds_quiet)
  next
    case False
    have "tr (snd (send msg (sc_token_channel ctx) (cancel_ref ctx) w)) = tr w \<and>
        (\<exists>r. fst (send msg (sc_token_channel ctx) (cancel_ref ctx) w) = Inr r)"
      using assms(2,3) unfolding quiet_send_def context_ok_def by blast
    then obtain r w1 where sent: "send msg (sc_token_channel ctx) (cancel_ref ctx) w = (Inr r, w1)" and q: "tr w1 = tr w"
      by (cases "send msg (sc_token_channel ctx) (cancel_ref ctx) w") auto
    show ?thesis
    proof (cases r)
      case (Inl s)
      then show ?thesis using False sent q by (simp add: adds_quiet)
    next
      case (Inr resp)
      show ?thesis
      proof (cases "\<exists>j tc tcs. sr_parse rt resp = Some j \<and> jarray j ''tool_calls'' = Some (tc # tcs)")
        case True
        then obtain j tc tcs where j: "sr_parse rt resp = Some j" "jarray j ''tool_calls'' = Some (tc # tcs)" by blast
        obtain entries w2 where d: "sub_dispatch view (normalize_calls (sr_dump rt) (tc # tcs)) w1 = (Inr entries, w2)" "adds tr S w1 w2"
          using sub_dispatch_adds[OF assms(1)] by blast
        obtain outcome w3 where l: "sub_loop rt ctx view send n (sr_dump_lenient rt (sub_tool_message entries)) resp w2 = (Inr outcome, w3)"
            "adds tr S w2 w3" "outcome \<notin> {SubFailed []}" using Suc by blast
        have "adds tr S w w3" using adds_trans[OF adds_trans[OF adds_quiet[of tr, OF q] d(2)] l(2)] .
        then show ?thesis using False sent Inr j d(1) l(1,3) by simp
      next
        case no: False
        have "sub_loop rt ctx view send (Suc n) msg raw w = (Inr (SubAnswered resp), w1)"
          using False sent Inr no by (auto split: option.splits list.splits)
        then show ?thesis using q by (simp add: adds_quiet)
      qed
    qed
  qed
qed

lemma finish_child_closes:
  assumes "host_ok tr rt" and "outcome \<noteq> SubFailed []" and "finish_child rt ds i d outcome w = (j, w')"
  shows "answer_value j \<and> (\<exists>tail. tr w' = tr w @ tail \<and> closes i d tail)"
proof -
  have emit: "tr (sr_emit rt e u) = tr u @ [e]" for e u using assms(1) by (simp add: host_ok_def)
  show ?thesis
  proof (cases outcome)
    case (SubFailed reason)
    then have "tr w' = tr w @ [SubAgentEnd i d False reason 0]" "j = error_value reason" "reason \<noteq> []"
      using assms(2,3) by (auto simp: finish_child_def fail_end_def emit)
    then show ?thesis by (simp add: answer_value_def error_value_def jstring_def closes_def)
  next
    case (SubAnswered raw)
    obtain final missed where "extract_output rt ds raw = (final, missed)" by fastforce
    then have "j = JStr final" "tr w' = tr w @ (if missed then [SubAgentExtractFailed i (output_path ds)] else []) @
        [SubAgentEnd i d True [] (of_nat (length final))]"
      using assms(3) SubAnswered by (auto simp: finish_child_def emit Let_def)
    then show ?thesis by (auto simp: answer_value_def closes_def)
  qed
qed

lemma fail_end_closes: "host_ok tr rt \<Longrightarrow> reason \<noteq> [] \<Longrightarrow> \<exists>tail. tr (fail_end rt i d reason w) = tr w @ tail \<and> closes i d tail"
  by (auto simp: host_ok_def fail_end_def closes_def)

lemma answer_error [simp]: "answer_value (JObj ((''error'', JStr e) # m))" "answer_value (error_value e)" "answer_value (JStr s)"
  by (simp_all add: answer_value_def jstring_def error_value_def)

lemma run_child_spans:
  assumes host: "host_ok tr rt" and ctx: "context_ok tr ctx" and run: "adding_run tr S run"
  shows "\<exists>j w' inner tail. run_child rt run ds child def goal i root ctx w = (Inr j, w') \<and> answer_value j \<and>
    tr w' = tr w @ concat inner @ tail \<and> (\<forall>es\<in>set inner. S es) \<and> closes i (sc_depth ctx) tail"
proof -
  let ?view = "child_view rt run child def root ctx"
  have fail: ?thesis if "run_child rt run ds child def goal i root ctx w = (Inr j, fail_end rt i (sc_depth ctx) reason w1)"
    and "answer_value j" and "tr w1 = tr w" and "reason \<noteq> []" for j reason w1
  proof -
    note prems = that
    obtain tail where "tr (fail_end rt i (sc_depth ctx) reason w1) = tr w1 @ tail" "closes i (sc_depth ctx) tail"
      using fail_end_closes[OF host prems(4)] by blast
    then show ?thesis using prems
      by (intro exI[of _ j] exI[of _ "fail_end rt i (sc_depth ctx) reason w1"] exI[of _ "[]"] exI[of _ tail]) simp
  qed
  show ?thesis
  proof (cases "system_text rt def")
    case None
    then show ?thesis by (intro fail[of "error_value ''bad_template''" "''bad_template''" w]) (simp_all add: run_child_def)
  next
    case (Some system)
    obtain tools where tools: "View_ExportToolsJson (sr_parse rt) (sr_dump rt) ?view = Inr tools"
      using child_export_total[OF host ctx run] by blast
    let ?made = "case sr_conv_factory rt of None \<Rightarrow> (Inr None, w)
      | Some f \<Rightarrow> f (ms_backend (ad_model def)) child (child_options rt def system tools) w"
    obtain r w1 where made: "?made = (r, w1)" by fastforce
    have "tr w1 = tr w \<and> (case r of Inl e \<Rightarrow> (\<exists>m. e = AgentflowError m) | Inr None \<Rightarrow> True | Inr (Some send) \<Rightarrow> quiet_send tr send)"
    proof (cases "sr_conv_factory rt")
      case None
      then show ?thesis using made by auto
    next
      case (Some f)
      then have "quiet_factory tr f" using host by (simp add: host_ok_def)
      from this[unfolded quiet_factory_def, rule_format, of "ms_backend (ad_model def)" child "child_options rt def system tools" w]
      show ?thesis using made Some by simp
    qed
    then have q: "tr w1 = tr w" and r: "case r of Inl e \<Rightarrow> (\<exists>m. e = AgentflowError m) | Inr None \<Rightarrow> True | Inr (Some send) \<Rightarrow> quiet_send tr send"
      by simp_all
    note unfold = run_child_def Some Let_def tools made
    show ?thesis
    proof (cases r)
      case (Inl e)
      then obtain m where "e = AgentflowError m" using r by auto
      then show ?thesis using Inl q
        by (intro fail[of "JObj [(''error'', JStr ''unknown_backend''), (''backend'', JStr (ms_backend (ad_model def)))]" "''unknown_backend''" w1])
          (simp_all add: unfold)
    next
      case (Inr s)
      show ?thesis
      proof (cases s)
        case None
        then show ?thesis using Inr q
          by (intro fail[of "error_value ''engine_error''" "''engine_error''" w1]) (simp_all add: unfold)
      next
        case (Some send)
        have view: "adding_view tr S ?view" unfolding adding_view_def using child_view_adding[OF host ctx run] by blast
        have send: "quiet_send tr send" using r Inr Some by simp
        from sub_loop_adds[OF view send ctx, of rt kSubAgentMaxIter "user_message (sr_dump rt) goal" "[]" w1]
        obtain outcome w2 where loop: "sub_loop rt ctx ?view send kSubAgentMaxIter (user_message (sr_dump rt) goal) [] w1 = (Inr outcome, w2)"
            and "adds tr S w1 w2" "outcome \<noteq> SubFailed []"
          by auto
        then obtain inner where inner: "tr w2 = tr w @ concat inner" "\<forall>es\<in>set inner. S es" using q by (auto simp: adds_def)
        obtain j w3 where fin: "finish_child rt ds i (sc_depth ctx) outcome w2 = (j, w3)" by fastforce
        from finish_child_closes[OF host \<open>outcome \<noteq> SubFailed []\<close> fin] obtain tail
          where "answer_value j" "tr w3 = tr w2 @ tail" "closes i (sc_depth ctx) tail" by blast
        then show ?thesis using Inr Some inner loop fin
          by (intro exI[of _ j] exI[of _ w3] exI[of _ inner] exI[of _ tail]) (simp add: unfold)
      qed
    qed
  qed
qed

lemma context_ok_nested: "context_ok tr ctx \<Longrightarrow> context_ok tr (nested_context ctx root)"
  by (simp add: context_ok_def nested_context_def)

text \<open>The agents of every roster are declared.\<close>

definition rosters_declared :: "workflow_spec \<Rightarrow> bool" where
  "rosters_declared spec \<longleftrightarrow> (\<forall>p ds. delegates_of spec p = Some ds \<longrightarrow> (\<forall>c\<in>set (ds_agents ds). FindAgent spec c \<noteq> None))"

lemma rosters_well_formed: "well_formed_workflow has spec \<Longrightarrow> rosters_declared spec"
  unfolding rosters_declared_def
proof (intro allI impI ballI)
  fix p ds c
  assume wfw: "well_formed_workflow has spec" and ds: "delegates_of spec p = Some ds" and c: "c \<in> set (ds_agents ds)"
  from ds obtain def where def: "map_of (ws_agents spec) p = Some def" "ad_delegates def = Some ds"
    by (auto simp: delegates_of_def FindAgent_def split: option.splits)
  then have "def \<in> snd ` set (ws_agents spec)" by (metis map_of_SomeD imageI snd_conv)
  then have "declared spec c" using wfw def(2) c by (auto simp: well_formed_workflow_def refers_well_def)
  then show "FindAgent spec c \<noteq> None" by (simp add: declared_def has_key_def FindAgent_def)
qed

definition root_of :: "('m, 'w) sub_agent_runtime \<Rightarrow> 'w sub_agent_context \<Rightarrow> 'w \<Rightarrow> string" where
  "root_of rt ctx w = (if sc_depth ctx = 0 then fst (sr_gen_uuid rt w) else sc_root_invocation_id ctx)"

lemma root_nested:
  assumes "\<not> m \<le> sc_depth ctx"
  shows "sc_depth (nested_context ctx root) = sc_depth ctx + 1" and "root_of rt (nested_context ctx root) u = root"
proof -
  have "unat (sc_depth ctx + 1) \<noteq> 0" using depth_step(1)[OF assms] by simp
  then have "sc_depth ctx + 1 \<noteq> 0" by auto
  then show "sc_depth (nested_context ctx root) = sc_depth ctx + 1" "root_of rt (nested_context ctx root) u = root"
    by (simp_all add: root_of_def nested_context_def)
qed

lemma RunAsync_child_spans:
  assumes host: "host_ok tr rt" and ctx: "context_ok tr ctx" and ds: "delegates_of (sr_spec rt) parent = Some ds"
    and deep: "\<not> ds_max_depth ds \<le> sc_depth ctx" and child: "child \<in> set (ds_agents ds)" "FindAgent (sr_spec rt) child = Some def"
    and run: "adding_run tr (sub_span (sr_spec rt) (root_of rt ctx w) child (sc_depth ctx + 1))
      (\<lambda>agent goal' u. RunAsync rt child agent goal' (nested_context ctx (root_of rt ctx w)) u)"
  shows "\<exists>j w' es. RunAsync rt parent child goal ctx w = (Inr j, w') \<and> answer_value j \<and> tr w' = tr w @ es \<and>
    sub_span (sr_spec rt) (root_of rt ctx w) parent (sc_depth ctx) es"
proof -
  let ?i = "fst (sr_gen_uuid rt w)" and ?w1 = "snd (sr_gen_uuid rt w)" and ?d = "sc_depth ctx" and ?root = "root_of rt ctx w"
  let ?run = "\<lambda>agent goal' u. RunAsync rt child agent goal' (nested_context ctx ?root) u"
  let ?start = "SubAgentStart parent child ?i ?root ?d goal"
  have w2: "tr (sr_emit rt ?start ?w1) = tr w @ [?start]" using host by (simp add: host_ok_def)
  from run_child_spans[OF host ctx run, of ds child def goal ?i ?root "sr_emit rt ?start ?w1"]
  obtain j w' inner tail where "run_child rt ?run ds child def goal ?i ?root ctx (sr_emit rt ?start ?w1) = (Inr j, w')" "answer_value j"
      "tr w' = tr (sr_emit rt ?start ?w1) @ concat inner @ tail"
      "\<forall>es\<in>set inner. sub_span (sr_spec rt) ?root child (?d + 1) es" "closes ?i ?d tail" by blast
  moreover have "sub_span (sr_spec rt) ?root parent ?d (?start # concat inner @ tail)"
    using ds deep child(1) calculation(4,5) by (auto intro: span_ran simp: not_le)
  moreover have "RunAsync rt parent child goal ctx w = run_child rt ?run ds child def goal ?i ?root ctx (sr_emit rt ?start ?w1)"
    using ds deep child by (simp add: RunAsync.simps[of rt parent] Let_def root_of_def)
  ultimately show ?thesis by (simp add: w2)
qed

lemma RunAsync_spans:
  assumes "host_ok tr rt" and "context_ok tr ctx" and "rosters_declared (sr_spec rt)"
  shows "\<exists>j w' es. RunAsync rt parent child goal ctx w = (Inr j, w') \<and> answer_value j \<and> tr w' = tr w @ es \<and>
    sub_span (sr_spec rt) (root_of rt ctx w) parent (sc_depth ctx) es"
  using assms
proof (induction rt parent child goal ctx w rule: RunAsync.induct)
  case (1 rt parent child goal ctx w)
  let ?d = "sc_depth ctx" and ?root = "root_of rt ctx w"
  have emit: "tr (sr_emit rt e u) = tr u @ [e]" "tr (snd (sr_gen_uuid rt u)) = tr u" for e u
    using "1.prems"(1) by (simp_all add: host_ok_def)
  note simps = RunAsync.simps[of rt] Let_def fail_end_def emit root_of_def
  consider (none) "delegates_of (sr_spec rt) parent = None"
    | (deep) ds where "delegates_of (sr_spec rt) parent = Some ds" "ds_max_depth ds \<le> ?d"
    | (refused) ds where "delegates_of (sr_spec rt) parent = Some ds" "\<not> ds_max_depth ds \<le> ?d" "child \<notin> set (ds_agents ds)"
    | (run) ds where "delegates_of (sr_spec rt) parent = Some ds" "\<not> ds_max_depth ds \<le> ?d" "child \<in> set (ds_agents ds)" by blast
  then show ?case
  proof cases
    case none
    then show ?thesis by (auto simp: simps intro: span_refused)
  next
    case deep
    then show ?thesis by (auto simp: simps intro: span_too_deep)
  next
    case refused
    then show ?thesis by (auto simp: simps intro: span_refused)
  next
    case run
    obtain def where def: "FindAgent (sr_spec rt) child = Some def"
      using "1.prems"(3)[unfolded rosters_declared_def, rule_format, OF run(1,3)] by blast
    let ?S = "sub_span (sr_spec rt) ?root child (?d + 1)"
    let ?run = "\<lambda>agent goal' u. RunAsync rt child agent goal' (nested_context ctx ?root) u"
    have "adding_run tr ?S ?run"
      unfolding adding_run_def
    proof (intro allI)
      fix a g u
      have "\<exists>j w' es. ?run a g u = (Inr j, w') \<and> answer_value j \<and> tr w' = tr u @ es \<and> ?S es"
        using "1.IH"[OF refl refl root_of_def run(1,2) _ refl def "1.prems"(1) context_ok_nested[OF "1.prems"(2)] "1.prems"(3), of a g u] run(3)
        by (simp only: root_nested[OF run(2)] not_not)
      then obtain j w' es where "?run a g u = (Inr j, w')" and es: "tr w' = tr u @ es" "?S es" by blast
      then show "\<exists>j w'. ?run a g u = (Inr j, w') \<and> adds tr ?S u w'"
        using adds_one[of tr w' u es ?S, OF es] by (intro exI[of _ j] exI[of _ w']) simp
    qed
    from RunAsync_child_spans[OF "1.prems"(1,2) run def this] show ?thesis .
  qed
qed

end
