(* ===== verification/Workflow_Runner.thy ===== *)
theory Workflow_Runner
  imports Delegation
begin

text \<open>
  The agents of a workflow put together: \<open>agentflow/workflow/delegate_tool.cc\<close>, the tool through which the main agent
  delegates, and \<open>workflow_runner.cc\<close>, which builds an agent node's configuration from a loaded workflow.
\<close>

section \<open>The delegate tool of the main agent\<close>

definition BuildSchema :: "json_dumper \<Rightarrow> string list \<Rightarrow> string" where
  "BuildSchema dump allowed =
     (let agent_prop = oput ''enum'' (JArr (map JStr allowed)) (JObj [(''type'', JStr ''string'')]);
          props = oput ''goal'' (JObj [(''type'', JStr ''string'')]) (oput ''agent'' agent_prop (JObj []))
      in dump (oput ''required'' (JArr [JStr ''agent'', JStr ''goal''])
           (oput ''properties'' props (oput ''type'' (JStr ''object'') (JObj [])))))"

text \<open>
  The drain coroutine of one call, one received item at a time: a closed channel or the empty sentinel ends it, a delta
  is sent on to the run-wide channel, whose failure ends it too. The result says whether it goes on.
\<close>

definition drain_step :: "(string \<Rightarrow> 'w \<Rightarrow> bool \<times> 'w) \<Rightarrow> string option \<Rightarrow> 'w \<Rightarrow> bool \<times> 'w" where
  "drain_step send_top item w = (case item of
       None \<Rightarrow> (False, w)
     | Some tok \<Rightarrow> if tok = [] then (False, w) else send_top tok w)"

fun drain :: "(string \<Rightarrow> 'w \<Rightarrow> bool \<times> 'w) \<Rightarrow> string option list \<Rightarrow> 'w \<Rightarrow> 'w" where
  "drain send_top [] w = w"
| "drain send_top (item # items) w =
     (case drain_step send_top item w of (True, w') \<Rightarrow> drain send_top items w' | (False, w') \<Rightarrow> w')"

text \<open>
  \<open>se_spawn\<close> is the executor's: it makes the channel of one call, spawns the drain on it and answers how to push.
\<close>

record 'w stream_env =
  se_has_io :: bool
  se_top_channel :: "(string \<Rightarrow> 'w \<Rightarrow> bool \<times> 'w) option"
  se_spawn :: "(string option \<Rightarrow> 'w \<Rightarrow> bool \<times> 'w) \<Rightarrow> 'w \<Rightarrow> (string \<Rightarrow> 'w \<Rightarrow> 'w) \<times> 'w"

definition open_stream :: "'w stream_env \<Rightarrow> 'w \<Rightarrow> (string \<Rightarrow> 'w \<Rightarrow> 'w) option \<times> 'w" where
  "open_stream env w = (case se_top_channel env of
       None \<Rightarrow> (None, w)
     | Some send_top \<Rightarrow>
         if \<not> se_has_io env then (None, w)
         else (let (push, w') = se_spawn env (drain_step send_top) w in (Some push, w')))"

definition delegate_invoke :: "json_parser \<Rightarrow> json_dumper \<Rightarrow> ('w \<Rightarrow> bool) \<Rightarrow> ('m, 'w) sub_agent_runtime option \<Rightarrow> string \<Rightarrow>
    'w sub_agent_context \<Rightarrow> 'w stream_env \<Rightarrow> 'w invocation" where
  "delegate_invoke parse dump_lenient cancelled runtime parent_agent ctx env args_json cid w =
     (case parse args_json of
        None \<Rightarrow> (Inr (error_json ''bad_args''), w)
      | Some args \<Rightarrow>
         (case value_string args ''agent'' [] of
            Inl e \<Rightarrow> (Inl e, w)
          | Inr agent \<Rightarrow>
             (case value_string args ''goal'' [] of
                Inl e \<Rightarrow> (Inl e, w)
              | Inr goal \<Rightarrow>
                  if cancelled w then (Inr (error_json ''cancelled''), w)
                  else (case runtime of
                     None \<Rightarrow> (Inr (error_json ''no_runtime''), w)
                   | Some rt \<Rightarrow>
                       (let (stream, w1) = open_stream env w;
                            sub_ctx = ctx\<lparr>sc_parent_cancel := Some cancelled,
                              sc_token_channel := (case stream of None \<Rightarrow> sc_token_channel ctx | Some push \<Rightarrow> Some push)\<rparr>
                        in case RunAsync rt parent_agent agent goal sub_ctx w1 of
                             (Inl e, w2) \<Rightarrow> (Inl e, w2)
                           | (Inr r, w2) \<Rightarrow>
                               (Inr (result_text dump_lenient r),
                                case stream of None \<Rightarrow> w2 | Some push \<Rightarrow> push [] w2))))))"

definition MakeDelegateTool :: "json_parser \<Rightarrow> json_dumper \<Rightarrow> json_dumper \<Rightarrow> ('w \<Rightarrow> bool) \<Rightarrow> ('m, 'w) sub_agent_runtime option \<Rightarrow>
    string \<Rightarrow> string list \<Rightarrow> 'w sub_agent_context \<Rightarrow> 'w stream_env \<Rightarrow> 'w tool" where
  "MakeDelegateTool parse dump dump_lenient cancelled runtime parent_agent allowed_children ctx env =
     NativeFnTool \<lparr>ts_name = ''delegate'',
         ts_description = ''Hand a sub-task to another agent. The chosen agent runs with clean context and returns a result string.'',
         ts_params_json_schema = BuildSchema dump allowed_children\<rparr>
       (delegate_invoke parse dump_lenient cancelled runtime parent_agent ctx env)"

section \<open>Building an agent\<close>

record ('m, 'w) agent_build_spec =
  bs_workflow :: workflow_spec
  bs_agent_name :: string
  bs_host_tools :: "'w tool_registry"
  bs_tool_tiers :: "(string \<times> tool_tier) list"
  bs_tool_gate :: "'w gate option"
  bs_fail_closed_confirm :: bool
  bs_tool_event :: "(string \<Rightarrow> invocation_ids \<Rightarrow> string \<Rightarrow> string \<Rightarrow> 'w \<Rightarrow> 'w) option"
  bs_backend :: "'w chat_backend_if option"
  bs_backends :: "(string \<times> 'w chat_backend_if option) list"
  bs_emit :: "(sub_event \<Rightarrow> 'w \<Rightarrow> 'w) option"
  bs_input_field :: string
  bs_output_field :: string
  bs_max_iter :: int
  bs_stream :: "'w stream_env"
  bs_cancelled :: "'w \<Rightarrow> bool"
  bs_gen_uuid :: "'w \<Rightarrow> string \<times> 'w"
  bs_parse :: json_parser
  bs_dump :: json_dumper
  bs_dump_lenient :: json_dumper
  bs_api :: "'m proto_api"
  bs_overflow :: "string \<Rightarrow> int"

record 'w built_agent =
  ba_cfg :: "'w agent_config"
  ba_backend :: "'w chat_backend_if option"
  ba_constrained_tool_calls :: bool
  ba_max_output_tokens :: "32 word"
  ba_stream_tokens :: bool

definition ResolveBackend :: "('m, 'w) agent_build_spec \<Rightarrow> agent_def \<Rightarrow> 'w chat_backend_if option exn_or" where
  "ResolveBackend spec def = ResolveNamedBackend (ms_backend (ad_model def)) (bs_agent_name spec) (bs_backend spec) (bs_backends spec)"

text \<open>The tools an agent anywhere in the workflow declares that ask for a confirmation, in the order of the loop.\<close>

definition confirm_tools :: "('m, 'w) agent_build_spec \<Rightarrow> string list" where
  "confirm_tools spec = filter (\<lambda>t. map_of (bs_tool_tiers spec) t = Some kConfirm) (concat (map (ad_tools \<circ> snd) (ws_agents (bs_workflow spec))))"

definition runtime_of :: "('m, 'w) agent_build_spec \<Rightarrow> ('m, 'w) sub_agent_runtime" where
  "runtime_of spec = \<lparr>sr_spec = bs_workflow spec, sr_host_tools = bs_host_tools spec,
     sr_emit = (case bs_emit spec of Some f \<Rightarrow> f | None \<Rightarrow> (\<lambda>_ w. w)),
     sr_conv_factory = Some (DefaultConversationFactory (bs_backend spec) (bs_backends spec)),
     sr_gen_uuid = bs_gen_uuid spec, sr_parse = bs_parse spec, sr_dump = bs_dump spec, sr_dump_lenient = bs_dump_lenient spec,
     sr_api = bs_api spec, sr_overflow = bs_overflow spec\<rparr>"

definition root_context :: "('m, 'w) agent_build_spec \<Rightarrow> 'w sub_agent_context" where
  "root_context spec = \<lparr>sc_depth = 0, sc_root_invocation_id = [], sc_parent_cancel = None, sc_gate = bs_tool_gate spec,
     sc_tool_tiers = bs_tool_tiers spec, sc_tool_event = bs_tool_event spec, sc_token_channel = None\<rparr>"

definition top_tool_context :: "('m, 'w) agent_build_spec \<Rightarrow> 'w invocation_context" where
  "top_tool_context spec = \<lparr>ic_ids = \<lparr>iv_root_invocation_id = [], iv_caller = bs_agent_name spec, iv_delegate_depth = 0, iv_session_id = []\<rparr>,
     ic_event = bs_tool_event spec\<rparr>"

definition delegate_extra :: "('m, 'w) agent_build_spec \<Rightarrow> 'w chat_backend_if option \<Rightarrow> agent_def \<Rightarrow> 'w tool option list" where
  "delegate_extra spec backend def = (case ad_delegates def of
       None \<Rightarrow> []
     | Some ds \<Rightarrow>
         if backend = None \<or> \<not> se_has_io (bs_stream spec) then []
         else [Some (MakeDelegateTool (bs_parse spec) (bs_dump spec) (bs_dump_lenient spec) (bs_cancelled spec)
                 (Some (runtime_of spec)) (bs_agent_name spec) (ds_agents ds) (root_context spec) (bs_stream spec))])"

definition base_config :: "('m, 'w) agent_build_spec \<Rightarrow> 'w agent_config" where
  "base_config spec = \<lparr>ac_configured = (bs_backend spec \<noteq> None \<and> se_has_io (bs_stream spec)), ac_system_prompt = [],
     ac_registry = Some (bs_host_tools spec), ac_view = None, ac_max_iter = bs_max_iter spec,
     ac_input_field = bs_input_field spec, ac_output_field = bs_output_field spec, ac_tool_names = [], ac_extra_tools = []\<rparr>"

definition BuildAgentNode :: "('m, 'w) agent_build_spec \<Rightarrow> 'w built_agent exn_or" where
  "BuildAgentNode spec =
     (let out = \<lparr>ba_cfg = base_config spec, ba_backend = bs_backend spec, ba_constrained_tool_calls = False,
                 ba_max_output_tokens = 512, ba_stream_tokens = (se_top_channel (bs_stream spec) \<noteq> None)\<rparr>
      in case FindAgent (bs_workflow spec) (bs_agent_name spec) of
           None \<Rightarrow> Inr out
         | Some def \<Rightarrow>
             bind_status (ResolveBackend spec def) (\<lambda>backend.
               if bs_fail_closed_confirm spec \<and> bs_tool_gate spec = None \<and> confirm_tools spec \<noteq> []
               then Inl (AgentflowError (''confirm tool requires ToolInvocationGate: '' @ hd (confirm_tools spec)))
               else Inr (out\<lparr>
                 ba_cfg := (base_config spec)\<lparr>
                   ac_configured := (backend \<noteq> None \<and> se_has_io (bs_stream spec)),
                   ac_system_prompt := ad_system_prompt def,
                   ac_tool_names := ad_tools def,
                   ac_view := Some (InvocationToolView (bs_cancelled spec) (bs_host_tools spec) (ad_tools def) (bs_tool_tiers spec)
                                (top_tool_context spec) (bs_tool_gate spec)),
                   ac_extra_tools := delegate_extra spec backend def\<rparr>,
                 ba_backend := backend,
                 ba_constrained_tool_calls := ms_constrained_tool_calls (ad_model def),
                 ba_max_output_tokens := (if ms_max_output_tokens (ad_model def) > 0 then ms_max_output_tokens (ad_model def) else 512)\<rparr>)))"

section \<open>Facts about the pieces\<close>

text \<open>The two schemas of the delegate tool are the same text.\<close>

lemma BuildSchema_nested: "BuildSchema dump allowed = NestedDelegateSchema dump allowed"
  by (simp add: BuildSchema_def NestedDelegateSchema_def)

text \<open>
  Every delta pushed before the sentinel reaches the run-wide channel, in order, as long as none of them is empty and the
  consumer is there.
\<close>

lemma drain_forwards:
  assumes "\<And>tok w. send_top tok w = (True, w @ [tok])" and "list_all (\<lambda>t. t \<noteq> []) toks"
  shows "drain send_top (map Some toks @ Some [] # rest) w = w @ toks"
  using assms(2) by (induction toks arbitrary: w) (simp_all add: drain_step_def assms(1))

text \<open>An empty delta is taken for the sentinel: what follows it is not forwarded.\<close>

lemma drain_stops_at_empty:
  assumes "\<And>tok w. send_top tok w = (True, w @ [tok])" and "list_all (\<lambda>t. t \<noteq> []) toks"
  shows "drain send_top (map Some toks @ Some [] # map Some lost) w = w @ toks"
  using drain_forwards[OF assms] by simp

text \<open>An agent the workflow does not declare gets a configuration with every host tool and no policy, not an error.\<close>

lemma unknown_agent_ungated:
  assumes "FindAgent (bs_workflow spec) (bs_agent_name spec) = None"
  shows "\<exists>b. BuildAgentNode spec = Inr b \<and> ac_view (ba_cfg b) = None \<and> ac_registry (ba_cfg b) = Some (bs_host_tools spec) \<and>
    ac_tool_names (ba_cfg b) = [] \<and> ba_backend b = bs_backend spec"
  using assms by (simp add: BuildAgentNode_def Let_def base_config_def)

text \<open>A child without a backend of its own stops the process when the host registered named backends only.\<close>

lemma null_default_backend: "DefaultConversationFactory None backends [] agent opts w = (Inl NonStdException, w)"
  by (simp add: DefaultConversationFactory_def ResolveNamedBackend_def)

lemma view_undeclared:
  "n \<notin> set names \<Longrightarrow> View_Invoke (InvocationToolView cancelled r names tiers context gate) n a i w = (Inr (error_json ''tool_not_allowed''), w)"
  by (simp add: View_Invoke_def view_lookup)

lemma child_view_other:
  "n \<noteq> ''delegate'' \<Longrightarrow> map_of (child_view rt run child def root ctx) n =
     map_of (InvocationToolView (cancel_ref ctx) (sr_host_tools rt) (ad_tools def) (sc_tool_tiers ctx) (child_tool_context ctx root child) (sc_gate ctx)) n"
  by (simp add: child_view_def Let_def View_Add_def NativeFnTool_def tl_name_def split: option.splits)

lemma confirm_tools_none:
  assumes "confirm_tools spec = []" and "FindAgent (bs_workflow spec) agent = Some def" and "tier_of (bs_tool_tiers spec) t = kConfirm"
  shows "t \<notin> set (ad_tools def)"
proof -
  have "map_of (bs_tool_tiers spec) t = Some kConfirm"
    using assms(3) by (simp add: tier_of_def split: option.splits)
  moreover have "def \<in> snd ` set (ws_agents (bs_workflow spec))"
    using assms(2) unfolding FindAgent_def by (metis imageI map_of_SomeD snd_conv)
  ultimately show ?thesis using assms(1) by (auto simp: confirm_tools_def filter_empty_conv)
qed

section \<open>Properties\<close>

text \<open>
  C30. Take a loaded workflow and a host that behaves (\<open>host_ok\<close>, \<open>context_ok\<close>): the conversation factory fails only with an
  \<open>AgentflowError\<close>, a send reports its errors as a status and does not throw, the host tools and the gate throw at most
  standard exceptions, tool schemas and printed values parse, and only the runtime writes the trace. Then a delegation
  always comes back with an answer, a string or an error object, and never with an exception, and the trace it leaves is
  well bracketed. It is one of three: a lone closing event \<open>unknown_agent\<close>, when the name is not in the parent's roster;
  the start of a sub-agent of whatever name at or beyond the parent's depth limit, closed at once with
  \<open>max_depth_exceeded\<close> and nothing inside; or the start of a sub-agent that is in the parent's roster and below the
  parent's depth limit, closed exactly once under its own invocation id, with only the spans of its own delegations inside,
  one level deeper and under the same root id.
\<close>

theorem delegation_well_bracketed:
  assumes "Load env has opts text = Inr lw" and "sr_spec rt = wf_spec lw"
    and "host_ok tr rt" and "context_ok tr ctx"
  shows "\<exists>j w' es. RunAsync rt parent child goal ctx w = (Inr j, w') \<and> answer_value j \<and> tr w' = tr w @ es \<and>
    sub_span (wf_spec lw) (root_of rt ctx w) parent (sc_depth ctx) es"
proof -
  have "rosters_declared (sr_spec rt)" using rosters_well_formed[OF Load_well_formed[OF assms(1)]] assms(2) by simp
  from RunAsync_spans[OF assms(3,4) this] show ?thesis using assms(2) by simp
qed

text \<open>A host whose world is the trace, with a model that answers at once.\<close>

definition sample_factory :: "sub_event list conversation_factory" where
  "sample_factory name agent opts w = (Inr (Some (\<lambda>msg sink c u. (Inr (Inr ''ok''), u))), w)"

definition sample_runtime :: "workflow_spec \<Rightarrow> (string, sub_event list) sub_agent_runtime" where
  "sample_runtime spec = \<lparr>sr_spec = spec, sr_host_tools = new_tool_registry False, sr_emit = (\<lambda>e w. w @ [e]),
     sr_conv_factory = Some sample_factory, sr_gen_uuid = (\<lambda>w. (''id'', w)), sr_parse = counting_parse, sr_dump = counting_dump,
     sr_dump_lenient = counting_dump, sr_api = sample_api, sr_overflow = (\<lambda>_. 0)\<rparr>"

definition sample_sub_context :: "sub_event list sub_agent_context" where
  "sample_sub_context = \<lparr>sc_depth = 0, sc_root_invocation_id = [], sc_parent_cancel = None, sc_gate = None, sc_tool_tiers = [],
     sc_tool_event = None, sc_token_channel = None\<rparr>"

theorem delegation_well_bracketed_witness:
  "\<exists>lw. Load sample_env is_clock (sample_options False) ''plain'' = Inr lw \<and>
     (\<exists>j es. RunAsync (sample_runtime (wf_spec lw)) ''lead'' ''reader'' ''sum up'' sample_sub_context [] = (Inr j, es) \<and>
        answer_value j \<and> sub_span (wf_spec lw) ''id'' ''lead'' 0 es)"
proof -
  from sample_loads(1) obtain lw where lw: "Load sample_env is_clock (sample_options False) ''plain'' = Inr lw"
    by (auto elim!: loaded_specE[rotated])
  have "host_ok id (sample_runtime (wf_spec lw))"
    by (simp add: host_ok_def sample_runtime_def Find_def new_tool_registry_def counting_roundtrip quiet_factory_def sample_factory_def quiet_send_def)
  moreover have "context_ok id sample_sub_context" by (simp add: context_ok_def sample_sub_context_def quiet_sink_def)
  moreover have "sr_spec (sample_runtime (wf_spec lw)) = wf_spec lw" by (simp add: sample_runtime_def)
  ultimately have "\<exists>j w' es. RunAsync (sample_runtime (wf_spec lw)) ''lead'' ''reader'' ''sum up'' sample_sub_context [] = (Inr j, w') \<and>
      answer_value j \<and> id w' = id [] @ es \<and>
      sub_span (wf_spec lw) (root_of (sample_runtime (wf_spec lw)) sample_sub_context []) ''lead'' (sc_depth sample_sub_context) es"
    by (intro delegation_well_bracketed[OF lw])
  moreover have "root_of (sample_runtime (wf_spec lw)) sample_sub_context [] = ''id''" "sc_depth sample_sub_context = 0"
    by (simp_all add: root_of_def sample_runtime_def sample_sub_context_def)
  ultimately show ?thesis using lw by (intro exI[of _ lw]) simp
qed

text \<open>
  C31. Let the agent be declared in the workflow, \<open>fail_closed_confirm\<close> set and no gate given, and let a tool other than
  \<open>delegate\<close> have the confirm tier. If any agent of the workflow declares the tool, building throws and no agent exists.
  If the agent was built, it does not run the tool, registered or not, and neither does any declared sub-agent of the
  workflow, at any depth: such a call is answered \<open>tool_not_allowed\<close> and nothing happens.
\<close>

theorem confirm_fails_closed:
  assumes "FindAgent (bs_workflow spec) (bs_agent_name spec) \<noteq> None"
    and "bs_fail_closed_confirm spec" and "bs_tool_gate spec = None"
    and "tier_of (bs_tool_tiers spec) n = kConfirm" and "n \<noteq> ''delegate''"
  shows "(\<forall>agent def. FindAgent (bs_workflow spec) agent = Some def \<and> n \<in> set (ad_tools def) \<longrightarrow> (\<exists>e. BuildAgentNode spec = Inl e)) \<and>
    (\<forall>b. BuildAgentNode spec = Inr b \<longrightarrow>
       (\<exists>view. ac_view (ba_cfg b) = Some view \<and> View_Invoke view n args cid w = (Inr (error_json ''tool_not_allowed''), w)) \<and>
       (\<forall>child cdef run root ctx. FindAgent (bs_workflow spec) child = Some cdef \<and> sc_tool_tiers ctx = bs_tool_tiers spec \<longrightarrow>
          View_Invoke (child_view (runtime_of spec) run child cdef root ctx) n args cid w = (Inr (error_json ''tool_not_allowed''), w)))"
proof -
  obtain def where def: "FindAgent (bs_workflow spec) (bs_agent_name spec) = Some def" using assms(1) by blast
  have none: "confirm_tools spec = []" if "BuildAgentNode spec = Inr b" for b
    using that assms(2,3) def by (auto simp: BuildAgentNode_def Let_def bind_status_Inr_iff split: if_splits)
  have view: "ac_view (ba_cfg b) = Some (InvocationToolView (bs_cancelled spec) (bs_host_tools spec) (ad_tools def) (bs_tool_tiers spec)
      (top_tool_context spec) (bs_tool_gate spec))" if "BuildAgentNode spec = Inr b" for b
    using that def by (auto simp: BuildAgentNode_def Let_def bind_status_Inr_iff split: if_splits)
  have undeclared: "n \<notin> set (ad_tools d)" if "BuildAgentNode spec = Inr b" "FindAgent (bs_workflow spec) agent = Some d" for b agent d
    by (rule confirm_tools_none[OF none[OF that(1)] that(2) assms(4)])
  have "View_Invoke (child_view (runtime_of spec) run child cdef root ctx) n args cid w = (Inr (error_json ''tool_not_allowed''), w)"
    if "BuildAgentNode spec = Inr b" "FindAgent (bs_workflow spec) child = Some cdef" for b run child cdef root ctx
    using undeclared[OF that] by (simp add: View_Invoke_def child_view_other[OF assms(5)] view_lookup)
  moreover have "\<exists>e. BuildAgentNode spec = Inl e" if "FindAgent (bs_workflow spec) agent = Some d" "n \<in> set (ad_tools d)" for agent d
    using undeclared[OF _ that(1)] that(2) by (cases "BuildAgentNode spec") auto
  ultimately show ?thesis using view view_undeclared[OF undeclared[OF _ def]] by fastforce
qed

definition sample_stream :: "sub_event list stream_env" where
  "sample_stream = \<lparr>se_has_io = True, se_top_channel = None, se_spawn = (\<lambda>_ w. (\<lambda>_ u. u, w))\<rparr>"

definition sample_team :: workflow_spec where
  "sample_team = empty_spec\<lparr>ws_agents := [(''lead'', empty_agent\<lparr>ad_tools := [''list'']\<rparr>), (''aide'', empty_agent)]\<rparr>"

text \<open>A tool of the confirm tier that is registered and would lose the trace.\<close>

definition erase_tool :: "sub_event list tool" where
  "erase_tool = NativeFnTool \<lparr>ts_name = ''erase'', ts_description = [], ts_params_json_schema = ''{}''\<rparr> (\<lambda>args cid w. (Inr ''gone'', []))"

definition sample_build :: "(string, sub_event list) agent_build_spec" where
  "sample_build = \<lparr>bs_workflow = sample_team, bs_agent_name = ''lead'', bs_host_tools = Register_tool erase_tool (new_tool_registry False),
     bs_tool_tiers = [(''erase'', kConfirm)], bs_tool_gate = None, bs_fail_closed_confirm = True, bs_tool_event = None,
     bs_backend = Some \<lparr>cb_create = (\<lambda>_ w. (Inr None, w))\<rparr>, bs_backends = [], bs_emit = None, bs_input_field = ''q'', bs_output_field = ''a'',
     bs_max_iter = 8, bs_stream = sample_stream, bs_cancelled = (\<lambda>_. False), bs_gen_uuid = (\<lambda>w. (''id'', w)), bs_parse = counting_parse,
     bs_dump = counting_dump, bs_dump_lenient = counting_dump, bs_api = sample_api, bs_overflow = (\<lambda>_. 0)\<rparr>"

text \<open>The same workflow, with the tool declared by the sub-agent.\<close>

definition declaring_build :: "(string, sub_event list) agent_build_spec" where
  "declaring_build = sample_build\<lparr>bs_workflow :=
     empty_spec\<lparr>ws_agents := [(''lead'', empty_agent), (''aide'', empty_agent\<lparr>ad_tools := [''erase'']\<rparr>)]\<rparr>\<rparr>"

theorem confirm_fails_closed_witness:
  "Has (bs_host_tools sample_build) ''erase'' \<and> (\<exists>e. BuildAgentNode declaring_build = Inl e) \<and>
   (\<exists>b view. BuildAgentNode sample_build = Inr b \<and> ac_view (ba_cfg b) = Some view \<and>
     View_Invoke view ''erase'' ''{}'' ''c1'' [] = (Inr (error_json ''tool_not_allowed''), []))"
proof -
  note defs = sample_build_def declaring_build_def sample_team_def FindAgent_def tier_of_def empty_spec_def
  have "\<exists>b. BuildAgentNode sample_build = Inr b"
    by (simp add: BuildAgentNode_def Let_def defs ResolveBackend_def ResolveNamedBackend_def empty_agent_def empty_model_def
        confirm_tools_def)
  then obtain b where b: "BuildAgentNode sample_build = Inr b" by blast
  have registered: "Has (bs_host_tools sample_build) ''erase''"
    by (simp add: defs Has_def has_key_def Register_tool_def erase_tool_def NativeFnTool_def tl_name_def new_tool_registry_def)
  have refused: "\<exists>view. ac_view (ba_cfg b) = Some view \<and>
      View_Invoke view ''erase'' ''{}'' ''c1'' [] = (Inr (error_json ''tool_not_allowed''), [])"
    using confirm_fails_closed[of sample_build "''erase''" "''{}''" "''c1''" "[]"] b by (simp add: defs)
  have "FindAgent (bs_workflow declaring_build) ''aide'' = Some (empty_agent\<lparr>ad_tools := [''erase'']\<rparr>)" by (simp add: defs)
  moreover have "FindAgent (bs_workflow declaring_build) (bs_agent_name declaring_build) \<noteq> None"
      "bs_fail_closed_confirm declaring_build" "bs_tool_gate declaring_build = None"
      "tier_of (bs_tool_tiers declaring_build) ''erase'' = kConfirm"
    by (simp_all add: defs)
  ultimately have "\<exists>e. BuildAgentNode declaring_build = Inl e"
    using confirm_fails_closed[of declaring_build "''erase''" "''{}''" "''c1''" "[]"] by fastforce
  with registered refused b show ?thesis by blast
qed

end
