(* ===== verification/Skill.thy ===== *)
theory Skill
  imports Skill_Utf8
begin

text \<open>
  \<open>agentflow/skills/skill.{h,cc}\<close>: the \<open>SKILL.md\<close> manifest, its frontmatter and its checks. The YAML parser is a
  parameter: a function to document trees and the conversion of a node to a string, each of which may throw.
\<close>

section \<open>Documents\<close>

datatype yaml = YNull | YScalar string | YSequence "yaml list" | YMapping "(yaml \<times> yaml) list"

record yaml_api =
  ya_load :: "string \<Rightarrow> string + yaml"
  ya_as_string :: "yaml \<Rightarrow> string + string"

fun IsScalar :: "yaml \<Rightarrow> bool" where
  "IsScalar (YScalar s) = True"
| "IsScalar _ = False"

type_synonym fs_path = "string list"

record skill =
  sk_name :: string
  sk_description :: string
  sk_license :: string
  sk_compatibility :: string
  sk_metadata :: "(string \<times> string) list"
  sk_allowed_tools :: "string list"
  sk_dir :: fs_path
  sk_body :: string
  sk_has_scripts :: bool

definition empty_skill :: skill where
  "empty_skill = \<lparr>sk_name = [], sk_description = [], sk_license = [], sk_compatibility = [], sk_metadata = [], sk_allowed_tools = [],
     sk_dir = [], sk_body = [], sk_has_scripts = False\<rparr>"

definition kMaxNameLen :: nat where "kMaxNameLen = 64"
definition kMaxDescriptionLen :: nat where "kMaxDescriptionLen = 1024"
definition kMaxCompatibilityLen :: nat where "kMaxCompatibilityLen = 500"

definition Invalid :: "string \<Rightarrow> status" where
  "Invalid msg = Status InvalidArgument msg"

definition quoted :: "string \<Rightarrow> string" where
  "quoted s = [CHR 0x27] @ s @ [CHR 0x27]"

section \<open>Helpers\<close>

text \<open>A throw of the YAML library ends in the one handler of \<open>ParseSkillMd\<close>.\<close>

definition yaml_failure :: "string \<Rightarrow> status" where
  "yaml_failure what = Invalid (''invalid YAML frontmatter: '' @ what)"

definition yaml_string :: "yaml_api \<Rightarrow> yaml \<Rightarrow> string status_or" where
  "yaml_string api node = (case ya_as_string api node of Inl what \<Rightarrow> Inl (yaml_failure what) | Inr s \<Rightarrow> Inr s)"

definition Scalar :: "yaml_api \<Rightarrow> yaml \<Rightarrow> string \<Rightarrow> string status_or" where
  "Scalar api node key =
     (if \<not> IsScalar node then Inl (Invalid (''frontmatter '' @ quoted key @ '' must be a string'')) else yaml_string api node)"

definition Utf8CharacterCount :: "string \<Rightarrow> string \<Rightarrow> nat status_or" where
  "Utf8CharacterCount s value_name =
     (if \<not> IsValidUtf8 s then Inl (Invalid (value_name @ '' must contain valid UTF-8''))
      else Inr (length (filter (\<lambda>c. byte_val c AND 0xC0 \<noteq> 0x80) s)))"

function frontmatter_loop :: "string \<Rightarrow> string \<Rightarrow> (string \<times> string) option" where
  "frontmatter_loop front rest =
     (case find_char (CHR 0x0A) rest of
        None \<Rightarrow> if rest = ''---'' then Some (front, []) else None
      | Some k \<Rightarrow>
          if take k rest = ''---'' then Some (front, dropWhile (\<lambda>c. c = CHR 0x0A) (drop (Suc k) rest))
          else frontmatter_loop (front @ take (Suc k) rest) (drop (Suc k) rest))"
  by pat_completeness auto
termination
  by (relation "measure (\<lambda>(front, rest). length rest)") (auto dest: find_char_SomeD)

declare frontmatter_loop.simps [simp del]

definition fence :: string where "fence = ''---'' @ [CHR 0x0A]"

definition SplitFrontmatter :: "string \<Rightarrow> (string \<times> string) status_or" where
  "SplitFrontmatter text =
     (if \<not> prefix fence text then Inl (Invalid (''SKILL.md must start with a '' @ quoted ''---'' @ '' YAML frontmatter line''))
      else case frontmatter_loop [] (drop 4 text) of
        None \<Rightarrow> Inl (Invalid (''SKILL.md frontmatter is not closed by a '' @ quoted ''---'' @ '' line''))
      | Some fb \<Rightarrow> Inr fb)"

text \<open>\<open>absl::StrSplit\<close> at any of the given bytes, empty pieces skipped.\<close>

fun split_words :: "(char \<Rightarrow> bool) \<Rightarrow> string \<Rightarrow> string \<Rightarrow> string list" where
  "split_words sep cur [] = (if cur = [] then [] else [cur])"
| "split_words sep cur (c # cs) =
     (if sep c then (if cur = [] then [] else [cur]) @ split_words sep [] cs else split_words sep (cur @ [c]) cs)"

fun crlf_to_lf :: "string \<Rightarrow> string" where
  "crlf_to_lf (c # d # cs) = (if c = CHR 0x0D \<and> d = CHR 0x0A then d # crlf_to_lf cs else c # crlf_to_lf (d # cs))"
| "crlf_to_lf cs = cs"

section \<open>Fields\<close>

definition tool_separator :: "char \<Rightarrow> bool" where
  "tool_separator c \<longleftrightarrow> c = CHR 0x20 \<or> c = CHR 0x09 \<or> c = CHR 0x0A"

definition apply_metadata :: "yaml_api \<Rightarrow> (string \<times> string) list \<Rightarrow> yaml \<times> yaml \<Rightarrow> (string \<times> string) list status_or" where
  "apply_metadata api m entry =
     bind_status (yaml_string api (fst entry)) (\<lambda>key.
     bind_status (Scalar api (snd entry) (''metadata.'' @ key)) (\<lambda>v. Inr (sorted_insert key v m)))"

definition ApplyField :: "yaml_api \<Rightarrow> string \<Rightarrow> yaml \<Rightarrow> skill \<times> string list \<Rightarrow> (skill \<times> string list) status_or" where
  "ApplyField api key v su =
     (case su of (sk, unknown) \<Rightarrow>
        if key = ''name'' then bind_status (Scalar api v key) (\<lambda>s. Inr (sk\<lparr>sk_name := s\<rparr>, unknown))
        else if key = ''description'' then bind_status (Scalar api v key) (\<lambda>s. Inr (sk\<lparr>sk_description := s\<rparr>, unknown))
        else if key = ''license'' then bind_status (Scalar api v key) (\<lambda>s. Inr (sk\<lparr>sk_license := s\<rparr>, unknown))
        else if key = ''compatibility'' then bind_status (Scalar api v key) (\<lambda>s. Inr (sk\<lparr>sk_compatibility := s\<rparr>, unknown))
        else if key = ''metadata'' then
          (case v of
             YMapping entries \<Rightarrow> bind_status (fold_status (apply_metadata api) (sk_metadata sk) entries) (\<lambda>m. Inr (sk\<lparr>sk_metadata := m\<rparr>, unknown))
           | _ \<Rightarrow> Inl (Invalid (''frontmatter '' @ quoted ''metadata'' @ '' must be a mapping'')))
        else if key = ''allowed-tools'' then
          (case v of
             YScalar _ \<Rightarrow> bind_status (yaml_string api v) (\<lambda>s.
               Inr (sk\<lparr>sk_allowed_tools := sk_allowed_tools sk @ split_words tool_separator [] s\<rparr>, unknown))
           | YSequence items \<Rightarrow>
               bind_status (fold_status (\<lambda>acc item. bind_status (Scalar api item ''allowed-tools[]'') (\<lambda>s. Inr (acc @ [s]))) (sk_allowed_tools sk) items)
                 (\<lambda>ts. Inr (sk\<lparr>sk_allowed_tools := ts\<rparr>, unknown))
           | _ \<Rightarrow> Inl (Invalid (''frontmatter '' @ quoted ''allowed-tools'' @ '' must be a string or a list'')))
        else Inr (sk, unknown @ [key]))"

definition name_char :: "char \<Rightarrow> bool" where
  "name_char c \<longleftrightarrow> (97 \<le> byte_val c \<and> byte_val c \<le> 122) \<or> ascii_isdigit c"

definition IsValidSkillName :: "string \<Rightarrow> bool" where
  "IsValidSkillName name \<longleftrightarrow>
     \<not> (name = [] \<or> length name > kMaxNameLen \<or> hd name = CHR ''-'' \<or> last name = CHR ''-'' \<or> find_sub ''--'' name \<noteq> None) \<and>
     list_all (\<lambda>c. name_char c \<or> c = CHR ''-'') name"

section \<open>The manifest\<close>

definition strip_bom :: "string \<Rightarrow> string" where
  "strip_bom raw = (if prefix [CHR 0xEF, CHR 0xBB, CHR 0xBF] raw then drop 3 raw else raw)"

definition read_fields :: "yaml_api \<Rightarrow> string \<Rightarrow> skill \<Rightarrow> (skill \<times> string list) status_or" where
  "read_fields api front sk = (case ya_load api front of
       Inl what \<Rightarrow> Inl (yaml_failure what)
     | Inr (YMapping fs) \<Rightarrow>
         fold_status (\<lambda>su f. bind_status (yaml_string api (fst f)) (\<lambda>key. ApplyField api key (snd f) su)) (sk, []) fs
     | Inr _ \<Rightarrow> Inl (Invalid ''SKILL.md frontmatter must be a YAML mapping''))"

definition check_skill :: "skill \<Rightarrow> string \<Rightarrow> status option" where
  "check_skill sk dir_name =
     (if sk_name sk = [] then Some (Invalid (''frontmatter is missing required '' @ quoted ''name''))
      else if \<not> IsValidSkillName (sk_name sk)
      then Some (Invalid (''skill name '' @ quoted (sk_name sk) @ '' must use 1-64 lowercase letters, digits, or single hyphens''))
      else if sk_name sk \<noteq> dir_name
      then Some (Invalid (''skill name '' @ quoted (sk_name sk) @ '' must equal its directory name '' @ quoted dir_name))
      else if trim_with ascii_isspace (sk_description sk) = []
      then Some (Invalid (''frontmatter is missing required non-empty '' @ quoted ''description''))
      else case Utf8CharacterCount (sk_description sk) (''frontmatter '' @ quoted ''description'') of
        Inl s \<Rightarrow> Some s
      | Inr n \<Rightarrow>
          if n > kMaxDescriptionLen then Some (Invalid (''frontmatter '' @ quoted ''description'' @ '' exceeds 1024 characters''))
          else case Utf8CharacterCount (sk_compatibility sk) (''frontmatter '' @ quoted ''compatibility'') of
            Inl s \<Rightarrow> Some s
          | Inr k \<Rightarrow>
              if k > kMaxCompatibilityLen then Some (Invalid (''frontmatter '' @ quoted ''compatibility'' @ '' exceeds 500 characters''))
              else None)"

definition ParseSkillMd :: "yaml_api \<Rightarrow> string \<Rightarrow> string \<Rightarrow> (skill \<times> string list) status_or" where
  "ParseSkillMd api raw dir_name =
     bind_status (SplitFrontmatter (crlf_to_lf (strip_bom raw))) (\<lambda>(front, body).
     bind_status (Utf8CharacterCount body ''SKILL.md body'') (\<lambda>_.
     bind_status (read_fields api front (empty_skill\<lparr>sk_body := body\<rparr>)) (\<lambda>(sk, unknown).
       case check_skill sk dir_name of Some s \<Rightarrow> Inl s | None \<Rightarrow> Inr (sk, unknown))))"

section \<open>Characters\<close>

lemma count_encode:
  assumes "scalar_value n"
  shows "length (filter (\<lambda>c. byte_val c AND 0xC0 \<noteq> 0x80) (utf8_encode n)) = 1"
proof -
  have simps: "byte_val (char_of k) div 64 = k div 64" if "k < 256" for k :: nat using that by (simp add: byte_val_char_of)
  consider "n < 0x80" | "0x80 \<le> n" "n < 0x800" | "0x800 \<le> n" "n < 0x10000" | "0x10000 \<le> n" by linarith
  then show ?thesis
  proof cases
    case 1
    then show ?thesis by (simp add: utf8_encode_def utf8_bytes_def continuation_byte simps)
  next
    case 2
    then have "0xC0 + n div 64 < 256" "(0xC0 + n div 64) div 64 \<noteq> 2" by linarith+
    then show ?thesis using 2 by (simp add: encode_2 continuation_byte simps tail_byte)
  next
    case 3
    then have "0xE0 + n div 4096 < 256" "(0xE0 + n div 4096) div 64 \<noteq> 2" by linarith+
    then show ?thesis using 3 by (simp add: encode_3 continuation_byte simps tail_byte)
  next
    case 4
    then have "0xF0 + n div 262144 < 256" "(0xF0 + n div 262144) div 64 \<noteq> 2" using assms by (auto simp: scalar_value_def)
    then show ?thesis using 4 by (simp add: encode_4 continuation_byte simps tail_byte)
  qed
qed

lemma count_encodes:
  "list_all scalar_value ns \<Longrightarrow> length (filter (\<lambda>c. byte_val c AND 0xC0 \<noteq> 0x80) (concat (map utf8_encode ns))) = length ns"
  by (induction ns) (simp_all add: count_encode[simplified])

lemma Utf8CharacterCount_iff:
  "Utf8CharacterCount s nm = Inr k \<longleftrightarrow> (\<exists>ns. list_all scalar_value ns \<and> s = concat (map utf8_encode ns) \<and> k = length ns)"
proof
  assume l: "Utf8CharacterCount s nm = Inr k"
  then obtain ns where ns: "list_all scalar_value ns" "s = concat (map utf8_encode ns)"
    by (auto simp: Utf8CharacterCount_def valid_iff split: if_splits)
  moreover have "k = length (filter (\<lambda>c. byte_val c AND 0xC0 \<noteq> 0x80) s)" using l by (auto simp: Utf8CharacterCount_def split: if_splits)
  ultimately show "\<exists>ns. list_all scalar_value ns \<and> s = concat (map utf8_encode ns) \<and> k = length ns"
    using count_encodes by blast
next
  assume "\<exists>ns. list_all scalar_value ns \<and> s = concat (map utf8_encode ns) \<and> k = length ns"
  then obtain ns where ns: "list_all scalar_value ns" "s = concat (map utf8_encode ns)" "k = length ns" by blast
  have "IsValidUtf8 s" unfolding ns(2) by (rule valid_complete[OF ns(1)])
  then show "Utf8CharacterCount s nm = Inr k"
    using count_encodes[OF ns(1)] ns by (simp add: Utf8CharacterCount_def)
qed

section \<open>Names\<close>

text \<open>Words of letters and digits, joined by single hyphens.\<close>

fun hyphenated :: "string list \<Rightarrow> string" where
  "hyphenated [] = []"
| "hyphenated [w] = w"
| "hyphenated (w # v # ws) = w @ CHR ''-'' # hyphenated (v # ws)"

definition name_word :: "string \<Rightarrow> bool" where
  "name_word w \<longleftrightarrow> w \<noteq> [] \<and> list_all name_char w"

text \<open>A name of the right characters with no hyphen at an end and no two in a row, read one word at a time.\<close>

definition good_name :: "string \<Rightarrow> bool" where
  "good_name s \<longleftrightarrow> s \<noteq> [] \<and> hd s \<noteq> CHR ''-'' \<and> last s \<noteq> CHR ''-'' \<and> (\<forall>i. \<not> prefix ''--'' (drop i s)) \<and>
     list_all (\<lambda>c. name_char c \<or> c = CHR ''-'') s"

lemma IsValidSkillName_good: "IsValidSkillName s \<longleftrightarrow> length s \<le> 64 \<and> good_name s"
proof -
  have "find_sub ''--'' s = None \<longleftrightarrow> (\<forall>i. \<not> prefix ''--'' (drop i s))"
    using find_sub_None[of "''--''" s] find_sub_Some_prefix[of "''--''" s] by (metis not_None_eq)
  then show ?thesis by (auto simp: IsValidSkillName_def good_name_def kMaxNameLen_def)
qed

lemma hyphen_no_name_char: "\<not> name_char (CHR ''-'')"
  by code_simp

lemma name_word_hyphen:
  assumes "name_word w"
  shows "CHR ''-'' \<notin> set w" and "hd w \<noteq> CHR ''-''" and "last w \<noteq> CHR ''-''"
proof -
  show no: "CHR ''-'' \<notin> set w" using assms hyphen_no_name_char by (auto simp: name_word_def list_all_iff)
  have "w \<noteq> []" using assms by (simp add: name_word_def)
  then show "hd w \<noteq> CHR ''-''" "last w \<noteq> CHR ''-''" using no by (metis hd_in_set) (metis \<open>w \<noteq> []\<close> last_in_set no)
qed

lemma good_name_word:
  assumes "name_word w"
  shows "good_name w"
proof -
  have "\<not> prefix ''--'' (drop i w)" for i
    using in_set_dropD[of "CHR ''-''" i w] name_word_hyphen(1)[OF assms] by (auto simp: prefix_def)
  then show ?thesis using assms name_word_hyphen[OF assms] by (auto simp: name_word_def good_name_def list_all_iff)
qed

lemma good_name_join:
  assumes w: "name_word w"
  shows "good_name (w @ CHR ''-'' # s) \<longleftrightarrow> good_name s"
proof -
  have no: "CHR ''-'' \<notin> set w" "w \<noteq> []" using name_word_hyphen[OF w] w by (simp_all add: name_word_def)
  have pairs: "(\<forall>i. \<not> prefix ''--'' (drop i (w @ CHR ''-'' # s))) \<longleftrightarrow> (s = [] \<or> hd s \<noteq> CHR ''-'') \<and> (\<forall>i. \<not> prefix ''--'' (drop i s))"
    using no(1)
  proof (induction w)
    case Nil
    have "(\<forall>i. \<not> prefix ''--'' (drop i (CHR ''-'' # s))) \<longleftrightarrow>
        \<not> prefix ''--'' (CHR ''-'' # s) \<and> (\<forall>i. \<not> prefix ''--'' (drop i s))"
      by (metis drop0 drop_Suc_Cons not0_implies_Suc)
    then show ?case by (cases s) auto
  next
    case (Cons c w)
    have "(\<forall>i. \<not> prefix ''--'' (drop i ((c # w) @ CHR ''-'' # s))) \<longleftrightarrow>
        \<not> prefix ''--'' ((c # w) @ CHR ''-'' # s) \<and> (\<forall>i. \<not> prefix ''--'' (drop i (w @ CHR ''-'' # s)))"
      by (metis append_Cons drop0 drop_Suc_Cons not0_implies_Suc)
    then show ?case using Cons by auto
  qed
  have "list_all (\<lambda>c. name_char c \<or> c = CHR ''-'') w" "hd w \<noteq> CHR ''-''"
    using w name_word_hyphen[OF w] by (auto simp: name_word_def list_all_iff)
  then show ?thesis unfolding good_name_def pairs using no(2) by (cases s) auto
qed

lemma good_name_words: "ws \<noteq> [] \<Longrightarrow> list_all name_word ws \<Longrightarrow> good_name (hyphenated ws)"
  by (induction ws rule: hyphenated.induct) (simp_all add: good_name_word good_name_join)

lemma words_of_good_name: "good_name s \<Longrightarrow> \<exists>ws. ws \<noteq> [] \<and> list_all name_word ws \<and> s = hyphenated ws"
proof (induction "length s" arbitrary: s rule: less_induct)
  case less
  let ?w = "takeWhile name_char s"
  have word: "name_word ?w"
    using less.prems by (cases s) (auto simp: name_word_def good_name_def list_all_iff dest: set_takeWhileD)
  show ?case
  proof (cases "dropWhile name_char s")
    case Nil
    then have "s = ?w" by (metis append_Nil2 takeWhile_dropWhile_id)
    then have "name_word s" using word by simp
    then show ?thesis by (intro exI[of _ "[s]"]) simp
  next
    case (Cons c t)
    then have s: "s = ?w @ c # t" by (metis takeWhile_dropWhile_id)
    have "\<not> name_char c" using Cons by (metis hd_dropWhile list.discI list.sel(1))
    moreover have "c \<in> set s" by (subst s) simp
    ultimately have c: "c = CHR ''-''" using less.prems by (auto simp: good_name_def list_all_iff)
    have "good_name t" using less.prems good_name_join[OF word, of t] s c by simp
    moreover have "length t < length s" by (subst s) simp
    ultimately obtain v vs where "list_all name_word (v # vs)" "t = hyphenated (v # vs)"
      using less.hyps[of t] by (metis list.exhaust)
    then show ?thesis using s c word by (intro exI[of _ "?w # v # vs"]) simp
  qed
qed

lemma IsValidSkillName_iff:
  "IsValidSkillName s \<longleftrightarrow> length s \<le> 64 \<and> (\<exists>ws. ws \<noteq> [] \<and> list_all name_word ws \<and> s = hyphenated ws)"
  using words_of_good_name good_name_words unfolding IsValidSkillName_good by blast

section \<open>Frontmatter\<close>

text \<open>A block of lines none of which is the closing fence.\<close>

fun lines_text :: "string list \<Rightarrow> string" where
  "lines_text [] = []"
| "lines_text (l # ls) = l @ CHR 0x0A # lines_text ls"

definition front_line :: "string \<Rightarrow> bool" where
  "front_line l \<longleftrightarrow> l \<noteq> ''---'' \<and> CHR 0x0A \<notin> set l"

lemma frontmatter_loop_lines:
  assumes "list_all front_line ls"
  shows "frontmatter_loop front (lines_text ls @ fence @ body) = Some (front @ lines_text ls, dropWhile (\<lambda>c. c = CHR 0x0A) body)"
  using assms
proof (induction ls arbitrary: front)
  case Nil
  have "find_char (CHR 0x0A) (''---'' @ CHR 0x0A # body) = Some (length ''---'')" by (rule find_char_append) simp
  then show ?case by (subst frontmatter_loop.simps) (simp add: fence_def)
next
  case (Cons l ls)
  have "find_char (CHR 0x0A) (l @ CHR 0x0A # lines_text ls @ fence @ body) = Some (length l)"
    using Cons.prems by (intro find_char_append) (simp add: front_line_def)
  then show ?case using Cons by (subst frontmatter_loop.simps) (simp add: front_line_def)
qed

lemma SplitFrontmatter_lines:
  assumes "list_all front_line ls" and "body = [] \<or> hd body \<noteq> CHR 0x0A"
  shows "SplitFrontmatter (fence @ lines_text ls @ fence @ body) = Inr (lines_text ls, body)"
proof -
  have "dropWhile (\<lambda>c. c = CHR 0x0A) body = body" using assms(2) by (cases body) auto
  then have "frontmatter_loop [] (lines_text ls @ fence @ body) = Some (lines_text ls, body)"
    using frontmatter_loop_lines[OF assms(1), of "[]" body] by simp
  moreover have "drop 4 (fence @ lines_text ls @ fence @ body) = lines_text ls @ fence @ body" by (simp add: fence_def)
  ultimately show ?thesis by (simp add: SplitFrontmatter_def)
qed

section \<open>Manifests that are accepted\<close>

definition characters :: "string \<Rightarrow> nat \<Rightarrow> bool" where
  "characters s n \<longleftrightarrow> (\<exists>ns. list_all scalar_value ns \<and> s = concat (map utf8_encode ns) \<and> length ns \<le> n)"

definition skill_ok :: "string \<Rightarrow> skill \<Rightarrow> bool" where
  "skill_ok dir_name sk \<longleftrightarrow>
     sk_name sk = dir_name \<and> length dir_name \<le> 64 \<and> (\<exists>ws. ws \<noteq> [] \<and> list_all name_word ws \<and> dir_name = hyphenated ws) \<and>
     (\<exists>c\<in>set (sk_description sk). \<not> ascii_isspace c) \<and>
     characters (sk_description sk) 1024 \<and> characters (sk_compatibility sk) 500 \<and> IsValidUtf8 (sk_body sk)"

lemma trim_empty: "trim_with P s = [] \<longleftrightarrow> list_all P s"
proof -
  have "trim_with P s = [] \<longleftrightarrow> (\<forall>c\<in>set (dropWhile P s). P c)"
    by (simp add: trim_with_def drop_suffix_while_def dropWhile_eq_Nil_conv)
  also have "\<dots> \<longleftrightarrow> dropWhile P s = []"
  proof
    assume all: "\<forall>c\<in>set (dropWhile P s). P c"
    show "dropWhile P s = []"
    proof (rule ccontr)
      assume "dropWhile P s \<noteq> []"
      then show False using all hd_dropWhile[of P s] hd_in_set by blast
    qed
  qed (metis empty_iff empty_set)
  finally show ?thesis by (simp add: dropWhile_eq_Nil_conv list_all_iff)
qed

lemma ApplyField_body: "ApplyField api key v (sk, u) = Inr (sk', u') \<Longrightarrow> sk_body sk' = sk_body sk"
  by (auto simp: ApplyField_def bind_status_Inr_iff split: if_splits yaml.splits)

lemma read_fields_body:
  assumes "read_fields api front sk = Inr (sk', u)"
  shows "sk_body sk' = sk_body sk"
proof -
  obtain fs where "fold_status (\<lambda>su f. bind_status (yaml_string api (fst f)) (\<lambda>key. ApplyField api key (snd f) su)) (sk, []) fs = Inr (sk', u)"
    using assms by (auto simp: read_fields_def split: sum.splits yaml.splits)
  then have "sk_body (fst (sk', u)) = sk_body sk"
    by (rule fold_status_inv) (auto simp: bind_status_Inr_iff dest: ApplyField_body)
  then show ?thesis by simp
qed

lemma check_skill_ok:
  assumes "check_skill sk dir_name = None" and "IsValidUtf8 (sk_body sk)"
  shows "skill_ok dir_name sk"
proof -
  obtain n k where "Utf8CharacterCount (sk_description sk) (''frontmatter '' @ quoted ''description'') = Inr n" "n \<le> 1024"
      "Utf8CharacterCount (sk_compatibility sk) (''frontmatter '' @ quoted ''compatibility'') = Inr k" "k \<le> 500"
    using assms(1) by (auto simp: check_skill_def kMaxDescriptionLen_def kMaxCompatibilityLen_def not_less split: if_splits sum.splits)
  then have "characters (sk_description sk) 1024" "characters (sk_compatibility sk) 500"
    unfolding characters_def Utf8CharacterCount_iff by blast+
  moreover have "IsValidSkillName (sk_name sk)" "sk_name sk = dir_name" "trim_with ascii_isspace (sk_description sk) \<noteq> []"
    using assms(1) by (auto simp: check_skill_def split: if_splits)
  ultimately show ?thesis
    using assms(2) by (auto simp: skill_ok_def IsValidSkillName_iff trim_empty list_all_iff)
qed

lemma ParseSkillMd_ok:
  assumes "ParseSkillMd api raw dir_name = Inr (sk, unknown)"
  shows "skill_ok dir_name sk"
proof -
  from assms obtain front body n where body: "Utf8CharacterCount body ''SKILL.md body'' = Inr n"
      and rd: "read_fields api front (empty_skill\<lparr>sk_body := body\<rparr>) = Inr (sk, unknown)" and ck: "check_skill sk dir_name = None"
    by (auto simp: ParseSkillMd_def bind_status_Inr_iff split: option.splits)
  have "IsValidUtf8 (sk_body sk)"
    using body read_fields_body[OF rd] by (auto simp: Utf8CharacterCount_def split: if_splits)
  from check_skill_ok[OF ck this] show ?thesis .
qed

end
