(* ===== verification/Skill_Library.thy ===== *)
theory Skill_Library
  imports Skill
begin

text \<open>
  \<open>agentflow/skills/skill_library.{h,cc}\<close>: loading the skills of an ordered list of root directories. The file system is
  a record of the answers of \<open>std::filesystem\<close> and of the streams; a path is the list of its components.
\<close>

section \<open>The file system\<close>

datatype file_type = FileNotFound | FileRegular | FileDirectory | FileOther

datatype fs_error = NoSuchFile | FsError string

definition ec_message :: "fs_error \<Rightarrow> string" where
  "ec_message e = (case e of NoSuchFile \<Rightarrow> ''No such file or directory'' | FsError m \<Rightarrow> m)"

text \<open>
  \<open>fs_entries\<close> is what iterating a directory meets: an entry with the answer of \<open>is_directory\<close>, or an error of the step.
\<close>

record fs_api =
  fs_string :: "fs_path \<Rightarrow> string"
  fs_exists :: "fs_path \<Rightarrow> fs_error + bool"
  fs_is_directory :: "fs_path \<Rightarrow> fs_error + bool"
  fs_entries :: "fs_path \<Rightarrow> fs_error + (fs_error + (fs_path \<times> (fs_error + bool))) list"
  fs_symlink_status :: "fs_path \<Rightarrow> fs_error + file_type"
  fs_status :: "fs_path \<Rightarrow> fs_error + file_type"
  fs_canonical :: "fs_path \<Rightarrow> fs_error + fs_path"
  fs_weakly_canonical :: "fs_path \<Rightarrow> string \<Rightarrow> fs_error + fs_path"
  fs_file_size :: "fs_path \<Rightarrow> fs_error + nat"
  fs_open :: "fs_path \<Rightarrow> string option option"
    \<comment> \<open>\<open>None\<close>: the file does not open; \<open>Some None\<close>: reading it fails\<close>

record skill_root =
  rt_dir :: fs_path
  rt_label :: string

definition RootFailure :: "skill_root \<Rightarrow> string \<Rightarrow> status" where
  "RootFailure root detail = Status FailedPrecondition (rt_label root @ '': '' @ detail)"

definition ReadWholeFile :: "fs_api \<Rightarrow> fs_path \<Rightarrow> string status_or" where
  "ReadWholeFile fs p = (case fs_open fs p of
       Some (Some contents) \<Rightarrow> Inr contents
     | _ \<Rightarrow> Inl (Status FailedPrecondition (''cannot read '' @ fs_string fs p)))"

section \<open>Directories of a root\<close>

definition list_failure :: "fs_api \<Rightarrow> skill_root \<Rightarrow> fs_error \<Rightarrow> status" where
  "list_failure fs root e = RootFailure root (''cannot list skills root '' @ fs_string fs (rt_dir root) @ '': '' @ ec_message e)"

fun collect_dirs :: "(fs_error + (fs_path \<times> (fs_error + bool))) list \<Rightarrow> fs_error + fs_path list" where
  "collect_dirs [] = Inr []"
| "collect_dirs (Inl e # es) = Inl e"
| "collect_dirs (Inr (p, Inl e) # es) = Inl e"
| "collect_dirs (Inr (p, Inr is_dir) # es) = bind_status (collect_dirs es) (\<lambda>ps. Inr (if is_dir then p # ps else ps))"

definition ListSkillDirs :: "fs_api \<Rightarrow> skill_root \<Rightarrow> fs_path list status_or" where
  "ListSkillDirs fs root =
     (case fs_exists fs (rt_dir root) of
        Inl e \<Rightarrow> Inl (RootFailure root (''cannot inspect skills root '' @ fs_string fs (rt_dir root) @ '': '' @ ec_message e))
      | Inr False \<Rightarrow> Inr []
      | Inr True \<Rightarrow>
         (case fs_is_directory fs (rt_dir root) of
            Inl e \<Rightarrow> Inl (RootFailure root (''skills root is not a readable directory: '' @ fs_string fs (rt_dir root) @ '': '' @ ec_message e))
          | Inr False \<Rightarrow> Inl (RootFailure root (''skills root is not a readable directory: '' @ fs_string fs (rt_dir root)))
          | Inr True \<Rightarrow>
             (case fs_entries fs (rt_dir root) of
                Inl e \<Rightarrow> Inl (list_failure fs root e)
              | Inr es \<Rightarrow>
                 (case collect_dirs es of
                    Inl e \<Rightarrow> Inl (list_failure fs root e)
                  | Inr ps \<Rightarrow> Inr (sort ps)))))"

section \<open>One skill\<close>

record loaded_skill =
  ld_skill :: skill
  ld_manifest :: fs_path
  ld_unknown_fields :: "string list"

definition inspect_failure :: "fs_api \<Rightarrow> skill_root \<Rightarrow> fs_path \<Rightarrow> fs_error \<Rightarrow> status" where
  "inspect_failure fs root p e = RootFailure root (''cannot inspect '' @ fs_string fs p @ '': '' @ ec_message e)"

definition scripts_failure :: "fs_api \<Rightarrow> skill_root \<Rightarrow> fs_path \<Rightarrow> fs_error \<Rightarrow> status" where
  "scripts_failure fs root p e = RootFailure root (''cannot inspect scripts directory '' @ fs_string fs p @ '': '' @ ec_message e)"

definition has_scripts_dir :: "fs_api \<Rightarrow> skill_root \<Rightarrow> fs_path \<Rightarrow> bool status_or" where
  "has_scripts_dir fs root scripts_dir =
     (case fs_exists fs scripts_dir of
        Inl e \<Rightarrow> Inl (scripts_failure fs root scripts_dir e)
      | Inr False \<Rightarrow> Inr False
      | Inr True \<Rightarrow> (case fs_is_directory fs scripts_dir of Inl e \<Rightarrow> Inl (scripts_failure fs root scripts_dir e) | Inr d \<Rightarrow> Inr d))"

definition load_manifest :: "yaml_api \<Rightarrow> fs_api \<Rightarrow> skill_root \<Rightarrow> fs_path \<Rightarrow> loaded_skill status_or" where
  "load_manifest api fs root dir =
     (let md = dir @ [''SKILL.md''] in
      case ReadWholeFile fs md of
        Inl s \<Rightarrow> Inl (RootFailure root (message s))
      | Inr contents \<Rightarrow>
         (case ParseSkillMd api contents (last dir) of
            Inl s \<Rightarrow> Inl (Status InvalidArgument (rt_label root @ '': '' @ fs_string fs md @ '': '' @ message s))
          | Inr (sk, unknown) \<Rightarrow>
             (case fs_canonical fs dir of
                Inl e \<Rightarrow> Inl (RootFailure root (''cannot resolve '' @ fs_string fs dir @ '': '' @ ec_message e))
              | Inr c \<Rightarrow> bind_status (has_scripts_dir fs root (dir @ [''scripts''])) (\<lambda>scripts.
                  Inr \<lparr>ld_skill = sk\<lparr>sk_dir := c, sk_has_scripts := scripts\<rparr>, ld_manifest = md, ld_unknown_fields = unknown\<rparr>))))"

definition LoadSkillDir :: "yaml_api \<Rightarrow> fs_api \<Rightarrow> skill_root \<Rightarrow> fs_path \<Rightarrow> loaded_skill option status_or" where
  "LoadSkillDir api fs root dir =
     (let md = dir @ [''SKILL.md''] in
      case fs_symlink_status fs md of
        Inl NoSuchFile \<Rightarrow> Inr None
      | Inl e \<Rightarrow> Inl (inspect_failure fs root md e)
      | Inr FileNotFound \<Rightarrow> Inr None
      | Inr _ \<Rightarrow>
         (case fs_status fs md of
            Inl e \<Rightarrow> Inl (inspect_failure fs root md e)
          | Inr t \<Rightarrow>
              if t \<noteq> FileRegular then Inl (RootFailure root (''SKILL.md is not a regular file: '' @ fs_string fs md))
              else bind_status (load_manifest api fs root dir) (\<lambda>l. Inr (Some l))))"

section \<open>The library\<close>

record skill_library =
  sl_skills :: "(string \<times> skill) list"
  sl_warnings :: "string list"

definition add_warnings :: "fs_api \<Rightarrow> skill_root \<Rightarrow> loaded_skill \<Rightarrow> skill_library \<Rightarrow> string list" where
  "add_warnings fs root entry lib =
     sl_warnings lib @
     map (\<lambda>f. rt_label root @ '': '' @ fs_string fs (ld_manifest entry) @ '': ignored unknown frontmatter field '' @ quoted f) (ld_unknown_fields entry) @
     (if has_key (sl_skills lib) (sk_name (ld_skill entry))
      then [rt_label root @ '': skill '' @ quoted (sk_name (ld_skill entry)) @ '' overrides one from a lower-priority root''] else [])"

definition load_dir :: "yaml_api \<Rightarrow> fs_api \<Rightarrow> skill_root \<Rightarrow> skill_library \<Rightarrow> fs_path \<Rightarrow> skill_library status_or" where
  "load_dir api fs root lib dir =
     bind_status (LoadSkillDir api fs root dir) (\<lambda>loaded. case loaded of
        None \<Rightarrow> Inr lib
      | Some entry \<Rightarrow> Inr \<lparr>sl_skills = sorted_insert (sk_name (ld_skill entry)) (ld_skill entry) (sl_skills lib),
                            sl_warnings = add_warnings fs root entry lib\<rparr>)"

definition load_root :: "yaml_api \<Rightarrow> fs_api \<Rightarrow> skill_library \<Rightarrow> skill_root \<Rightarrow> skill_library status_or" where
  "load_root api fs lib root = bind_status (ListSkillDirs fs root) (\<lambda>dirs. fold_status (load_dir api fs root) lib dirs)"

definition SkillLibrary_Load :: "yaml_api \<Rightarrow> fs_api \<Rightarrow> skill_root list \<Rightarrow> skill_library status_or" where
  "SkillLibrary_Load api fs roots = fold_status (load_root api fs) \<lparr>sl_skills = [], sl_warnings = []\<rparr> roots"

definition SkillLibrary_Find :: "skill_library \<Rightarrow> string \<Rightarrow> skill option" where
  "SkillLibrary_Find lib name = map_of (sl_skills lib) name"

definition SkillLibrary_All :: "skill_library \<Rightarrow> skill list" where
  "SkillLibrary_All lib = map snd (sl_skills lib)"

definition select_step :: "skill_library \<Rightarrow> skill list \<times> string list \<Rightarrow> string \<Rightarrow> (skill list \<times> string list) status_or" where
  "select_step lib acc name = (case acc of (selected, seen) \<Rightarrow>
     if name \<in> set seen then Inl (Status InvalidArgument (''skill '' @ quoted name @ '' is listed twice''))
     else case SkillLibrary_Find lib name of
       None \<Rightarrow> Inl (Status NotFound (''unknown skill '' @ quoted name))
     | Some sk \<Rightarrow> Inr (selected @ [sk], seen @ [name]))"

definition SkillLibrary_Select :: "skill_library \<Rightarrow> string list \<Rightarrow> skill list status_or" where
  "SkillLibrary_Select lib names = bind_status (fold_status (select_step lib) ([], []) names) (\<lambda>(selected, seen). Inr selected)"

section \<open>What a library holds\<close>

text \<open>What the directories of one root offer, in their order, when all of them load.\<close>

definition dir_offer :: "yaml_api \<Rightarrow> fs_api \<Rightarrow> skill_root \<Rightarrow> fs_path \<Rightarrow> (string \<times> skill) list" where
  "dir_offer api fs root dir = (case LoadSkillDir api fs root dir of
       Inr (Some entry) \<Rightarrow> [(sk_name (ld_skill entry), ld_skill entry)]
     | _ \<Rightarrow> [])"

definition root_offers :: "yaml_api \<Rightarrow> fs_api \<Rightarrow> skill_root \<Rightarrow> (string \<times> skill) list" where
  "root_offers api fs root = (case ListSkillDirs fs root of Inr dirs \<Rightarrow> concat (map (dir_offer api fs root) dirs) | Inl _ \<Rightarrow> [])"

definition map_sorted :: "(string \<times> 'a) list \<Rightarrow> bool" where
  "map_sorted m \<longleftrightarrow> sorted (map fst m) \<and> distinct (map fst m)"

text \<open>The skills as a keyed store: \<open>insert_or_assign\<close> and \<open>find\<close> of \<open>std::map\<close>.\<close>

interpretation skill_map: keyed_store "map_of :: (string \<times> skill) list \<Rightarrow> string \<Rightarrow> skill option" sorted_insert map_sorted
proof
  fix s :: "(string \<times> skill) list" and k k' v
  assume inv: "map_sorted s"
  show "map_of (sorted_insert k v s) k' = (if k' = k then Some v else map_of s k')" by simp
  show "map_sorted (sorted_insert k v s)" using inv sorted_sorted_insert[of s k v] by (simp add: map_sorted_def)
qed

lemma put_all_append: "skill_map.put_all (xs @ ys) s = skill_map.put_all ys (skill_map.put_all xs s)"
  by (simp add: skill_map.put_all_def)

lemma load_dir_offer:
  assumes "load_dir api fs root lib dir = Inr lib'"
  shows "sl_skills lib' = skill_map.put_all (dir_offer api fs root dir) (sl_skills lib)"
proof -
  obtain loaded where l: "LoadSkillDir api fs root dir = Inr loaded"
    using assms by (auto simp: load_dir_def bind_status_Inr_iff)
  show ?thesis using assms
    by (cases loaded) (auto simp: load_dir_def dir_offer_def l skill_map.put_all_def)
qed

lemma load_dirs_offer:
  "fold_status (load_dir api fs root) lib dirs = Inr lib' \<Longrightarrow>
   sl_skills lib' = skill_map.put_all (concat (map (dir_offer api fs root) dirs)) (sl_skills lib)"
proof (induction dirs arbitrary: lib)
  case Nil
  then show ?case by (simp add: skill_map.put_all_def)
next
  case (Cons d ds)
  then obtain lib1 where "load_dir api fs root lib d = Inr lib1" "fold_status (load_dir api fs root) lib1 ds = Inr lib'"
    by (auto simp: bind_status_Inr_iff)
  with Cons.IH show ?case by (simp add: put_all_append load_dir_offer)
qed

lemma load_root_offers:
  "load_root api fs lib root = Inr lib' \<Longrightarrow> sl_skills lib' = skill_map.put_all (root_offers api fs root) (sl_skills lib)"
  by (auto simp: load_root_def root_offers_def bind_status_Inr_iff dest: load_dirs_offer)

lemma load_roots_offers:
  "fold_status (load_root api fs) lib roots = Inr lib' \<Longrightarrow>
   sl_skills lib' = skill_map.put_all (concat (map (root_offers api fs) roots)) (sl_skills lib)"
proof (induction roots arbitrary: lib)
  case Nil
  then show ?case by (simp add: skill_map.put_all_def)
next
  case (Cons r rs)
  then obtain lib1 where "load_root api fs lib r = Inr lib1" "fold_status (load_root api fs) lib1 rs = Inr lib'"
    by (auto simp: bind_status_Inr_iff)
  with Cons.IH show ?case by (simp add: put_all_append load_root_offers)
qed

lemma LoadSkillDir_ok:
  assumes "LoadSkillDir api fs root dir = Inr (Some entry)"
  shows "skill_ok (last dir) (ld_skill entry)"
proof -
  have "load_manifest api fs root dir = Inr entry"
    using assms by (auto simp: LoadSkillDir_def Let_def bind_status_Inr_iff split: sum.splits fs_error.splits file_type.splits if_splits)
  then obtain raw sk u c b where "ParseSkillMd api raw (last dir) = Inr (sk, u)" "ld_skill entry = sk\<lparr>sk_dir := c, sk_has_scripts := b\<rparr>"
    by (auto simp: load_manifest_def Let_def bind_status_Inr_iff split: sum.splits)
  then show ?thesis using ParseSkillMd_ok by (fastforce simp: skill_ok_def)
qed

lemma dir_offer_ok:
  assumes "(n, sk) \<in> set (dir_offer api fs root dir)"
  shows "skill_ok n sk"
proof (cases "LoadSkillDir api fs root dir")
  case (Inl e)
  then show ?thesis using assms by (simp add: dir_offer_def)
next
  case (Inr loaded)
  then obtain entry where l: "loaded = Some entry" using assms by (cases loaded) (simp_all add: dir_offer_def)
  then have "n = sk_name (ld_skill entry)" "sk = ld_skill entry" using assms Inr by (simp_all add: dir_offer_def)
  with LoadSkillDir_ok[OF Inr[unfolded l]] show ?thesis by (simp add: skill_ok_def)
qed

lemma root_offers_ok: "(n, sk) \<in> set (root_offers api fs root) \<Longrightarrow> skill_ok n sk"
  by (auto simp: root_offers_def dir_offer_ok split: sum.splits)

lemma map_sorted_Nil [simp]: "map_sorted []"
  by (simp add: map_sorted_def)

lemma Load_skills:
  assumes "SkillLibrary_Load api fs roots = Inr lib"
  shows "map_sorted (sl_skills lib) \<and>
    (\<forall>n. SkillLibrary_Find lib n = map_of (rev (concat (map (root_offers api fs) roots))) n) \<and>
    (\<forall>n sk. SkillLibrary_Find lib n = Some sk \<longrightarrow> skill_ok n sk)"
proof -
  let ?offers = "concat (map (root_offers api fs) roots)"
  have skills: "sl_skills lib = skill_map.put_all ?offers []"
    using load_roots_offers[OF assms[unfolded SkillLibrary_Load_def]] by simp
  have find: "SkillLibrary_Find lib n = map_of (rev ?offers) n" for n
    using skill_map.get_put_all[of "[]" ?offers n] by (simp add: SkillLibrary_Find_def skills split: option.splits)
  have "skill_ok n sk" if "SkillLibrary_Find lib n = Some sk" for n sk
  proof -
    have "(n, sk) \<in> set ?offers" using map_of_SomeD[OF that[unfolded find]] by simp
    then show ?thesis using root_offers_ok by force
  qed
  moreover have "map_sorted (sl_skills lib)" unfolding skills by (rule skill_map.invar_put_all) simp
  ultimately show ?thesis using find by blast
qed

section \<open>Selecting\<close>

lemma select_fold:
  "fold_status (select_step lib) (selected, seen) names = Inr (selected', seen') \<longleftrightarrow>
     distinct names \<and> set names \<inter> set seen = {} \<and> list_all (\<lambda>n. SkillLibrary_Find lib n \<noteq> None) names \<and>
     selected' = selected @ map (the \<circ> SkillLibrary_Find lib) names \<and> seen' = seen @ names"
proof (induction names arbitrary: selected seen)
  case (Cons n ns)
  show ?case
  proof (cases "n \<in> set seen \<or> SkillLibrary_Find lib n = None")
    case True
    then show ?thesis by (auto simp: select_step_def)
  next
    case False
    then obtain sk where "SkillLibrary_Find lib n = Some sk" "n \<notin> set seen" by auto
    then have "select_step lib (selected, seen) n = Inr (selected @ [sk], seen @ [n])" by (simp add: select_step_def)
    then show ?thesis using \<open>SkillLibrary_Find lib n = Some sk\<close> \<open>n \<notin> set seen\<close> by (auto simp: Cons.IH)
  qed
qed auto

lemma Select_iff:
  "SkillLibrary_Select lib names = Inr selected \<longleftrightarrow>
     distinct names \<and> map (SkillLibrary_Find lib) names = map Some selected"
proof -
  have "SkillLibrary_Select lib names = Inr selected \<longleftrightarrow>
      distinct names \<and> list_all (\<lambda>n. SkillLibrary_Find lib n \<noteq> None) names \<and> selected = map (the \<circ> SkillLibrary_Find lib) names"
    by (auto simp: SkillLibrary_Select_def bind_status_Inr_iff select_fold)
  also have "\<dots> \<longleftrightarrow> distinct names \<and> map (SkillLibrary_Find lib) names = map Some selected"
    by (induction names arbitrary: selected) (auto simp: map_eq_Cons_conv list_all_iff)
  finally show ?thesis .
qed

end
