(* ===== verification/Skill_Tools.thy ===== *)
theory Skill_Tools
  imports Skill_Library Tools
begin

text \<open>
  \<open>agentflow/skills/skill_tools.{h,cc}\<close>: the two read-only tools over a skill library and the catalogue for the system
  prompt. The host runs on POSIX: a path is absolute when it starts with a slash and has no root name.
\<close>

definition kMaxSkillFileBytes :: nat where "kMaxSkillFileBytes = 262144"

definition kLoadSkillToolName :: string where "kLoadSkillToolName = ''load_skill''"
definition kReadSkillFileToolName :: string where "kReadSkillFileToolName = ''read_skill_file''"

definition skill_error :: "json_dumper \<Rightarrow> string \<Rightarrow> string \<Rightarrow> string" where
  "skill_error dump err msg = dump (jobj [(''error'', JStr err), (''message'', JStr msg)])"

definition VisibleSkill :: "json_dumper \<Rightarrow> json option \<Rightarrow> string \<Rightarrow> skill_library \<Rightarrow> string list \<Rightarrow> string + skill" where
  "VisibleSkill dump args key lib visible =
     (case (case args of None \<Rightarrow> None | Some j \<Rightarrow> jstring j key) of
        None \<Rightarrow> Inl (skill_error dump ''bad_args'' (quoted key @ '' must be a string''))
      | Some name \<Rightarrow>
         (case (if name \<in> set visible then SkillLibrary_Find lib name else None) of
            None \<Rightarrow> Inl (skill_error dump ''unknown_skill'' (''unknown skill '' @ quoted name @ ''; available: '' @ join_with '', '' visible))
          | Some sk \<Rightarrow> Inr sk))"

definition em_dash :: string where "em_dash = [CHR 0xE2, CHR 0x80, CHR 0x94]"

definition LoadSkill :: "json_parser \<Rightarrow> json_dumper \<Rightarrow> skill_library \<Rightarrow> string list \<Rightarrow> string \<Rightarrow> string" where
  "LoadSkill parse dump lib visible args_json =
     (case VisibleSkill dump (parse args_json) ''name'' lib visible of
        Inl err \<Rightarrow> err
      | Inr sk \<Rightarrow> ''Skill directory: '' @ sk_name sk @ ''/ '' @ em_dash @
          '' use read_skill_file(skill, path) for files referenced below.'' @ [CHR 0x0A, CHR 0x0A] @ sk_body sk)"

section \<open>Reading a file of a skill\<close>

text \<open>The parallel walk over the components of both paths; the target must go on after the base.\<close>

fun IsContained :: "fs_path \<Rightarrow> fs_path \<Rightarrow> bool" where
  "IsContained [] target \<longleftrightarrow> target \<noteq> []"
| "IsContained (b # base) [] \<longleftrightarrow> False"
| "IsContained (b # base) (t # target) \<longleftrightarrow> b = t \<and> IsContained base target"

definition path_allowed :: "string \<Rightarrow> bool" where
  "path_allowed rel \<longleftrightarrow> \<not> (rel = [] \<or> CHR 0x00 \<in> set rel \<or> hd rel = CHR ''/'' \<or>
     ''..'' \<in> set (split_words (\<lambda>c. c = CHR ''/'') [] rel))"

definition read_content :: "json_dumper \<Rightarrow> fs_api \<Rightarrow> string \<Rightarrow> fs_path \<Rightarrow> string + string" where
  "read_content dump fs rel target =
     (case fs_open fs target of
        None \<Rightarrow> Inl (skill_error dump ''not_found'' (''cannot read '' @ quoted rel))
      | Some None \<Rightarrow> Inl (skill_error dump ''not_found'' (''cannot read '' @ quoted rel))
      | Some (Some bytes) \<Rightarrow>
         (let content = take (Suc kMaxSkillFileBytes) bytes in
          if length content > kMaxSkillFileBytes
          then Inl (skill_error dump ''too_large'' (quoted rel @ '' exceeds '' @ nat_to_dec kMaxSkillFileBytes @ '' bytes''))
          else if \<not> IsValidUtf8 content then Inl (skill_error dump ''not_utf8'' (quoted rel @ '' is not UTF-8 text''))
          else Inr content))"

definition read_target :: "json_dumper \<Rightarrow> fs_api \<Rightarrow> string \<Rightarrow> fs_path \<Rightarrow> string + string" where
  "read_target dump fs rel target =
     (let missing = Inl (skill_error dump ''not_found'' (''no such file '' @ quoted rel));
          no_file = Inl (skill_error dump ''not_a_file'' (quoted rel @ '' is not a regular file''))
      in case fs_status fs target of
           Inl NoSuchFile \<Rightarrow> missing
         | Inl (FsError _) \<Rightarrow> no_file
         | Inr FileNotFound \<Rightarrow> missing
         | Inr FileRegular \<Rightarrow>
            (case fs_file_size fs target of
               Inl _ \<Rightarrow> Inl (skill_error dump ''not_found'' (''cannot read '' @ quoted rel))
             | Inr n \<Rightarrow>
                 if n > kMaxSkillFileBytes
                 then Inl (skill_error dump ''too_large'' (quoted rel @ '' exceeds '' @ nat_to_dec kMaxSkillFileBytes @ '' bytes''))
                 else read_content dump fs rel target)
         | Inr _ \<Rightarrow> no_file)"

definition read_skill_path :: "json_dumper \<Rightarrow> fs_api \<Rightarrow> skill \<Rightarrow> string \<Rightarrow> string + string" where
  "read_skill_path dump fs sk rel =
     (if \<not> path_allowed rel then Inl (skill_error dump ''path_not_allowed'' ''path must stay within the skill directory'')
      else case fs_weakly_canonical fs (sk_dir sk) rel of
        Inl _ \<Rightarrow> Inl (skill_error dump ''not_found'' (''cannot resolve '' @ quoted rel))
      | Inr target \<Rightarrow>
          if \<not> IsContained (sk_dir sk) target then Inl (skill_error dump ''path_not_allowed'' ''path escapes the skill directory'')
          else read_target dump fs rel target)"

text \<open>\<open>Inl\<close> is an error text, \<open>Inr\<close> the content of a file; the tool answers either as a string.\<close>

definition read_request :: "json_parser \<Rightarrow> json_dumper \<Rightarrow> fs_api \<Rightarrow> skill_library \<Rightarrow> string list \<Rightarrow> string \<Rightarrow> string + string" where
  "read_request parse dump fs lib visible args_json =
     (case VisibleSkill dump (parse args_json) ''skill'' lib visible of
        Inl err \<Rightarrow> Inl err
      | Inr sk \<Rightarrow>
         (case (case parse args_json of None \<Rightarrow> None | Some j \<Rightarrow> jstring j ''path'') of
            None \<Rightarrow> Inl (skill_error dump ''bad_args'' (quoted ''path'' @ '' must be a string''))
          | Some rel \<Rightarrow> read_skill_path dump fs sk rel))"

definition ReadSkillFile :: "json_parser \<Rightarrow> json_dumper \<Rightarrow> fs_api \<Rightarrow> skill_library \<Rightarrow> string list \<Rightarrow> string \<Rightarrow> string" where
  "ReadSkillFile parse dump fs lib visible args_json =
     (case read_request parse dump fs lib visible args_json of Inl err \<Rightarrow> err | Inr content \<Rightarrow> content)"

section \<open>The tools\<close>

definition load_schema :: "string list \<Rightarrow> json" where
  "load_schema visible = jobj [(''type'', JStr ''object''),
     (''properties'', jobj [(''name'', jobj [(''type'', JStr ''string''), (''enum'', JArr (map JStr visible)),
        (''description'', JStr ''Skill to load.'')])]),
     (''required'', JArr [JStr ''name'']), (''additionalProperties'', JBool False)]"

definition read_schema :: "string list \<Rightarrow> json" where
  "read_schema visible = jobj [(''type'', JStr ''object''),
     (''properties'', jobj [(''skill'', jobj [(''type'', JStr ''string''), (''enum'', JArr (map JStr visible)),
          (''description'', JStr ''Skill that owns the file.'')]),
        (''path'', jobj [(''type'', JStr ''string''), (''description'', JStr ''File path relative to the skill directory.'')])]),
     (''required'', JArr [JStr ''skill'', JStr ''path'']), (''additionalProperties'', JBool False)]"

definition MakeSkillTools :: "json_parser \<Rightarrow> json_dumper \<Rightarrow> fs_api \<Rightarrow> skill_library option \<Rightarrow> string list \<Rightarrow> 'w tool list status_or" where
  "MakeSkillTools parse dump fs library visible =
     (if visible = [] then Inr []
      else case library of
        None \<Rightarrow> Inl (Status InvalidArgument ''skill library is null'')
      | Some lib \<Rightarrow>
          bind_status (SkillLibrary_Select lib visible) (\<lambda>_.
            Inr [NativeFnTool \<lparr>ts_name = kLoadSkillToolName, ts_description = ''Load a skill'' @ [CHR 0x27] @ ''s full instructions by name.'',
                   ts_params_json_schema = dump (load_schema visible)\<rparr> (\<lambda>args cid w. (Inr (LoadSkill parse dump lib visible args), w)),
                 NativeFnTool \<lparr>ts_name = kReadSkillFileToolName,
                   ts_description = ''Read a skill'' @ [CHR 0x27] @ ''s text file, including references and scripts. Scripts are never executed.'',
                   ts_params_json_schema = dump (read_schema visible)\<rparr>
                   (\<lambda>args cid w. (Inr (ReadSkillFile parse dump fs lib visible args), w))]))"

definition word_separator :: "char \<Rightarrow> bool" where
  "word_separator c \<longleftrightarrow> c = CHR 0x20 \<or> c = CHR 0x09 \<or> c = CHR 0x0D \<or> c = CHR 0x0A"

definition catalog_line :: "skill \<Rightarrow> string" where
  "catalog_line sk = ''- '' @ sk_name sk @ '': '' @ join_with '' '' (split_words word_separator [] (sk_description sk)) @ [CHR 0x0A]"

definition RenderSkillCatalog :: "skill list \<Rightarrow> string" where
  "RenderSkillCatalog skills =
     (if skills = [] then []
      else ''## Skills'' @ [CHR 0x0A] @
        ''Load a skill on demand: when it applies to the task, call load_skill(name) and read its full instructions before acting.'' @ [CHR 0x0A] @
        concat (map catalog_line skills))"

section \<open>Containment\<close>

lemma IsContained_iff: "IsContained base target \<longleftrightarrow> strict_prefix base target"
  by (induction base target rule: IsContained.induct) (auto simp: strict_prefix_def)

lemma VisibleSkill_Inr: "VisibleSkill dump args key lib visible = Inr sk \<Longrightarrow> \<exists>n\<in>set visible. SkillLibrary_Find lib n = Some sk"
  by (auto simp: VisibleSkill_def split: option.splits if_splits)

lemma read_request_Inr:
  assumes "read_request parse dump fs lib visible args = Inr content"
  shows "\<exists>n\<in>set visible. \<exists>sk target. SkillLibrary_Find lib n = Some sk \<and> strict_prefix (sk_dir sk) target \<and>
    fs_open fs target = Some (Some content) \<and> length content \<le> 262144 \<and> IsValidUtf8 content"
proof -
  obtain sk rel where sk: "VisibleSkill dump (parse args) ''skill'' lib visible = Inr sk" "read_skill_path dump fs sk rel = Inr content"
    using assms by (auto simp: read_request_def split: sum.splits option.splits)
  then obtain target where t: "IsContained (sk_dir sk) target" "read_target dump fs rel target = Inr content"
    by (auto simp: read_skill_path_def split: if_splits sum.splits)
  then have "read_content dump fs rel target = Inr content"
    by (auto simp: read_target_def Let_def split: sum.splits fs_error.splits file_type.splits if_splits)
  then obtain bytes where b: "fs_open fs target = Some (Some bytes)" "content = take (Suc kMaxSkillFileBytes) bytes"
      "\<not> length content > kMaxSkillFileBytes" "IsValidUtf8 content"
    by (auto simp: read_content_def Let_def split: option.splits if_splits)
  then have "content = bytes" by (cases "length bytes \<le> Suc kMaxSkillFileBytes") auto
  then show ?thesis using VisibleSkill_Inr[OF sk(1)] t(1) b by (auto simp: IsContained_iff kMaxSkillFileBytes_def)
qed

text \<open>Two file systems that resolve paths alike and agree below a directory.\<close>

definition agree_below :: "fs_api \<Rightarrow> fs_api \<Rightarrow> fs_path set \<Rightarrow> bool" where
  "agree_below fs fs' dirs \<longleftrightarrow> fs_weakly_canonical fs = fs_weakly_canonical fs' \<and>
     (\<forall>d\<in>dirs. \<forall>p. strict_prefix d p \<longrightarrow>
        fs_status fs p = fs_status fs' p \<and> fs_file_size fs p = fs_file_size fs' p \<and> fs_open fs p = fs_open fs' p)"

lemma read_target_agree:
  assumes "fs_status fs p = fs_status fs' p" and "fs_file_size fs p = fs_file_size fs' p" and "fs_open fs p = fs_open fs' p"
  shows "read_target dump fs rel p = read_target dump fs' rel p"
  unfolding read_target_def read_content_def assms ..

lemma read_skill_path_agree:
  assumes "agree_below fs fs' {sk_dir sk}"
  shows "read_skill_path dump fs sk rel = read_skill_path dump fs' sk rel"
proof -
  have "read_target dump fs rel t = read_target dump fs' rel t" if "IsContained (sk_dir sk) t" for t
    using assms that by (intro read_target_agree) (auto simp: agree_below_def IsContained_iff)
  moreover have "fs_weakly_canonical fs = fs_weakly_canonical fs'" using assms by (simp add: agree_below_def)
  ultimately show ?thesis by (auto simp: read_skill_path_def split: sum.splits)
qed

section \<open>Properties\<close>

text \<open>
  C32. The validator accepts exactly the strict UTF-8 encodings of sequences of Unicode scalar values (no overlong forms, no
  surrogates, nothing above U+10FFFF), and on those the length the manifests are checked with is the number of code points.
\<close>

theorem utf8_count_exact:
  "(IsValidUtf8 s \<longleftrightarrow> (\<exists>ns. list_all scalar_value ns \<and> s = concat (map utf8_encode ns))) \<and>
   (Utf8CharacterCount s nm = Inr k \<longleftrightarrow> (\<exists>ns. list_all scalar_value ns \<and> s = concat (map utf8_encode ns) \<and> k = length ns))"
  using valid_iff Utf8CharacterCount_iff by blast

text \<open>
  Loading a library is a later-wins merge of what the roots offer: a name is found exactly when some root has it, with the
  skill of the last such root; the skills are kept in the order of their names and every one of them is well formed, carries
  the name of its directory, and has a body, a description and a compatibility note of valid UTF-8 within their limits.
\<close>

lemma skill_library_merges:
  assumes "SkillLibrary_Load api fs roots = Inr lib"
  shows "sorted_wrt (<) (map sk_name (SkillLibrary_All lib)) \<and>
    SkillLibrary_Find lib n = map_of (rev (concat (map (root_offers api fs) roots))) n \<and>
    (\<forall>sk. SkillLibrary_Find lib n = Some sk \<longrightarrow> skill_ok n sk)"
proof -
  note lib = Load_skills[OF assms]
  have "map_of (sl_skills lib) m = Some sk" if "(m, sk) \<in> set (sl_skills lib)" for m sk
    using lib that by (simp add: map_sorted_def)
  then have "sk_name (snd p) = fst p" if "p \<in> set (sl_skills lib)" for p
    using lib that by (cases p) (auto simp: SkillLibrary_Find_def skill_ok_def)
  then have "map sk_name (SkillLibrary_All lib) = map fst (sl_skills lib)" by (simp add: SkillLibrary_All_def)
  then show ?thesis using lib by (simp add: map_sorted_def strict_sorted_iff)
qed

text \<open>Two roots with the same skill, the second one with a newer description.\<close>

definition sample_files :: "(fs_path \<times> string) list" where
  "sample_files = [([''s'', ''pdf'', ''SKILL.md''], fence @ ''old'' @ [CHR 0x0A] @ fence @ ''body''),
     ([''t'', ''pdf'', ''SKILL.md''], fence @ ''new'' @ [CHR 0x0A] @ fence @ ''body''),
     ([''t'', ''pdf'', ''a.md''], ''hello''), ([''key''], ''secret'')]"

definition sample_dirs :: "fs_path list" where
  "sample_dirs = [[''s''], [''t''], [''s'', ''pdf''], [''t'', ''pdf'']]"

definition files_fs :: "(fs_path \<times> string) list \<Rightarrow> fs_api" where
  "files_fs files = \<lparr>fs_string = concat, fs_exists = (\<lambda>p. Inr (p \<in> set sample_dirs)), fs_is_directory = (\<lambda>p. Inr (p \<in> set sample_dirs)),
     fs_entries = (\<lambda>p. Inr [Inr (p @ [''pdf''], Inr True)]),
     fs_symlink_status = (\<lambda>p. if has_key files p then Inr FileRegular else Inl NoSuchFile),
     fs_status = (\<lambda>p. if has_key files p then Inr FileRegular else Inl NoSuchFile),
     fs_canonical = (\<lambda>p. Inr p), fs_weakly_canonical = (\<lambda>d rel. Inr (d @ split_words (\<lambda>c. c = CHR ''/'') [] rel)),
     fs_file_size = (\<lambda>p. Inr (length (alist_get [] files p))), fs_open = (\<lambda>p. map_option Some (map_of files p))\<rparr>"

text \<open>
  C33. Reading skill files is confined: what \<open>read_skill_file\<close> answers depends on no file outside the directories of the skills
  visible to the agent, whatever path or arguments the model sends; and an answer that is file content is the whole
  content of a file strictly below such a directory, at most 256 KiB of valid UTF-8.
\<close>

theorem skill_reads_confined:
  assumes "agree_below fs fs' {d. \<exists>n\<in>set visible. \<exists>sk. SkillLibrary_Find lib n = Some sk \<and> d = sk_dir sk}"
  shows "ReadSkillFile parse dump fs lib visible args = ReadSkillFile parse dump fs' lib visible args \<and>
    (\<forall>content. read_request parse dump fs lib visible args = Inr content \<longrightarrow>
       (\<exists>n\<in>set visible. \<exists>sk target. SkillLibrary_Find lib n = Some sk \<and> strict_prefix (sk_dir sk) target \<and>
          fs_open fs target = Some (Some content) \<and> length content \<le> 262144 \<and> IsValidUtf8 content))"
proof -
  have "read_skill_path dump fs sk rel = read_skill_path dump fs' sk rel"
    if "VisibleSkill dump j key lib visible = Inr sk" for j key sk rel
    using VisibleSkill_Inr[OF that] assms by (intro read_skill_path_agree) (auto simp: agree_below_def)
  then have "read_request parse dump fs lib visible args = read_request parse dump fs' lib visible args"
    by (auto simp: read_request_def split: sum.splits option.splits)
  then have "ReadSkillFile parse dump fs lib visible args = ReadSkillFile parse dump fs' lib visible args" by (simp add: ReadSkillFile_def)
  then show ?thesis using read_request_Inr by blast
qed

definition sample_library :: skill_library where
  "sample_library = \<lparr>sl_skills = [(''pdf'', empty_skill\<lparr>sk_name := ''pdf'', sk_dir := [''t'', ''pdf'']\<rparr>)], sl_warnings = []\<rparr>"

definition sample_request :: string where
  "sample_request = counting_dump (JObj [(''path'', JStr ''a.md''), (''skill'', JStr ''pdf'')])"

text \<open>Changing the secret outside the skill does not change the answer.\<close>

theorem skill_reads_confined_witness:
  "ReadSkillFile counting_parse counting_dump (files_fs sample_files) sample_library [''pdf''] sample_request = ''hello'' \<and>
   ReadSkillFile counting_parse counting_dump (files_fs (AList.update [''key''] ''other'' sample_files)) sample_library [''pdf''] sample_request = ''hello''"
proof -
  let ?fs = "files_fs sample_files" and ?fs' = "files_fs (AList.update [''key''] ''other'' sample_files)"
  have "agree_below ?fs ?fs' {d. \<exists>n\<in>set [''pdf'']. \<exists>sk. SkillLibrary_Find sample_library n = Some sk \<and> d = sk_dir sk}"
    by (auto simp: agree_below_def SkillLibrary_Find_def sample_library_def files_fs_def has_key_def alist_get_def strict_prefix_def prefix_def)
  note same = skill_reads_confined[OF this, of counting_parse counting_dump sample_request, THEN conjunct1]
  have "VisibleSkill counting_dump (counting_parse sample_request) ''skill'' sample_library [''pdf''] = Inr (empty_skill\<lparr>sk_name := ''pdf'', sk_dir := [''t'', ''pdf'']\<rparr>)"
    by (simp add: VisibleSkill_def sample_request_def counting_roundtrip jstring_def SkillLibrary_Find_def sample_library_def)
  moreover have "read_skill_path counting_dump ?fs (empty_skill\<lparr>sk_name := ''pdf'', sk_dir := [''t'', ''pdf'']\<rparr>) ''a.md'' = Inr ''hello''"
  proof -
    have "path_allowed ''a.md''" "IsValidUtf8 ''hello''" by code_simp+
    then show ?thesis
      by (simp add: read_skill_path_def read_target_def read_content_def Let_def files_fs_def has_key_def alist_get_def sample_files_def
          kMaxSkillFileBytes_def)
  qed
  ultimately have "ReadSkillFile counting_parse counting_dump ?fs sample_library [''pdf''] sample_request = ''hello''"
    by (simp add: ReadSkillFile_def read_request_def sample_request_def counting_roundtrip jstring_def)
  then show ?thesis using same by simp
qed

end
