(* ===== verification/Mcp_Http.thy ===== *)
theory Mcp_Http
  imports Http_Parse Tools
begin

text \<open>
  The MCP client over HTTP: \<open>agentflow/tools/mcp_http_codec.{h,cc}\<close> and the HTTP half of \<open>mcp_client.cc\<close>, with its connection
  state. The transport of the client is \<open>HTTP_SSE\<close>; \<open>Mcp_Stdio\<close> has the other arm. A client is shared by the coroutines that
  call it, and each of them suspends where it waits for the answer to a POST or for another coroutine's handshake: the calls are
  cut at these points, and the answers, further calls, shutdowns and reader steps come in any order.
\<close>

section \<open>The codec\<close>

type_synonym header_list = "(string \<times> string) list"

definition HeaderValue :: "header_list \<Rightarrow> string \<Rightarrow> string" where
  "HeaderValue hs name = (case find (\<lambda>h. str_tolower (fst h) = str_tolower name) hs of Some h \<Rightarrow> snd h | None \<Rightarrow> [])"

definition BuildMcpHttpHeaders :: "string \<Rightarrow> header_list" where
  "BuildMcpHttpHeaders session_id =
     [(''Content-Type'', ''application/json''), (''Accept'', ''application/json, text/event-stream'')] @
     (if session_id = [] then [] else [(''Mcp-Session-Id'', session_id)])"

definition SessionIdFromHeaders :: "header_list \<Rightarrow> string" where
  "SessionIdFromHeaders hs = HeaderValue hs ''mcp-session-id''"

definition is_event_stream :: "header_list \<Rightarrow> bool" where
  "is_event_stream hs \<longleftrightarrow> find_sub ''text/event-stream'' (str_tolower (HeaderValue hs ''content-type'')) \<noteq> None"

definition DecodeMcpHttpResponse :: "json_parser \<Rightarrow> int \<Rightarrow> header_list \<Rightarrow> string \<Rightarrow> json option status_or" where
  "DecodeMcpHttpResponse parse status hs body =
     (if status < 200 \<or> status \<ge> 300 then Inl (Status Internal (''MCP HTTP '' @ int_to_dec status @ '': '' @ body))
      else if body = [] then Inr None
      else let frames = snd (SseFramer_Feed new_framer body) in
        if is_event_stream hs \<and> frames = []
        then Inl (Status InvalidArgument ''MCP HTTP: event-stream response contained no data frame'')
        else let payload = (if is_event_stream hs then last frames else body) in
          case parse payload of
            None \<Rightarrow> Inl (Status InvalidArgument (''MCP HTTP: response body is not valid JSON: '' @ payload))
          | Some j \<Rightarrow> Inr (Some j))"

definition decode_payload :: "json_parser \<Rightarrow> json list \<Rightarrow> string \<Rightarrow> json list status_or" where
  "decode_payload parse acc payload = (case parse payload of
       Some (JObj m) \<Rightarrow> Inr (acc @ [JObj m])
     | _ \<Rightarrow> Inl (Status InvalidArgument ''MCP HTTP: JSON-RPC payload is not an object''))"

definition DecodeMcpHttpMessages :: "json_parser \<Rightarrow> int \<Rightarrow> header_list \<Rightarrow> string \<Rightarrow> json list status_or" where
  "DecodeMcpHttpMessages parse status hs body =
     (if status < 200 \<or> status \<ge> 300 then Inl (Status Internal (''MCP HTTP '' @ int_to_dec status))
      else if body = [] then Inr []
      else let payloads = (if is_event_stream hs then snd (SseFramer_Feed new_framer body) else [body]) in
        if payloads = [] then Inl (Status InvalidArgument ''MCP HTTP: no complete JSON-RPC message'')
        else fold_status (decode_payload parse) [] payloads)"

section \<open>The client\<close>

datatype mcp_state = kIdle | kConnecting | kReady | kBroken

datatype transport = TransportUnspecified | Stdio | HttpSse | WebSocket | Tcp

record mcp_target =
  mt_transport :: transport
  mt_command_or_url :: string
  mt_args :: "string list"
  mt_headers :: header_list

record mcp_request =
  mq_url :: string
  mq_body :: string
  mq_headers :: header_list

text \<open>\<open>im_has_handler\<close>: an inbound event handler is installed.\<close>

record mcp_impl =
  im_state :: mcp_state
  im_shutdown :: bool
  im_session_id :: string
  im_last_event_id :: string
  im_next_id :: "64 word"
  im_reader_generation :: "64 word"
  im_reader_active :: bool
  im_has_handler :: bool

definition new_mcp_impl :: mcp_impl where
  "new_mcp_impl = \<lparr>im_state = kIdle, im_shutdown = False, im_session_id = [], im_last_event_id = [], im_next_id = 1,
     im_reader_generation = 0, im_reader_active = False, im_has_handler = False\<rparr>"

text \<open>Parser and printer; the inbound event handler; the metadata token of the environment; conversions of a double as the compiler does them; the error
  a receive on a closed channel ends with, \<^const>\<open>None\<close> for \<open>operation_aborted\<close>, else its message.\<close>

record 'w mcp_env =
  me_parse :: json_parser
  me_dump :: json_dumper
  me_handler :: "string \<Rightarrow> string \<Rightarrow> 'w \<Rightarrow> 'w"
  me_metadata_token :: "string option"
  me_float_equals :: "64 word \<Rightarrow> 64 word \<Rightarrow> bool"
  me_float_to_int :: "64 word \<Rightarrow> int"
  me_float_to_int64 :: "64 word \<Rightarrow> 64 word"
  me_close_error :: "string option"

definition IsHttp :: "mcp_target \<Rightarrow> bool" where
  "IsHttp spec \<longleftrightarrow> mt_transport spec = HttpSse"

section \<open>JSON-RPC over HTTP\<close>

text \<open>\<open>message["id"] == request_id\<close>: an unsigned number is compared as a signed one, a double by value.\<close>

definition id_equals :: "'w mcp_env \<Rightarrow> json \<Rightarrow> 64 word \<Rightarrow> bool" where
  "id_equals env j n = (case j of
       JInt w \<Rightarrow> w = n
     | JUInt w \<Rightarrow> w = n
     | JFloat w \<Rightarrow> me_float_equals env w n
     | _ \<Rightarrow> False)"

text \<open>\<open>value("code", -1)\<close>: any number or boolean converts to \<open>int\<close>, anything else throws.\<close>

definition value_int :: "'w mcp_env \<Rightarrow> json \<Rightarrow> string \<Rightarrow> int \<Rightarrow> int exn_or" where
  "value_int env j k d = (case j of
       JObj m \<Rightarrow> (case map_of m k of
           None \<Rightarrow> Inr d
         | Some (JInt w) \<Rightarrow> Inr (sint (ucast w :: 32 word))
         | Some (JUInt w) \<Rightarrow> Inr (sint (ucast w :: 32 word))
         | Some (JFloat w) \<Rightarrow> Inr (me_float_to_int env w)
         | Some (JBool b) \<Rightarrow> Inr (if b then 1 else 0)
         | Some _ \<Rightarrow> Inl (OtherException ''type_error.302''))
     | _ \<Rightarrow> Inl (OtherException ''type_error.306''))"

definition rpc_message :: "string \<Rightarrow> json \<Rightarrow> 64 word option \<Rightarrow> json" where
  "rpc_message method params request_id =
     (let msg = jobj [(''jsonrpc'', JStr ''2.0''), (''method'', JStr method)];
          msg1 = (if params = JNull then msg else jput ''params'' params msg)
      in case request_id of None \<Rightarrow> msg1 | Some n \<Rightarrow> jput ''id'' (JInt n) msg1)"

fun set_header :: "string \<Rightarrow> string \<Rightarrow> header_list \<Rightarrow> header_list" where
  "set_header k v [] = [(k, v)]"
| "set_header k v (h # hs) = (if str_tolower (fst h) = str_tolower k then (fst h, v) # hs else h # set_header k v hs)"

definition override_headers :: "header_list \<Rightarrow> header_list \<Rightarrow> header_list" where
  "override_headers extra hs = foldl (\<lambda>hs (k, v). set_header k v hs) hs extra"

definition session_headers :: "'w mcp_env \<Rightarrow> string \<Rightarrow> string \<Rightarrow> header_list" where
  "session_headers env method session =
     (if method = ''tools/call'' \<and> session \<noteq> []
      then (''X-Zen-Chat-Session-Id'', session) #
        (case me_metadata_token env of Some token \<Rightarrow> if token = [] then [] else [(''X-Zen-Metadata-Token'', token)] | None \<Rightarrow> [])
      else [])"

text \<open>\<open>session\<close> is the chat session of the call's context, \<open>session_id\<close> the client's \<open>http_session_id_\<close>.\<close>

definition rpc_request :: "'w mcp_env \<Rightarrow> mcp_target \<Rightarrow> string \<Rightarrow> json \<Rightarrow> 64 word option \<Rightarrow> string \<Rightarrow> string \<Rightarrow> mcp_request" where
  "rpc_request env spec method params request_id session session_id =
     \<lparr>mq_url = mt_command_or_url spec,
      mq_body = me_dump env (rpc_message method params request_id),
      mq_headers = override_headers (mt_headers spec) (BuildMcpHttpHeaders session_id) @ session_headers env method session\<rparr>"

definition inbound_event :: "json_dumper \<Rightarrow> json \<Rightarrow> (string \<times> string) option" where
  "inbound_event dump msg = (case jstring msg ''method'' of
       None \<Rightarrow> None
     | Some method \<Rightarrow>
        (case jobject msg ''params'' of
           None \<Rightarrow> None
         | Some params \<Rightarrow>
             if method \<noteq> [] \<and> length method \<le> 256 \<and> length (dump params) \<le> 8192 then Some (method, dump params) else None))"

definition dispatch_notification :: "'w mcp_env \<Rightarrow> mcp_impl \<Rightarrow> json \<Rightarrow> 'w \<Rightarrow> 'w" where
  "dispatch_notification env st msg w =
     (if \<not> im_has_handler st then w
      else case inbound_event (me_dump env) msg of None \<Rightarrow> w | Some (method, params) \<Rightarrow> me_handler env method params w)"

definition is_notification_msg :: "json \<Rightarrow> bool" where
  "is_notification_msg msg \<longleftrightarrow> (case jfind msg ''id'' of None \<Rightarrow> True | Some j \<Rightarrow> j = JNull)"

definition answers_request :: "'w mcp_env \<Rightarrow> 64 word \<Rightarrow> json \<Rightarrow> bool" where
  "answers_request env n msg \<longleftrightarrow> (case jfind msg ''id'' of None \<Rightarrow> False | Some j \<Rightarrow> id_equals env j n)"

definition sort_messages :: "'w mcp_env \<Rightarrow> mcp_impl \<Rightarrow> 64 word option \<Rightarrow> json list \<Rightarrow> 'w \<Rightarrow> json option \<times> 'w" where
  "sort_messages env st request_id msgs w =
     foldl (\<lambda>(response, w) msg.
         if is_notification_msg msg then (response, dispatch_notification env st msg w)
         else case request_id of
           Some n \<Rightarrow> if answers_request env n msg then (Some msg, w) else (response, w)
         | None \<Rightarrow> (response, w)) (None, w) msgs"

definition rpc_payload :: "'w mcp_env \<Rightarrow> 64 word \<Rightarrow> json \<Rightarrow> json status_or exn_or" where
  "rpc_payload env n payload =
     (if \<not> is_object payload
      then Inr (Inl (Status InvalidArgument (''MCP HTTP: JSON-RPC payload is not an object: '' @ me_dump env payload)))
      else if \<not> answers_request env n payload
      then Inr (Inl (Status Internal (''MCP HTTP: response id '' @
             me_dump env (case jfind payload ''id'' of Some j \<Rightarrow> j | None \<Rightarrow> JNull) @ '' does not match request id '' @ int_to_dec (sint n))))
      else case jfind payload ''error'' of
        Some err \<Rightarrow>
          if \<not> is_object err then Inr (Inl (Status Internal (''MCP HTTP: error field is not an object: '' @ me_dump env err)))
          else bind_status (value_int env err ''code'' (-1)) (\<lambda>c.
               bind_status (value_string err ''message'' []) (\<lambda>m.
                 Inr (Inl (Status Internal (''MCP error '' @ int_to_dec c @ '': '' @ m)))))
      | None \<Rightarrow>
         (case jfind payload ''result'' of
            None \<Rightarrow> Inr (Inl (Status Internal (''MCP HTTP: response has neither result nor error: '' @ me_dump env payload)))
          | Some r \<Rightarrow> Inr (Inr r)))"

text \<open>The head (status, headers) and the body or error of a POST, and what happens to the client when it comes back.\<close>

type_synonym post_answer = "int \<times> header_list \<times> string status_or"

definition note_session :: "header_list \<Rightarrow> mcp_impl \<Rightarrow> mcp_impl" where
  "note_session hs st = (if SessionIdFromHeaders hs = [] then st else st\<lparr>im_session_id := SessionIdFromHeaders hs\<rparr>)"

definition rpc_answer :: "'w mcp_env \<Rightarrow> 64 word option \<Rightarrow> post_answer \<Rightarrow> mcp_impl \<Rightarrow> 'w \<Rightarrow>
    json status_or exn_or \<times> mcp_impl \<times> 'w" where
  "rpc_answer env request_id answer st w =
     (case answer of (status, hs, body) \<Rightarrow>
        (let st1 = note_session hs st in
         case body of
           Inl s \<Rightarrow> (Inr (Inl s), if code s = Cancelled then st1 else st1\<lparr>im_state := kBroken\<rparr>, w)
         | Inr text \<Rightarrow>
            (case DecodeMcpHttpMessages (me_parse env) status hs text of
               Inl s \<Rightarrow> (Inr (Inl s), st1, w)
             | Inr msgs \<Rightarrow>
                (case sort_messages env st1 request_id msgs w of
                   (response, w1) \<Rightarrow>
                     (case request_id of
                        None \<Rightarrow> (Inr (Inr (JObj [])), st1, w1)
                      | Some n \<Rightarrow>
                         (case response of
                            None \<Rightarrow> (Inr (Inl (Status Internal ((if msgs = [] then ''MCP HTTP: empty body for request id ''
                                       else ''MCP HTTP: response does not match request id '') @ int_to_dec (sint n)))), st1, w1)
                          | Some payload \<Rightarrow> (rpc_payload env n payload, st1, w1)))))))"

section \<open>The state of the connection\<close>

definition MaybeStartHttpReader :: "mcp_target \<Rightarrow> mcp_impl \<Rightarrow> mcp_impl" where
  "MaybeStartHttpReader spec st =
     (if \<not> IsHttp spec \<or> im_state st \<noteq> kReady \<or> im_shutdown st \<or> \<not> im_has_handler st \<or> im_reader_active st then st
      else st\<lparr>im_reader_active := True, im_reader_generation := im_reader_generation st + 1\<rparr>)"

definition StopHttpReader :: "mcp_impl \<Rightarrow> mcp_impl" where
  "StopHttpReader st = st\<lparr>im_reader_generation := im_reader_generation st + 1, im_reader_active := False\<rparr>"

definition init_params :: json where
  "init_params = jobj [(''protocolVersion'', JStr ''2025-03-26''), (''capabilities'', JObj []),
     (''clientInfo'', jobj [(''name'', JStr ''agentflow''), (''version'', JStr ''0.1.0'')])]"

text \<open>The HTTP arm of \<open>ShutdownInternal\<close>.\<close>

definition ShutdownHttp :: "bool \<Rightarrow> mcp_impl \<Rightarrow> mcp_impl" where
  "ShutdownHttp permanent st =
     (let st1 = (if permanent then st\<lparr>im_shutdown := True\<rparr> else st)
      in (StopHttpReader st1)\<lparr>im_last_event_id := [], im_session_id := [], im_state := (if permanent then kBroken else kIdle)\<rparr>)"

section \<open>What the calls send and read\<close>

definition ToolSchemaFromMcp :: "json_dumper \<Rightarrow> json \<Rightarrow> tool_schema exn_or" where
  "ToolSchemaFromMcp dump tool =
     bind_status (value_string tool ''name'' []) (\<lambda>n.
     bind_status (value_string tool ''description'' []) (\<lambda>d.
       Inr \<lparr>ts_name = n, ts_description = d,
         ts_params_json_schema = (case jobject tool ''inputSchema'' of Some s \<Rightarrow> dump s | None \<Rightarrow> [CHR 0x7B, CHR 0x7D])\<rparr>))"

definition tool_list :: "json_dumper \<Rightarrow> json \<Rightarrow> tool_schema list exn_or" where
  "tool_list dump result = (case jarray result ''tools'' of
       None \<Rightarrow> Inr []
     | Some tools \<Rightarrow> fold_status (\<lambda>out t. bind_status (ToolSchemaFromMcp dump t) (\<lambda>s. Inr (out @ [s]))) [] tools)"

definition call_arguments :: "json_parser \<Rightarrow> string \<Rightarrow> json status_or" where
  "call_arguments parse args_json =
     (if args_json = [] then Inr (JObj [])
      else case parse args_json of
        None \<Rightarrow> Inl (Status InvalidArgument (''args_json parse error: '' @ ''parse_error.101''))
      | Some j \<Rightarrow> Inr j)"

definition SetInboundEventHandler :: "mcp_target \<Rightarrow> bool \<Rightarrow> mcp_impl \<Rightarrow> mcp_impl" where
  "SetInboundEventHandler spec installed st =
     (let st1 = st\<lparr>im_has_handler := installed\<rparr> in if installed then MaybeStartHttpReader spec st1 else StopHttpReader st1)"

section \<open>The notification stream\<close>

definition reader_headers :: "mcp_target \<Rightarrow> mcp_impl \<Rightarrow> header_list" where
  "reader_headers spec st =
     map (\<lambda>(k, v).
         let v1 = (if str_tolower k = ''accept'' then ''text/event-stream'' else v)
         in (k, if str_tolower k = ''mcp-session-id'' then im_session_id st else v1))
       (override_headers (mt_headers spec) (BuildMcpHttpHeaders (im_session_id st))) @
     (if im_last_event_id st = [] then [] else [(''Last-Event-ID'', im_last_event_id st)])"

text \<open>An object with an \<open>id\<close> finds no pending request over HTTP, so only a notification has an effect.\<close>

definition DispatchInbound_http :: "'w mcp_env \<Rightarrow> mcp_impl \<Rightarrow> json \<Rightarrow> 'w \<Rightarrow> 'w" where
  "DispatchInbound_http env st msg w = (if is_notification_msg msg then dispatch_notification env st msg w else w)"

definition clamp_delay :: "nat \<Rightarrow> nat" where
  "clamp_delay ms = (if ms < 250 then 250 else if 30000 < ms then 30000 else ms)"

definition event_id_ok :: "string \<Rightarrow> bool" where
  "event_id_ok i \<longleftrightarrow> length i \<le> 1024 \<and> CHR 0x0D \<notin> set i \<and> CHR 0x0A \<notin> set i"

definition receive_event :: "'w mcp_env \<Rightarrow> 64 word \<Rightarrow> sse_event \<Rightarrow> nat \<times> mcp_impl \<times> 'w \<Rightarrow> nat \<times> mcp_impl \<times> 'w" where
  "receive_event env generation ev s = (case s of (delay, st, w) \<Rightarrow>
     (if generation \<noteq> im_reader_generation st \<or> im_shutdown st then (delay, st, w)
      else
        (let delay1 = (case ev_retry_ms ev of Some ms \<Rightarrow> clamp_delay ms | None \<Rightarrow> delay) in
         if (case ev_id ev of Some i \<Rightarrow> i \<noteq> [] \<and> i = im_last_event_id st | None \<Rightarrow> False) then (delay1, st, w)
         else
           (let w1 = (if ev_data ev = [] then w
                      else case me_parse env (ev_data ev) of
                        Some (JObj m) \<Rightarrow> DispatchInbound_http env st (JObj m) w
                      | _ \<Rightarrow> w);
                st1 = (case ev_id ev of
                        Some i \<Rightarrow> if event_id_ok i then st\<lparr>im_last_event_id := i\<rparr> else st
                      | None \<Rightarrow> st)
            in (delay1, st1, w1)))))"

text \<open>
  One \<open>GetSse\<close>: the events it delivered, with what the other coroutines did to the client in between, the status line
  of the answer, the status it ended with, and whether the reader has been cancelled by then.
\<close>

datatype stream_input = Event sse_event | Others "mcp_impl \<Rightarrow> mcp_impl"

record sse_stream =
  sx_inputs :: "stream_input list"
  sx_status_code :: int
  sx_status :: "unit status_or"
  sx_cancelled :: bool
  sx_asleep :: "mcp_impl \<Rightarrow> mcp_impl"

fun stream_event :: "'w mcp_env \<Rightarrow> 64 word \<Rightarrow> stream_input \<Rightarrow> nat \<times> mcp_impl \<times> 'w \<Rightarrow> nat \<times> mcp_impl \<times> 'w" where
  "stream_event env generation (Event ev) s = receive_event env generation ev s"
| "stream_event env generation (Others f) (delay, st, w) = (delay, f st, w)"

definition reader_wanted :: "64 word \<Rightarrow> mcp_impl \<Rightarrow> bool" where
  "reader_wanted generation st \<longleftrightarrow>
     \<not> im_shutdown st \<and> generation = im_reader_generation st \<and> im_state st = kReady \<and> im_has_handler st"

definition gives_up :: "int \<Rightarrow> unit status_or \<Rightarrow> bool" where
  "gives_up status_code status \<longleftrightarrow> status_code = 405 \<or> status_code = 501 \<or>
     (case status of Inl s \<Rightarrow> code s = Unimplemented \<or> code s = PermissionDenied | Inr _ \<Rightarrow> False)"

text \<open>
  \<open>ReadHttpNotifications\<close> against the streams the server offers, with the requests made and the pauses taken; the loop
  is still running when the list of streams ends, the answer \<open>True\<close>.
\<close>

fun ReadHttpNotifications :: "'w mcp_env \<Rightarrow> mcp_target \<Rightarrow> 64 word \<Rightarrow> sse_stream list \<Rightarrow> nat \<Rightarrow> mcp_impl \<Rightarrow> 'w \<Rightarrow>
    bool \<times> (header_list \<times> nat) list \<times> mcp_impl \<times> 'w" where
  "ReadHttpNotifications env spec generation [] delay st w = (reader_wanted generation st, [], st, w)"
| "ReadHttpNotifications env spec generation (x # xs) delay st w =
     (if \<not> reader_wanted generation st then (False, [], st, w)
      else case fold (stream_event env generation) (sx_inputs x) (delay, st, w) of
        (delay1, st1, w1) \<Rightarrow>
          if sx_cancelled x \<or> generation \<noteq> im_reader_generation st1 then (False, [], st1, w1)
          else if sx_status_code x = 404 then (False, [], st1\<lparr>im_state := kBroken\<rparr>, w1)
          else if gives_up (sx_status_code x) (sx_status x) then (False, [], st1, w1)
          else case ReadHttpNotifications env spec generation xs (min (delay1 * 2) 30000) (sx_asleep x st1) w1 of
            (running, log, st2, w2) \<Rightarrow> (running, (reader_headers spec st, delay1) # log, st2, w2))"

text \<open>The spawned coroutine of \<open>MaybeStartHttpReader\<close>: a reader that ends is no longer active, unless another has started.\<close>

definition reader_done :: "64 word \<Rightarrow> mcp_impl \<Rightarrow> mcp_impl" where
  "reader_done generation st = (if im_reader_generation st = generation then st\<lparr>im_reader_active := False\<rparr> else st)"

section \<open>The calls on a client\<close>

text \<open>
  A call is one coroutine. It is suspended in the POST of \<open>initialize\<close> or \<open>notifications/initialized\<close>, in the POST of its own
  request, or on its waiter channel, closed (\<open>AtWaiter\<close>) or notified (\<open>AtWoken\<close>); \<open>NotSuspended\<close> is a call between two suspension
  points. \<open>ht_log\<close> is a record of the POSTs made and the answers received, which the code does not keep.
\<close>

datatype mcp_call = AskConnect | AskTools | AskTool string string string

datatype mcp_outcome =
    CallThrew exn
  | CallFailed status
  | ClientReady
  | ToolsListed "tool_schema list"
  | ToolText string

datatype http_wait =
    NotSuspended
  | AtInitialize "64 word"
  | AtInitialized
  | AtWaiter
  | AtWoken
  | AtReply "64 word"
  | Over mcp_outcome

datatype http_log = Posted nat "64 word option" mcp_request | Answered nat "64 word option" post_answer

record 'w http_client =
  ht_impl :: mcp_impl
  ht_calls :: "(mcp_call \<times> http_wait) list"
  ht_waiters :: "nat list"
  ht_log :: "http_log list"
  ht_world :: 'w

definition new_http_client :: "'w \<Rightarrow> 'w http_client" where
  "new_http_client w = \<lparr>ht_impl = new_mcp_impl, ht_calls = [], ht_waiters = [], ht_log = [], ht_world = w\<rparr>"

definition on_impl :: "(mcp_impl \<Rightarrow> mcp_impl) \<Rightarrow> 'w http_client \<Rightarrow> 'w http_client" where
  "on_impl f c = c\<lparr>ht_impl := f (ht_impl c)\<rparr>"

definition suspend :: "nat \<Rightarrow> http_wait \<Rightarrow> 'w http_client \<Rightarrow> 'w http_client" where
  "suspend i p c = c\<lparr>ht_calls := (ht_calls c)[i := (fst (ht_calls c ! i), p)]\<rparr>"

definition NotifyConnectWaiters :: "'w http_client \<Rightarrow> 'w http_client" where
  "NotifyConnectWaiters c = (fold (\<lambda>j. suspend j AtWoken) (ht_waiters c) c)\<lparr>ht_waiters := []\<rparr>"

text \<open>\<open>PostRpc\<close> up to its suspension: the id, if it takes one, and the POST.\<close>

definition PostRpc :: "'w mcp_env \<Rightarrow> mcp_target \<Rightarrow> nat \<Rightarrow> string \<Rightarrow> json \<Rightarrow> bool \<Rightarrow> string \<Rightarrow> 'w http_client \<Rightarrow> 'w http_client" where
  "PostRpc env spec i method params is_notification session c =
     (let st = ht_impl c;
          request_id = (if is_notification then None else Some (im_next_id st));
          st1 = (if is_notification then st else st\<lparr>im_next_id := im_next_id st + 1\<rparr>);
          req = rpc_request env spec method params request_id session (im_session_id st1)
      in c\<lparr>ht_impl := st1, ht_log := ht_log c @ [Posted i request_id req]\<rparr>)"

definition SendRequest_http :: "'w mcp_env \<Rightarrow> mcp_target \<Rightarrow> nat \<Rightarrow> string \<Rightarrow> json \<Rightarrow> string \<Rightarrow> 'w http_client \<Rightarrow> 'w http_client" where
  "SendRequest_http env spec i method params session c =
     (if im_state (ht_impl c) \<noteq> kReady then suspend i (Over (CallFailed (Status FailedPrecondition ''MCP client not connected''))) c
      else suspend i (AtReply (im_next_id (ht_impl c))) (PostRpc env spec i method params False session c))"

text \<open>What a call does once \<open>Connect\<close> or \<open>EnsureReady\<close> has returned to it.\<close>

definition call_request :: "'w mcp_env \<Rightarrow> mcp_target \<Rightarrow> nat \<Rightarrow> 'w http_client \<Rightarrow> 'w http_client" where
  "call_request env spec i c = (case fst (ht_calls c ! i) of
       AskConnect \<Rightarrow> suspend i (Over ClientReady) c
     | AskTools \<Rightarrow> SendRequest_http env spec i ''tools/list'' (JObj []) [] c
     | AskTool name args_json session \<Rightarrow>
        (case call_arguments (me_parse env) args_json of
           Inl s \<Rightarrow> suspend i (Over (CallFailed s)) c
         | Inr arguments \<Rightarrow>
             SendRequest_http env spec i ''tools/call'' (jobj [(''name'', JStr name), (''arguments'', arguments)]) session c))"

definition after_connect :: "'w mcp_env \<Rightarrow> mcp_target \<Rightarrow> nat \<Rightarrow> unit status_or exn_or \<Rightarrow> 'w http_client \<Rightarrow> 'w http_client" where
  "after_connect env spec i res c = (case res of
       Inl e \<Rightarrow> suspend i (Over (CallThrew e)) c
     | Inr (Inl s) \<Rightarrow> suspend i (Over (CallFailed s)) c
     | Inr (Inr _) \<Rightarrow> call_request env spec i c)"

text \<open>The end of \<open>Connect\<close>, when \<open>ConnectHttp\<close> has returned; an exception leaves both with nothing done.\<close>

definition connect_done :: "'w mcp_env \<Rightarrow> mcp_target \<Rightarrow> nat \<Rightarrow> unit status_or exn_or \<Rightarrow> 'w http_client \<Rightarrow> 'w http_client" where
  "connect_done env spec i res c = (case res of
       Inl e \<Rightarrow> after_connect env spec i res c
     | Inr (Inl s) \<Rightarrow> after_connect env spec i res (NotifyConnectWaiters (on_impl (\<lambda>st. st\<lparr>im_state := kBroken\<rparr>) c))
     | Inr (Inr _) \<Rightarrow> after_connect env spec i res
         (NotifyConnectWaiters (on_impl (\<lambda>st. MaybeStartHttpReader spec (st\<lparr>im_state := kReady\<rparr>)) c)))"

definition ConnectHttp :: "'w mcp_env \<Rightarrow> mcp_target \<Rightarrow> nat \<Rightarrow> 'w http_client \<Rightarrow> 'w http_client" where
  "ConnectHttp env spec i c =
     (if mt_command_or_url spec = []
      then connect_done env spec i (Inr (Inl (Status InvalidArgument ''HTTP McpServerSpec.command_or_url is empty''))) c
      else suspend i (AtInitialize (im_next_id (ht_impl c)))
             (PostRpc env spec i ''initialize'' init_params False [] (on_impl (\<lambda>st. st\<lparr>im_session_id := []\<rparr>) c)))"

definition Shutdown_http :: "bool \<Rightarrow> 'w http_client \<Rightarrow> 'w http_client" where
  "Shutdown_http permanent c = NotifyConnectWaiters (on_impl (ShutdownHttp permanent) c)"

definition Connect :: "'w mcp_env \<Rightarrow> mcp_target \<Rightarrow> nat \<Rightarrow> 'w http_client \<Rightarrow> 'w http_client" where
  "Connect env spec i c =
     (if im_shutdown (ht_impl c) then after_connect env spec i (Inr (Inl (Status Cancelled ''client shut down''))) c
      else if im_state (ht_impl c) = kReady then after_connect env spec i (Inr (Inr ())) c
      else
        (let c1 = (if im_state (ht_impl c) = kBroken then Shutdown_http False c else c) in
         if im_state (ht_impl c1) = kConnecting then (suspend i AtWaiter c1)\<lparr>ht_waiters := ht_waiters c1 @ [i]\<rparr>
         else ConnectHttp env spec i (on_impl (\<lambda>st. st\<lparr>im_state := kConnecting\<rparr>) c1)))"

definition EnsureReady :: "'w mcp_env \<Rightarrow> mcp_target \<Rightarrow> nat \<Rightarrow> 'w http_client \<Rightarrow> 'w http_client" where
  "EnsureReady env spec i c =
     (if im_state (ht_impl c) = kReady then after_connect env spec i (Inr (Inr ())) c else Connect env spec i c)"

definition start_call :: "'w mcp_env \<Rightarrow> mcp_target \<Rightarrow> mcp_call \<Rightarrow> 'w http_client \<Rightarrow> 'w http_client" where
  "start_call env spec call c =
     (let i = length (ht_calls c); c1 = c\<lparr>ht_calls := ht_calls c @ [(call, NotSuspended)]\<rparr>
      in if call = AskConnect then Connect env spec i c1 else EnsureReady env spec i c1)"

section \<open>Resuming a call\<close>

text \<open>The second half of \<open>PostRpc\<close>, on the client as it is when the answer comes.\<close>

definition receive_answer :: "'w mcp_env \<Rightarrow> nat \<Rightarrow> 64 word option \<Rightarrow> post_answer \<Rightarrow> 'w http_client \<Rightarrow> json status_or exn_or \<times> 'w http_client" where
  "receive_answer env i request_id answer c =
     (case rpc_answer env request_id answer (ht_impl c) (ht_world c) of
        (r, st, w) \<Rightarrow> (r, c\<lparr>ht_impl := st, ht_world := w, ht_log := ht_log c @ [Answered i request_id answer]\<rparr>))"

definition initialize_answered :: "'w mcp_env \<Rightarrow> mcp_target \<Rightarrow> nat \<Rightarrow> 64 word \<Rightarrow> post_answer \<Rightarrow> 'w http_client \<Rightarrow> 'w http_client" where
  "initialize_answered env spec i n answer c = (case receive_answer env i (Some n) answer c of
       (Inl e, c1) \<Rightarrow> connect_done env spec i (Inl e) c1
     | (Inr (Inl s), c1) \<Rightarrow> connect_done env spec i (Inr (Inl s)) c1
     | (Inr (Inr _), c1) \<Rightarrow>
         if im_session_id (ht_impl c1) = []
         then connect_done env spec i (Inr (Inl (Status Internal ''MCP HTTP: server did not assign an Mcp-Session-Id on initialize''))) c1
         else suspend i AtInitialized (PostRpc env spec i ''notifications/initialized'' (JObj []) True [] c1))"

definition initialized_answered :: "'w mcp_env \<Rightarrow> mcp_target \<Rightarrow> nat \<Rightarrow> post_answer \<Rightarrow> 'w http_client \<Rightarrow> 'w http_client" where
  "initialized_answered env spec i answer c = (case receive_answer env i None answer c of
       (Inl e, c1) \<Rightarrow> connect_done env spec i (Inl e) c1
     | (Inr (Inl s), c1) \<Rightarrow> connect_done env spec i (Inr (Inl s)) c1
     | (Inr (Inr _), c1) \<Rightarrow>
         connect_done env spec i (Inr (Inr ())) (NotifyConnectWaiters (on_impl (\<lambda>st. st\<lparr>im_state := kReady\<rparr>) c1)))"

definition request_answered :: "'w mcp_env \<Rightarrow> nat \<Rightarrow> 64 word \<Rightarrow> post_answer \<Rightarrow> 'w http_client \<Rightarrow> 'w http_client" where
  "request_answered env i n answer c = (case receive_answer env i (Some n) answer c of
       (r, c1) \<Rightarrow> suspend i (Over (case r of
           Inl e \<Rightarrow> CallThrew e
         | Inr (Inl s) \<Rightarrow> CallFailed s
         | Inr (Inr result) \<Rightarrow> (case fst (ht_calls c ! i) of
               AskConnect \<Rightarrow> ClientReady
             | AskTools \<Rightarrow> (case tool_list (me_dump env) result of Inl e \<Rightarrow> CallThrew e | Inr schemas \<Rightarrow> ToolsListed schemas)
             | AskTool _ _ _ \<Rightarrow> ToolText (me_dump env result)))) c1)"

definition answer_call :: "'w mcp_env \<Rightarrow> mcp_target \<Rightarrow> nat \<Rightarrow> post_answer \<Rightarrow> 'w http_client \<Rightarrow> 'w http_client" where
  "answer_call env spec i answer c = (case snd (ht_calls c ! i) of
       AtInitialize n \<Rightarrow> initialize_answered env spec i n answer c
     | AtInitialized \<Rightarrow> initialized_answered env spec i answer c
     | AtReply n \<Rightarrow> request_answered env i n answer c
     | _ \<Rightarrow> c)"

definition wake_call :: "'w mcp_env \<Rightarrow> mcp_target \<Rightarrow> nat \<Rightarrow> 'w http_client \<Rightarrow> 'w http_client" where
  "wake_call env spec i c = after_connect env spec i
     (Inr (if im_state (ht_impl c) = kReady then Inr () else Inl (Status Unavailable ''MCP server failed to start''))) c"

section \<open>The steps of a client\<close>

datatype http_event =
    HStart mcp_call
  | HAnswer nat post_answer
  | HWake nat
  | HShutdown
  | HHandler bool
  | HEvent "64 word" sse_event
  | HSessionGone "64 word"
  | HReaderDone "64 word"

definition in_post :: "http_wait \<Rightarrow> bool" where
  "in_post p \<longleftrightarrow> (case p of AtInitialize _ \<Rightarrow> True | AtInitialized \<Rightarrow> True | AtReply _ \<Rightarrow> True | _ \<Rightarrow> False)"

text \<open>The guards; an id is a signed 64-bit number, and a client that has used them all is outside the model.\<close>

definition ids_left :: "'w http_client \<Rightarrow> bool" where
  "ids_left c \<longleftrightarrow> im_next_id (ht_impl c) < 0x7FFFFFFFFFFFFFFF"

fun http_enabled :: "'w http_client \<Rightarrow> http_event \<Rightarrow> bool" where
  "http_enabled c (HStart call) \<longleftrightarrow> ids_left c"
| "http_enabled c (HAnswer i answer) \<longleftrightarrow> i < length (ht_calls c) \<and> in_post (snd (ht_calls c ! i)) \<and> ids_left c"
| "http_enabled c (HWake i) \<longleftrightarrow> i < length (ht_calls c) \<and> snd (ht_calls c ! i) = AtWoken \<and> ids_left c"
| "http_enabled c HShutdown \<longleftrightarrow> True"
| "http_enabled c (HHandler installed) \<longleftrightarrow> True"
| "http_enabled c (HEvent generation ev) \<longleftrightarrow> True"
| "http_enabled c (HSessionGone generation) \<longleftrightarrow> im_reader_active (ht_impl c) \<and> im_reader_generation (ht_impl c) = generation"
| "http_enabled c (HReaderDone generation) \<longleftrightarrow> True"

fun http_apply :: "'w mcp_env \<Rightarrow> mcp_target \<Rightarrow> http_event \<Rightarrow> 'w http_client \<Rightarrow> 'w http_client" where
  "http_apply env spec (HStart call) c = start_call env spec call c"
| "http_apply env spec (HAnswer i answer) c = answer_call env spec i answer c"
| "http_apply env spec (HWake i) c = wake_call env spec i c"
| "http_apply env spec HShutdown c = Shutdown_http True c"
| "http_apply env spec (HHandler installed) c = on_impl (SetInboundEventHandler spec installed) c"
| "http_apply env spec (HEvent generation ev) c =
     (case receive_event env generation ev (250, ht_impl c, ht_world c) of (_, st, w) \<Rightarrow> c\<lparr>ht_impl := st, ht_world := w\<rparr>)"
| "http_apply env spec (HSessionGone generation) c = on_impl (\<lambda>st. st\<lparr>im_state := kBroken\<rparr>) c"
| "http_apply env spec (HReaderDone generation) c = on_impl (reader_done generation) c"

fun http_run :: "'w mcp_env \<Rightarrow> mcp_target \<Rightarrow> 'w http_client \<Rightarrow> http_event list \<Rightarrow> 'w http_client option" where
  "http_run env spec c [] = Some c"
| "http_run env spec c (e # es) = (if http_enabled c e then http_run env spec (http_apply env spec e c) es else None)"

end
