(* ===== verification/Mcp_Stdio.thy ===== *)
theory Mcp_Stdio
  imports Mcp_Http
begin

text \<open>
  The MCP client over pipes to a child process: the STDIO half of \<open>agentflow/tools/mcp_client.cc\<close>. The coroutines, completion
  handlers and posted callbacks of one client run on one \<open>io_context\<close>, one at a time and each to its next suspension; a step
  of the model is one such run. The operating system is seen through the events it delivers: a line read, a read that fails,
  a write that ends.
\<close>

section \<open>State\<close>

datatype chan = Waiting | Got json | Closed

text \<open>
  Descriptors are numbered by the child they belong to. \<open>so_channels\<close> keeps the response channel of every request ever made;
  \<open>so_awaiting\<close> the requests whose coroutine is suspended, \<open>so_connecting\<close> those that are the \<open>initialize\<close> of a \<open>Connect\<close>.
  \<open>so_lines\<close>, \<open>so_wire\<close> and \<open>so_events\<close> record what has been queued, written to which child, and handed to the event handler.
\<close>

record stdio_impl =
  so_state :: mcp_state
  so_shutdown :: bool
  so_next_id :: "64 word"
  so_pending :: "64 word list"
  so_channels :: "(64 word \<times> chan) list"
  so_awaiting :: "64 word list"
  so_connecting :: "64 word list"
  so_spawned :: nat
  so_in :: "nat option"
  so_out :: "nat option"
  so_child :: "nat option"
  so_readers :: "nat list"
  so_queue :: "string list"
  so_write_active :: bool
  so_writing :: "nat option"
  so_has_handler :: bool
  so_lines :: "string list"
  so_wire :: "(nat \<times> string) list"
  so_events :: "(string \<times> string) list"

definition new_stdio_impl :: stdio_impl where
  "new_stdio_impl = \<lparr>so_state = kIdle, so_shutdown = False, so_next_id = 1, so_pending = [], so_channels = [], so_awaiting = [],
     so_connecting = [], so_spawned = 0, so_in = None, so_out = None, so_child = None, so_readers = [], so_queue = [],
     so_write_active = False, so_writing = None, so_has_handler = False, so_lines = [], so_wire = [], so_events = []\<rparr>"

section \<open>Writing\<close>

definition PumpWriter :: "stdio_impl \<Rightarrow> stdio_impl" where
  "PumpWriter st =
     (if so_queue st = [] \<or> so_in st = None then st\<lparr>so_write_active := False\<rparr>
      else st\<lparr>so_write_active := True, so_writing := so_in st\<rparr>)"

definition WriteLine :: "string \<Rightarrow> stdio_impl \<Rightarrow> stdio_impl" where
  "WriteLine line st =
     (let st1 = st\<lparr>so_queue := so_queue st @ [line @ [CHR 0x0A]], so_lines := so_lines st @ [line @ [CHR 0x0A]]\<rparr>
      in if so_write_active st then st1 else PumpWriter st1)"

text \<open>The channel of a request takes one value; closing or sending to it wakes its coroutine.\<close>

definition settle :: "64 word list \<Rightarrow> chan \<Rightarrow> (64 word \<times> chan) list \<Rightarrow> (64 word \<times> chan) list" where
  "settle ns v = map (\<lambda>(n, c). (n, if n \<in> set ns \<and> c = Waiting then v else c))"

definition FailPending :: "stdio_impl \<Rightarrow> stdio_impl" where
  "FailPending st = st\<lparr>so_channels := settle (so_pending st) Closed (so_channels st), so_pending := []\<rparr>"

text \<open>The completion handler of \<open>async_write\<close>.\<close>

definition write_completed :: "bool \<Rightarrow> stdio_impl \<Rightarrow> stdio_impl" where
  "write_completed failed st =
     (let st1 = st\<lparr>so_queue := tl (so_queue st), so_writing := None\<rparr> in
      if failed then (FailPending (st1\<lparr>so_write_active := False\<rparr>))\<lparr>so_state := kBroken\<rparr>
      else PumpWriter (st1\<lparr>so_wire := so_wire st @ [(the (so_writing st), hd (so_queue st))]\<rparr>))"

section \<open>Requests\<close>

definition SendNotification :: "'w mcp_env \<Rightarrow> string \<Rightarrow> json \<Rightarrow> stdio_impl \<Rightarrow> stdio_impl" where
  "SendNotification env method params st =
     (if so_in st = None then st
      else WriteLine (me_dump env (jobj [(''jsonrpc'', JStr ''2.0''), (''method'', JStr method), (''params'', params)])) st)"

text \<open>\<open>SendRequest\<close> up to the wait for its channel; the caller has checked that the client is ready.\<close>

definition SendRequest_stdio :: "'w mcp_env \<Rightarrow> string \<Rightarrow> json \<Rightarrow> stdio_impl \<Rightarrow> stdio_impl" where
  "SendRequest_stdio env method params st =
     (let n = so_next_id st
      in WriteLine (me_dump env (jobj [(''jsonrpc'', JStr ''2.0''), (''id'', JInt n), (''method'', JStr method), (''params'', params)]))
           (st\<lparr>so_next_id := n + 1, so_pending := so_pending st @ [n], so_channels := so_channels st @ [(n, Waiting)],
              so_awaiting := so_awaiting st @ [n]\<rparr>))"

text \<open>The callback \<open>OnCancel\<close> posts.\<close>

definition cancel_request :: "'w mcp_env \<Rightarrow> 64 word \<Rightarrow> stdio_impl \<Rightarrow> stdio_impl" where
  "cancel_request env n st =
     (if n \<notin> set (so_pending st) then st
      else SendNotification env ''notifications/cancelled'' (jobj [(''requestId'', JInt n), (''reason'', JStr ''client cancelled'')])
             (st\<lparr>so_pending := removeAll n (so_pending st), so_channels := settle [n] Closed (so_channels st)\<rparr>))"

text \<open>\<open>SendRequest\<close> after the wait: what its caller gets, or the exception it gets.\<close>

definition request_outcome :: "'w mcp_env \<Rightarrow> chan \<Rightarrow> json status_or exn_or option" where
  "request_outcome env c = (case c of
       Waiting \<Rightarrow> None
     | Closed \<Rightarrow> Some (Inr (Inl (case me_close_error env of
           None \<Rightarrow> Status Cancelled ''MCP call cancelled''
         | Some m \<Rightarrow> Status Unavailable (''MCP transport error: '' @ m))))
     | Got payload \<Rightarrow> Some (case jfind payload ''error'' of
           Some err \<Rightarrow>
             bind_status (value_int env err ''code'' (-1)) (\<lambda>c.
             bind_status (value_string err ''message'' []) (\<lambda>m.
               Inr (Inl (Status Internal (''MCP error '' @ int_to_dec c @ '': '' @ m)))))
         | None \<Rightarrow> Inr (Inr (case jfind payload ''result'' of Some r \<Rightarrow> r | None \<Rightarrow> JObj []))))"

section \<open>Reading\<close>

definition reply_id :: "'w mcp_env \<Rightarrow> json \<Rightarrow> 64 word option" where
  "reply_id env msg = (case jfind msg ''id'' of
       Some (JInt n) \<Rightarrow> Some n
     | Some (JUInt n) \<Rightarrow> Some n
     | Some (JFloat x) \<Rightarrow> Some (me_float_to_int64 env x)
     | Some (JBool b) \<Rightarrow> Some (if b then 1 else 0)
     | _ \<Rightarrow> None)"

definition DispatchInbound :: "'w mcp_env \<Rightarrow> json \<Rightarrow> stdio_impl \<Rightarrow> stdio_impl" where
  "DispatchInbound env msg st =
     (if is_notification_msg msg
      then (case if so_has_handler st then inbound_event (me_dump env) msg else None of
              Some ev \<Rightarrow> st\<lparr>so_events := so_events st @ [ev]\<rparr>
            | None \<Rightarrow> st)
      else case reply_id env msg of
        None \<Rightarrow> st
      | Some n \<Rightarrow>
          if n \<in> set (so_pending st)
          then st\<lparr>so_pending := removeAll n (so_pending st), so_channels := settle [n] (Got msg) (so_channels st)\<rparr>
          else st)"

text \<open>
  One turn of \<open>ReadLoop\<close> for a line without its newline, or for an error. The loop reads on from whatever descriptor the client
  has by then.
\<close>

definition read_line :: "'w mcp_env \<Rightarrow> nat \<Rightarrow> string \<Rightarrow> stdio_impl \<Rightarrow> stdio_impl" where
  "read_line env d line st =
     (let st1 = (if line = [] then st else case me_parse env line of Some msg \<Rightarrow> DispatchInbound env msg st | None \<Rightarrow> st);
          readers = remove1 d (so_readers st1)
      in st1\<lparr>so_readers := (case so_out st1 of Some d' \<Rightarrow> readers @ [d'] | None \<Rightarrow> readers)\<rparr>)"

definition read_failed :: "nat \<Rightarrow> stdio_impl \<Rightarrow> stdio_impl" where
  "read_failed d st = (FailPending st)\<lparr>so_state := kBroken, so_readers := remove1 d (so_readers st)\<rparr>"

section \<open>Connecting and shutting down\<close>

definition ShutdownInternal :: "bool \<Rightarrow> stdio_impl \<Rightarrow> stdio_impl" where
  "ShutdownInternal permanent st =
     (let st1 = FailPending (st\<lparr>so_shutdown := (so_shutdown st \<or> permanent), so_in := None, so_out := None\<rparr>)
      in st1\<lparr>so_child := None, so_state := (if so_state st = kReady then kBroken else so_state st)\<rparr>)"

text \<open>\<open>ConnectStdio\<close> up to the wait for the answer to \<open>initialize\<close>; \<open>spawn\<close> is the error of \<open>pipe\<close> or \<open>fork\<close>.\<close>

definition ConnectStdio :: "'w mcp_env \<Rightarrow> mcp_target \<Rightarrow> string option \<Rightarrow> stdio_impl \<Rightarrow> status option \<times> stdio_impl" where
  "ConnectStdio env spec spawn st =
     (if mt_command_or_url spec = [] then (Some (Status InvalidArgument ''STDIO McpServerSpec.command_or_url is empty''), st)
      else case spawn of
        Some err \<Rightarrow> (Some (Status Internal err), st)
      | None \<Rightarrow>
          let d = Suc (so_spawned st);
              st1 = st\<lparr>so_spawned := d, so_child := Some d, so_in := Some d, so_out := Some d,
                so_readers := so_readers st @ [d], so_state := kReady,
                so_connecting := so_connecting st @ [so_next_id st]\<rparr>
          in (None, SendRequest_stdio env ''initialize'' init_params st1))"

text \<open>\<open>Connect\<close> up to its first wait: the status it returns with, if it returns.\<close>

definition Connect_stdio :: "'w mcp_env \<Rightarrow> mcp_target \<Rightarrow> string option \<Rightarrow> stdio_impl \<Rightarrow> unit status_or option \<times> stdio_impl" where
  "Connect_stdio env spec spawn st =
     (if so_shutdown st then (Some (Inl (Status Cancelled ''client shut down'')), st)
      else if so_state st = kReady then (Some (Inr ()), st)
      else
        (let st1 = (if so_state st = kBroken then ShutdownInternal False st else st) in
         if so_state st1 = kConnecting then (None, st1)
         else
           (let st2 = st1\<lparr>so_state := kConnecting\<rparr>;
                (r, st3) = (if mt_transport spec = Stdio then ConnectStdio env spec spawn st2
                  else (Some (Status Unimplemented ''MCP transport not implemented (only STDIO and HTTP_SSE)''), st2))
            in case r of
              Some s \<Rightarrow> (Some (Inl s), st3\<lparr>so_state := kBroken\<rparr>)
            | None \<Rightarrow> (None, st3))))"

text \<open>
  A coroutine that waited for its channel runs on: a request returns to its caller, the \<open>initialize\<close> of a \<open>Connect\<close> ends the
  handshake. An exception leaves the state as it is.
\<close>

definition resume :: "'w mcp_env \<Rightarrow> 64 word \<Rightarrow> stdio_impl \<Rightarrow> stdio_impl" where
  "resume env n st =
     (let st1 = st\<lparr>so_awaiting := removeAll n (so_awaiting st), so_connecting := removeAll n (so_connecting st)\<rparr> in
      if n \<notin> set (so_connecting st) then st1
      else case map_of (so_channels st) n of
        None \<Rightarrow> st1
      | Some c \<Rightarrow>
         (case request_outcome env c of
            Some (Inr (Inr _)) \<Rightarrow> (SendNotification env ''notifications/initialized'' (JObj []) st1)\<lparr>so_state := kReady\<rparr>
          | Some (Inr (Inl _)) \<Rightarrow> st1\<lparr>so_state := kBroken\<rparr>
          | _ \<Rightarrow> st1))"

section \<open>The steps of a client\<close>

datatype stdio_event =
    EvConnect "string option"
  | EvRequest string json
  | EvCancel "64 word"
  | EvLine nat string
  | EvReadError nat
  | EvWritten
  | EvWriteError
  | EvResume "64 word"
  | EvHandler bool
  | EvShutdown

text \<open>The guards; an id is a signed 64-bit number, and a client that has used them all is outside the model.\<close>

fun stdio_enabled :: "stdio_impl \<Rightarrow> stdio_event \<Rightarrow> bool" where
  "stdio_enabled st (EvConnect spawn) \<longleftrightarrow> so_next_id st < 0x7FFFFFFFFFFFFFFF"
| "stdio_enabled st (EvRequest method params) \<longleftrightarrow> so_state st = kReady \<and> so_next_id st < 0x7FFFFFFFFFFFFFFF"
| "stdio_enabled st (EvCancel n) \<longleftrightarrow> True"
| "stdio_enabled st (EvLine d line) \<longleftrightarrow> d \<in> set (so_readers st)"
| "stdio_enabled st (EvReadError d) \<longleftrightarrow> d \<in> set (so_readers st)"
| "stdio_enabled st EvWritten \<longleftrightarrow> so_writing st \<noteq> None"
| "stdio_enabled st EvWriteError \<longleftrightarrow> so_writing st \<noteq> None"
| "stdio_enabled st (EvResume n) \<longleftrightarrow> n \<in> set (so_awaiting st) \<and> map_of (so_channels st) n \<noteq> Some Waiting"
| "stdio_enabled st (EvHandler installed) \<longleftrightarrow> True"
| "stdio_enabled st EvShutdown \<longleftrightarrow> True"

fun stdio_apply :: "'w mcp_env \<Rightarrow> mcp_target \<Rightarrow> stdio_event \<Rightarrow> stdio_impl \<Rightarrow> stdio_impl" where
  "stdio_apply env spec (EvConnect spawn) st = snd (Connect_stdio env spec spawn st)"
| "stdio_apply env spec (EvRequest method params) st = SendRequest_stdio env method params st"
| "stdio_apply env spec (EvCancel n) st = cancel_request env n st"
| "stdio_apply env spec (EvLine d line) st = read_line env d line st"
| "stdio_apply env spec (EvReadError d) st = read_failed d st"
| "stdio_apply env spec EvWritten st = write_completed False st"
| "stdio_apply env spec EvWriteError st = write_completed True st"
| "stdio_apply env spec (EvResume n) st = resume env n st"
| "stdio_apply env spec (EvHandler installed) st = st\<lparr>so_has_handler := installed\<rparr>"
| "stdio_apply env spec EvShutdown st = ShutdownInternal True st"

fun stdio_run :: "'w mcp_env \<Rightarrow> mcp_target \<Rightarrow> stdio_impl \<Rightarrow> stdio_event list \<Rightarrow> stdio_impl option" where
  "stdio_run env spec st [] = Some st"
| "stdio_run env spec st (e # es) = (if stdio_enabled st e then stdio_run env spec (stdio_apply env spec e st) es else None)"

end
