(* ===== verification/Mcp_Stdio_Props.thy ===== *)
theory Mcp_Stdio_Props
  imports Mcp_Stdio "HOL-Library.Sublist"
begin

text \<open>
  What the stdio client guarantees whatever the order of its completions: the pending table is exactly the requests that still
  wait, a channel takes one value, a reply only reaches the request whose id it has, and lines leave in the order they were
  queued. The last section has the runs in which an old transport reaches into a new one.
\<close>

section \<open>Requests and their channels\<close>

named_theorems stdio_frame \<open>what an operation leaves alone\<close>

lemma PumpWriter_frame [stdio_frame]:
  "so_state (PumpWriter st) = so_state st" "so_next_id (PumpWriter st) = so_next_id st"
  "so_pending (PumpWriter st) = so_pending st" "so_channels (PumpWriter st) = so_channels st"
  "so_queue (PumpWriter st) = so_queue st" "so_lines (PumpWriter st) = so_lines st" "so_wire (PumpWriter st) = so_wire st"
  by (simp_all add: PumpWriter_def)

lemma WriteLine_frame [stdio_frame]:
  "so_state (WriteLine line st) = so_state st" "so_next_id (WriteLine line st) = so_next_id st"
  "so_pending (WriteLine line st) = so_pending st" "so_channels (WriteLine line st) = so_channels st"
  by (simp_all add: WriteLine_def Let_def stdio_frame)

lemma SendNotification_frame [stdio_frame]:
  "so_state (SendNotification env m p st) = so_state st" "so_next_id (SendNotification env m p st) = so_next_id st"
  "so_pending (SendNotification env m p st) = so_pending st" "so_channels (SendNotification env m p st) = so_channels st"
  by (simp_all add: SendNotification_def stdio_frame)

definition waiting :: "(64 word \<times> chan) list \<Rightarrow> 64 word list" where
  "waiting cs = map fst (filter (\<lambda>p. snd p = Waiting) cs)"

definition chan_inv :: "'w mcp_env \<Rightarrow> stdio_impl \<Rightarrow> bool" where
  "chan_inv env st \<longleftrightarrow> map (unat \<circ> fst) (so_channels st) = [1..<unat (so_next_id st)] \<and> 1 \<le> unat (so_next_id st) \<and>
     so_pending st = waiting (so_channels st) \<and>
     (\<forall>(n, c)\<in>set (so_channels st). \<forall>msg. c = Got msg \<longrightarrow> reply_id env msg = Some n)"

lemma settle_fst: "map (unat \<circ> fst) (settle ns v cs) = map (unat \<circ> fst) cs"
  by (simp add: settle_def case_prod_beta)

lemma settle_Cons: "settle ns v ((n, c) # cs) = (n, if n \<in> set ns \<and> c = Waiting then v else c) # settle ns v cs"
  by (simp add: settle_def)

lemma waiting_Cons: "waiting ((n, c) # cs) = (if c = Waiting then n # waiting cs else waiting cs)"
  by (simp add: waiting_def)

lemma waiting_settle: "v \<noteq> Waiting \<Longrightarrow> waiting (settle ns v cs) = filter (\<lambda>n. n \<notin> set ns) (waiting cs)"
  by (induction cs) (auto simp: settle_Cons waiting_Cons, simp_all add: settle_def waiting_def)

lemma settle_value:
  "(n, c) \<in> set (settle ns v cs) \<Longrightarrow> (n, c) \<in> set cs \<or> n \<in> set ns \<and> c = v"
  by (auto simp: settle_def split: if_splits)

lemma waiting_settled_all: "v \<noteq> Waiting \<Longrightarrow> waiting (settle (waiting cs) v cs) = []"
  by (simp add: waiting_settle filter_empty_conv)

lemma chan_inv_settle:
  assumes "chan_inv env st" "v \<noteq> Waiting" "\<And>n msg. v = Got msg \<Longrightarrow> n \<in> set ns \<Longrightarrow> reply_id env msg = Some n"
    "so_next_id st' = so_next_id st" "so_channels st' = settle ns v (so_channels st)"
    "so_pending st' = filter (\<lambda>n. n \<notin> set ns) (so_pending st)"
  shows "chan_inv env st'"
  using assms settle_value[of _ _ ns v "so_channels st"] unfolding chan_inv_def
  by (auto simp: settle_fst waiting_settle) blast+

lemma chan_inv_cong:
  "chan_inv env st \<Longrightarrow> so_next_id st' = so_next_id st \<Longrightarrow> so_channels st' = so_channels st \<Longrightarrow> so_pending st' = so_pending st \<Longrightarrow>
     chan_inv env st'"
  by (simp add: chan_inv_def)

lemma chan_inv_fail:
  assumes "chan_inv env st" "so_next_id st' = so_next_id st" "so_channels st' = so_channels (FailPending st)"
    "so_pending st' = so_pending (FailPending st)"
  shows "chan_inv env st'"
  by (rule chan_inv_settle[OF assms(1), of Closed "so_pending st"]) (use assms in \<open>simp_all add: FailPending_def\<close>)

lemma chan_inv_request:
  assumes "chan_inv env st" "so_next_id st < 0x7FFFFFFFFFFFFFFF"
  shows "chan_inv env (SendRequest_stdio env method params st)"
proof -
  have "unat (so_next_id st + 1) = Suc (unat (so_next_id st))"
    using assms(2) by (simp add: unat_word_ariths word_less_nat_alt)
  then show ?thesis
    using assms(1) by (auto simp: chan_inv_def SendRequest_stdio_def Let_def stdio_frame waiting_def)
qed

lemma chan_inv_dispatch:
  assumes "chan_inv env st"
  shows "chan_inv env (DispatchInbound env msg st)"
proof (cases "is_notification_msg msg \<or> reply_id env msg = None")
  case True
  then show ?thesis
    by (intro chan_inv_cong[OF assms]; auto simp: DispatchInbound_def split: option.splits if_splits)
next
  case False
  then obtain n where n: "\<not> is_notification_msg msg" "reply_id env msg = Some n" by auto
  show ?thesis
  proof (cases "n \<in> set (so_pending st)")
    case True
    then show ?thesis
      by (intro chan_inv_settle[OF assms, of "Got msg" "[n]"])
        (use n in \<open>simp_all add: DispatchInbound_def removeAll_filter_not_eq\<close>, metis)
  qed (use n assms in \<open>simp add: DispatchInbound_def\<close>)
qed

lemma chan_inv_shutdown: "chan_inv env st \<Longrightarrow> chan_inv env (ShutdownInternal permanent st)"
  by (erule chan_inv_fail) (simp_all add: ShutdownInternal_def Let_def FailPending_def)

lemma chan_inv_connect:
  assumes "chan_inv env st" "so_next_id st < 0x7FFFFFFFFFFFFFFF"
  shows "chan_inv env (snd (Connect_stdio env spec spawn st))"
proof -
  define st1 where "st1 = (if so_state st = kBroken then ShutdownInternal False st else st)"
  have st1: "chan_inv env st1" "so_next_id st1 < 0x7FFFFFFFFFFFFFFF"
    using assms by (simp_all add: st1_def chan_inv_shutdown, simp add: ShutdownInternal_def Let_def FailPending_def)
  let ?st2 = "st1\<lparr>so_state := kConnecting\<rparr>"
  have fresh: "chan_inv env (SendRequest_stdio env m p (?st2\<lparr>so_spawned := d, so_child := e, so_in := f, so_out := g,
      so_readers := h, so_state := k, so_connecting := l\<rparr>))" for m p d e f g h k l
    by (rule chan_inv_request) (use st1 in \<open>simp_all add: chan_inv_def\<close>)
  have plain: "chan_inv env (st1\<lparr>so_state := k\<rparr>)" for k
    using st1(1) by (simp add: chan_inv_def)
  show ?thesis
    using assms(1) st1(1) fresh plain
    by (auto simp: Connect_stdio_def Let_def ConnectStdio_def st1_def[symmetric] split: option.splits)
qed

lemma chan_inv_step:
  assumes "chan_inv env st" "stdio_enabled st e"
  shows "chan_inv env (stdio_apply env spec e st)"
proof (cases e)
  case (EvConnect spawn)
  then show ?thesis using assms by (simp add: chan_inv_connect)
next
  case (EvRequest m p)
  then show ?thesis using assms by (simp add: chan_inv_request)
next
  case (EvCancel n)
  then show ?thesis
    by (cases "n \<in> set (so_pending st)"; simp add: cancel_request_def assms)
      (intro chan_inv_settle[OF assms(1), of Closed "[n]"]; simp add: stdio_frame removeAll_filter_not_eq; metis)
next
  case (EvLine d line)
  have "chan_inv env (case me_parse env line of Some msg \<Rightarrow> DispatchInbound env msg st | None \<Rightarrow> st)"
    using assms(1) by (cases "me_parse env line") (simp_all add: chan_inv_dispatch)
  then show ?thesis using EvLine assms(1) by (simp add: read_line_def Let_def chan_inv_def)
next
  case (EvReadError d)
  show ?thesis by (rule chan_inv_fail[OF assms(1)]) (use EvReadError in \<open>simp_all add: read_failed_def FailPending_def\<close>)
next
  case EvWritten
  show ?thesis by (rule chan_inv_cong[OF assms(1)]) (use EvWritten in \<open>simp_all add: write_completed_def Let_def stdio_frame\<close>)
next
  case EvWriteError
  show ?thesis by (rule chan_inv_fail[OF assms(1)]) (use EvWriteError in \<open>simp_all add: write_completed_def Let_def FailPending_def\<close>)
next
  case (EvResume n)
  show ?thesis
    by (rule chan_inv_cong[OF assms(1)])
      (use EvResume in \<open>auto simp: resume_def Let_def stdio_frame split: option.splits sum.splits\<close>)
next
  case (EvHandler installed)
  then show ?thesis using assms(1) by (simp add: chan_inv_def)
next
  case EvShutdown
  then show ?thesis using assms(1) by (simp add: chan_inv_shutdown)
qed

text \<open>A channel that has its value keeps it.\<close>

lemma settle_keeps: "map_of cs n = Some c \<Longrightarrow> c \<noteq> Waiting \<Longrightarrow> map_of (settle ns v cs) n = Some c"
  by (induction cs) (auto simp: settle_def)

lemma append_keeps: "map_of cs n = Some c \<Longrightarrow> map_of (cs @ ds) n = Some c"
  by (simp add: map_add_Some_iff)

lemma connect_keeps:
  assumes "map_of (so_channels st) n = Some c" "c \<noteq> Waiting"
  shows "map_of (so_channels (snd (Connect_stdio env spec spawn st))) n = Some c"
proof -
  define st1 where "st1 = (if so_state st = kBroken then ShutdownInternal False st else st)"
  have "map_of (so_channels st1) n = Some c"
    using assms by (simp add: st1_def ShutdownInternal_def Let_def FailPending_def settle_keeps)
  then show ?thesis
    using assms by (auto simp: Connect_stdio_def Let_def ConnectStdio_def SendRequest_stdio_def stdio_frame st1_def[symmetric]
        append_keeps split: option.splits)
qed

lemma step_keeps:
  assumes "map_of (so_channels st) n = Some c" "c \<noteq> Waiting"
  shows "map_of (so_channels (stdio_apply env spec e st)) n = Some c"
proof (cases e)
  case (EvConnect spawn)
  then show ?thesis using connect_keeps[OF assms] by simp
next
  case (EvLine d line)
  have "map_of (so_channels (DispatchInbound env msg st)) n = Some c" for msg
    using assms by (auto simp: DispatchInbound_def settle_keeps split: option.splits if_splits)
  then show ?thesis using EvLine assms by (auto simp: read_line_def Let_def split: option.splits)
qed (use assms in \<open>auto simp: SendRequest_stdio_def cancel_request_def read_failed_def write_completed_def resume_def
    ShutdownInternal_def FailPending_def Let_def stdio_frame settle_keeps append_keeps split: option.splits sum.splits\<close>)

section \<open>Lines\<close>

definition write_inv :: "stdio_impl \<Rightarrow> bool" where
  "write_inv st \<longleftrightarrow> (so_write_active st \<longleftrightarrow> so_writing st \<noteq> None) \<and> (so_write_active st \<longrightarrow> so_queue st \<noteq> []) \<and>
     (\<exists>popped. so_lines st = popped @ so_queue st \<and> subseq (map snd (so_wire st)) popped)"

lemma write_inv_cong:
  "write_inv st \<Longrightarrow> so_write_active st' = so_write_active st \<Longrightarrow> so_writing st' = so_writing st \<Longrightarrow> so_queue st' = so_queue st \<Longrightarrow>
     so_lines st' = so_lines st \<Longrightarrow> so_wire st' = so_wire st \<Longrightarrow> write_inv st'"
  by (simp add: write_inv_def)

lemma write_inv_pump:
  assumes "so_writing st = None" "so_lines st = popped @ so_queue st" "subseq (map snd (so_wire st)) popped"
  shows "write_inv (PumpWriter st)"
  using assms by (auto simp: write_inv_def PumpWriter_def)

lemma write_inv_line:
  assumes "write_inv st"
  shows "write_inv (WriteLine line st)"
proof (cases "so_write_active st")
  case True
  then show ?thesis using assms by (auto simp: write_inv_def WriteLine_def Let_def)
next
  case False
  obtain popped where "so_lines st = popped @ so_queue st" "subseq (map snd (so_wire st)) popped" "so_writing st = None"
    using assms False by (auto simp: write_inv_def)
  then show ?thesis using False by (auto simp: WriteLine_def Let_def intro!: write_inv_pump[of _ popped])
qed

lemma write_inv_notification: "write_inv st \<Longrightarrow> write_inv (SendNotification env m p st)"
  by (simp add: SendNotification_def write_inv_line)

lemma write_inv_request: "write_inv st \<Longrightarrow> write_inv (SendRequest_stdio env m p st)"
  unfolding SendRequest_stdio_def Let_def by (rule write_inv_line) (erule write_inv_cong; simp)

lemma write_inv_completed:
  assumes "write_inv st" "so_writing st \<noteq> None"
  shows "write_inv (write_completed failed st)"
proof -
  obtain line queue where queue: "so_queue st = line # queue"
    using assms by (cases "so_queue st") (auto simp: write_inv_def)
  obtain popped where popped: "so_lines st = popped @ so_queue st" "subseq (map snd (so_wire st)) popped"
    using assms by (auto simp: write_inv_def)
  have "subseq (map snd (so_wire st)) (popped @ [line])" "subseq (map snd (so_wire st) @ [line]) (popped @ [line])"
    using popped(2) by (auto simp: list_emb_append_mono)
  note sub = this
  show ?thesis
  proof (cases failed)
    case True
    then show ?thesis
      using queue popped(1) sub by (auto simp: write_completed_def Let_def write_inv_def FailPending_def intro!: exI[of _ "popped @ [line]"])
  next
    case False
    have "write_inv (PumpWriter (st\<lparr>so_queue := queue, so_writing := None, so_wire := so_wire st @ [(the (so_writing st), line)]\<rparr>))"
      by (rule write_inv_pump[of _ "popped @ [line]"]) (use queue popped(1) sub in simp_all)
    then show ?thesis using False queue by (simp add: write_completed_def Let_def)
  qed
qed

lemma write_inv_step:
  assumes "write_inv st" "stdio_enabled st e"
  shows "write_inv (stdio_apply env spec e st)"
proof (cases e)
  case (EvConnect spawn)
  define st1 where "st1 = (if so_state st = kBroken then ShutdownInternal False st else st)"
  have st1: "write_inv st1"
    using assms(1) by (simp add: st1_def write_inv_def ShutdownInternal_def Let_def FailPending_def)
  let ?st2 = "st1\<lparr>so_state := kConnecting\<rparr>"
  have fresh: "write_inv (SendRequest_stdio env m p (?st2\<lparr>so_spawned := d, so_child := e, so_in := f, so_out := g,
      so_readers := h, so_state := k, so_connecting := l\<rparr>))" for m p d e f g h k l
    by (rule write_inv_request) (use st1 in \<open>simp add: write_inv_def\<close>)
  have plain: "write_inv (st1\<lparr>so_state := k\<rparr>)" for k
    using st1 by (simp add: write_inv_def)
  show ?thesis
    using assms(1) st1 fresh plain EvConnect
    by (auto simp: Connect_stdio_def Let_def ConnectStdio_def st1_def[symmetric] split: option.splits)
next
  case (EvCancel n)
  then show ?thesis
    using assms(1) by (auto simp: cancel_request_def intro!: write_inv_notification elim!: write_inv_cong)
next
  case (EvLine d line)
  then show ?thesis
    using assms(1) by (auto simp: read_line_def Let_def DispatchInbound_def elim!: write_inv_cong split: option.splits)
next
  case (EvResume n)
  define st1 where "st1 = st\<lparr>so_awaiting := removeAll n (so_awaiting st), so_connecting := removeAll n (so_connecting st)\<rparr>"
  have inv: "write_inv st1" using assms(1) by (simp add: write_inv_def st1_def)
  then have "write_inv (st1\<lparr>so_state := k\<rparr>)" "write_inv ((SendNotification env m p st1)\<lparr>so_state := k\<rparr>)" for k m p
    using write_inv_notification[of st1 env m p] by (simp_all add: write_inv_def)
  then have "write_inv (resume env n st)"
    using inv unfolding resume_def Let_def st1_def[symmetric] by (simp split: option.splits sum.splits)
  then show ?thesis using EvResume by simp
qed (use assms in \<open>simp_all add: write_inv_request write_inv_completed\<close>, simp_all add: read_failed_def ShutdownInternal_def
    FailPending_def Let_def write_inv_def)

lemma state_step: "so_state st \<noteq> kConnecting \<Longrightarrow> so_state (stdio_apply env spec e st) \<noteq> kConnecting"
  by (cases e)
    (auto simp: Connect_stdio_def ConnectStdio_def SendRequest_stdio_def cancel_request_def read_line_def DispatchInbound_def
      read_failed_def write_completed_def resume_def ShutdownInternal_def FailPending_def Let_def stdio_frame
      split: option.splits sum.splits)

definition stdio_inv :: "'w mcp_env \<Rightarrow> stdio_impl \<Rightarrow> bool" where
  "stdio_inv env st \<longleftrightarrow> chan_inv env st \<and> write_inv st \<and> so_state st \<noteq> kConnecting"

lemma stdio_inv_new: "stdio_inv env new_stdio_impl"
  by (simp add: stdio_inv_def chan_inv_def write_inv_def waiting_def new_stdio_impl_def)

lemma stdio_inv_step: "stdio_inv env st \<Longrightarrow> stdio_enabled st e \<Longrightarrow> stdio_inv env (stdio_apply env spec e st)"
  by (simp add: stdio_inv_def chan_inv_step write_inv_step state_step)

interpretation stdio_sys: invariant_system "\<lambda>s. s = new_stdio_impl"
    "\<lambda>s e t. stdio_enabled s e \<and> t = stdio_apply env spec e s" "stdio_inv env"
  by unfold_locales (auto simp: stdio_inv_new stdio_inv_step)

lemma stdio_run_snoc: "stdio_run env spec st (es @ [e]) =
    (case stdio_run env spec st es of
       Some t \<Rightarrow> if stdio_enabled t e then Some (stdio_apply env spec e t) else None
     | None \<Rightarrow> None)"
  by (induction es arbitrary: st) auto

lemma stdio_run_sys:
  fixes env :: "'w mcp_env"
  shows "stdio_run env spec st es = Some t \<Longrightarrow> stdio_sys.run TYPE('w) env spec st es t"
  by (induction es arbitrary: t rule: rev_induct)
    (auto simp: stdio_run_snoc intro: stdio_sys.run.intros split: option.splits if_splits)

lemma stdio_run_keeps:
  "stdio_run env spec st es = Some t \<Longrightarrow> map_of (so_channels st) n = Some c \<Longrightarrow> c \<noteq> Waiting \<Longrightarrow>
     map_of (so_channels t) n = Some c"
  by (induction es arbitrary: st) (auto simp: step_keeps split: if_splits)

section \<open>The properties\<close>

lemma map_of_waiting: "map_of cs n = Some Waiting \<Longrightarrow> n \<in> set (waiting cs)"
  by (force simp: waiting_def dest: map_of_SomeD)

lemma teardown_empties:
  assumes "stdio_enabled st e" "e = EvShutdown \<or> e = EvWriteError \<or> (\<exists>d. e = EvReadError d)"
  shows "so_pending (stdio_apply env spec e st) = []"
  using assms by (auto simp: ShutdownInternal_def read_failed_def write_completed_def FailPending_def Let_def)

text \<open>
  C36. In every run of a stdio client, however requests, cancellations, replies, failures, reconnects and shutdowns interleave:
  the pending table holds exactly the requests that still wait, so none is forgotten; a value in a channel is a message that
  carries that request's id; a channel that has its value keeps it through every further run; and a shutdown, a failed read or
  a failed write leaves no request waiting.
\<close>

theorem stdio_requests_settle_once:
  assumes "stdio_run env spec new_stdio_impl es = Some st"
  shows "set (so_pending st) = {n. map_of (so_channels st) n = Some Waiting} \<and> distinct (so_pending st) \<and>
     (\<forall>n msg. map_of (so_channels st) n = Some (Got msg) \<longrightarrow> reply_id env msg = Some n) \<and>
     (\<forall>fs t n c. stdio_run env spec st fs = Some t \<longrightarrow> map_of (so_channels st) n = Some c \<longrightarrow> c \<noteq> Waiting \<longrightarrow>
        map_of (so_channels t) n = Some c) \<and>
     (\<forall>e n. stdio_enabled st e \<longrightarrow> e = EvShutdown \<or> e = EvWriteError \<or> (\<exists>d. e = EvReadError d) \<longrightarrow>
        map_of (so_channels (stdio_apply env spec e st)) n \<noteq> Some Waiting)"
proof -
  have inv: "stdio_inv env st" using stdio_sys.run_from_init[OF refl stdio_run_sys[OF assms]] .
  have "distinct (map (unat \<circ> fst) (so_channels st))" using inv by (simp add: stdio_inv_def chan_inv_def)
  then have dist: "distinct (map fst (so_channels st))" by (metis distinct_map list.map_comp)
  have pending: "so_pending st = waiting (so_channels st)"
    and got: "(n, Got msg) \<in> set (so_channels st) \<Longrightarrow> reply_id env msg = Some n" for n msg
    using inv by (auto simp: stdio_inv_def chan_inv_def)
  have 1: "set (so_pending st) = {n. map_of (so_channels st) n = Some Waiting}"
    using dist by (force simp: pending waiting_def)
  have 2: "distinct (so_pending st)" using dist by (simp add: pending waiting_def distinct_map_filter)
  have 3: "map_of (so_channels (stdio_apply env spec e st)) n \<noteq> Some Waiting"
    if "stdio_enabled st e" "e = EvShutdown \<or> e = EvWriteError \<or> (\<exists>d. e = EvReadError d)" for e n
  proof -
    let ?t = "stdio_apply env spec e st"
    have "waiting (so_channels ?t) = []"
      using teardown_empties[OF that, of env spec] stdio_inv_step[OF inv that(1), of spec] by (simp add: stdio_inv_def chan_inv_def)
    then show ?thesis using map_of_waiting[of "so_channels ?t" n] by auto
  qed
  have 4: "reply_id env msg = Some n" if "map_of (so_channels st) n = Some (Got msg)" for n msg
    using got[OF map_of_SomeD[OF that]] .
  show ?thesis using 1 2 3 4 stdio_run_keeps[of env spec st] by blast
qed

text \<open>
  Lines leave in the order they were queued and each at most once: what has been written so far, whichever child it
  went to, is a subsequence of a prefix of what has been queued, and the rest of it still stands in the queue; and a write
  is under way exactly when the client believes one is.
\<close>

lemma stdio_lines_in_order:
  assumes "stdio_run env spec new_stdio_impl es = Some st"
  shows "(\<exists>popped. so_lines st = popped @ so_queue st \<and> subseq (map snd (so_wire st)) popped) \<and>
     (so_write_active st \<longleftrightarrow> so_writing st \<noteq> None)"
  using stdio_sys.run_from_init[OF refl stdio_run_sys[OF assms]] by (simp add: stdio_inv_def write_inv_def)

text \<open>
  A server whose lines are written by their method, and whose replies are read from a one-letter code: \<open>a\<close> and \<open>b\<close> answer
  requests 1 and 2, \<open>e\<close> is an error for request 1.
\<close>

definition sample_pipe :: "unit mcp_env" where
  "sample_pipe =
     \<lparr>me_parse = (\<lambda>s. if s = ''a'' then Some (JObj [(''id'', JInt 1), (''result'', JObj [])])
                    else if s = ''b'' then Some (JObj [(''id'', JInt 2), (''result'', JNull)])
                    else if s = ''e'' then Some (JObj [(''error'', JObj []), (''id'', JInt 1)]) else None),
      me_dump = (\<lambda>j. case jstring j ''method'' of Some m \<Rightarrow> m | None \<Rightarrow> []),
      me_handler = (\<lambda>m p w. w), me_metadata_token = None,
      me_float_equals = (\<lambda>a b. False), me_float_to_int = (\<lambda>a. 0), me_float_to_int64 = id, me_close_error = Some ''closed''\<rparr>"

definition sample_child :: mcp_target where
  "sample_child = \<lparr>mt_transport = Stdio, mt_command_or_url = ''server'', mt_args = [], mt_headers = []\<rparr>"

definition handshake :: "stdio_event list" where
  "handshake = [EvConnect None, EvWritten, EvLine 1 ''a'', EvResume 1, EvWritten]"

definition two_calls :: "stdio_event list" where
  "two_calls = handshake @ [EvRequest ''tools/call'' JNull, EvRequest ''tools/list'' JNull, EvLine 1 ''b'']"

theorem stdio_requests_settle_once_witness:
  "\<exists>st. stdio_run sample_pipe sample_child new_stdio_impl two_calls = Some st \<and>
     set (so_pending st) = {n. map_of (so_channels st) n = Some Waiting} \<and> so_pending st = [3]"
proof -
  let ?st = "the (stdio_run sample_pipe sample_child new_stdio_impl two_calls)"
  have "stdio_run sample_pipe sample_child new_stdio_impl two_calls = Some ?st \<and> so_pending ?st = [3]" by code_simp
  then show ?thesis using stdio_requests_settle_once[of sample_pipe sample_child two_calls ?st] by blast
qed

lemma run_outcome: "(case x of Some y \<Rightarrow> P y | None \<Rightarrow> False) \<Longrightarrow> \<exists>y. x = Some y \<and> P y"
  by (cases x) auto

lemma settle_new: "map_of cs n = None \<Longrightarrow> map_of (settle [n] v (cs @ [(n, Waiting)])) n = Some v"
  by (induction cs) (auto simp: settle_def split: if_splits)

section \<open>Reconnecting\<close>

text \<open>
  A client that broke while its reader still waits on the old child does not recover. Reconnecting closes the old
  descriptor; when the aborted read is delivered before the new child has answered, the old reader fails the new
  handshake's request and breaks the client, and leaves it as it was: broken, with the reader of the new child waiting. So
  the next attempt fails the same way.
\<close>

lemma stdio_reconnect_fails:
  assumes "so_state st = kBroken" "\<not> so_shutdown st" "so_readers st = [d]" "so_pending st = []" "so_awaiting st = []"
    "chan_inv env st" "so_next_id st < 0x7FFFFFFFFFFFFFFF" "mt_transport spec = Stdio" "mt_command_or_url spec \<noteq> []"
  shows "\<exists>t. stdio_run env spec st [EvConnect None, EvReadError d, EvResume (so_next_id st)] = Some t \<and>
     so_state t = kBroken \<and> \<not> so_shutdown t \<and> so_readers t = [Suc (so_spawned st)] \<and> so_pending t = [] \<and> so_awaiting t = [] \<and>
     chan_inv env t \<and> so_next_id t = so_next_id st + 1 \<and> map_of (so_channels t) (so_next_id st) = Some Closed"
proof -
  let ?n = "so_next_id st"
  have new: "map_of (so_channels st) ?n = None"
  proof -
    have "unat ?n \<notin> set (map (unat \<circ> fst) (so_channels st))" using assms(6) by (simp add: chan_inv_def)
    then have "?n \<notin> set (map fst (so_channels st))" by force
    then show ?thesis by (simp add: map_of_eq_None_iff)
  qed
  define st1 where "st1 = stdio_apply env spec (EvConnect None) st"
  define st2 where "st2 = stdio_apply env spec (EvReadError d) st1"
  define t where "t = stdio_apply env spec (EvResume ?n) st2"
  have st1: "so_readers st1 = [d, Suc (so_spawned st)]" "so_pending st1 = [?n]" "so_awaiting st1 = [?n]"
    "so_channels st1 = so_channels st @ [(?n, Waiting)]" "\<not> so_shutdown st1" "so_next_id st1 = ?n + 1" "?n \<in> set (so_connecting st1)"
    using assms
    by (simp_all add: st1_def Connect_stdio_def ConnectStdio_def ShutdownInternal_def FailPending_def SendRequest_stdio_def
        WriteLine_def PumpWriter_def Let_def settle_def)
  have st2: "so_readers st2 = [Suc (so_spawned st)]" "so_pending st2 = []" "so_awaiting st2 = [?n]" "\<not> so_shutdown st2"
    "so_next_id st2 = ?n + 1" "?n \<in> set (so_connecting st2)" "map_of (so_channels st2) ?n = Some Closed"
    using st1 settle_new[OF new] by (simp_all add: st2_def read_failed_def FailPending_def)
  have "t = st2\<lparr>so_awaiting := [], so_connecting := removeAll ?n (so_connecting st2), so_state := kBroken\<rparr>"
    using st2 by (simp add: t_def resume_def Let_def request_outcome_def)
  moreover have "chan_inv env st1" unfolding st1_def by (rule chan_inv_step) (use assms in simp_all)
  then have "chan_inv env st2" unfolding st2_def by (rule chan_inv_step) (use st1 in simp_all)
  moreover have "stdio_run env spec st [EvConnect None, EvReadError d, EvResume ?n] = Some t"
    using assms(7) st1 st2 by (simp add: st1_def[symmetric] st2_def[symmetric] t_def[symmetric] del: stdio_apply.simps)
  ultimately show ?thesis using st2 by (auto simp: chan_inv_def)
qed

definition rejected :: "stdio_event list" where
  "rejected = [EvConnect None, EvWritten, EvLine 1 ''e'', EvResume 1]"

text \<open>
  Lines that were queued for a child that died are written to the next one, ahead of its \<open>initialize\<close>, though the callers of
  those requests have been told that they failed.
\<close>

lemma queued_lines_reach_next_child:
  "\<exists>st. stdio_run sample_pipe sample_child new_stdio_impl
       (handshake @ [EvRequest ''tools/list'' JNull, EvRequest ''tools/call'' JNull, EvWriteError, EvReadError 1,
          EvResume 2, EvResume 3, EvConnect None, EvWritten]) = Some st \<and>
     [l. (d, l) \<leftarrow> so_wire st, d = 2] = [''tools/call'' @ [CHR 0x0A]] \<and> map_of (so_channels st) 3 = Some Closed"
proof -
  have "(case stdio_run sample_pipe sample_child new_stdio_impl
       (handshake @ [EvRequest ''tools/list'' JNull, EvRequest ''tools/call'' JNull, EvWriteError, EvReadError 1,
          EvResume 2, EvResume 3, EvConnect None, EvWritten]) of
     Some st \<Rightarrow> [l. (d, l) \<leftarrow> so_wire st, d = 2] = [''tools/call'' @ [CHR 0x0A]] \<and> map_of (so_channels st) 3 = Some Closed
   | None \<Rightarrow> False)" by code_simp
  then show ?thesis by (rule run_outcome)
qed

text \<open>A client that is shut down between the answer to \<open>initialize\<close> and the end of its \<open>Connect\<close> says it is ready.\<close>

lemma shutdown_then_ready:
  "\<exists>st. stdio_run sample_pipe sample_child new_stdio_impl [EvConnect None, EvWritten, EvLine 1 ''a'', EvShutdown, EvResume 1] = Some st \<and>
     so_shutdown st \<and> so_state st = kReady \<and> so_in st = None"
proof -
  have "(case stdio_run sample_pipe sample_child new_stdio_impl [EvConnect None, EvWritten, EvLine 1 ''a'', EvShutdown, EvResume 1] of
     Some st \<Rightarrow> so_shutdown st \<and> so_state st = kReady \<and> so_in st = None | None \<Rightarrow> False)" by code_simp
  then show ?thesis by (rule run_outcome)
qed

text \<open>During the handshake the client is already ready: a second \<open>Connect\<close> returns at once and a call may go out before the answer.\<close>

lemma ready_during_handshake:
  assumes "Connect_stdio env spec spawn st = (None, st')" "so_state st \<noteq> kConnecting"
  shows "so_state st' = kReady" "Connect_stdio env spec spawn' st' = (Some (Inr ()), st')"
proof -
  show ready: "so_state st' = kReady"
    using assms by (auto simp: Connect_stdio_def ConnectStdio_def ShutdownInternal_def FailPending_def SendRequest_stdio_def
        stdio_frame Let_def split: if_splits option.splits)
  have "\<not> so_shutdown st'"
    using assms by (auto simp: Connect_stdio_def ConnectStdio_def ShutdownInternal_def FailPending_def SendRequest_stdio_def
        WriteLine_def PumpWriter_def Let_def split: if_splits option.splits)
  then show "Connect_stdio env spec spawn' st' = (Some (Inr ()), st')" using ready by (simp add: Connect_stdio_def)
qed

end
