(* ===== verification/Mcp_Http_Props.thy ===== *)
theory Mcp_Http_Props
  imports Mcp_Http
begin

text \<open>
  What the HTTP half of the MCP client guarantees in every interleaving of the coroutines that share it: a result is the
  \<open>result\<close> of a message in the answer to that request, with its id; waiters are never forgotten; a client that is ready has a
  session as long as nothing interferes with its handshake; and the notification stream pauses a bounded time between its
  attempts.
\<close>

section \<open>Correlation\<close>

lemma sort_messages_source:
  assumes "fst (foldl (\<lambda>(response, w) msg.
         if is_notification_msg msg then (response, dispatch_notification env st msg w)
         else case Some n of
           Some n \<Rightarrow> if answers_request env n msg then (Some msg, w) else (response, w)
         | None \<Rightarrow> (response, w)) (r0, w) msgs) = Some payload"
  shows "r0 = Some payload \<or> payload \<in> set msgs \<and> answers_request env n payload"
  using assms
proof (induction msgs arbitrary: r0 w)
  case Nil
  then show ?case by simp
next
  case (Cons msg msgs)
  then show ?case
    by (cases "is_notification_msg msg"; cases "answers_request env n msg") (auto dest!: Cons.IH)
qed

lemma sort_messages_Some:
  "sort_messages env st (Some n) msgs w = (Some payload, w') \<Longrightarrow> payload \<in> set msgs \<and> answers_request env n payload"
  using sort_messages_source[of env st n None w msgs payload] by (simp add: sort_messages_def)

lemma rpc_payload_result:
  "rpc_payload env n payload = Inr (Inr r) \<Longrightarrow>
     is_object payload \<and> jfind payload ''error'' = None \<and> jfind payload ''result'' = Some r"
  by (auto simp: rpc_payload_def bind_status_def split: if_splits option.splits sum.splits)

lemma rpc_answer_result:
  assumes "rpc_answer env (Some n) (status, hs, body) st w = (Inr (Inr r), st', w')"
  shows "\<exists>bytes msgs payload. body = Inr bytes \<and> DecodeMcpHttpMessages (me_parse env) status hs bytes = Inr msgs \<and>
           payload \<in> set msgs \<and> answers_request env n payload \<and> is_object payload \<and>
           jfind payload ''error'' = None \<and> jfind payload ''result'' = Some r"
proof (cases body)
  case (Inl s)
  then show ?thesis using assms by (simp add: rpc_answer_def Let_def)
next
  case (Inr bytes)
  then obtain msgs where msgs: "DecodeMcpHttpMessages (me_parse env) status hs bytes = Inr msgs"
    using assms by (cases "DecodeMcpHttpMessages (me_parse env) status hs bytes") (simp_all add: rpc_answer_def Let_def)
  obtain response w1 where sorted: "sort_messages env (note_session hs st) (Some n) msgs w = (response, w1)"
    by fastforce
  then obtain payload where payload: "response = Some payload"
    using assms Inr msgs by (cases response) (simp_all add: rpc_answer_def Let_def)
  have "rpc_payload env n payload = Inr (Inr r)"
    using assms Inr msgs sorted payload by (simp add: rpc_answer_def Let_def)
  then show ?thesis
    using Inr msgs sort_messages_Some[of env "note_session hs st" n msgs w payload w1] sorted payload
      rpc_payload_result[of env n payload r] by blast
qed

lemma DecodeMcpHttpMessages_status: "DecodeMcpHttpMessages parse status hs body = Inr msgs \<Longrightarrow> 200 \<le> status \<and> status < 300"
  by (simp add: DecodeMcpHttpMessages_def split: if_splits)

lemma note_session_simps [simp]:
  "im_state (note_session hs st) = im_state st" "im_shutdown (note_session hs st) = im_shutdown st"
  "im_next_id (note_session hs st) = im_next_id st" "im_reader_active (note_session hs st) = im_reader_active st"
  "im_has_handler (note_session hs st) = im_has_handler st"
  by (simp_all add: note_session_def)

lemma rpc_message_id: "jfind (rpc_message method params (Some n)) ''id'' = Some (JInt n)"
  by (simp add: rpc_message_def Let_def jobj_def)

section \<open>The pieces of a step\<close>

lemma suspend_simps [simp]:
  "ht_impl (suspend i p c) = ht_impl c" "ht_log (suspend i p c) = ht_log c" "ht_waiters (suspend i p c) = ht_waiters c"
  "ht_world (suspend i p c) = ht_world c" "length (ht_calls (suspend i p c)) = length (ht_calls c)"
  "fst (ht_calls (suspend i p c) ! j) = fst (ht_calls c ! j)"
  by (simp_all add: suspend_def) (cases "i < length (ht_calls c)"; cases "j = i"; simp add: list_update_beyond)

lemma suspend_wait:
  "j < length (ht_calls c) \<Longrightarrow> snd (ht_calls (suspend i p c) ! j) = (if j = i then p else snd (ht_calls c ! j))"
  by (simp add: suspend_def nth_list_update)

lemma suspend_again [simp]: "suspend i p (suspend i q c) = suspend i p c"
  by (cases "i < length (ht_calls c)") (simp_all add: suspend_def list_update_beyond)

lemma on_impl_simps [simp]:
  "ht_impl (on_impl f c) = f (ht_impl c)" "ht_log (on_impl f c) = ht_log c" "ht_waiters (on_impl f c) = ht_waiters c"
  "ht_calls (on_impl f c) = ht_calls c" "ht_world (on_impl f c) = ht_world c"
  by (simp_all add: on_impl_def)

lemma wake_all:
  fixes c :: "'w http_client"
  shows "ht_impl (fold (\<lambda>j. suspend j AtWoken) js c) = ht_impl c" "ht_log (fold (\<lambda>j. suspend j AtWoken) js c) = ht_log c"
    "ht_world (fold (\<lambda>j. suspend j AtWoken) js c) = ht_world c"
    "length (ht_calls (fold (\<lambda>j. suspend j AtWoken) js c)) = length (ht_calls c)"
    "fst (ht_calls (fold (\<lambda>j. suspend j AtWoken) js c) ! k) = fst (ht_calls c ! k)"
    "k < length (ht_calls c) \<Longrightarrow> snd (ht_calls (fold (\<lambda>j. suspend j AtWoken) js c) ! k) = (if k \<in> set js then AtWoken else snd (ht_calls c ! k))"
  by (induction js arbitrary: c) (simp_all add: suspend_wait)

lemma notify_simps [simp]:
  "ht_impl (NotifyConnectWaiters c) = ht_impl c" "ht_log (NotifyConnectWaiters c) = ht_log c"
  "ht_world (NotifyConnectWaiters c) = ht_world c" "ht_waiters (NotifyConnectWaiters c) = []"
  "length (ht_calls (NotifyConnectWaiters c)) = length (ht_calls c)"
  "fst (ht_calls (NotifyConnectWaiters c) ! k) = fst (ht_calls c ! k)"
  by (simp_all add: NotifyConnectWaiters_def wake_all)

lemma notify_wait:
  "k < length (ht_calls c) \<Longrightarrow> snd (ht_calls (NotifyConnectWaiters c) ! k) = (if k \<in> set (ht_waiters c) then AtWoken else snd (ht_calls c ! k))"
  by (simp add: NotifyConnectWaiters_def wake_all)

lemma PostRpc_simps [simp]:
  "ht_calls (PostRpc env spec i m ps nt ses c) = ht_calls c" "ht_waiters (PostRpc env spec i m ps nt ses c) = ht_waiters c"
  "ht_world (PostRpc env spec i m ps nt ses c) = ht_world c"
  "ht_impl (PostRpc env spec i m ps nt ses c) = (if nt then ht_impl c else (ht_impl c)\<lparr>im_next_id := im_next_id (ht_impl c) + 1\<rparr>)"
  by (simp_all add: PostRpc_def Let_def)

text \<open>What an answer does to the client: it may take a session id, and an error other than a cancellation breaks the client.\<close>

definition breaks :: "post_answer \<Rightarrow> bool" where
  "breaks a \<longleftrightarrow> (case snd (snd a) of Inl s \<Rightarrow> code s \<noteq> Cancelled | Inr _ \<Rightarrow> False)"

lemma rpc_answer_impl:
  assumes "rpc_answer env m a st w = (r, st', w')"
  shows "st' = (if breaks a then (note_session (fst (snd a)) st)\<lparr>im_state := kBroken\<rparr> else note_session (fst (snd a)) st)"
    "breaks a \<Longrightarrow> \<exists>s. r = Inr (Inl s)"
  using assms by (auto simp: rpc_answer_def breaks_def Let_def split: prod.splits sum.splits option.splits if_splits)

lemma receive_answer_simps:
  assumes "receive_answer env i m a c = (r, c')"
  shows "ht_calls c' = ht_calls c" "ht_waiters c' = ht_waiters c" "ht_log c' = ht_log c @ [Answered i m a]"
    "ht_impl c' = (if breaks a then (note_session (fst (snd a)) (ht_impl c))\<lparr>im_state := kBroken\<rparr> else note_session (fst (snd a)) (ht_impl c))"
    "breaks a \<Longrightarrow> \<exists>s. r = Inr (Inl s)"
  using assms rpc_answer_impl[of env m a "ht_impl c" "ht_world c"]
  by (auto simp: receive_answer_def split: prod.splits)

section \<open>Requests and answers\<close>

fun log_id :: "http_log \<Rightarrow> 64 word option" where
  "log_id (Posted i m q) = m"
| "log_id (Answered i m a) = m"

text \<open>The session id an answer carries, and that a session id is empty or was carried by an answer of the log.\<close>

fun answer_session :: "http_log \<Rightarrow> string option" where
  "answer_session (Posted i m q) = None"
| "answer_session (Answered i m a) = Some (SessionIdFromHeaders (fst (snd a)))"

definition session_known :: "http_log list \<Rightarrow> string \<Rightarrow> bool" where
  "session_known log sid \<longleftrightarrow> sid = [] \<or> Some sid \<in> answer_session ` set log"

text \<open>The request of a call, as a function of the session id it goes out with.\<close>

definition request_of :: "'w mcp_env \<Rightarrow> mcp_target \<Rightarrow> mcp_call \<Rightarrow> 64 word \<Rightarrow> string \<Rightarrow> mcp_request option" where
  "request_of env spec call n sid = (case call of
       AskConnect \<Rightarrow> None
     | AskTools \<Rightarrow> Some (rpc_request env spec ''tools/list'' (JObj []) (Some n) [] sid)
     | AskTool name args_json session \<Rightarrow> (case call_arguments (me_parse env) args_json of
           Inl _ \<Rightarrow> None
         | Inr arguments \<Rightarrow> Some (rpc_request env spec ''tools/call''
             (jobj [(''name'', JStr name), (''arguments'', arguments)]) (Some n) session sid)))"

text \<open>A request that was posted by call \<open>i\<close>, once, under a known session, and is not answered; and one that has been, once.\<close>

definition outstanding :: "http_log list \<Rightarrow> nat \<Rightarrow> 64 word \<Rightarrow> (string \<Rightarrow> mcp_request option) \<Rightarrow> bool" where
  "outstanding log i n f \<longleftrightarrow> (\<exists>l1 sid req l2. log = l1 @ Posted i (Some n) req # l2 \<and> Some n \<notin> log_id ` set (l1 @ l2) \<and>
     session_known l1 sid \<and> f sid = Some req)"

definition result_in :: "'w mcp_env \<Rightarrow> 64 word \<Rightarrow> post_answer \<Rightarrow> json \<Rightarrow> bool" where
  "result_in env n a r \<longleftrightarrow> (\<exists>status hs bytes msgs payload. a = (status, hs, Inr bytes) \<and> 200 \<le> status \<and> status < 300 \<and>
     DecodeMcpHttpMessages (me_parse env) status hs bytes = Inr msgs \<and> payload \<in> set msgs \<and>
     answers_request env n payload \<and> jfind payload ''error'' = None \<and> jfind payload ''result'' = Some r)"

definition replied :: "'w mcp_env \<Rightarrow> http_log list \<Rightarrow> nat \<Rightarrow> 64 word \<Rightarrow> (string \<Rightarrow> mcp_request option) \<Rightarrow> json \<Rightarrow> bool" where
  "replied env log i n f r \<longleftrightarrow> (\<exists>l1 sid req l2 a l3. log = l1 @ Posted i (Some n) req # l2 @ Answered i (Some n) a # l3 \<and>
     Some n \<notin> log_id ` set (l1 @ l2 @ l3) \<and> session_known l1 sid \<and> f sid = Some req \<and> result_in env n a r)"

lemma outstanding_append: "outstanding log i n f \<Longrightarrow> log_id x \<noteq> Some n \<Longrightarrow> outstanding (log @ [x]) i n f"
  unfolding outstanding_def by (elim exE, rule exI, rule exI, rule exI, rule_tac x = "l2 @ [x]" in exI) auto

lemma replied_append: "replied env log i n f r \<Longrightarrow> log_id x \<noteq> Some n \<Longrightarrow> replied env (log @ [x]) i n f r"
  unfolding replied_def
  by (elim exE, rule exI, rule exI, rule exI, rule exI, rule exI, rule_tac x = "l3 @ [x]" in exI) auto

lemma replied_now:
  "outstanding log i n f \<Longrightarrow> result_in env n a r \<Longrightarrow> replied env (log @ [Answered i (Some n) a]) i n f r"
  unfolding outstanding_def replied_def
  by (elim exE, rule exI, rule exI, rule exI, rule_tac x = l2 in exI, rule exI, rule_tac x = "[]" in exI) auto

lemma outstanding_post:
  "Some n \<notin> log_id ` set log \<Longrightarrow> session_known log sid \<Longrightarrow> f sid = Some req \<Longrightarrow> outstanding (log @ [Posted i (Some n) req]) i n f"
  unfolding outstanding_def by (rule exI[of _ log]) auto

lemma outstanding_id: "outstanding log i n f \<Longrightarrow> Some n \<in> log_id ` set log"
  by (auto simp: outstanding_def image_iff)

lemma replied_id: "replied env log i n f r \<Longrightarrow> Some n \<in> log_id ` set log"
  by (auto simp: replied_def image_iff)

lemma outstanding_only: "outstanding log i n f \<Longrightarrow> x \<in> set log \<Longrightarrow> log_id x = Some n \<Longrightarrow> \<exists>req. x = Posted i (Some n) req"
  unfolding outstanding_def by (elim exE) force

lemma outstanding_unique: "outstanding log i n f \<Longrightarrow> outstanding log j n g \<Longrightarrow> i = j"
proof -
  assume i: "outstanding log i n f" and "outstanding log j n g"
  then obtain req where "Posted j (Some n) req \<in> set log" unfolding outstanding_def by (elim exE) auto
  from outstanding_only[OF i this] show ?thesis by simp
qed

lemma outstanding_not_replied: "outstanding log i n f \<Longrightarrow> replied env log j m g r \<Longrightarrow> m \<noteq> n"
proof
  assume i: "outstanding log i n f" and "replied env log j m g r" and "m = n"
  then obtain a where "Answered j (Some n) a \<in> set log" unfolding replied_def by fastforce
  from outstanding_only[OF i this] show False by simp
qed

section \<open>The account of the requests\<close>

definition init_request :: "'w mcp_env \<Rightarrow> mcp_target \<Rightarrow> 64 word \<Rightarrow> string \<Rightarrow> mcp_request option" where
  "init_request env spec n sid = Some (rpc_request env spec ''initialize'' init_params (Some n) [] sid)"

definition wait_ok :: "'w mcp_env \<Rightarrow> mcp_target \<Rightarrow> http_log list \<Rightarrow> nat \<Rightarrow> mcp_call \<Rightarrow> http_wait \<Rightarrow> bool" where
  "wait_ok env spec log i call p \<longleftrightarrow> (case p of
       AtInitialize n \<Rightarrow> outstanding log i n (init_request env spec n)
     | AtReply n \<Rightarrow> outstanding log i n (request_of env spec call n)
     | Over (ToolText out) \<Rightarrow> (\<exists>n r. out = me_dump env r \<and> replied env log i n (request_of env spec call n) r)
     | _ \<Rightarrow> True)"

lemma wait_ok_simps [simp]:
  "wait_ok env spec log i call NotSuspended" "wait_ok env spec log i call AtInitialized" "wait_ok env spec log i call AtWaiter"
  "wait_ok env spec log i call AtWoken" "wait_ok env spec log i call (Over (CallThrew e))"
  "wait_ok env spec log i call (Over (CallFailed s))" "wait_ok env spec log i call (Over ClientReady)"
  "wait_ok env spec log i call (Over (ToolsListed ts))"
  by (simp_all add: wait_ok_def)

text \<open>The id a suspended or finished call depends on.\<close>

lemma wait_ok_append:
  assumes "wait_ok env spec log i call p" "\<And>n. log_id x = Some n \<Longrightarrow> Some n \<notin> log_id ` set log \<or> (\<exists>j f. outstanding log j n f \<and> j \<noteq> i)"
  shows "wait_ok env spec (log @ [x]) i call p"
proof -
  have out: "outstanding (log @ [x]) i n f" if "outstanding log i n f" for n f
    using that assms(2) outstanding_id[OF that] outstanding_unique[OF that] by (intro outstanding_append) blast+
  have rep: "replied env (log @ [x]) i n f r" if "replied env log i n f r" for n f r
    using that assms(2) replied_id[OF that] outstanding_not_replied[OF _ that] by (intro replied_append) blast+
  show ?thesis using assms(1) out rep unfolding wait_ok_def by (cases p) (auto split: mcp_outcome.splits, blast)
qed

text \<open>The account holds for every call but those of \<open>J\<close>.\<close>

definition account :: "'w mcp_env \<Rightarrow> mcp_target \<Rightarrow> nat set \<Rightarrow> 'w http_client \<Rightarrow> bool" where
  "account env spec J c \<longleftrightarrow> (\<forall>x\<in>set (ht_log c). \<forall>n. log_id x = Some n \<longrightarrow> n < im_next_id (ht_impl c)) \<and>
     session_known (ht_log c) (im_session_id (ht_impl c)) \<and>
     (\<forall>j<length (ht_calls c). j \<notin> J \<longrightarrow> wait_ok env spec (ht_log c) j (fst (ht_calls c ! j)) (snd (ht_calls c ! j)))"

lemma account_weaken: "account env spec {} c \<Longrightarrow> account env spec J c"
  by (auto simp: account_def)

lemma account_suspend:
  "account env spec {i} c \<Longrightarrow> wait_ok env spec (ht_log c) i (fst (ht_calls c ! i)) p \<Longrightarrow> account env spec {} (suspend i p c)"
  by (auto simp: account_def suspend_wait)

lemma account_notify: "account env spec J c \<Longrightarrow> account env spec J (NotifyConnectWaiters c)"
  by (auto simp: account_def notify_wait)

lemma account_waiters: "account env spec J (c\<lparr>ht_waiters := ws\<rparr>) = account env spec J c"
  by (simp add: account_def)

lemma account_impl:
  "account env spec J c \<Longrightarrow> im_next_id (f (ht_impl c)) = im_next_id (ht_impl c) \<Longrightarrow>
   im_session_id (f (ht_impl c)) \<in> {[], im_session_id (ht_impl c)} \<Longrightarrow> account env spec J (on_impl f c)"
  by (auto simp: account_def session_known_def)

lemma next_id_fresh: "account env spec J c \<Longrightarrow> Some (im_next_id (ht_impl c)) \<notin> log_id ` set (ht_log c)"
  unfolding account_def by (metis (no_types, lifting) imageE less_irrefl)

lemma session_known_append: "session_known log sid \<Longrightarrow> session_known (log @ [x]) sid"
  by (auto simp: session_known_def)

lemma account_post:
  assumes "account env spec J c" "ids_left c"
  shows "account env spec J (PostRpc env spec i m ps nt ses c)"
proof -
  let ?n = "im_next_id (ht_impl c)"
  have up: "?n < ?n + 1" using assms(2) by (auto simp: ids_left_def word_less_nat_alt unat_word_ariths)
  show ?thesis
    using assms(1) next_id_fresh[OF assms(1)] up
    by (auto simp: account_def PostRpc_def Let_def intro!: wait_ok_append session_known_append intro: order.strict_trans)
qed

lemma outstanding_posted:
  assumes "account env spec J c" "f (im_session_id (ht_impl c)) = Some (rpc_request env spec m ps (Some (im_next_id (ht_impl c))) ses (im_session_id (ht_impl c)))"
  shows "outstanding (ht_log (PostRpc env spec i m ps False ses c)) i (im_next_id (ht_impl c)) f"
  using assms next_id_fresh[OF assms(1)]
  by (auto simp: PostRpc_def Let_def account_def intro!: outstanding_post)

lemma account_answer:
  assumes "account env spec {} c" "i < length (ht_calls c)" "receive_answer env i m a c = (r, c')"
    and "\<And>n. m = Some n \<Longrightarrow> \<exists>f. outstanding (ht_log c) i n f"
  shows "account env spec {i} c'" "im_next_id (ht_impl c') = im_next_id (ht_impl c)"
proof -
  note s = receive_answer_simps[OF assms(3)]
  show "im_next_id (ht_impl c') = im_next_id (ht_impl c)" by (simp add: s)
  have "session_known (ht_log c') (im_session_id (ht_impl c'))"
    using assms(1) unfolding s account_def session_known_def by (auto simp: note_session_def)
  moreover have "wait_ok env spec (ht_log c') j (fst (ht_calls c' ! j)) (snd (ht_calls c' ! j))" if "j < length (ht_calls c)" "j \<noteq> i" for j
    unfolding s using assms(1,4) that by (intro wait_ok_append) (auto simp: account_def)
  moreover have "n < im_next_id (ht_impl c)" if "m = Some n" for n
    using assms(4)[OF that] assms(1) outstanding_id by (fastforce simp: account_def)
  ultimately show "account env spec {i} c'" using assms(1) by (auto simp: account_def s)
qed
text \<open>The reader and the shutdown leave the ids alone and at most drop the session.\<close>

lemma impl_ops [simp]:
  "im_next_id (MaybeStartHttpReader spec st) = im_next_id st" "im_session_id (MaybeStartHttpReader spec st) = im_session_id st"
  "im_next_id (ShutdownHttp permanent st) = im_next_id st" "im_session_id (ShutdownHttp permanent st) = []"
  "im_next_id (SetInboundEventHandler spec installed st) = im_next_id st"
  "im_session_id (SetInboundEventHandler spec installed st) = im_session_id st"
  "im_next_id (reader_done generation st) = im_next_id st" "im_session_id (reader_done generation st) = im_session_id st"
  by (simp_all add: MaybeStartHttpReader_def ShutdownHttp_def StopHttpReader_def SetInboundEventHandler_def reader_done_def Let_def)

lemma ids_left_simps [simp]:
  "ids_left (suspend i p c) = ids_left c" "ids_left (NotifyConnectWaiters c) = ids_left c"
  "im_next_id (f (ht_impl c)) = im_next_id (ht_impl c) \<Longrightarrow> ids_left (on_impl f c) = ids_left c"
  by (simp_all add: ids_left_def)

lemma account_SendRequest:
  assumes "account env spec {i} c" "ids_left c"
    and "\<And>n sid. request_of env spec (fst (ht_calls c ! i)) n sid = Some (rpc_request env spec m ps (Some n) ses sid)"
  shows "account env spec {} (SendRequest_http env spec i m ps ses c)"
proof -
  have "wait_ok env spec (ht_log (PostRpc env spec i m ps False ses c)) i (fst (ht_calls c ! i)) (AtReply (im_next_id (ht_impl c)))"
    using outstanding_posted[OF assms(1)] assms(3) by (simp add: wait_ok_def)
  then have "account env spec {} (suspend i (AtReply (im_next_id (ht_impl c))) (PostRpc env spec i m ps False ses c))"
    using account_post[OF assms(1,2)] by (intro account_suspend) simp_all
  then show ?thesis using account_suspend[OF assms(1)] by (simp add: SendRequest_http_def)
qed

lemma account_after_connect:
  assumes "account env spec {i} c" "ids_left c"
  shows "account env spec {} (after_connect env spec i res c)"
proof -
  have "account env spec {} (call_request env spec i c)"
  proof (cases "fst (ht_calls c ! i)")
    case AskTools
    then show ?thesis using account_SendRequest[OF assms] by (simp add: call_request_def request_of_def)
  next
    case (AskTool name args session)
    then show ?thesis using account_SendRequest[OF assms] account_suspend[OF assms(1)]
      by (cases "call_arguments (me_parse env) args") (simp_all add: call_request_def request_of_def)
  qed (use account_suspend[OF assms(1)] in \<open>simp add: call_request_def\<close>)
  then show ?thesis using account_suspend[OF assms(1)] by (auto simp: after_connect_def split: sum.splits)
qed

lemma account_connect_done:
  assumes "account env spec {i} c" "ids_left c"
  shows "account env spec {} (connect_done env spec i res c)"
  using assms
  by (auto simp: connect_done_def split: sum.splits intro!: account_after_connect account_notify account_impl)

lemma account_Connect:
  assumes "account env spec {i} c" "ids_left c"
  shows "account env spec {} (Connect env spec i c)"
proof -
  have http: "account env spec {} (ConnectHttp env spec i c)" if A: "account env spec {i} c" "ids_left c" for c :: "'a http_client"
  proof -
    let ?c = "on_impl (\<lambda>st. st\<lparr>im_session_id := []\<rparr>) c"
    have c: "account env spec {i} ?c" "ids_left ?c" using A by (auto intro: account_impl)
    have "wait_ok env spec (ht_log (PostRpc env spec i ''initialize'' init_params False [] ?c)) i (fst (ht_calls c ! i))
        (AtInitialize (im_next_id (ht_impl c)))"
      using outstanding_posted[OF c(1), of "init_request env spec (im_next_id (ht_impl c))" "''initialize''" init_params "[]" i]
      by (simp add: wait_ok_def init_request_def)
    then have "account env spec {} (suspend i (AtInitialize (im_next_id (ht_impl c))) (PostRpc env spec i ''initialize'' init_params False [] ?c))"
      using account_post[OF c] by (intro account_suspend) simp_all
    then show ?thesis using account_connect_done[OF A] by (simp add: ConnectHttp_def)
  qed
  have shut: "account env spec {i} (Shutdown_http False c)" "ids_left (Shutdown_http False c)"
    using assms by (auto simp: Shutdown_http_def intro!: account_notify account_impl)
  have go: "account env spec {i} (on_impl (\<lambda>st. st\<lparr>im_state := kConnecting\<rparr>) d)"
    "account env spec {} ((suspend i AtWaiter d)\<lparr>ht_waiters := ws\<rparr>)" if "account env spec {i} d" for d :: "'a http_client" and ws
    using that account_suspend[OF that] by (auto simp: account_waiters intro: account_impl)
  show ?thesis
    using assms shut by (auto simp: Connect_def Let_def intro!: account_after_connect http go)
qed

lemma account_start:
  assumes "account env spec {} c" "ids_left c"
  shows "account env spec {} (start_call env spec call c)"
proof -
  let ?c = "c\<lparr>ht_calls := ht_calls c @ [(call, NotSuspended)]\<rparr>"
  have "account env spec {length (ht_calls c)} ?c" "ids_left ?c"
    using assms by (auto simp: account_def nth_append ids_left_def)
  then show ?thesis by (auto simp: start_call_def EnsureReady_def Let_def intro: account_Connect account_after_connect)
qed

lemma receive_result:
  assumes "receive_answer env i (Some n) a c = (Inr (Inr r), c')"
  shows "result_in env n a r"
proof -
  obtain status hs body where a: "a = (status, hs, body)" by (metis prod_cases3)
  obtain st w where "rpc_answer env (Some n) (status, hs, body) (ht_impl c) (ht_world c) = (Inr (Inr r), st, w)"
    using assms a by (auto simp: receive_answer_def split: prod.splits)
  from rpc_answer_result[OF this] show ?thesis using DecodeMcpHttpMessages_status unfolding result_in_def a by blast
qed

lemma account_request_answered:
  assumes "account env spec {} c" "i < length (ht_calls c)" "snd (ht_calls c ! i) = AtReply n"
  shows "account env spec {} (request_answered env i n a c)"
proof -
  let ?call = "fst (ht_calls c ! i)"
  obtain r c' where recv: "receive_answer env i (Some n) a c = (r, c')" by fastforce
  have out: "outstanding (ht_log c) i n (request_of env spec ?call n)"
    using assms by (force simp: account_def wait_ok_def)
  then have acc: "account env spec {i} c'" using account_answer(1)[OF assms(1,2) recv] by blast
  have "replied env (ht_log c') i n (request_of env spec ?call n) result" if "r = Inr (Inr result)" for result
    unfolding receive_answer_simps(3)[OF recv] by (rule replied_now[OF out receive_result]) (use recv that in simp)
  then have told: "wait_ok env spec (ht_log c') i ?call (Over (ToolText (me_dump env result)))" if "r = Inr (Inr result)" for result
    using that by (auto simp: wait_ok_def)
  show ?thesis
    unfolding request_answered_def recv prod.case
  proof (rule account_suspend[OF acc])
    show "wait_ok env spec (ht_log c') i (fst (ht_calls c' ! i)) (Over (case r of
        Inl e \<Rightarrow> CallThrew e
      | Inr (Inl s) \<Rightarrow> CallFailed s
      | Inr (Inr result) \<Rightarrow> (case ?call of
          AskConnect \<Rightarrow> ClientReady
        | AskTools \<Rightarrow> (case tool_list (me_dump env) result of Inl e \<Rightarrow> CallThrew e | Inr schemas \<Rightarrow> ToolsListed schemas)
        | AskTool _ _ _ \<Rightarrow> ToolText (me_dump env result))))"
      using told by (cases ?call) (auto simp: receive_answer_simps(1)[OF recv] split: sum.splits)
  qed
qed

lemma account_answer_call:
  assumes "account env spec {} c" "http_enabled c (HAnswer i a)"
  shows "account env spec {} (answer_call env spec i a c)"
proof -
  have i: "i < length (ht_calls c)" and left: "ids_left c" using assms(2) by simp_all
  have recv: "account env spec {i} c' \<and> ids_left c'"
    if "receive_answer env i m a c = (r, c')" "\<And>n. m = Some n \<Longrightarrow> \<exists>f. outstanding (ht_log c) i n f" for m r c'
    using account_answer[OF assms(1) i that] left by (simp add: ids_left_def)
  note ends = account_connect_done account_suspend account_post account_notify account_impl
  show ?thesis
  proof (cases "snd (ht_calls c ! i)")
    case (AtInitialize n)
    then have "outstanding (ht_log c) i n (init_request env spec n)" using assms(1) i by (force simp: account_def wait_ok_def)
    moreover obtain r c' where r: "receive_answer env i (Some n) a c = (r, c')" by fastforce
    ultimately show ?thesis
      using recv[OF r] AtInitialize
      by (auto simp: answer_call_def initialize_answered_def r split: sum.splits intro!: ends)
  next
    case AtInitialized
    obtain r c' where r: "receive_answer env i None a c = (r, c')" by fastforce
    then show ?thesis
      using recv[OF r] AtInitialized
      by (auto simp: answer_call_def initialized_answered_def r split: sum.splits intro!: ends)
  next
    case (AtReply n)
    then show ?thesis using account_request_answered[OF assms(1) i AtReply] by (simp add: answer_call_def)
  qed (use assms(2) in \<open>simp_all add: in_post_def\<close>)
qed

lemma receive_event_impl:
  "\<exists>i. fst (snd (receive_event env generation ev (delay, st, w))) = st\<lparr>im_last_event_id := i\<rparr>"
  by (auto simp: receive_event_def Let_def split: option.splits intro: exI[of _ "im_last_event_id st"])

lemma event_applied: "\<exists>k w. http_apply env spec (HEvent generation ev) c = (on_impl (\<lambda>st. st\<lparr>im_last_event_id := k\<rparr>) c)\<lparr>ht_world := w\<rparr>"
proof -
  obtain d st w where r: "receive_event env generation ev (250, ht_impl c, ht_world c) = (d, st, w)" by (metis prod_cases3)
  then obtain k where "st = (ht_impl c)\<lparr>im_last_event_id := k\<rparr>"
    using receive_event_impl[of env generation ev 250 "ht_impl c" "ht_world c"] by auto
  then show ?thesis by (auto simp: r on_impl_def intro!: exI[of _ k] exI[of _ w])
qed

lemma account_step:
  assumes "account env spec {} c" "http_enabled c e"
  shows "account env spec {} (http_apply env spec e c)"
proof (cases e)
  case (HAnswer i a)
  then show ?thesis using account_answer_call assms by simp
next
  case (HWake i)
  then show ?thesis using account_after_connect[OF account_weaken[OF assms(1)]] assms(2) by (simp add: wake_call_def)
next
  case (HEvent g ev)
  obtain k w where "http_apply env spec e c = (on_impl (\<lambda>st. st\<lparr>im_last_event_id := k\<rparr>) c)\<lparr>ht_world := w\<rparr>"
    using event_applied[of env spec g ev c] HEvent by blast
  moreover have "account env spec {} (d\<lparr>ht_world := w\<rparr>) = account env spec {} d" for d :: "'a http_client" by (simp add: account_def)
  ultimately show ?thesis using account_impl[OF assms(1), of "\<lambda>st. st\<lparr>im_last_event_id := k\<rparr>"] by simp
next
  case (HStart call)
  then show ?thesis using account_start assms by simp
next
  case HShutdown
  then show ?thesis using assms(1) by (simp add: Shutdown_http_def account_notify account_impl)
qed (use assms(1) in \<open>simp_all add: account_impl\<close>)

lemma account_new: "account env spec {} (new_http_client w)"
  by (simp add: account_def new_http_client_def new_mcp_impl_def session_known_def)

section \<open>The connection\<close>

definition handshake :: "http_wait \<Rightarrow> bool" where
  "handshake p \<longleftrightarrow> (case p of AtInitialize _ \<Rightarrow> True | AtInitialized \<Rightarrow> True | _ \<Rightarrow> False)"

definition idle_wait :: "http_wait \<Rightarrow> bool" where
  "idle_wait p \<longleftrightarrow> (case p of NotSuspended \<Rightarrow> True | AtWoken \<Rightarrow> True | AtReply _ \<Rightarrow> True | _ \<Rightarrow> False)"

definition settled_wait :: "http_wait \<Rightarrow> bool" where
  "settled_wait p \<longleftrightarrow> (case p of AtReply _ \<Rightarrow> True | Over _ \<Rightarrow> True | _ \<Rightarrow> False)"

lemma wait_kinds [simp]:
  "handshake (AtInitialize n)" "handshake AtInitialized" "\<not> handshake NotSuspended" "\<not> handshake AtWaiter" "\<not> handshake AtWoken"
  "\<not> handshake (AtReply n)" "\<not> handshake (Over x)"
  "idle_wait NotSuspended" "idle_wait AtWoken" "idle_wait (AtReply n)" "settled_wait (AtReply n)" "settled_wait (Over x)"
  by (simp_all add: handshake_def idle_wait_def settled_wait_def)

lemma idle_wait_not: "idle_wait p \<Longrightarrow> \<not> handshake p \<and> p \<noteq> AtWaiter \<and> p \<noteq> Over x"
  by (cases p) (simp_all add: idle_wait_def)

lemma settled_wait_not: "settled_wait p \<Longrightarrow> \<not> handshake p \<and> p \<noteq> AtWaiter"
  by (cases p) (simp_all add: settled_wait_def)

abbreviation wait_of :: "'w http_client \<Rightarrow> nat \<Rightarrow> http_wait" where
  "wait_of c j \<equiv> snd (ht_calls c ! j)"

text \<open>The calls whose handshake is under way, and those that ended with an exception.\<close>

definition shaking :: "'w http_client \<Rightarrow> nat set" where
  "shaking c = {j. j < length (ht_calls c) \<and> handshake (wait_of c j)}"

definition threw :: "'w http_client \<Rightarrow> nat set" where
  "threw c = {j. j < length (ht_calls c) \<and> (\<exists>e. wait_of c j = Over (CallThrew e))}"

definition waiting :: "'w http_client \<Rightarrow> nat set" where
  "waiting c = {j. j < length (ht_calls c) \<and> wait_of c j = AtWaiter}"

lemma sets_suspend:
  assumes "i < length (ht_calls c)"
  shows "shaking (suspend i p c) = (if handshake p then insert i (shaking c) else shaking c - {i})"
    "waiting (suspend i p c) = (if p = AtWaiter then insert i (waiting c) else waiting c - {i})"
    "threw c - {i} \<subseteq> threw (suspend i p c)" "p = Over (CallThrew e) \<Longrightarrow> i \<in> threw (suspend i p c)"
  using assms by (auto simp: shaking_def waiting_def threw_def suspend_wait split: if_splits)

lemma sets_same [simp]:
  "shaking (on_impl f c) = shaking c" "waiting (on_impl f c) = waiting c" "threw (on_impl f c) = threw c"
  "shaking (PostRpc env spec i m ps nt ses c) = shaking c" "waiting (PostRpc env spec i m ps nt ses c) = waiting c"
  "threw (PostRpc env spec i m ps nt ses c) = threw c"
  "shaking (c\<lparr>ht_waiters := ws\<rparr>) = shaking c" "waiting (c\<lparr>ht_waiters := ws\<rparr>) = waiting c" "threw (c\<lparr>ht_waiters := ws\<rparr>) = threw c"
  by (simp_all add: shaking_def waiting_def threw_def)

definition reader_ok :: "mcp_impl \<Rightarrow> bool" where
  "reader_ok st \<longleftrightarrow> (im_reader_active st \<longrightarrow> im_has_handler st \<and> \<not> im_shutdown st)"

definition waiters_ok :: "'w http_client \<Rightarrow> bool" where
  "waiters_ok c \<longleftrightarrow> distinct (ht_waiters c) \<and> set (ht_waiters c) = waiting c"

definition woken_ok :: "'w http_client \<Rightarrow> bool" where
  "woken_ok c \<longleftrightarrow> (im_state (ht_impl c) = kConnecting \<or> ht_waiters c \<noteq> [] \<longrightarrow> shaking c \<noteq> {} \<or> threw c \<noteq> {})"

definition single_ok :: "'w http_client \<Rightarrow> bool" where
  "single_ok c \<longleftrightarrow>
     (\<forall>j\<in>shaking c. shaking c = {j} \<and> im_state (ht_impl c) = kConnecting \<and> \<not> im_shutdown (ht_impl c) \<and>
        (wait_of c j = AtInitialized \<longrightarrow> im_session_id (ht_impl c) \<noteq> [])) \<and>
     (im_state (ht_impl c) = kReady \<longrightarrow> im_session_id (ht_impl c) \<noteq> [] \<and> \<not> im_shutdown (ht_impl c))"

definition client_inv :: "bool \<Rightarrow> 'w http_client \<Rightarrow> bool" where
  "client_inv calm c \<longleftrightarrow> reader_ok (ht_impl c) \<and> waiters_ok c \<and> woken_ok c \<and> (calm \<longrightarrow> single_ok c)"

lemma sets_notify:
  assumes "waiters_ok c"
  shows "shaking (NotifyConnectWaiters c) = shaking c" "waiting (NotifyConnectWaiters c) = {}" "threw c \<subseteq> threw (NotifyConnectWaiters c)"
proof -
  have w: "k \<in> set (ht_waiters c) \<longleftrightarrow> k < length (ht_calls c) \<and> wait_of c k = AtWaiter" for k
    using assms by (simp add: waiters_ok_def waiting_def)
  show "shaking (NotifyConnectWaiters c) = shaking c" "waiting (NotifyConnectWaiters c) = {}" "threw c \<subseteq> threw (NotifyConnectWaiters c)"
    by (auto simp: shaking_def waiting_def threw_def notify_wait w split: if_splits)
qed

lemma reader_ok_ops [simp]:
  "reader_ok st \<Longrightarrow> reader_ok (MaybeStartHttpReader spec st)" "reader_ok (ShutdownHttp permanent st)"
  "reader_ok st \<Longrightarrow> reader_ok (SetInboundEventHandler spec installed st)" "reader_ok st \<Longrightarrow> reader_ok (reader_done generation st)"
  "reader_ok (st\<lparr>im_state := s\<rparr>) = reader_ok st" "reader_ok (st\<lparr>im_session_id := sid\<rparr>) = reader_ok st"
  "reader_ok (st\<lparr>im_next_id := n\<rparr>) = reader_ok st" "reader_ok (st\<lparr>im_last_event_id := k\<rparr>) = reader_ok st"
  "reader_ok (note_session hs st) = reader_ok st"
  by (auto simp: reader_ok_def MaybeStartHttpReader_def ShutdownHttp_def StopHttpReader_def SetInboundEventHandler_def reader_done_def Let_def)

lemma impl_kept [simp]:
  "im_state (MaybeStartHttpReader spec st) = im_state st" "im_shutdown (MaybeStartHttpReader spec st) = im_shutdown st"
  "im_state (ShutdownHttp permanent st) = (if permanent then kBroken else kIdle)"
  "im_state (SetInboundEventHandler spec installed st) = im_state st" "im_shutdown (SetInboundEventHandler spec installed st) = im_shutdown st"
  "im_state (reader_done generation st) = im_state st" "im_shutdown (reader_done generation st) = im_shutdown st"
  "im_shutdown (ShutdownHttp permanent st) = (permanent \<or> im_shutdown st)"
  by (simp_all add: MaybeStartHttpReader_def ShutdownHttp_def StopHttpReader_def SetInboundEventHandler_def reader_done_def Let_def)

lemma single_ok_cong:
  "shaking d = shaking c \<Longrightarrow> (\<And>j. j \<in> shaking c \<Longrightarrow> wait_of d j = wait_of c j) \<Longrightarrow> im_state (ht_impl d) = im_state (ht_impl c) \<Longrightarrow>
   im_shutdown (ht_impl d) = im_shutdown (ht_impl c) \<Longrightarrow> (im_session_id (ht_impl c) \<noteq> [] \<Longrightarrow> im_session_id (ht_impl d) \<noteq> []) \<Longrightarrow>
   single_ok c \<Longrightarrow> single_ok d"
  unfolding single_ok_def by auto

text \<open>A call that holds no handshake and waits for none may go on to its request or to its end.\<close>

lemma client_inv_settle:
  assumes "client_inv calm c" "i < length (ht_calls c)" "idle_wait (wait_of c i)" "settled_wait p"
  shows "client_inv calm (suspend i p c)"
proof -
  note no = idle_wait_not[OF assms(3)] settled_wait_not[OF assms(4)]
  have i: "i \<notin> shaking c" "i \<notin> waiting c" "i \<notin> threw c" using no(1) by (auto simp: shaking_def waiting_def threw_def)
  have "shaking (suspend i p c) = shaking c" "waiting (suspend i p c) = waiting c" "threw c \<subseteq> threw (suspend i p c)"
    using sets_suspend[OF assms(2), of p] no i by auto
  moreover have "wait_of (suspend i p c) j = wait_of c j" if "j \<in> shaking c" for j
    using that i(1) by (auto simp: suspend_wait shaking_def)
  ultimately show ?thesis using assms(1) single_ok_cong[of "suspend i p c" c]
    by (auto simp: client_inv_def waiters_ok_def woken_ok_def)
qed

lemma client_inv_post: "client_inv calm c \<Longrightarrow> client_inv calm (PostRpc env spec i m ps nt ses c)"
  using single_ok_cong[of "PostRpc env spec i m ps nt ses c" c]
  by (auto simp: client_inv_def waiters_ok_def woken_ok_def)

lemma client_inv_request:
  assumes "client_inv calm c" "i < length (ht_calls c)" "idle_wait (wait_of c i)"
  shows "client_inv calm (after_connect env spec i res c)"
  using assms
  by (auto simp: after_connect_def call_request_def SendRequest_http_def split: sum.splits mcp_call.splits
      intro!: client_inv_settle client_inv_post)

lemma PostRpc_suspend: "PostRpc env spec i m ps nt ses (suspend j p c) = suspend j p (PostRpc env spec i m ps nt ses c)"
  by (simp add: PostRpc_def suspend_def Let_def)

lemma after_connect_forgets: "after_connect env spec i res (suspend i p c) = after_connect env spec i res c"
  by (simp add: after_connect_def call_request_def SendRequest_http_def PostRpc_suspend split: sum.splits mcp_call.splits)

text \<open>The end of a handshake, of a call that holds it or fails before it has begun.\<close>

definition ending :: "bool \<Rightarrow> nat \<Rightarrow> 'w http_client \<Rightarrow> bool" where
  "ending calm i c \<longleftrightarrow> reader_ok (ht_impl c) \<and> waiters_ok c \<and> i < length (ht_calls c) \<and> (calm \<longrightarrow> shaking c \<subseteq> {i})"

lemma client_inv_resolved:
  assumes "ending calm i c" "reader_ok (f (ht_impl c))" "im_state (f (ht_impl c)) \<noteq> kConnecting"
    and "calm \<Longrightarrow> im_state (f (ht_impl c)) = kReady \<Longrightarrow> im_session_id (f (ht_impl c)) \<noteq> [] \<and> \<not> im_shutdown (f (ht_impl c))"
  shows "client_inv calm (after_connect env spec i res (NotifyConnectWaiters (on_impl f c)))"
proof -
  let ?n = "NotifyConnectWaiters (on_impl f c)"
  let ?d = "suspend i NotSuspended ?n"
  have w: "waiters_ok (on_impl f c)" and i: "i < length (ht_calls c)" using assms(1) by (simp_all add: ending_def waiters_ok_def)
  have "shaking ?d = shaking c - {i}" "waiting ?d = {}"
    using sets_suspend[of i ?n NotSuspended] sets_notify[OF w] i by auto
  then have "client_inv calm ?d"
    using assms by (auto simp: client_inv_def ending_def waiters_ok_def woken_ok_def single_ok_def)
  then have "client_inv calm (after_connect env spec i res ?d)"
    by (rule client_inv_request) (use i in \<open>simp_all add: suspend_wait\<close>)
  then show ?thesis by (simp add: after_connect_forgets)
qed

lemma client_inv_failed:
  "ending calm i c \<Longrightarrow> client_inv calm (connect_done env spec i (Inr (Inl s)) c)"
  unfolding connect_done_def by (simp, rule client_inv_resolved) (auto simp: ending_def)

lemma client_inv_connected:
  assumes "ending calm i c" "calm \<Longrightarrow> im_session_id (ht_impl c) \<noteq> [] \<and> \<not> im_shutdown (ht_impl c)"
  shows "client_inv calm (connect_done env spec i (Inr (Inr ())) c)"
  unfolding connect_done_def using assms by (simp, intro client_inv_resolved) (auto simp: ending_def)

lemma client_inv_threw:
  assumes "client_inv calm c" "i \<in> shaking c"
  shows "client_inv calm (connect_done env spec i (Inl e) c)"
proof -
  let ?d = "suspend i (Over (CallThrew e)) c"
  have i: "i < length (ht_calls c)" "i \<notin> waiting c" using assms(2) by (auto simp: shaking_def waiting_def)
  have "shaking ?d = shaking c - {i}" "waiting ?d = waiting c" "i \<in> threw ?d"
    using sets_suspend(1,2)[OF i(1), of "Over (CallThrew e)"] sets_suspend(4)[OF i(1) refl] i(2) by auto
  then have "client_inv calm ?d" using assms by (auto simp: client_inv_def waiters_ok_def woken_ok_def single_ok_def)
  then show ?thesis by (simp add: connect_done_def after_connect_def)
qed

lemma client_inv_Connect:
  assumes inv: "client_inv calm c" and i: "i < length (ht_calls c)" and idle: "idle_wait (wait_of c i)"
  shows "client_inv calm (Connect env spec i c)"
proof (cases "im_shutdown (ht_impl c) \<or> im_state (ht_impl c) = kReady")
  case True
  then show ?thesis using client_inv_request[OF inv i idle] by (auto simp: Connect_def)
next
  case False
  define d where "d = (if im_state (ht_impl c) = kBroken then Shutdown_http False c else c)"
  have w: "waiters_ok (on_impl (ShutdownHttp False) c)" using inv by (simp add: client_inv_def waiters_ok_def)
  have d: "client_inv calm d" "\<not> im_shutdown (ht_impl d)" "im_state (ht_impl d) \<noteq> kReady" "length (ht_calls d) = length (ht_calls c)"
      "idle_wait (wait_of d i)"
  proof -
    have "calm \<Longrightarrow> shaking c = {}" if "im_state (ht_impl c) = kBroken" using inv that by (auto simp: client_inv_def single_ok_def)
    then show "client_inv calm d"
      using inv sets_notify[OF w] by (auto simp: d_def Shutdown_http_def client_inv_def waiters_ok_def woken_ok_def single_ok_def)
  qed (use False i idle in \<open>auto simp: d_def Shutdown_http_def notify_wait\<close>)
  have not: "i \<notin> shaking d" "i \<notin> waiting d" using idle_wait_not[OF d(5)] by (auto simp: shaking_def waiting_def)
  show ?thesis
  proof (cases "im_state (ht_impl d) = kConnecting")
    case True
    let ?e = "(suspend i AtWaiter d)\<lparr>ht_waiters := ht_waiters d @ [i]\<rparr>"
    have sets: "shaking ?e = shaking d" "waiting ?e = insert i (waiting d)" "threw d \<subseteq> threw ?e"
      using sets_suspend[of i d AtWaiter] not i d(4) idle_wait_not[OF d(5)] by (auto simp: threw_def)
    have "wait_of ?e j = wait_of d j" if "j \<in> shaking d" for j using that not(1) by (auto simp: suspend_wait shaking_def)
    then have "single_ok d \<Longrightarrow> single_ok ?e" using sets by (intro single_ok_cong[of ?e d]) auto
    then have "client_inv calm ?e" using d(1) True sets not(2) by (auto simp: client_inv_def waiters_ok_def woken_ok_def)
    then show ?thesis using False True by (simp add: Connect_def Let_def d_def[symmetric])
  next
    case fresh: False
    let ?e = "on_impl (\<lambda>st. st\<lparr>im_state := kConnecting\<rparr>) d"
    have none: "calm \<Longrightarrow> shaking d = {}" using d(1,3) fresh by (auto simp: client_inv_def single_ok_def)
    have fail: "ending calm i ?e" using d(1,4) i none by (simp add: ending_def client_inv_def waiters_ok_def)
    let ?p = "PostRpc env spec i ''initialize'' init_params False [] (on_impl (\<lambda>st. st\<lparr>im_session_id := []\<rparr>) ?e)"
    let ?q = "suspend i (AtInitialize (im_next_id (ht_impl ?e))) ?p"
    have "shaking ?q = insert i (shaking d)" "waiting ?q = waiting d"
      using sets_suspend[of i ?p "AtInitialize (im_next_id (ht_impl ?e))"] not i d(4) by auto
    then have "client_inv calm ?q"
      using d none i by (auto simp: client_inv_def waiters_ok_def woken_ok_def single_ok_def suspend_wait)
    then have "client_inv calm (ConnectHttp env spec i ?e)" using client_inv_failed[OF fail] by (simp add: ConnectHttp_def)
    then show ?thesis using False fresh by (simp add: Connect_def Let_def d_def[symmetric])
  qed
qed

lemma receive_kept:
  assumes "receive_answer env i m a c = (r, c')" "client_inv calm c"
  shows "shaking c' = shaking c" "length (ht_calls c') = length (ht_calls c)" "wait_of c' j = wait_of c j"
    "im_shutdown (ht_impl c') = im_shutdown (ht_impl c)" "im_session_id (ht_impl c) \<noteq> [] \<Longrightarrow> im_session_id (ht_impl c') \<noteq> []"
    "(calm' \<Longrightarrow> calm \<and> (breaks a \<longrightarrow> shaking c = {})) \<Longrightarrow> client_inv calm' c'"
proof -
  note s = receive_answer_simps[OF assms(1)]
  have sets: "shaking c' = shaking c" "waiting c' = waiting c" "threw c' = threw c" by (simp_all add: shaking_def waiting_def threw_def s)
  show "shaking c' = shaking c" by (rule sets(1))
  show "length (ht_calls c') = length (ht_calls c)" "wait_of c' j = wait_of c j" "im_shutdown (ht_impl c') = im_shutdown (ht_impl c)"
    by (simp_all add: s)
  show ses: "im_session_id (ht_impl c) \<noteq> [] \<Longrightarrow> im_session_id (ht_impl c') \<noteq> []" by (simp add: s note_session_def)
  have base: "reader_ok (ht_impl c') \<and> waiters_ok c' \<and> woken_ok c'"
    using assms(2) sets by (auto simp: client_inv_def waiters_ok_def woken_ok_def s)
  have same: "single_ok c'" if "single_ok c" "\<not> breaks a"
    by (rule single_ok_cong[OF sets(1) _ _ _ ses that(1)]) (use that(2) in \<open>simp_all add: s\<close>)
  have broke: "single_ok c'" if "shaking c = {}" "breaks a"
    using that sets(1) by (simp add: single_ok_def s)
  show "(calm' \<Longrightarrow> calm \<and> (breaks a \<longrightarrow> shaking c = {})) \<Longrightarrow> client_inv calm' c'"
    using base same broke assms(2) by (auto simp: client_inv_def)
qed

lemma shaking_only: "client_inv calm c \<Longrightarrow> i \<in> shaking c \<Longrightarrow> calm \<Longrightarrow>
    shaking c = {i} \<and> im_state (ht_impl c) = kConnecting \<and> \<not> im_shutdown (ht_impl c) \<and>
    (wait_of c i = AtInitialized \<longrightarrow> im_session_id (ht_impl c) \<noteq> [])"
  by (auto simp: client_inv_def single_ok_def)

lemma receive_ending:
  assumes "receive_answer env i m a c = (r, c')" "client_inv calm c" "i \<in> shaking c"
  shows "ending calm i c'"
proof -
  note s = receive_answer_simps[OF assms(1)]
  have "waiting c' = waiting c" by (simp add: waiting_def s)
  then show ?thesis
    using assms(2,3) receive_kept(1)[OF assms(1,2)] shaking_only[OF assms(2,3)]
    by (auto simp: ending_def client_inv_def waiters_ok_def s shaking_def)
qed

lemma client_inv_initialize:
  assumes "client_inv calm c" "i < length (ht_calls c)" "wait_of c i = AtInitialize n"
  shows "client_inv calm (initialize_answered env spec i n a c)"
proof -
  have i: "i \<in> shaking c" using assms(2,3) by (simp add: shaking_def)
  obtain r c' where r: "receive_answer env i (Some n) a c = (r, c')" by fastforce
  note kept = receive_kept[OF r assms(1)]
  have fail: "client_inv calm (connect_done env spec i (Inr (Inl s)) c')" for s
    by (rule client_inv_failed[OF receive_ending[OF r assms(1) i]])
  have inv: "client_inv calm c'" if "\<And>s. r \<noteq> Inr (Inl s)"
    using kept(6)[of calm] receive_answer_simps(5)[OF r] that by blast
  let ?p = "PostRpc env spec i ''notifications/initialized'' (JObj []) True [] c'"
  have "client_inv calm (suspend i AtInitialized ?p)" if ok: "client_inv calm c'" "im_session_id (ht_impl c') \<noteq> []"
  proof -
    have "i \<in> shaking c'" using i kept(1) by simp
    moreover have i': "i < length (ht_calls ?p)" "i \<notin> waiting c'" using i kept(2,3) by (auto simp: shaking_def waiting_def)
    ultimately have sets: "shaking (suspend i AtInitialized ?p) = shaking c'" "waiting (suspend i AtInitialized ?p) = waiting c'"
      using sets_suspend(1,2)[OF i'(1), of AtInitialized] i'(2) by auto
    have "single_ok (suspend i AtInitialized ?p)" if "single_ok c'"
      using that ok(2) sets(1) i kept(1) by (auto simp: single_ok_def)
    then show ?thesis using ok(1) sets i kept(1) by (auto simp: client_inv_def waiters_ok_def woken_ok_def)
  qed
  then show ?thesis
    using fail inv client_inv_threw[of calm c' i] i kept(1) by (auto simp: initialize_answered_def r split: sum.splits)
qed

lemma client_inv_initialized:
  assumes "client_inv calm c" "i < length (ht_calls c)" "wait_of c i = AtInitialized"
  shows "client_inv calm (initialized_answered env spec i a c)"
proof -
  have i: "i \<in> shaking c" using assms(2,3) by (simp add: shaking_def)
  obtain r c' where r: "receive_answer env i None a c = (r, c')" by fastforce
  note kept = receive_kept[OF r assms(1)] and ends = receive_ending[OF r assms(1) i]
  have inv: "client_inv calm c'" if "\<And>s. r \<noteq> Inr (Inl s)"
    using kept(6)[of calm] receive_answer_simps(5)[OF r] that by blast
  let ?n = "NotifyConnectWaiters (on_impl (\<lambda>st. st\<lparr>im_state := kReady\<rparr>) c')"
  have w: "waiters_ok (on_impl (\<lambda>st. st\<lparr>im_state := kReady\<rparr>) c')" using ends by (simp add: ending_def waiters_ok_def)
  have "ending calm i ?n" using ends sets_notify[OF w] by (simp add: ending_def waiters_ok_def)
  moreover have "calm \<Longrightarrow> im_session_id (ht_impl ?n) \<noteq> [] \<and> \<not> im_shutdown (ht_impl ?n)"
    using shaking_only[OF assms(1) i] assms(3) kept(4,5) by simp
  ultimately have "client_inv calm (connect_done env spec i (Inr (Inr ())) ?n)" by (rule client_inv_connected)
  then show ?thesis
    using client_inv_failed[OF ends] inv client_inv_threw[of calm c' i] i kept(1)
    by (auto simp: initialized_answered_def r split: sum.splits)
qed

text \<open>
  A step is calm when no handshake is under way, or when it is not a shutdown, the loss of the session on the notification
  stream, or the failure of another call's POST.
\<close>

definition calm_step :: "'w http_client \<Rightarrow> http_event \<Rightarrow> bool" where
  "calm_step c e \<longleftrightarrow> shaking c = {} \<or> (case e of
       HShutdown \<Rightarrow> False
     | HSessionGone _ \<Rightarrow> False
     | HAnswer i a \<Rightarrow> i \<in> shaking c \<or> \<not> breaks a
     | _ \<Rightarrow> True)"

lemma client_inv_mono: "client_inv calm c \<Longrightarrow> (calm' \<Longrightarrow> calm) \<Longrightarrow> client_inv calm' c"
  by (auto simp: client_inv_def)

lemma client_inv_impl:
  assumes "client_inv calm c" "reader_ok (f (ht_impl c))" "im_state (f (ht_impl c)) \<in> {im_state (ht_impl c), kBroken}"
    and "calm' \<Longrightarrow> calm \<and> (shaking c = {} \<or> im_state (f (ht_impl c)) = im_state (ht_impl c))"
    and "im_shutdown (f (ht_impl c)) = im_shutdown (ht_impl c)" "im_session_id (f (ht_impl c)) = im_session_id (ht_impl c)"
  shows "client_inv calm' (on_impl f c)"
  using assms by (auto simp: client_inv_def waiters_ok_def woken_ok_def single_ok_def)

lemma client_inv_answer_call:
  assumes "client_inv calm c" "http_enabled c (HAnswer i a)"
  shows "client_inv (calm \<and> calm_step c (HAnswer i a)) (answer_call env spec i a c)"
proof -
  have i: "i < length (ht_calls c)" using assms(2) by simp
  show ?thesis
  proof (cases "wait_of c i")
    case (AtInitialize n)
    from client_inv_mono[OF client_inv_initialize[OF assms(1) i AtInitialize]] AtInitialize show ?thesis by (simp add: answer_call_def)
  next
    case AtInitialized
    from client_inv_mono[OF client_inv_initialized[OF assms(1) i AtInitialized]] AtInitialized show ?thesis by (simp add: answer_call_def)
  next
    case (AtReply n)
    obtain r c' where r: "receive_answer env i (Some n) a c = (r, c')" by fastforce
    note kept = receive_kept[OF r assms(1)]
    have "i \<notin> shaking c" using AtReply by (simp add: shaking_def)
    then have "client_inv (calm \<and> calm_step c (HAnswer i a)) c'"
      by (intro kept(6)) (auto simp: calm_step_def)
    then show ?thesis
      using AtReply i kept(2,3) by (auto simp: answer_call_def request_answered_def r intro!: client_inv_settle)
  qed (use assms(2) in \<open>simp_all add: in_post_def\<close>)
qed

lemma client_inv_start:
  assumes "client_inv calm c"
  shows "client_inv calm (start_call env spec call c)"
proof -
  let ?c = "c\<lparr>ht_calls := ht_calls c @ [(call, NotSuspended)]\<rparr>"
  have sets: "shaking ?c = shaking c" "waiting ?c = waiting c" "threw c \<subseteq> threw ?c"
    by (auto simp: shaking_def waiting_def threw_def nth_append less_Suc_eq)
  have "wait_of ?c j = wait_of c j" if "j \<in> shaking c" for j using that by (simp add: shaking_def nth_append)
  then have "single_ok c \<Longrightarrow> single_ok ?c" using sets by (intro single_ok_cong[of ?c c]) auto
  then have "client_inv calm ?c" using assms sets by (auto simp: client_inv_def waiters_ok_def woken_ok_def)
  then show ?thesis
    using client_inv_Connect[of calm ?c "length (ht_calls c)"] client_inv_request[of calm ?c "length (ht_calls c)"]
    by (auto simp: start_call_def EnsureReady_def Let_def)
qed

lemma client_inv_step:
  assumes "client_inv calm c" "http_enabled c e"
  shows "client_inv (calm \<and> calm_step c e) (http_apply env spec e c)"
proof (cases e)
  case (HStart call)
  then show ?thesis using client_inv_start[OF assms(1)] by (auto intro: client_inv_mono)
next
  case (HAnswer i a)
  then show ?thesis using client_inv_answer_call[of calm c i a env spec] assms by simp
next
  case (HWake i)
  then have "client_inv calm (wake_call env spec i c)"
    unfolding wake_call_def using assms by (intro client_inv_request) simp_all
  then show ?thesis using HWake by (auto intro: client_inv_mono)
next
  case HShutdown
  have w: "waiters_ok (on_impl (ShutdownHttp True) c)" using assms(1) by (simp add: client_inv_def waiters_ok_def)
  show ?thesis using HShutdown sets_notify[OF w]
    by (auto simp: Shutdown_http_def client_inv_def waiters_ok_def woken_ok_def single_ok_def calm_step_def)
next
  case (HEvent g ev)
  obtain k w where step: "http_apply env spec e c = (on_impl (\<lambda>st. st\<lparr>im_last_event_id := k\<rparr>) c)\<lparr>ht_world := w\<rparr>"
    using event_applied[of env spec g ev c] HEvent by blast
  have world: "client_inv b (d\<lparr>ht_world := w\<rparr>) = client_inv b d" for b and d :: "'a http_client"
    by (simp add: client_inv_def waiters_ok_def woken_ok_def single_ok_def shaking_def waiting_def threw_def)
  show ?thesis unfolding step world
    by (rule client_inv_impl[OF assms(1)]) (use assms(1) in \<open>auto simp: client_inv_def\<close>)
next
  case (HSessionGone g)
  have "client_inv (calm \<and> calm_step c e) (on_impl (\<lambda>st. st\<lparr>im_state := kBroken\<rparr>) c)"
    by (rule client_inv_impl[OF assms(1)]) (use assms(1) HSessionGone in \<open>auto simp: client_inv_def calm_step_def\<close>)
  then show ?thesis using HSessionGone by simp
next
  case (HHandler b)
  have "client_inv (calm \<and> calm_step c e) (on_impl (SetInboundEventHandler spec b) c)"
    by (rule client_inv_impl[OF assms(1)]) (use assms(1) in \<open>auto simp: client_inv_def\<close>)
  then show ?thesis using HHandler by simp
next
  case (HReaderDone g)
  have "client_inv (calm \<and> calm_step c e) (on_impl (reader_done g) c)"
    by (rule client_inv_impl[OF assms(1)]) (use assms(1) in \<open>auto simp: client_inv_def\<close>)
  then show ?thesis using HReaderDone by simp
qed

lemma client_inv_new: "client_inv calm (new_http_client w)"
  by (simp add: client_inv_def reader_ok_def waiters_ok_def woken_ok_def single_ok_def shaking_def waiting_def new_http_client_def new_mcp_impl_def)

fun calm_run :: "'w mcp_env \<Rightarrow> mcp_target \<Rightarrow> 'w http_client \<Rightarrow> http_event list \<Rightarrow> bool" where
  "calm_run env spec c [] \<longleftrightarrow> True"
| "calm_run env spec c (e # es) \<longleftrightarrow> calm_step c e \<and> calm_run env spec (http_apply env spec e c) es"

text \<open>The client with the note whether the run has been calm so far, as a system with an invariant.\<close>

interpretation http_sys: invariant_system "\<lambda>s. \<exists>w. s = (new_http_client w, True)"
  "\<lambda>s e t. http_enabled (fst s) e \<and> t = (http_apply env spec e (fst s), snd s \<and> calm_step (fst s) e)"
  "\<lambda>s. account env spec {} (fst s) \<and> client_inv (snd s) (fst s)"
  by unfold_locales (auto simp: account_new client_inv_new account_step client_inv_step)

lemma http_run_sys:
  "http_run env spec c es = Some d \<Longrightarrow> http_sys.run env spec (c0, b0) es0 (c, b) \<Longrightarrow>
   http_sys.run env spec (c0, b0) (es0 @ es) (d, b \<and> calm_run env spec c es)"
proof (induction es arbitrary: c b es0)
  case (Cons e es)
  have on: "http_enabled c e" and run: "http_run env spec (http_apply env spec e c) es = Some d"
    using Cons.prems(1) by (auto split: if_splits)
  have "http_sys.run env spec (c0, b0) (es0 @ [e]) (http_apply env spec e c, b \<and> calm_step c e)"
    by (rule http_sys.run_snoc[OF Cons.prems(2)]) (simp add: on)
  from Cons.IH[OF run this] show ?case by (simp add: conj_assoc)
qed simp

lemma http_run_inv:
  assumes "http_run env spec (new_http_client w) es = Some c"
  shows "account env spec {} c" "client_inv (calm_run env spec (new_http_client w) es) c"
  using http_sys.run_from_init[OF exI[of _ w, OF refl] http_run_sys[OF assms http_sys.run_nil]] by simp_all

section \<open>The notification stream\<close>

lemma receive_event_delay:
  assumes "delay \<in> {250..30000}"
  shows "fst (receive_event env generation ev (delay, st, w)) \<in> {250..30000}"
  using assms by (auto simp: receive_event_def Let_def clamp_delay_def split: option.splits)

lemma stream_delay:
  "fst s \<in> {250..30000} \<Longrightarrow> fst (fold (stream_event env generation) xs s) \<in> {250..30000}"
proof (induction xs arbitrary: s)
  case (Cons x xs)
  obtain delay st w where s: "s = (delay, st, w)" by (cases s)
  have "fst (stream_event env generation x s) \<in> {250..30000}"
    using Cons.prems s receive_event_delay[of delay env generation _ st w] by (cases x) auto
  then show ?case using Cons.IH by simp
qed simp

lemma reader_pauses:
  assumes "delay \<in> {250..30000}" "ReadHttpNotifications env spec generation xs delay st w = (running, log, st', w')"
  shows "\<forall>(hs, pause)\<in>set log. pause \<in> {250..30000} \<and> (\<exists>st. reader_wanted generation st \<and> hs = reader_headers spec st)"
  using assms
proof (induction env spec generation xs delay st w arbitrary: running log st' w' rule: ReadHttpNotifications.induct)
  case (2 env spec generation x xs delay st w)
  obtain delay1 st1 w1 where seen: "fold (stream_event env generation) (sx_inputs x) (delay, st, w) = (delay1, st1, w1)"
    by (metis prod_cases3)
  have delay1: "delay1 \<in> {250..30000}"
    using stream_delay[of "(delay, st, w)" env generation "sx_inputs x"] 2(2) seen by simp
  show ?case
  proof (cases "\<not> reader_wanted generation st \<or> sx_cancelled x \<or> generation \<noteq> im_reader_generation st1 \<or>
      sx_status_code x = 404 \<or> gives_up (sx_status_code x) (sx_status x)")
    case True
    then show ?thesis using 2(3) seen by (auto split: if_splits)
  next
    case False
    obtain running2 log2 st2 w2 where again:
        "ReadHttpNotifications env spec generation xs (min (delay1 * 2) 30000) (sx_asleep x st1) w1 = (running2, log2, st2, w2)"
      by (metis prod_cases4)
    have "log = (reader_headers spec st, delay1) # log2" using 2(3) False seen again by simp
    moreover have "min (delay1 * 2) 30000 \<in> {250..30000}" using delay1 by auto
    ultimately show ?thesis
      using 2(1)[OF _ seen[symmetric] refl _ _ _ _ again] False delay1 by auto
  qed
qed simp

text \<open>Whatever the headers of the server's specification say, the stream asks for events and names the session.\<close>

definition has_header :: "string \<Rightarrow> header_list \<Rightarrow> bool" where
  "has_header name hs \<longleftrightarrow> str_tolower name \<in> (str_tolower \<circ> fst) ` set hs"

lemma has_header_set: "has_header name hs \<Longrightarrow> has_header name (set_header k v hs)"
  by (induction hs) (auto simp: has_header_def)

lemma has_header_override: "has_header name hs \<Longrightarrow> has_header name (override_headers extra hs)"
  unfolding override_headers_def by (induction extra arbitrary: hs) (auto simp: has_header_set)

lemma HeaderValue_rewritten:
  assumes "has_header name hs" "\<And>k v. str_tolower k = str_tolower name \<Longrightarrow> f (k, v) = (k, x)"
    "\<And>k v. fst (f (k, v)) = k"
  shows "HeaderValue (map f hs @ rest) name = x"
  using assms(1)
proof (induction hs)
  case (Cons h hs)
  obtain k v where h: "h = (k, v)" by (cases h)
  show ?case
  proof (cases "str_tolower k = str_tolower name")
    case True
    then show ?thesis using assms(2) h by (simp add: HeaderValue_def)
  next
    case False
    then have "has_header name hs" using Cons.prems h by (auto simp: has_header_def)
    then show ?thesis using Cons.IH False h assms(3)[of k v] by (simp add: HeaderValue_def)
  qed
qed (simp add: has_header_def)

lemma lowered_names:
  "str_tolower ''Mcp-Session-Id'' = ''mcp-session-id''" "str_tolower ''mcp-session-id'' = ''mcp-session-id''"
  "str_tolower ''Accept'' = ''accept''" "str_tolower ''accept'' = ''accept''"
  "str_tolower ''Content-Type'' = ''content-type''"
  by code_simp+

lemma reader_names_session:
  assumes "im_session_id st \<noteq> []"
  shows "SessionIdFromHeaders (reader_headers spec st) = im_session_id st"
    and "HeaderValue (reader_headers spec st) ''accept'' = ''text/event-stream''"
proof -
  let ?hs = "BuildMcpHttpHeaders (im_session_id st)"
  have "has_header ''mcp-session-id'' ?hs" "has_header ''accept'' ?hs"
    using assms by (simp_all add: has_header_def BuildMcpHttpHeaders_def lowered_names)
  then have "has_header ''mcp-session-id'' (override_headers (mt_headers spec) ?hs)"
    and "has_header ''accept'' (override_headers (mt_headers spec) ?hs)"
    by (simp_all add: has_header_override)
  then show "SessionIdFromHeaders (reader_headers spec st) = im_session_id st"
    and "HeaderValue (reader_headers spec st) ''accept'' = ''text/event-stream''"
    unfolding reader_headers_def SessionIdFromHeaders_def
    by - (rule HeaderValue_rewritten; simp add: lowered_names Let_def)+
qed

lemma event_replayed:
  assumes "ev_id ev = Some (im_last_event_id st)" "im_last_event_id st \<noteq> []"
  shows "snd (receive_event env generation ev (delay, st, w)) = (st, w)"
  using assms by (simp add: receive_event_def Let_def)

text \<open>A request names the session of the client, unless the target's own headers name another.\<close>

lemma HeaderValue_set: "str_tolower k \<noteq> str_tolower name \<Longrightarrow> HeaderValue (set_header k v hs) name = HeaderValue hs name"
  by (induction hs) (auto simp: HeaderValue_def)

lemma HeaderValue_override:
  "\<forall>h\<in>set extra. str_tolower (fst h) \<noteq> str_tolower name \<Longrightarrow> HeaderValue (override_headers extra hs) name = HeaderValue hs name"
  unfolding override_headers_def by (induction extra arbitrary: hs) (auto simp: HeaderValue_set)

lemma HeaderValue_append:
  "\<forall>h\<in>set rest. str_tolower (fst h) \<noteq> str_tolower name \<Longrightarrow> HeaderValue (hs @ rest) name = HeaderValue hs name"
proof (induction hs)
  case Nil
  then have "find (\<lambda>h. str_tolower (fst h) = str_tolower name) rest = None" by (auto simp: find_None_iff)
  then show ?case by (simp add: HeaderValue_def)
qed (auto simp: HeaderValue_def)

definition names_session :: "mcp_target \<Rightarrow> bool" where
  "names_session spec \<longleftrightarrow> (\<exists>h\<in>set (mt_headers spec). str_tolower (fst h) = ''mcp-session-id'')"

lemma metadata_names:
  "str_tolower ''X-Zen-Chat-Session-Id'' \<noteq> ''mcp-session-id''" "str_tolower ''X-Zen-Metadata-Token'' \<noteq> ''mcp-session-id''"
  by code_simp+

lemma request_session:
  assumes "\<not> names_session spec"
  shows "SessionIdFromHeaders (mq_headers (rpc_request env spec m ps request_id ses sid)) = sid"
proof -
  have "\<forall>h\<in>set (session_headers env m ses). str_tolower (fst h) \<noteq> str_tolower ''mcp-session-id''"
    using metadata_names by (auto simp: session_headers_def lowered_names split: option.splits)
  moreover have "\<forall>h\<in>set (mt_headers spec). str_tolower (fst h) \<noteq> str_tolower ''mcp-session-id''"
    using assms by (auto simp: names_session_def lowered_names)
  moreover have "HeaderValue (BuildMcpHttpHeaders sid) ''mcp-session-id'' = sid"
    by (simp add: HeaderValue_def BuildMcpHttpHeaders_def lowered_names)
  ultimately show ?thesis
    by (simp add: SessionIdFromHeaders_def rpc_request_def HeaderValue_append HeaderValue_override)
qed

section \<open>The properties\<close>

text \<open>
  C34. In every interleaving of calls, answers, shutdowns and reader steps on one client, when a tool call has returned a text,
  then: it posted one request with its arguments and an id no other request of the client has; the text is the dump of the
  \<open>result\<close> of a JSON-RPC message that stands in the one answer to that very POST, which has a 2xx status, and the message has no
  \<open>error\<close> and carries the id of the request; and the session id the request was made with, which its header carries unless the
  headers of the target name another, is empty or was given by an answer received before. So a notification, the reply of
  another call or an id-less frame is never taken for the result, and the client invents no session.
\<close>

theorem mcp_result_correlated:
  assumes "http_run env spec (new_http_client w) es = Some c" "i < length (ht_calls c)"
    and "ht_calls c ! i = (AskTool name args_json session, Over (ToolText out))"
  shows "\<exists>arguments n sid req l1 l2 a l3 r. call_arguments (me_parse env) args_json = Inr arguments \<and>
    req = rpc_request env spec ''tools/call'' (jobj [(''name'', JStr name), (''arguments'', arguments)]) (Some n) session sid \<and>
    ht_log c = l1 @ Posted i (Some n) req # l2 @ Answered i (Some n) a # l3 \<and> Some n \<notin> log_id ` set (l1 @ l2 @ l3) \<and>
    result_in env n a r \<and> out = me_dump env r \<and>
    session_known l1 sid \<and> (\<not> names_session spec \<longrightarrow> SessionIdFromHeaders (mq_headers req) = sid)"
proof -
  have "wait_ok env spec (ht_log c) i (fst (ht_calls c ! i)) (wait_of c i)"
    using http_run_inv(1)[OF assms(1)] assms(2) by (simp add: account_def)
  then obtain n r where "out = me_dump env r"
      and rep: "replied env (ht_log c) i n (request_of env spec (AskTool name args_json session) n) r"
    unfolding assms(3) by (auto simp: wait_ok_def)
  moreover obtain l1 sid req l2 a l3 where log: "ht_log c = l1 @ Posted i (Some n) req # l2 @ Answered i (Some n) a # l3"
      "Some n \<notin> log_id ` set (l1 @ l2 @ l3)" "session_known l1 sid"
      and req: "request_of env spec (AskTool name args_json session) n sid = Some req" and "result_in env n a r"
    using rep unfolding replied_def by blast
  moreover obtain arguments where "call_arguments (me_parse env) args_json = Inr arguments"
      "req = rpc_request env spec ''tools/call'' (jobj [(''name'', JStr name), (''arguments'', arguments)]) (Some n) session sid"
    using req by (auto simp: request_of_def split: sum.splits)
  ultimately show ?thesis using request_session[of spec env "''tools/call''" _ "Some n" session sid] by blast
qed

definition sample_target :: mcp_target where
  "sample_target = \<lparr>mt_transport = HttpSse, mt_command_or_url = ''http://h'', mt_args = [], mt_headers = []\<rparr>"

text \<open>A parser that reads a body of length \<open>n\<close> as the \<open>n\<close>-th of some messages.\<close>

definition sample_server :: "json list \<Rightarrow> nat mcp_env" where
  "sample_server replies =
     \<lparr>me_parse = (\<lambda>s. Some (replies ! (length s - 1))), me_dump = (\<lambda>j. ''J''),
      me_handler = (\<lambda>m p w. w), me_metadata_token = None, me_float_equals = (\<lambda>a b. False), me_float_to_int = (\<lambda>a. 0),
      me_float_to_int64 = id, me_close_error = None\<rparr>"

definition sample_replies :: "json list" where
  "sample_replies =
     [JObj [(''id'', JInt 1), (''result'', JObj [])], JObj [(''id'', JInt 2), (''result'', JNull)],
      JObj [(''error'', JObj [(''code'', JStr ''x'')]), (''id'', JInt 1)], JObj [(''id'', JInt 4), (''result'', JObj [])]]"

abbreviation sample_run :: "http_event list \<Rightarrow> nat http_client option" where
  "sample_run \<equiv> http_run (sample_server sample_replies) sample_target (new_http_client 0)"

definition assigned :: post_answer where
  "assigned = (200, [(''mcp-session-id'', ''S'')], Inr ''x'')"

definition accepted :: post_answer where
  "accepted = (202, [], Inr [])"

definition unreachable :: post_answer where
  "unreachable = (0, [], Inl (Status Unavailable ''down''))"

definition connected_run :: "http_event list" where
  "connected_run = [HHandler True, HStart AskConnect, HAnswer 0 assigned, HAnswer 0 accepted]"

theorem mcp_result_correlated_witness:
  "\<exists>c n req l1 l2 a l3 r. sample_run (connected_run @ [HStart (AskTool ''t'' [] []), HAnswer 1 (200, [], Inr ''xx'')]) = Some c \<and>
     ht_log c = l1 @ Posted 1 (Some n) req # l2 @ Answered 1 (Some n) a # l3 \<and> Some n \<notin> log_id ` set (l1 @ l2 @ l3) \<and>
     result_in (sample_server sample_replies) n a r \<and> session_known l1 (SessionIdFromHeaders (mq_headers req))"
proof -
  let ?run = "sample_run (connected_run @ [HStart (AskTool ''t'' [] []), HAnswer 1 (200, [], Inr ''xx'')])"
  have "case ?run of Some c \<Rightarrow> length (ht_calls c) = 2 \<and> ht_calls c ! 1 = (AskTool ''t'' [] [], Over (ToolText ''J'')) | None \<Rightarrow> False"
    by code_simp
  then obtain c where run: "?run = Some c" and c: "1 < length (ht_calls c)" "ht_calls c ! 1 = (AskTool ''t'' [] [], Over (ToolText ''J''))"
    by (auto split: option.splits)
  have target: "\<not> names_session sample_target" by (simp add: names_session_def sample_target_def)
  obtain n req l1 l2 a l3 r sid where "ht_log c = l1 @ Posted 1 (Some n) req # l2 @ Answered 1 (Some n) a # l3"
      "Some n \<notin> log_id ` set (l1 @ l2 @ l3)" "result_in (sample_server sample_replies) n a r" "session_known l1 sid"
      "SessionIdFromHeaders (mq_headers req) = sid"
    using mcp_result_correlated[OF run c] target by blast
  with run show ?thesis by (intro exI[of _ c] exI[of _ n] exI[of _ req] exI[of _ l1] exI[of _ l2] exI[of _ a] exI[of _ l3] exI[of _ r]) simp
qed

text \<open>
  C35. In every interleaving: a notification reader is active only while a handler is installed and the client is not shut
  down; the queue of waiters holds exactly the calls that wait for a handshake, each once, and while a call waits some handshake
  is under way, which will wake it, or some call has ended with an exception; once the client is shut down, a connect, and any
  call while it is not ready, ends as cancelled without a POST. In every interleaving that is calm, that is in which no shutdown,
  no loss of the session on the notification stream and no failed POST of another call comes while a handshake is under way, at
  most one handshake is under way at a time, and a client that is ready holds a session id and is not shut down.
\<close>

theorem mcp_ready_has_session:
  assumes "http_run env spec (new_http_client w) es = Some c"
  shows "(im_reader_active (ht_impl c) \<longrightarrow> im_has_handler (ht_impl c) \<and> \<not> im_shutdown (ht_impl c)) \<and>
    distinct (ht_waiters c) \<and> set (ht_waiters c) = {j. j < length (ht_calls c) \<and> wait_of c j = AtWaiter} \<and>
    (ht_waiters c \<noteq> [] \<longrightarrow> shaking c \<noteq> {} \<or> threw c \<noteq> {}) \<and>
    (im_shutdown (ht_impl c) \<and> (call = AskConnect \<or> im_state (ht_impl c) \<noteq> kReady) \<longrightarrow>
       http_apply env spec (HStart call) c =
         c\<lparr>ht_calls := ht_calls c @ [(call, Over (CallFailed (Status Cancelled ''client shut down'')))]\<rparr>) \<and>
    (calm_run env spec (new_http_client w) es \<longrightarrow> (\<forall>j\<in>shaking c. shaking c = {j}) \<and>
       (im_state (ht_impl c) = kReady \<longrightarrow> im_session_id (ht_impl c) \<noteq> [] \<and> \<not> im_shutdown (ht_impl c)))"
proof -
  have "http_apply env spec (HStart call) c = c\<lparr>ht_calls := ht_calls c @ [(call, Over (CallFailed (Status Cancelled ''client shut down'')))]\<rparr>"
    if "im_shutdown (ht_impl c)" "call = AskConnect \<or> im_state (ht_impl c) \<noteq> kReady"
    using that by (auto simp: start_call_def EnsureReady_def Connect_def after_connect_def suspend_def Let_def)
  then show ?thesis
    using http_run_inv(2)[OF assms] by (auto simp: client_inv_def reader_ok_def waiters_ok_def woken_ok_def single_ok_def waiting_def)
qed

lemma shaking_code [code]: "shaking c = set (filter (\<lambda>j. handshake (wait_of c j)) [0..<length (ht_calls c)])"
  by (auto simp: shaking_def)

theorem mcp_ready_has_session_witness:
  "\<exists>c. sample_run connected_run = Some c \<and> im_state (ht_impl c) = kReady \<and> im_session_id (ht_impl c) \<noteq> [] \<and> \<not> im_shutdown (ht_impl c)"
proof -
  have "case sample_run connected_run of Some c \<Rightarrow> im_state (ht_impl c) = kReady | None \<Rightarrow> False" by code_simp
  then obtain c where run: "sample_run connected_run = Some c" "im_state (ht_impl c) = kReady" by (auto split: option.splits)
  have "calm_run (sample_server sample_replies) sample_target (new_http_client 0) connected_run" by code_simp
  with mcp_ready_has_session[OF run(1)] run show ?thesis by blast
qed

section \<open>What an interleaving can do\<close>

text \<open>
  A shutdown while a handshake is under way is forgotten: when the handshake succeeds the client is ready, and the next call of a
  tool goes out, although the client was shut down.
\<close>

lemma shutdown_during_connect:
  "case sample_run [HStart AskConnect, HShutdown, HAnswer 0 assigned, HAnswer 0 accepted, HStart (AskTool ''t'' [] [])] of
     Some c \<Rightarrow> im_state (ht_impl c) = kReady \<and> im_shutdown (ht_impl c) \<and> wait_of c 1 = AtReply 2
   | None \<Rightarrow> False"
  by code_simp

text \<open>
  The POST of an older call that fails while a handshake is under way marks the client broken; the next connect starts a second
  handshake and drops the session of the first, which then leaves the client ready with no session.
\<close>

lemma ready_without_session:
  "case sample_run (connected_run @ [HStart (AskTool ''t'' [] []), HStart (AskTool ''u'' [] []), HAnswer 1 unreachable,
       HStart AskConnect, HAnswer 3 (200, [(''mcp-session-id'', ''S''), (''content-type'', ''application/json'')], Inr ''xxxx''),
       HAnswer 2 unreachable, HStart AskConnect, HAnswer 3 accepted]) of
     Some c \<Rightarrow> im_state (ht_impl c) = kReady \<and> im_session_id (ht_impl c) = [] \<and> shaking c = {4}
   | None \<Rightarrow> False"
  by code_simp

text \<open>
  A handshake that throws, which a JSON-RPC error whose code is not a number makes it do, leaves the client connecting: no request
  is under way, and every later call waits for a wake-up that only a shutdown brings.
\<close>

lemma mcp_connect_wedged:
  "case sample_run [HStart AskConnect, HAnswer 0 (200, [], Inr ''xxx''), HStart AskTools] of
     Some c \<Rightarrow> im_state (ht_impl c) = kConnecting \<and> shaking c = {} \<and> wait_of c 1 = AtWaiter
   | None \<Rightarrow> False"
  by code_simp

end
