(* ===== verification/Mcp_Pool.thy ===== *)
theory Mcp_Pool
  imports Mcp_Stdio_Props Mcp_Http_Props "HOL-Library.Product_Lexorder" "HOL-Library.Multiset"
begin

text \<open>
  The client pool, \<open>agentflow/tools/mcp_client_pool.{h,cc}\<close>: one client for each transport, target, argument list and set of
  headers. A client is an address in a store, since callers share it; what a client does is the interface \<open>IMcpClient\<close>.
\<close>

section \<open>The key\<close>

definition unit_sep :: char where "unit_sep = CHR 0x1F"
definition record_sep :: char where "record_sep = CHR 0x1E"

fun transport_number :: "transport \<Rightarrow> nat" where
  "transport_number TransportUnspecified = 0"
| "transport_number Stdio = 1"
| "transport_number HttpSse = 2"
| "transport_number WebSocket = 3"
| "transport_number Tcp = 4"

definition netstring :: "string \<Rightarrow> string" where
  "netstring s = nat_to_dec (length s) @ CHR '':'' # s"

definition header_entry :: "string \<times> string \<Rightarrow> string" where
  "header_entry h = unit_sep # netstring (fst h) @ unit_sep # netstring (snd h)"

definition CanonicalKey :: "mcp_target \<Rightarrow> string" where
  "CanonicalKey spec =
     nat_to_dec (transport_number (mt_transport spec)) @ unit_sep # mt_command_or_url spec @
     concat (map (\<lambda>a. unit_sep # a) (mt_args spec)) @
     record_sep # concat (map header_entry (sort (mt_headers spec)))"

section \<open>The pool\<close>

text \<open>\<open>IMcpClient\<close> as the pool uses it, and the factory.\<close>

record 'c client_api =
  ca_create :: "mcp_target \<Rightarrow> 'c"
  ca_set_handler :: "bool \<Rightarrow> 'c \<Rightarrow> 'c"
  ca_shutdown :: "'c \<Rightarrow> 'c"

text \<open>The store keeps with each client the specification it was made for.\<close>

record 'c client_pool =
  pl_clients :: "(string \<times> nat) list"
  pl_handler :: bool
  pl_store :: "(mcp_target \<times> 'c) list"

definition new_pool :: "'c client_pool" where
  "new_pool = \<lparr>pl_clients = [], pl_handler = False, pl_store = []\<rparr>"

definition GetOrCreate :: "'c client_api \<Rightarrow> mcp_target \<Rightarrow> 'c client_pool \<Rightarrow> nat \<times> 'c client_pool" where
  "GetOrCreate api spec pool = (case map_of (pl_clients pool) (CanonicalKey spec) of
       Some p \<Rightarrow> (p, pool)
     | None \<Rightarrow>
         let p = length (pl_store pool);
             client = ca_set_handler api (pl_handler pool) (ca_create api spec)
         in (p, pool\<lparr>pl_clients := pl_clients pool @ [(CanonicalKey spec, p)], pl_store := pl_store pool @ [(spec, client)]\<rparr>))"

definition update_clients :: "('c \<Rightarrow> 'c) \<Rightarrow> nat list \<Rightarrow> (mcp_target \<times> 'c) list \<Rightarrow> (mcp_target \<times> 'c) list" where
  "update_clients f = fold (\<lambda>p store. if p < length store then store[p := map_prod id f (store ! p)] else store)"


definition Clear :: "'c client_api \<Rightarrow> 'c client_pool \<Rightarrow> 'c client_pool" where
  "Clear api pool =
     pool\<lparr>pl_clients := [], pl_store := update_clients (ca_shutdown api) (map snd (pl_clients pool)) (pl_store pool)\<rparr>"

definition pool_size :: "'c client_pool \<Rightarrow> nat" where
  "pool_size pool = length (pl_clients pool)"




section \<open>What the key tells apart\<close>








definition plain :: "string \<Rightarrow> bool" where
  "plain s \<longleftrightarrow> unit_sep \<notin> set s \<and> record_sep \<notin> set s"

definition plain_target :: "mcp_target \<Rightarrow> bool" where
  "plain_target spec \<longleftrightarrow> plain (mt_command_or_url spec) \<and> list_all plain (mt_args spec)"





section \<open>Sharing\<close>

definition pool_inv :: "'c client_pool \<Rightarrow> bool" where
  "pool_inv pool \<longleftrightarrow> distinct (map fst (pl_clients pool)) \<and> distinct (map snd (pl_clients pool)) \<and>
     (\<forall>(k, p)\<in>set (pl_clients pool). p < length (pl_store pool) \<and> CanonicalKey (fst (pl_store pool ! p)) = k) \<and>
     (\<forall>x\<in>set (pl_store pool). plain_target (fst x))"


lemma update_clients_nth:
  "distinct ps \<Longrightarrow> p < length store \<Longrightarrow>
     update_clients f ps store ! p = (if p \<in> set ps then map_prod id f (store ! p) else store ! p)"
  by (induction ps arbitrary: store) (auto simp: update_clients_def nth_list_update)















text \<open>An argument that holds the separator is read as two: two servers with different arguments share one client.\<close>

lemma pool_key_collides:
  "\<exists>a b. mt_args a \<noteq> mt_args b \<and> CanonicalKey a = CanonicalKey b \<and>
     fst (GetOrCreate api b (snd (GetOrCreate api a new_pool))) = fst (GetOrCreate api a new_pool)"
proof -
  let ?a = "\<lparr>mt_transport = Stdio, mt_command_or_url = ''s'', mt_args = [''x'' @ [unit_sep] @ ''y''], mt_headers = []\<rparr>"
  let ?b = "\<lparr>mt_transport = Stdio, mt_command_or_url = ''s'', mt_args = [''x'', ''y''], mt_headers = []\<rparr>"
  have "mt_args ?a \<noteq> mt_args ?b" "CanonicalKey ?a = CanonicalKey ?b" by (simp_all add: CanonicalKey_def)
  then show ?thesis by (intro exI[of _ ?a] exI[of _ ?b]) (simp add: GetOrCreate_def new_pool_def Let_def)
qed

lemma Clear_shuts_down:
  assumes "pool_inv pool" "(k, p) \<in> set (pl_clients pool)"
  shows "pl_store (Clear api pool) ! p = map_prod id (ca_shutdown api) (pl_store pool ! p)" "pool_size (Clear api pool) = 0"
proof -
  have "distinct (map snd (pl_clients pool))" "p < length (pl_store pool)" using assms by (auto simp: pool_inv_def)
  moreover have "p \<in> set (map snd (pl_clients pool))" using assms(2) by (metis in_set_zipE zip_map_fst_snd)
  ultimately show "pl_store (Clear api pool) ! p = map_prod id (ca_shutdown api) (pl_store pool ! p)"
    using update_clients_nth[of "map snd (pl_clients pool)" p "pl_store pool" "ca_shutdown api"] by (simp add: Clear_def)
  show "pool_size (Clear api pool) = 0" by (simp add: pool_size_def Clear_def)
qed

end
