(* ===== verification/Team_Node.thy ===== *)
theory Team_Node
  imports Agent_Node
begin

text \<open>
  The team node, \<open>agentflow/nodes/team_node.{h,cc}\<close>: members run one after the other as a router function or a moderator
  model says, or all at once. A member is seen through its id, its kind and its \<open>Run\<close>. Each policy reports, beside its
  result, the ids of the members it ran; members that run at once are taken in an order the executor chooses, each on its
  own copy of the state.
\<close>

record ('m, 'w) member =
  nd_id :: string
  nd_kind :: string
  nd_run :: "'m gstate \<Rightarrow> 'w \<Rightarrow> 'm gstate exn_or \<times> 'w"

datatype team_policy = StateRouter | ParallelGather | LlmSelect

text \<open>The configuration of the moderator, with what the constructor of its node checks.\<close>

record ('m, 'w) team_config =
  tc_policy :: team_policy
  tc_id :: string
  tc_members :: "('m, 'w) member list"
  tc_max_turns :: int
  tc_router :: "('m gstate \<Rightarrow> string exn_or) option"
  tc_aggregator :: "('m gstate list \<Rightarrow> 'm gstate exn_or) option"
  tc_moderator :: "'w llm_config"
  tc_moderator_id :: string
  tc_moderator_backend :: bool
  tc_moderator_io :: bool

definition TeamNode_new :: "('m, 'w) team_config \<Rightarrow> unit exn_or" where
  "TeamNode_new cfg =
     (if tc_id cfg = [] then Inl (AgentflowError ''TeamNode: id required'')
      else if tc_members cfg = [] then Inl (AgentflowError ''TeamNode: at least one member required'')
      else Inr ())"

definition LlmNode_new :: "string \<Rightarrow> bool \<Rightarrow> bool \<Rightarrow> unit exn_or" where
  "LlmNode_new node_id backend io_ctx =
     (if node_id = [] then Inl (AgentflowError ''LlmNode: id required'')
      else if \<not> backend then Inl (AgentflowError ''LlmNode: backend required'')
      else if \<not> io_ctx then Inl (AgentflowError ''LlmNode: io_ctx required'')
      else Inr ())"

definition Team_ReadStringField :: "'m proto_api \<Rightarrow> 'm gstate \<Rightarrow> string \<Rightarrow> string" where
  "Team_ReadStringField api s f = (if f = [] then [] else ReadField api s f)"

definition Team_WriteStringField :: "'m proto_api \<Rightarrow> 'm gstate \<Rightarrow> string \<Rightarrow> string \<Rightarrow> 'm gstate" where
  "Team_WriteStringField api s f v = (if f = [] then s else WriteField api s f v)"

definition Trim :: "string \<Rightarrow> string" where
  "Trim s = trim_with ascii_isspace s"

definition TrimAndLower :: "string \<Rightarrow> string" where
  "TrimAndLower s = str_tolower (trim_with ascii_isspace s)"

definition FindMember :: "('m, 'w) team_config \<Rightarrow> string \<Rightarrow> ('m, 'w) member option" where
  "FindMember cfg i = find (\<lambda>m. nd_id m = i) (tc_members cfg)"

section \<open>The policies\<close>

fun router_loop :: "('w \<Rightarrow> bool) \<Rightarrow> ('m, 'w) team_config \<Rightarrow> ('m gstate \<Rightarrow> string exn_or) \<Rightarrow> nat \<Rightarrow> 'm gstate \<Rightarrow> 'w \<Rightarrow>
    'm gstate exn_or \<times> string list \<times> 'w" where
  "router_loop cancelled cfg router 0 state w = (Inr state, [], w)"
| "router_loop cancelled cfg router (Suc n) state w =
     (if cancelled w then (Inr state, [], w)
      else case router state of
        Inl e \<Rightarrow> (Inl e, [], w)
      | Inr choice \<Rightarrow>
          if choice = [] then (Inr state, [], w)
          else case FindMember cfg choice of
            None \<Rightarrow> (Inl (AgentflowError (''TeamNode: router returned unknown member id: '' @ choice)), [], w)
          | Some m \<Rightarrow>
             (case nd_run m state w of
                (Inl e, w1) \<Rightarrow> (Inl e, [choice], w1)
              | (Inr state1, w1) \<Rightarrow>
                 (case router_loop cancelled cfg router n state1 w1 of
                    (r, ids, w2) \<Rightarrow> (r, choice # ids, w2))))"

definition RunStateRouter :: "('w \<Rightarrow> bool) \<Rightarrow> ('m, 'w) team_config \<Rightarrow> 'm gstate \<Rightarrow> 'w \<Rightarrow> 'm gstate exn_or \<times> string list \<times> 'w" where
  "RunStateRouter cancelled cfg state w = (case tc_router cfg of
       None \<Rightarrow> (Inl (AgentflowError ''TeamNode StateRouter: router fn required''), [], w)
     | Some router \<Rightarrow> router_loop cancelled cfg router (nat (tc_max_turns cfg)) state w)"

text \<open>A branch of the gather: the state the member returns goes into its slot; an exception closes the slot's channel.\<close>

definition run_branch :: "('m, 'w) team_config \<Rightarrow> 'm gstate \<Rightarrow> 'm gstate option list \<times> 'w \<Rightarrow> nat \<Rightarrow> 'm gstate option list \<times> 'w" where
  "run_branch cfg state sw i =
     (case nd_run (tc_members cfg ! i) (Clone state) (snd sw) of
        (r, w) \<Rightarrow> ((fst sw)[i := (case r of Inr s \<Rightarrow> Some s | Inl _ \<Rightarrow> None)], w))"

definition gather :: "('m, 'w) team_config \<Rightarrow> nat list \<Rightarrow> 'm gstate \<Rightarrow> 'w \<Rightarrow> 'm gstate list \<times> 'w" where
  "gather cfg order state w =
     (case foldl (run_branch cfg state) (replicate (length (tc_members cfg)) None, w) order of
        (slots, w1) \<Rightarrow> (List.map_filter id slots, w1))"

definition RunParallelGather :: "('m, 'w) team_config \<Rightarrow> nat list \<Rightarrow> 'm gstate \<Rightarrow> 'w \<Rightarrow> 'm gstate exn_or \<times> string list \<times> 'w" where
  "RunParallelGather cfg order state w =
     (case gather cfg order state w of
        (outs, w1) \<Rightarrow>
          (case tc_aggregator cfg of
             Some f \<Rightarrow> f outs
           | None \<Rightarrow> Inr (if outs = [] then state else last outs), map (\<lambda>i. nd_id (tc_members cfg ! i)) order, w1))"

definition build_listing :: "('m, 'w) team_config \<Rightarrow> string" where
  "build_listing cfg = concat (map (\<lambda>m. ''- '' @ nd_id m @ '' ('' @ nd_kind m @ '')'' @ [CHR 0x0A]) (tc_members cfg))"

definition moderator_prompt :: "('m, 'w) team_config \<Rightarrow> string" where
  "moderator_prompt cfg = ''Members available:'' @ [CHR 0x0A] @ build_listing cfg @
     ''Reply with exactly one member id from the list above, or DONE to stop.''"

definition error_note :: "'m proto_api \<Rightarrow> ('m, 'w) team_config \<Rightarrow> string \<Rightarrow> 'm gstate \<Rightarrow> 'm gstate" where
  "error_note api cfg decision state =
     (let mod_in = lc_input_field (tc_moderator cfg);
          note = Team_ReadStringField api state mod_in
      in Team_WriteStringField api state mod_in
           ((if note = [] then [] else note @ [CHR 0x0A]) @ ''[moderator-error] unknown member: '' @ decision))"

fun select_loop :: "'m proto_api \<Rightarrow> 'w agent_env \<Rightarrow> ('m, 'w) team_config \<Rightarrow> nat \<Rightarrow> 'm gstate \<Rightarrow> 'w \<Rightarrow>
    'm gstate exn_or \<times> string list \<times> 'w" where
  "select_loop api env cfg 0 state w = (Inr state, [], w)"
| "select_loop api env cfg (Suc n) state w =
     (if ae_cancelled env w then (Inr state, [], w)
      else case LlmNode_Run api env (tc_moderator cfg)
          (Team_WriteStringField api (Clone state) (lc_input_field (tc_moderator cfg)) (moderator_prompt cfg)) w of
        (Inl e, w1) \<Rightarrow> (Inl e, [], w1)
      | (Inr mod_state, w1) \<Rightarrow>
          if ae_cancelled env w1 then (Inr state, [], w1)
          else
            (let decision = Trim (Team_ReadStringField api mod_state (lc_output_field (tc_moderator cfg))) in
             if decision = [] \<or> TrimAndLower decision = ''done'' then (Inr state, [], w1)
             else case FindMember cfg decision of
               None \<Rightarrow> select_loop api env cfg n (error_note api cfg decision state) w1
             | Some m \<Rightarrow>
                (case nd_run m state w1 of
                   (Inl e, w2) \<Rightarrow> (Inl e, [decision], w2)
                 | (Inr state1, w2) \<Rightarrow>
                    (case select_loop api env cfg n state1 w2 of
                       (r, ids, w3) \<Rightarrow> (r, decision # ids, w3)))))"

definition RunLlmSelect :: "'m proto_api \<Rightarrow> 'w agent_env \<Rightarrow> ('m, 'w) team_config \<Rightarrow> 'm gstate \<Rightarrow> 'w \<Rightarrow>
    'm gstate exn_or \<times> string list \<times> 'w" where
  "RunLlmSelect api env cfg state w =
     (case LlmNode_new (tc_moderator_id cfg) (tc_moderator_backend cfg) (tc_moderator_io cfg) of
        Inl e \<Rightarrow> (Inl e, [], w)
      | Inr _ \<Rightarrow> select_loop api env cfg (nat (tc_max_turns cfg)) state w)"

definition TeamNode_Run :: "'m proto_api \<Rightarrow> 'w agent_env \<Rightarrow> ('m, 'w) team_config \<Rightarrow> nat list \<Rightarrow> 'm gstate \<Rightarrow> 'w \<Rightarrow>
    'm gstate exn_or \<times> string list \<times> 'w" where
  "TeamNode_Run api env cfg order state w = (case tc_policy cfg of
       StateRouter \<Rightarrow> RunStateRouter (ae_cancelled env) cfg state w
     | ParallelGather \<Rightarrow> RunParallelGather cfg order state w
     | LlmSelect \<Rightarrow> RunLlmSelect api env cfg state w)"

section \<open>Turns\<close>

text \<open>
  The specification of a team that takes turns: from state to state by the run of a member of the team, or, for a moderator,
  by a note of what it said that is no member.
\<close>

inductive turns :: "'m proto_api \<Rightarrow> ('m, 'w) team_config \<Rightarrow> 'm gstate \<Rightarrow> string list \<Rightarrow> nat \<Rightarrow> 'm gstate \<Rightarrow> bool"
  for api cfg where
  turns_stay: "turns api cfg s [] n s"
| turns_member: "m \<in> set (tc_members cfg) \<Longrightarrow> nd_run m s w = (Inr s1, w1) \<Longrightarrow> turns api cfg s1 ids n t \<Longrightarrow>
    turns api cfg s (nd_id m # ids) (Suc n) t"
| turns_note: "FindMember cfg decision = None \<Longrightarrow> turns api cfg (error_note api cfg decision s) ids n t \<Longrightarrow>
    turns api cfg s ids (Suc n) t"

lemma FindMember_Some: "FindMember cfg i = Some m \<Longrightarrow> m \<in> set (tc_members cfg) \<and> nd_id m = i"
  unfolding FindMember_def by (induction "tc_members cfg") (auto simp: find_Some_iff)

lemma router_loop_turns:
  "router_loop cancelled cfg router n s w = (Inr t, ids, w') \<Longrightarrow> turns api cfg s ids n t"
proof (induction n arbitrary: s w ids w')
  case (Suc n)
  show ?case
  proof (cases "cancelled w \<or> router s = Inr []")
    case True
    then show ?thesis using Suc.prems by (cases "cancelled w") (auto intro: turns_stay)
  next
    case False
    then obtain choice m where c: "router s = Inr choice" "choice \<noteq> []" "FindMember cfg choice = Some m"
      using Suc.prems by (auto split: sum.splits option.splits if_splits)
    obtain r w1 where run: "nd_run m s w = (r, w1)" by fastforce
    obtain s1 where r: "r = Inr s1" using Suc.prems c run False by (cases r) auto
    obtain r2 ids2 w2 where rest: "router_loop cancelled cfg router n s1 w1 = (r2, ids2, w2)" by (metis prod_cases3)
    have "r2 = Inr t" "ids = choice # ids2" using Suc.prems c run r rest False by auto
    then show ?thesis
      using turns_member[of m cfg s w s1 w1 api ids2 n t] Suc.IH[of s1 w1 ids2] FindMember_Some[OF c(3)] run r rest by auto
  qed
qed (auto intro: turns_stay)

lemma select_loop_turns:
  "select_loop api env cfg n s w = (Inr t, ids, w') \<Longrightarrow> turns api cfg s ids n t"
proof (induction n arbitrary: s w ids w')
  case (Suc n)
  show ?case
  proof (cases "ae_cancelled env w")
    case True
    then show ?thesis using Suc.prems by (auto intro: turns_stay)
  next
    case False
    let ?view = "Team_WriteStringField api (Clone s) (lc_input_field (tc_moderator cfg)) (moderator_prompt cfg)"
    obtain r0 w1 where asked: "LlmNode_Run api env (tc_moderator cfg) ?view w = (r0, w1)" by fastforce
    obtain mod_state where r0: "r0 = Inr mod_state" using Suc.prems asked False by (cases r0) auto
    define decision where "decision = Trim (Team_ReadStringField api mod_state (lc_output_field (tc_moderator cfg)))"
    note here = asked[unfolded r0] False decision_def[symmetric]
    show ?thesis
    proof (cases "ae_cancelled env w1 \<or> decision = [] \<or> TrimAndLower decision = ''done''")
      case True
      then have "t = s" "ids = []"
        using Suc.prems here by (cases "ae_cancelled env w1"; simp add: Let_def split: if_splits)+
      then show ?thesis by (simp add: turns_stay)
    next
      case go: False
      show ?thesis
      proof (cases "FindMember cfg decision")
        case None
        then have "turns api cfg (error_note api cfg decision s) ids n t"
          using Suc.prems Suc.IH here go by (auto simp: Let_def)
        then show ?thesis by (rule turns_note[OF None])
      next
        case (Some m)
        obtain r w2 where run: "nd_run m s w1 = (r, w2)" by fastforce
        obtain s1 where r: "r = Inr s1" using Suc.prems here go Some run by (cases r) (auto simp: Let_def)
        obtain r2 ids2 w3 where rest: "select_loop api env cfg n s1 w2 = (r2, ids2, w3)" by (metis prod_cases3)
        have "r2 = Inr t" "ids = decision # ids2" using Suc.prems here go Some run r rest by (auto simp: Let_def)
        then show ?thesis
          using turns_member[of m cfg s w1 s1 w2 api ids2 n t] Suc.IH[of s1 w2 ids2] FindMember_Some[OF Some] run r rest by auto
      qed
    qed
  qed
qed (auto intro: turns_stay)

lemma turns_bound: "turns api cfg s ids n t \<Longrightarrow> length ids \<le> n \<and> set ids \<subseteq> nd_id ` set (tc_members cfg)"
  by (induction rule: turns.induct) auto

lemma router_loop_stops:
  "router_loop cancelled cfg router n s w = (Inr t, ids, w') \<Longrightarrow> length ids = n \<or> cancelled w' \<or> router t = Inr []"
proof (induction n arbitrary: s w ids w')
  case (Suc n)
  show ?case
  proof (cases "cancelled w \<or> router s = Inr []")
    case True
    then show ?thesis using Suc.prems by (cases "cancelled w") auto
  next
    case False
    then obtain choice m where c: "router s = Inr choice" "choice \<noteq> []" "FindMember cfg choice = Some m"
      using Suc.prems by (auto split: sum.splits option.splits if_splits)
    obtain r w1 where run: "nd_run m s w = (r, w1)" by fastforce
    obtain s1 where r: "r = Inr s1" using Suc.prems c run False by (cases r) auto
    obtain r2 ids2 w2 where rest: "router_loop cancelled cfg router n s1 w1 = (r2, ids2, w2)" by (metis prod_cases3)
    then show ?thesis using Suc.prems Suc.IH[of s1 w1 ids2 w2] c run r rest False by auto
  qed
qed simp

section \<open>All at once\<close>

lemma run_branch_fst:
  "fst (run_branch cfg s sw i) =
     (fst sw)[i := (case fst (nd_run (tc_members cfg ! i) (Clone s) (snd sw)) of Inr t \<Rightarrow> Some t | Inl _ \<Rightarrow> None)]"
  by (simp add: run_branch_def case_prod_beta)

lemma length_branches: "length (fst (foldl (run_branch cfg s) sw order)) = length (fst sw)"
  by (induction order arbitrary: sw) (simp_all add: run_branch_fst)

lemma branch_slot:
  assumes "i \<in> set order" "i < length (fst sw)"
  shows "\<exists>w. fst (foldl (run_branch cfg s) sw order) ! i =
    (case fst (nd_run (tc_members cfg ! i) (Clone s) w) of Inr t \<Rightarrow> Some t | Inl _ \<Rightarrow> None)"
  using assms
proof (induction order arbitrary: sw rule: rev_induct)
  case (snoc j order)
  let ?sw = "foldl (run_branch cfg s) sw order"
  have len: "i < length (fst ?sw)" using snoc.prems(2) by (simp add: length_branches)
  show ?case
  proof (cases "i = j")
    case True
    then show ?thesis using len by (auto simp: run_branch_fst)
  next
    case False
    then show ?thesis using snoc len by (simp add: run_branch_fst)
  qed
qed simp

definition branch_result :: "'m gstate \<Rightarrow> ('m, 'w) member \<Rightarrow> 'w \<Rightarrow> 'm gstate option" where
  "branch_result s m w = (case fst (nd_run m (Clone s) w) of Inr t \<Rightarrow> Some t | Inl _ \<Rightarrow> None)"

lemma gather_slots:
  assumes "set order = {..<length (tc_members cfg)}" "gather cfg order s w = (outs, w')"
  shows "\<exists>ws. length ws = length (tc_members cfg) \<and> outs = List.map_filter id (map2 (branch_result s) (tc_members cfg) ws)"
proof -
  let ?n = "length (tc_members cfg)"
  let ?slots = "fst (foldl (run_branch cfg s) (replicate ?n None, w) order)"
  have len: "length ?slots = ?n" by (simp add: length_branches)
  have "\<forall>i<?n. \<exists>u. ?slots ! i = branch_result s (tc_members cfg ! i) u"
    using branch_slot[of _ order "(replicate ?n None, w)" cfg s] assms(1) by (auto simp: branch_result_def)
  then obtain u where u: "\<And>i. i < ?n \<Longrightarrow> ?slots ! i = branch_result s (tc_members cfg ! i) (u i)" by metis
  have "?slots = map2 (branch_result s) (tc_members cfg) (map u [0..<?n])"
    by (rule nth_equalityI) (use len u in simp_all)
  moreover have "outs = List.map_filter id ?slots" using assms(2) by (simp add: gather_def case_prod_beta)
  ultimately show ?thesis by (intro exI[of _ "map u [0..<?n]"]) simp
qed

section \<open>Properties\<close>

text \<open>
  C38. A team whose members take turns, by a router function or a moderator model, only ever runs its own members, at most
  \<open>max_turns\<close> of them, each on the state the one before left; the only other change to the state is the note of a moderator's
  answer that names no member, so what the moderator is shown and writes never reaches it. A router's team that stops early
  stops because it was cancelled or the router said so.
\<close>

theorem team_runs_members_in_turn:
  assumes "tc_policy cfg \<noteq> ParallelGather" "TeamNode_Run api env cfg order s w = (Inr t, ids, w')"
  shows "turns api cfg s ids (nat (tc_max_turns cfg)) t \<and> length ids \<le> nat (tc_max_turns cfg) \<and>
    set ids \<subseteq> nd_id ` set (tc_members cfg) \<and>
    (tc_policy cfg = StateRouter \<longrightarrow> length ids < nat (tc_max_turns cfg) \<longrightarrow>
       ae_cancelled env w' \<or> (\<exists>router. tc_router cfg = Some router \<and> router t = Inr []))"
proof (cases "tc_policy cfg")
  case StateRouter
  then obtain router where router: "tc_router cfg = Some router"
      "router_loop (ae_cancelled env) cfg router (nat (tc_max_turns cfg)) s w = (Inr t, ids, w')"
    using assms(2) by (auto simp: TeamNode_Run_def RunStateRouter_def split: option.splits)
  have "turns api cfg s ids (nat (tc_max_turns cfg)) t" using router_loop_turns[OF router(2)] .
  then show ?thesis using turns_bound router_loop_stops[OF router(2)] router(1) by fastforce
next
  case LlmSelect
  then have "select_loop api env cfg (nat (tc_max_turns cfg)) s w = (Inr t, ids, w')"
    using assms(2) by (auto simp: TeamNode_Run_def RunLlmSelect_def split: sum.splits)
  then have "turns api cfg s ids (nat (tc_max_turns cfg)) t" by (rule select_loop_turns)
  then show ?thesis using turns_bound LlmSelect by fastforce
qed (use assms in simp)

definition pass_on :: "string \<Rightarrow> (string, unit) member" where
  "pass_on i = \<lparr>nd_id = i, nd_kind = ''agent'', nd_run = (\<lambda>s w. (Inr (FromMessage (Some i)), w))\<rparr>"

definition routed_team :: "(string, unit) team_config" where
  "routed_team = \<lparr>tc_policy = StateRouter, tc_id = ''team'', tc_members = [pass_on ''a'', pass_on ''b''], tc_max_turns = 8,
     tc_router = Some (\<lambda>s. Inr (case UnsafeMessage s of None \<Rightarrow> ''a'' | Some m \<Rightarrow> if m = ''a'' then ''b'' else [])),
     tc_aggregator = None,
     tc_moderator = \<lparr>lc_system_prompt = [], lc_registry = None, lc_tool_names = [], lc_input_field = ''q'', lc_output_field = ''a''\<rparr>,
     tc_moderator_id = ''m'', tc_moderator_backend = True, tc_moderator_io = True\<rparr>"

definition quiet_env :: "unit agent_env" where
  "quiet_env = \<lparr>ae_parse = (\<lambda>s. None), ae_dump = (\<lambda>j. []), ae_dump_lenient = (\<lambda>j. []), ae_cancelled = (\<lambda>w. False),
     ae_create = (\<lambda>a b w. (True, w)), ae_describe = [], ae_send = (\<lambda>m w. (Inr (Inr []), w)), ae_tool_call = (\<lambda>a b c w. w),
     ae_tool_return = (\<lambda>a b c w. w), ae_order = (\<lambda>i n. [0..<n])\<rparr>"

theorem team_runs_members_in_turn_witness:
  "turns sample_api routed_team State [''a'', ''b''] 8 (FromMessage (Some ''b'')) \<and>
   TeamNode_Run sample_api quiet_env routed_team [] State () = (Inr (FromMessage (Some ''b'')), [''a'', ''b''], ())"
proof -
  have run: "TeamNode_Run sample_api quiet_env routed_team [] State () = (Inr (FromMessage (Some ''b'')), [''a'', ''b''], ())"
    by (simp add: TeamNode_Run_def RunStateRouter_def routed_team_def quiet_env_def FindMember_def pass_on_def numeral_eq_Suc
        State_def FromMessage_def UnsafeMessage_def)
  have "tc_policy routed_team \<noteq> ParallelGather" "tc_max_turns routed_team = 8" by (simp_all add: routed_team_def)
  then show ?thesis using team_runs_members_in_turn[OF _ run] run by simp
qed

text \<open>
  Whatever order the executor runs the branches of a gather in: every member runs once on its own copy of the state, the
  aggregator gets the results in the order of the members, a member that throws is left out and never breaks the gather, and
  without an aggregator the result is the last member's that returned, or the state unchanged when none did.
\<close>

lemma team_gathers_in_member_order:
  assumes "tc_policy cfg = ParallelGather" "set order = {..<length (tc_members cfg)}"
    "TeamNode_Run api env cfg order s w = (r, ids, w')"
  shows "\<exists>ws outs. length ws = length (tc_members cfg) \<and>
    outs = List.map_filter id (map2 (branch_result s) (tc_members cfg) ws) \<and>
    r = (case tc_aggregator cfg of Some f \<Rightarrow> f outs | None \<Rightarrow> Inr (if outs = [] then s else last outs))"
proof -
  obtain outs w1 where g: "gather cfg order s w = (outs, w1)" by fastforce
  have "r = (case tc_aggregator cfg of Some f \<Rightarrow> f outs | None \<Rightarrow> Inr (if outs = [] then s else last outs))"
    using assms(1,3) g by (simp add: TeamNode_Run_def RunParallelGather_def)
  then show ?thesis using gather_slots[OF assms(2) g] by blast
qed

text \<open>On a JSON state the moderator's answer cannot be read, so the first turn ends the team and no member runs.\<close>

lemma LlmNode_Run_json:
  assumes "UnsafeMessage s = None" "LlmNode_Run api env cfg s w = (Inr s', w')"
  shows "s' = s"
  using assms by (auto simp: LlmNode_Run_def WriteField_def Let_def split: if_splits sum.splits prod.splits bool.splits)

lemma team_select_ignores_json:
  assumes "RunLlmSelect api env cfg (FromJson j) w = (Inr t, ids, w')"
  shows "t = FromJson j \<and> ids = []"
proof -
  have loop: "select_loop api env cfg (nat (tc_max_turns cfg)) (FromJson j) w = (Inr t, ids, w')"
    using assms by (auto simp: RunLlmSelect_def split: sum.splits)
  have none: "UnsafeMessage (Team_WriteStringField api (Clone (FromJson j)) f v) = None" for f v
    by (simp add: Team_WriteStringField_def WriteField_def Clone_def FromJson_def UnsafeMessage_def)
  have trim: "Trim [] = []" by (simp add: Trim_def trim_with_def drop_suffix_while_def)
  show ?thesis
  proof (cases "nat (tc_max_turns cfg)")
    case (Suc n)
    let ?view = "Team_WriteStringField api (Clone (FromJson j)) (lc_input_field (tc_moderator cfg)) (moderator_prompt cfg)"
    obtain r0 w1 where asked: "LlmNode_Run api env (tc_moderator cfg) ?view w = (r0, w1)" by fastforce
    show ?thesis
    proof (cases r0)
      case (Inr s')
      then have "s' = ?view" using LlmNode_Run_json[OF none asked[unfolded Inr]] by simp
      then have "Team_ReadStringField api s' f = []" for f
        using none by (simp add: Team_ReadStringField_def ReadField_def)
      then show ?thesis using loop Suc asked Inr trim by (auto simp: Let_def split: if_splits)
    qed (use loop Suc asked in \<open>auto split: if_splits\<close>)
  qed (use loop in auto)
qed

end
