(* ===== verification/Persist.thy ===== *)
theory Persist
  imports Runner
begin

text \<open>
  Checkpoints on disk and the states to resume them into: \<open>agentflow/persist/file_checkpoint_writer.cc\<close>,
  \<open>checkpoint_reader.cc\<close>, and \<open>agentflow/dynamic/schema_registry.cc\<close>, \<open>dynamic_state.cc\<close>. Protobuf is a library: the encoding
  of a checkpoint, the descriptor pool and its messages are arguments. A file system maps paths to bytes; what the operating
  system does during one write is a record of its own.
\<close>

section \<open>Writing and reading\<close>

type_synonym file_system = "string \<Rightarrow> string option"

text \<open>
  One write: the error of the open, the error the stream shows after \<open>write\<close>, the error of the rename, and how many bytes
  the file holds once it is closed. The stream buffers, so bytes still reach the file, or fail to, when it is closed.
\<close>

record disk =
  dk_open_error :: "string option"
  dk_write_error :: "string option"
  dk_written :: nat
  dk_rename_error :: "string option"

definition tmp_path :: "string \<Rightarrow> string" where
  "tmp_path path = path @ ''.tmp''"

definition FileCheckpointWriter_Write ::
    "(checkpoint \<Rightarrow> string option) \<Rightarrow> disk \<Rightarrow> string \<Rightarrow> checkpoint \<Rightarrow> file_system \<Rightarrow> unit status_or \<times> file_system" where
  "FileCheckpointWriter_Write encode disk path cp fs =
     (case encode cp of
        None \<Rightarrow> (Inl (Status Internal ''Checkpoint::SerializeToString failed''), fs)
      | Some bytes \<Rightarrow>
         (case dk_open_error disk of
            Some err \<Rightarrow> (Inl (Status Unavailable (''open '' @ tmp_path path @ '' for write: '' @ err)), fs)
          | None \<Rightarrow>
              let fs1 = fs(tmp_path path \<mapsto> take (dk_written disk) bytes) in
              (case dk_write_error disk of
                 Some err \<Rightarrow> (Inl (Status DataLoss (''write to '' @ tmp_path path @ '': '' @ err)), fs1)
               | None \<Rightarrow>
                  (case dk_rename_error disk of
                     Some err \<Rightarrow> (Inl (Status Unavailable (''rename '' @ tmp_path path @ '' -> '' @ path @ '': '' @ err)), fs1)
                   | None \<Rightarrow> (Inr (), fs1(path := fs1 (tmp_path path), tmp_path path := None))))))"

definition ReadCheckpointFromFile :: "(string \<Rightarrow> checkpoint option) \<Rightarrow> string \<Rightarrow> string \<Rightarrow> file_system \<Rightarrow> checkpoint status_or" where
  "ReadCheckpointFromFile decode err path fs =
     (case fs path of
        None \<Rightarrow> Inl (Status NotFound (''open '' @ path @ '' for read: '' @ err))
      | Some bytes \<Rightarrow>
         (case decode bytes of
            None \<Rightarrow> Inl (Status DataLoss (''parse Checkpoint from '' @ path @ '' failed''))
          | Some cp \<Rightarrow>
              if cp_schema_version cp > kCurrentCheckpointSchemaVersion
              then Inl (Status FailedPrecondition (''checkpoint schema_version='' @ nat_to_dec (cp_schema_version cp) @
                     '' is newer than supported '' @ nat_to_dec kCurrentCheckpointSchemaVersion))
              else Inr cp))"

section \<open>Dynamic schemas\<close>

text \<open>\<open>DescriptorPool\<close>, \<open>DynamicMessageFactory\<close> and the bounded parsers of protobuf; a failed parse leaves some message behind.\<close>

record ('p, 'f, 'm) dynamic_api =
  dy_parse_set :: "int \<Rightarrow> int \<Rightarrow> string \<Rightarrow> 'f list option"
  dy_file_name :: "'f \<Rightarrow> string"
  dy_build_file :: "'f \<Rightarrow> 'p \<Rightarrow> 'p option"
  dy_new_message :: "'p \<Rightarrow> string \<Rightarrow> 'm option"
  dy_clear :: "'m \<Rightarrow> 'm"
  dy_parse :: "int \<Rightarrow> int \<Rightarrow> string \<Rightarrow> 'm \<Rightarrow> bool \<times> 'm"

fun build_files :: "('p, 'f, 'm) dynamic_api \<Rightarrow> 'f list \<Rightarrow> 'p \<Rightarrow> unit status_or \<times> 'p" where
  "build_files dyn [] pool = (Inr (), pool)"
| "build_files dyn (f # fs) pool = (case dy_build_file dyn f pool of
       None \<Rightarrow> (Inl (Status InvalidArgument (''SchemaRegistry: failed to build descriptor for '' @ [CHR 0x27] @ dy_file_name dyn f @
                 [CHR 0x27] @ '' (unresolved import or duplicate type)'')), pool)
     | Some pool' \<Rightarrow> build_files dyn fs pool')"

definition LoadDescriptorSet :: "('p, 'f, 'm) dynamic_api \<Rightarrow> string \<Rightarrow> 'p \<Rightarrow> unit status_or \<times> 'p" where
  "LoadDescriptorSet dyn serialized_fds pool =
     (case dy_parse_set dyn 100 (64 * 1024 * 1024) serialized_fds of
        None \<Rightarrow> (Inl (Status InvalidArgument ''SchemaRegistry: not a valid FileDescriptorSet''), pool)
      | Some fs \<Rightarrow> build_files dyn fs pool)"

definition NewMessage :: "('p, 'f, 'm) dynamic_api \<Rightarrow> string \<Rightarrow> 'p \<Rightarrow> 'm status_or" where
  "NewMessage dyn full_type_name pool = (case dy_new_message dyn pool full_type_name of
       None \<Rightarrow> Inl (Status NotFound (''SchemaRegistry: no message type '' @ [CHR 0x27] @ full_type_name @ [CHR 0x27] @ '' loaded''))
     | Some m \<Rightarrow> Inr m)"

definition MakeResumeTarget :: "('p, 'f, 'm) dynamic_api \<Rightarrow> checkpoint \<Rightarrow> 'p \<Rightarrow> 'm gstate status_or" where
  "MakeResumeTarget dyn cp pool =
     bind_status (NewMessage dyn (cp_state_type cp) pool) (\<lambda>m. Inr (FromMessage (Some m)))"

definition ParseStateBytes :: "('p, 'f, 'm) dynamic_api \<Rightarrow> string \<Rightarrow> int \<Rightarrow> int \<Rightarrow> 'm \<Rightarrow> unit status_or \<times> 'm" where
  "ParseStateBytes dyn bytes max_depth max_bytes msg =
     (case dy_parse dyn max_depth max_bytes bytes (dy_clear dyn msg) of
        (True, msg') \<Rightarrow> (Inr (), msg')
      | (False, msg') \<Rightarrow> (Inl (Status InvalidArgument ''ParseStateBytes: malformed message or limit exceeded''), msg'))"

section \<open>What the writer guarantees\<close>

lemma tmp_path_neq [simp]: "tmp_path path \<noteq> path" "path \<noteq> tmp_path path"
  by (simp_all add: tmp_path_def)

lemma Write_cases:
  assumes "FileCheckpointWriter_Write encode disk path cp fs = (r, fs')"
  shows "(case r of
       Inl _ \<Rightarrow> fs' path = fs path
     | Inr _ \<Rightarrow> (\<exists>bytes. encode cp = Some bytes \<and> fs' path = Some (take (dk_written disk) bytes)))"
    and "p \<noteq> path \<Longrightarrow> p \<noteq> tmp_path path \<Longrightarrow> fs' p = fs p"
  using assms by (auto simp: FileCheckpointWriter_Write_def Let_def split: option.splits)

lemma build_files_prefix:
  assumes "build_files dyn fs pool = (r, pool')"
  shows "\<exists>gs hs. fs = gs @ hs \<and> build_files dyn gs pool = (Inr (), pool') \<and>
    (r = Inr () \<and> hs = [] \<or> (\<exists>s h. r = Inl s \<and> hs \<noteq> [] \<and> h = hd hs \<and> dy_build_file dyn h pool' = None))"
  using assms
proof (induction fs arbitrary: pool)
  case (Cons f fs)
  show ?case
  proof (cases "dy_build_file dyn f pool")
    case None
    then show ?thesis using Cons.prems by (intro exI[of _ "[]"] exI[of _ "f # fs"]) auto
  next
    case (Some pool1)
    then obtain gs hs where "fs = gs @ hs" "build_files dyn gs pool1 = (Inr (), pool')"
      "r = Inr () \<and> hs = [] \<or> (\<exists>s h. r = Inl s \<and> hs \<noteq> [] \<and> h = hd hs \<and> dy_build_file dyn h pool' = None)"
      using Cons.IH[of pool1] Cons.prems by auto
    then show ?thesis using Some by (intro exI[of _ "f # gs"] exI[of _ hs]) simp
  qed
qed simp

text \<open>A set that fails leaves the files before the one that failed in the pool; nothing is taken back.\<close>

lemma LoadDescriptorSet_partial:
  assumes "dy_parse_set dyn 100 (64 * 1024 * 1024) bytes = Some fs" "LoadDescriptorSet dyn bytes pool = (Inl s, pool')"
  shows "\<exists>gs h hs. fs = gs @ h # hs \<and> build_files dyn gs pool = (Inr (), pool') \<and> dy_build_file dyn h pool' = None"
  using assms build_files_prefix[of dyn fs pool "Inl s" pool'] by (fastforce simp: LoadDescriptorSet_def neq_Nil_conv)

text \<open>
  Writing a checkpoint replaces the old one or leaves it: when the writer reports an error the checkpoint file is as it
  was, and no file but the checkpoint and its temporary is touched; when it reports success and the file held every byte
  when it was closed, the next read returns that very checkpoint, and a checkpoint of a newer schema is refused.
\<close>

lemma checkpoint_file_roundtrip:
  assumes "encode cp = Some bytes" "decode bytes = Some cp" "FileCheckpointWriter_Write encode disk path cp fs = (r, fs')"
  shows "(\<forall>s. r = Inl s \<longrightarrow> fs' path = fs path) \<and> (\<forall>p. p \<noteq> path \<longrightarrow> p \<noteq> tmp_path path \<longrightarrow> fs' p = fs p) \<and>
    (r = Inr () \<longrightarrow> length bytes \<le> dk_written disk \<longrightarrow>
       ReadCheckpointFromFile decode err path fs' =
         (if cp_schema_version cp \<le> kCurrentCheckpointSchemaVersion then Inr cp
          else Inl (Status FailedPrecondition (''checkpoint schema_version='' @ nat_to_dec (cp_schema_version cp) @
                 '' is newer than supported '' @ nat_to_dec kCurrentCheckpointSchemaVersion))))"
  using assms Write_cases[OF assms(3)] by (auto simp: ReadCheckpointFromFile_def)

definition good_disk :: disk where
  "good_disk = \<lparr>dk_open_error = None, dk_write_error = None, dk_written = 100, dk_rename_error = None\<rparr>"

text \<open>
  The stream is only asked about errors before it is closed: when the buffered bytes cannot be written at the close, the
  writer reports success and has put a truncated file in the place of the good one.
\<close>

lemma flush_failure_installs_truncated:
  assumes "encode cp = Some bytes" "disk = good_disk\<lparr>dk_written := n\<rparr>" "n < length bytes"
  shows "\<exists>fs'. FileCheckpointWriter_Write encode disk path cp fs = (Inr (), fs') \<and> fs' path = Some (take n bytes) \<and>
    fs' path \<noteq> Some bytes"
proof -
  have "take n bytes \<noteq> bytes" using assms(3) by (metis length_take min.absorb2 less_irrefl less_imp_le min.commute min_def)
  then show ?thesis using assms by (simp add: FileCheckpointWriter_Write_def good_disk_def Let_def)
qed

text \<open>
  A checkpoint can be resumed into the state that is made for it: whenever the registry knows the type, the target has
  a message of the checkpoint's own type, and the resume refuses it only when its bytes do not parse or a completed node
  is not in the graph.
\<close>

lemma resume_target_fits:
  assumes "\<And>pool t m. dy_new_message dyn pool t = Some m \<Longrightarrow> type_name api m = t" "MakeResumeTarget dyn cp pool = Inr target"
  shows "\<exists>m. UnsafeMessage target = Some m \<and> type_name api m = cp_state_type cp \<and>
    (\<forall>m' r. parse_from api m (cp_state_bytes cp) = Some m' \<longrightarrow> list_all (\<lambda>v. FindNode (graph_of r) v \<noteq> None) (cp_completed_nodes cp) \<longrightarrow>
       Resume api parse cp target r = Inr (Resume_seed cp (FromMessage (Some m')) (InitActivations r)))"
proof -
  obtain m where m: "dy_new_message dyn pool (cp_state_type cp) = Some m" "target = FromMessage (Some m)"
    using assms(2) by (auto simp: MakeResumeTarget_def NewMessage_def split: option.splits)
  have "type_name api m = cp_state_type cp" using assms(1) m(1) .
  then show ?thesis
    using m(2) by (auto simp: Resume_def UnsafeMessage_def FromMessage_def State_def ParseFromString_def list_all_iff
        split: option.splits if_splits dest!: check_all_Some)
qed

end
