(* ===== verification/Events.thy ===== *)
theory Events
  imports Runner Delegation
begin

text \<open>
  Trace events and where they go: the \<open>Emit...\<close> wrappers of \<open>agentflow/core/event.cc\<close> and the emitters of
  \<open>agentflow/observability\<close>. An emitter is what its \<open>Emit\<close> does to the world; the clock is an argument, and so is protobuf's
  JSON printer.
\<close>

section \<open>Events\<close>

datatype event_kind = KIND_UNSPECIFIED | NODE_START | NODE_END | TOKEN | TOOL_CALL | TOOL_RETURN | EDGE_FIRE | NODE_FAILED
  | GRAPH_DONE | SUB_AGENT_START | SUB_AGENT_END | SUB_AGENT_EXTRACT_FAILED | WORKFLOW_REGISTERED | WORKFLOW_UNREGISTERED

datatype payload =
    TokenPayload string
  | NodeStartPayload
  | NodeEndPayload bool bool
  | ToolCallPayload string string string
  | ToolReturnPayload string string string
  | EdgeFirePayload string string "32 word"
  | Failure string string string
  | GraphDonePayload bool
  | WorkflowRegisteredPayload string string bool string
  | WorkflowUnregisteredPayload string string
  | SubAgentStartPayload string string string string "32 word" string
  | SubAgentEndPayload string "32 word" bool string "32 word"
  | SubAgentExtractFailedPayload string string

record TraceEvent =
  te_kind :: event_kind
  te_node_id :: string
  te_unix_micros :: "64 word"
  te_payload :: payload

type_synonym 'w emitter = "TraceEvent \<Rightarrow> 'w \<Rightarrow> 'w"

definition trace_event_of :: "event_kind \<Rightarrow> string \<Rightarrow> payload \<Rightarrow> 64 word \<Rightarrow> TraceEvent" where
  "trace_event_of k node p now = \<lparr>te_kind = k, te_node_id = node, te_unix_micros = now, te_payload = p\<rparr>"

definition EmitToken :: "'w emitter \<Rightarrow> 64 word \<Rightarrow> string \<Rightarrow> string \<Rightarrow> 'w \<Rightarrow> 'w" where
  "EmitToken emit now node token = emit (trace_event_of TOKEN node (TokenPayload token) now)"

definition EmitNodeStart :: "'w emitter \<Rightarrow> 64 word \<Rightarrow> string \<Rightarrow> 'w \<Rightarrow> 'w" where
  "EmitNodeStart emit now node = emit (trace_event_of NODE_START node NodeStartPayload now)"

definition EmitNodeEnd :: "'w emitter \<Rightarrow> 64 word \<Rightarrow> string \<Rightarrow> bool \<Rightarrow> bool \<Rightarrow> 'w \<Rightarrow> 'w" where
  "EmitNodeEnd emit now node was_cancelled has_failed =
     emit (trace_event_of NODE_END node (NodeEndPayload was_cancelled has_failed) now)"

definition EmitToolCall :: "'w emitter \<Rightarrow> 64 word \<Rightarrow> string \<Rightarrow> string \<Rightarrow> string \<Rightarrow> string \<Rightarrow> 'w \<Rightarrow> 'w" where
  "EmitToolCall emit now node tool args_json tool_call_id =
     emit (trace_event_of TOOL_CALL node (ToolCallPayload tool args_json tool_call_id) now)"

definition EmitToolReturn :: "'w emitter \<Rightarrow> 64 word \<Rightarrow> string \<Rightarrow> string \<Rightarrow> string \<Rightarrow> string \<Rightarrow> 'w \<Rightarrow> 'w" where
  "EmitToolReturn emit now node tool result_json tool_call_id =
     emit (trace_event_of TOOL_RETURN node (ToolReturnPayload tool result_json tool_call_id) now)"

definition EmitEdgeFire :: "'w emitter \<Rightarrow> 64 word \<Rightarrow> string \<Rightarrow> string \<Rightarrow> int \<Rightarrow> 'w \<Rightarrow> 'w" where
  "EmitEdgeFire emit now source target grp = emit (trace_event_of EDGE_FIRE [] (EdgeFirePayload source target (of_int grp)) now)"

definition EmitNodeFailed :: "'w emitter \<Rightarrow> 64 word \<Rightarrow> string \<Rightarrow> string \<Rightarrow> string \<Rightarrow> 'w \<Rightarrow> 'w" where
  "EmitNodeFailed emit now node error_type msg = emit (trace_event_of NODE_FAILED node (Failure node error_type msg) now)"

definition EmitGraphDone :: "'w emitter \<Rightarrow> 64 word \<Rightarrow> bool \<Rightarrow> 'w \<Rightarrow> 'w" where
  "EmitGraphDone emit now has_failed = emit (trace_event_of GRAPH_DONE [] (GraphDonePayload has_failed) now)"

definition EmitWorkflowRegistered :: "'w emitter \<Rightarrow> 64 word \<Rightarrow> string \<Rightarrow> string \<Rightarrow> bool \<Rightarrow> string \<Rightarrow> 'w \<Rightarrow> 'w" where
  "EmitWorkflowRegistered emit now name version is_signed key =
     emit (trace_event_of WORKFLOW_REGISTERED [] (WorkflowRegisteredPayload name version is_signed key) now)"

definition EmitWorkflowUnregistered :: "'w emitter \<Rightarrow> 64 word \<Rightarrow> string \<Rightarrow> string \<Rightarrow> 'w \<Rightarrow> 'w" where
  "EmitWorkflowUnregistered emit now name version =
     emit (trace_event_of WORKFLOW_UNREGISTERED [] (WorkflowUnregisteredPayload name version) now)"

definition EmitSubAgentStart :: "'w emitter \<Rightarrow> 64 word \<Rightarrow> string \<Rightarrow> string \<Rightarrow> string \<Rightarrow> string \<Rightarrow> 32 word \<Rightarrow> string \<Rightarrow> 'w \<Rightarrow> 'w" where
  "EmitSubAgentStart emit now parent child invocation root depth goal =
     emit (trace_event_of SUB_AGENT_START [] (SubAgentStartPayload parent child invocation root depth goal) now)"

definition EmitSubAgentEnd :: "'w emitter \<Rightarrow> 64 word \<Rightarrow> string \<Rightarrow> 32 word \<Rightarrow> bool \<Rightarrow> string \<Rightarrow> 32 word \<Rightarrow> 'w \<Rightarrow> 'w" where
  "EmitSubAgentEnd emit now invocation depth success error_kind output_chars =
     emit (trace_event_of SUB_AGENT_END [] (SubAgentEndPayload invocation depth success error_kind output_chars) now)"

definition EmitSubAgentExtractFailed :: "'w emitter \<Rightarrow> 64 word \<Rightarrow> string \<Rightarrow> string \<Rightarrow> 'w \<Rightarrow> 'w" where
  "EmitSubAgentExtractFailed emit now invocation json_path =
     emit (trace_event_of SUB_AGENT_EXTRACT_FAILED [] (SubAgentExtractFailedPayload invocation json_path) now)"

section \<open>Emitters\<close>

definition NullEventEmitter :: "'w emitter" where
  "NullEventEmitter ev w = w"

definition CallbackEventEmitter :: "(TraceEvent \<Rightarrow> 'w \<Rightarrow> 'w) \<Rightarrow> 'w emitter" where
  "CallbackEventEmitter cb ev w = cb ev w"

fun MultiEventEmitter :: "'w emitter list \<Rightarrow> 'w emitter" where
  "MultiEventEmitter [] ev w = w"
| "MultiEventEmitter [child] ev w = child ev w"
| "MultiEventEmitter (child # c # cs) ev w = MultiEventEmitter (c # cs) ev (child ev w)"

definition JsonlEventEmitter :: "(TraceEvent \<Rightarrow> string) \<Rightarrow> string emitter" where
  "JsonlEventEmitter to_json ev out = out @ to_json ev @ [CHR 0x0A]"

text \<open>How the runner and the sub-agent runtime report what they record.\<close>

fun emit_runner_event :: "'w emitter \<Rightarrow> 64 word \<Rightarrow> trace_event \<Rightarrow> 'w \<Rightarrow> 'w" where
  "emit_runner_event emit now (NodeStart v) = EmitNodeStart emit now v"
| "emit_runner_event emit now (NodeFailed v t m) = EmitNodeFailed emit now v t m"
| "emit_runner_event emit now (NodeEnd v c f) = EmitNodeEnd emit now v c f"
| "emit_runner_event emit now (EdgeFire a b g) = EmitEdgeFire emit now a b g"
| "emit_runner_event emit now (GraphDone f) = EmitGraphDone emit now f"

fun emit_sub_event :: "'w emitter \<Rightarrow> 64 word \<Rightarrow> sub_event \<Rightarrow> 'w \<Rightarrow> 'w" where
  "emit_sub_event emit now (SubAgentStart p c i r d g) = EmitSubAgentStart emit now p c i r d g"
| "emit_sub_event emit now (SubAgentEnd i d s k n) = EmitSubAgentEnd emit now i d s k n"
| "emit_sub_event emit now (SubAgentExtractFailed i j) = EmitSubAgentExtractFailed emit now i j"

section \<open>Delivery\<close>

text \<open>The kind of an event names the payload it carries.\<close>

fun kind_of_payload :: "payload \<Rightarrow> event_kind" where
  "kind_of_payload (TokenPayload _) = TOKEN"
| "kind_of_payload NodeStartPayload = NODE_START"
| "kind_of_payload (NodeEndPayload _ _) = NODE_END"
| "kind_of_payload (ToolCallPayload _ _ _) = TOOL_CALL"
| "kind_of_payload (ToolReturnPayload _ _ _) = TOOL_RETURN"
| "kind_of_payload (EdgeFirePayload _ _ _) = EDGE_FIRE"
| "kind_of_payload (Failure _ _ _) = NODE_FAILED"
| "kind_of_payload (GraphDonePayload _) = GRAPH_DONE"
| "kind_of_payload (WorkflowRegisteredPayload _ _ _ _) = WORKFLOW_REGISTERED"
| "kind_of_payload (WorkflowUnregisteredPayload _ _) = WORKFLOW_UNREGISTERED"
| "kind_of_payload (SubAgentStartPayload _ _ _ _ _ _) = SUB_AGENT_START"
| "kind_of_payload (SubAgentEndPayload _ _ _ _ _) = SUB_AGENT_END"
| "kind_of_payload (SubAgentExtractFailedPayload _ _) = SUB_AGENT_EXTRACT_FAILED"

definition well_typed :: "TraceEvent \<Rightarrow> bool" where
  "well_typed ev \<longleftrightarrow> te_kind ev = kind_of_payload (te_payload ev)"

text \<open>What an emitter was handed, seen through a logging emitter.\<close>

definition log_event :: "TraceEvent list emitter" where
  "log_event ev evs = evs @ [ev]"

lemmas emit_defs = EmitToken_def EmitNodeStart_def EmitNodeEnd_def EmitToolCall_def EmitToolReturn_def EmitEdgeFire_def
  EmitNodeFailed_def EmitGraphDone_def EmitWorkflowRegistered_def EmitWorkflowUnregistered_def EmitSubAgentStart_def
  EmitSubAgentEnd_def EmitSubAgentExtractFailed_def trace_event_of_def

lemma runner_event_typed: "\<exists>x. emit_runner_event log_event now e evs = evs @ [x] \<and> well_typed x \<and> te_unix_micros x = now"
  by (cases e) (auto simp: emit_defs log_event_def well_typed_def)

lemma sub_event_typed: "\<exists>x. emit_sub_event log_event now e evs = evs @ [x] \<and> well_typed x \<and> te_unix_micros x = now"
  by (cases e) (auto simp: emit_defs log_event_def well_typed_def)

lemma MultiEventEmitter_fold: "MultiEventEmitter kids ev w = fold (\<lambda>child. child ev) kids w"
  by (induction kids ev w rule: MultiEventEmitter.induct) simp_all

text \<open>Children that keep to their own part of the world: each is a logger of its own list.\<close>

definition child_log :: "nat \<Rightarrow> TraceEvent list list emitter" where
  "child_log i ev logs = logs[i := logs ! i @ [ev]]"

lemma child_logs_fold:
  "n \<le> length logs \<Longrightarrow> fold (\<lambda>child. child ev) (map child_log [0..<n]) logs = map (\<lambda>evs. evs @ [ev]) (take n logs) @ drop n logs"
proof (induction n)
  case (Suc n)
  then have "drop n logs = logs ! n # drop (Suc n) logs" by (simp add: Cons_nth_drop_Suc)
  then show ?case
    using Suc by (simp add: child_log_def nth_append list_update_append take_Suc_conv_app_nth min_def)
qed simp

lemma multi_delivers_to_all:
  "fold (MultiEventEmitter (map child_log [0..<n])) evs (replicate n []) = replicate n evs"
proof (induction evs rule: rev_induct)
  case (snoc ev evs)
  then show ?case using child_logs_fold[of n "replicate n evs" ev] by (simp add: MultiEventEmitter_fold fold_append)
qed simp

section \<open>The line log\<close>

fun read_lines :: "string \<Rightarrow> string \<Rightarrow> string list" where
  "read_lines cur [] = []"
| "read_lines cur (c # cs) = (if c = CHR 0x0A then cur # read_lines [] cs else read_lines (cur @ [c]) cs)"

lemma read_lines_line: "CHR 0x0A \<notin> set l \<Longrightarrow> read_lines cur (l @ CHR 0x0A # rest) = (cur @ l) # read_lines [] rest"
  by (induction l arbitrary: cur) auto

lemma jsonl_output: "fold (JsonlEventEmitter to_json) evs out = out @ concat (map (\<lambda>ev. to_json ev @ [CHR 0x0A]) evs)"
  by (induction evs arbitrary: out) (simp_all add: JsonlEventEmitter_def)

text \<open>
  The line log of a run can be read back: when the printer puts no newline into an event and the reader inverts it, the
  lines of the output, one for each event that was emitted and in that order, parse to exactly those events, and however
  many emitters stand beside the log behind a fan-out, each of them is handed the same events in the same order.
\<close>

lemma trace_log_roundtrip:
  assumes "\<And>ev. ev \<in> set evs \<Longrightarrow> CHR 0x0A \<notin> set (to_json ev)" "\<And>ev. ev \<in> set evs \<Longrightarrow> of_json (to_json ev) = Some ev"
  shows "map of_json (read_lines [] (fold (MultiEventEmitter [JsonlEventEmitter to_json]) evs [])) = map Some evs"
    and "fold (MultiEventEmitter (map child_log [0..<n])) evs (replicate n []) = replicate n evs"
proof -
  have "read_lines [] (concat (map (\<lambda>ev. to_json ev @ [CHR 0x0A]) evs)) = map to_json evs"
    using assms(1) by (induction evs) (simp_all add: read_lines_line)
  moreover have "fold (MultiEventEmitter [JsonlEventEmitter to_json]) evs [] = fold (JsonlEventEmitter to_json) evs []"
    by (rule fold_cong) auto
  ultimately show "map of_json (read_lines [] (fold (MultiEventEmitter [JsonlEventEmitter to_json]) evs [])) = map Some evs"
    using assms(2) by (simp add: jsonl_output)
qed (rule multi_delivers_to_all)

end
