(* ===== verification/Channels.thy ===== *)
theory Channels
  imports Prelude
begin

text \<open>
  Channels of \<open>asio::experimental\<close>, which the library is built on: the operations the sources call are an argument of the
  definitions that use them, and \<open>fifo_channel\<close> is what the documentation promises of them. A channel keeps up to its
  capacity of items; \<open>try_send\<close> refuses an item when the channel is full or closed, a receive takes the oldest item, waits
  on an empty channel, and fails on an empty channel that is closed.
\<close>

datatype 'i received = Received 'i | ChannelClosed | NothingYet

record ('i, 'c) channel_ops =
  op_try_send :: "'c \<Rightarrow> 'i \<Rightarrow> bool \<times> 'c"
  op_close :: "'c \<Rightarrow> 'c"
  op_receive :: "'c \<Rightarrow> 'i received \<times> 'c"

definition fifo_channel :: "nat \<Rightarrow> ('i, 'c) channel_ops \<Rightarrow> ('c \<Rightarrow> 'i list) \<Rightarrow> ('c \<Rightarrow> bool) \<Rightarrow> bool" where
  "fifo_channel cap ops contents closed \<longleftrightarrow>
     (\<forall>c x. fst (op_try_send ops c x) = (\<not> closed c \<and> length (contents c) < cap)) \<and>
     (\<forall>c x. contents (snd (op_try_send ops c x)) = contents c @ (if \<not> closed c \<and> length (contents c) < cap then [x] else [])) \<and>
     (\<forall>c x. closed (snd (op_try_send ops c x)) = closed c) \<and>
     (\<forall>c. contents (op_close ops c) = contents c \<and> closed (op_close ops c)) \<and>
     (\<forall>c. fst (op_receive ops c) = (case contents c of x # _ \<Rightarrow> Received x | [] \<Rightarrow> if closed c then ChannelClosed else NothingYet)) \<and>
     (\<forall>c. contents (snd (op_receive ops c)) = drop 1 (contents c) \<and> closed (snd (op_receive ops c)) = closed c)"

lemma fifo_channelD:
  assumes "fifo_channel cap ops contents closed"
  shows "fst (op_try_send ops c x) = (\<not> closed c \<and> length (contents c) < cap)"
    "contents (snd (op_try_send ops c x)) = contents c @ (if \<not> closed c \<and> length (contents c) < cap then [x] else [])"
    "closed (snd (op_try_send ops c x)) = closed c"
    "contents (op_close ops c) = contents c" "closed (op_close ops c)"
    "contents c = y # ys \<Longrightarrow> fst (op_receive ops c) = Received y"
    "contents c = [] \<Longrightarrow> closed c \<Longrightarrow> fst (op_receive ops c) = ChannelClosed"
    "contents c = [] \<Longrightarrow> \<not> closed c \<Longrightarrow> fst (op_receive ops c) = NothingYet"
    "contents (snd (op_receive ops c)) = drop 1 (contents c)" "closed (snd (op_receive ops c)) = closed c"
  using assms by (simp_all add: fifo_channel_def)

text \<open>A queue with a flag is such a channel.\<close>

definition queue_channel :: "nat \<Rightarrow> ('i, 'i list \<times> bool) channel_ops" where
  "queue_channel cap = \<lparr>
     op_try_send = (\<lambda>(q, shut) x. if \<not> shut \<and> length q < cap then (True, q @ [x], shut) else (False, q, shut)),
     op_close = (\<lambda>(q, shut). (q, True)),
     op_receive = (\<lambda>(q, shut). (case q of x # _ \<Rightarrow> Received x | [] \<Rightarrow> if shut then ChannelClosed else NothingYet, drop 1 q, shut))\<rparr>"

lemma queue_channel_fifo: "fifo_channel cap (queue_channel cap) fst snd"
  by (auto simp: fifo_channel_def queue_channel_def split: list.splits)

end
