(* ===== verification/Litert_Conversation.thy ===== *)
theory Litert_Conversation
  imports Channels Canonical_Message
begin

text \<open>
  The on-device backend, \<open>agentflow/inference/litert_lm_{engine,session,conversation,chat_backend}.{h,cc}\<close>. The engine is a C
  library: what its calls return is an argument, and its worker thread is seen through the chunks it hands to \<open>StreamCallback\<close>.
  Three parties interleave: the worker, the I/O thread that runs the posted jobs, and the coroutine that awaits tokens. Each of
  their steps is an event; the properties hold for every order of events.
\<close>

section \<open>The engine\<close>

record engine_options =
  eo_model_path :: string
  eo_backend :: string
  eo_cache_dir :: string
  eo_max_num_tokens :: int
  eo_model_family :: model_family

text \<open>What \<open>Create\<close> sets on the settings of the C engine; \<open>None\<close> leaves the engine's default.\<close>

record engine_settings =
  es_model_path :: string
  es_backend :: string
  es_max_num_tokens :: "int option"
  es_cache_dir :: "string option"

definition engine_settings_of :: "engine_options \<Rightarrow> engine_settings" where
  "engine_settings_of opts = \<lparr>
     es_model_path = eo_model_path opts,
     es_backend = eo_backend opts,
     es_max_num_tokens = (if eo_max_num_tokens opts > 0 then Some (eo_max_num_tokens opts) else None),
     es_cache_dir = (if eo_cache_dir opts = [] then None else Some (eo_cache_dir opts))\<rparr>"

text \<open>The engine is built without the tokenizer API, so no probe is made. The result is its special tokens.\<close>

definition LiteRtLmEngine_Create :: "(engine_settings \<Rightarrow> bool) \<Rightarrow> engine_options \<Rightarrow> string list option" where
  "LiteRtLmEngine_Create engine_create opts =
     (if engine_create (engine_settings_of opts) then Some (ResolveSpecialTokens None (eo_model_family opts)) else None)"

section \<open>A conversation\<close>

datatype chan_item = Token string | StreamError string

datatype posted_job = PostError string | PostToken string bool

record 'c litert_conv =
  lc_conv :: bool
  lc_config :: bool
  lc_constrained :: bool
  lc_channel :: 'c
  lc_cancelled :: bool
  lc_accum :: string
  lc_posted :: "posted_job list"

text \<open>
  The environment: the JSON library, the channel, and the error a receive on a closed channel ends with, \<^const>\<open>None\<close> for
  \<open>operation_aborted\<close> and else its message.
\<close>

record 'c litert_env =
  le_parse :: json_parser
  le_dump :: json_dumper
  le_chan :: "(chan_item, 'c) channel_ops"
  le_new_channel :: "nat \<Rightarrow> 'c"
  le_closed_error :: "string option"

definition new_litert_conv :: "'c litert_env \<Rightarrow> bool \<Rightarrow> bool \<Rightarrow> 'c litert_conv" where
  "new_litert_conv env config constrained = \<lparr>lc_conv = True, lc_config = config, lc_constrained = constrained,
     lc_channel = le_new_channel env 256, lc_cancelled = False, lc_accum = [], lc_posted = []\<rparr>"

record litert_options =
  lo_system_message_json :: string
  lo_tools_json :: string
  lo_messages_json :: string
  lo_constrained_tool_calls :: bool

text \<open>The C calls that make a conversation, with the strings they are given, and the deletions.\<close>

datatype c_call =
    CreateConstrained "string option" "string option"
  | ConfigCreate
  | ConversationCreate "string option" "string option" "string option"
  | ConversationDelete
  | ConfigDelete

definition sys_arg :: "litert_options \<Rightarrow> string option" where
  "sys_arg opts = (if lo_system_message_json opts = [] then None else Some (lo_system_message_json opts))"

definition list_arg :: "string \<Rightarrow> string option" where
  "list_arg s = (if s = [] \<or> s = ''[]'' then None else Some s)"

text \<open>\<open>gives\<close> tells whether a C call returns a handle. The calls made are logged.\<close>

definition LiteRtLmConversation_Create ::
    "'c litert_env \<Rightarrow> (c_call \<Rightarrow> bool) \<Rightarrow> bool \<Rightarrow> litert_options \<Rightarrow> 'c litert_conv option \<times> c_call list" where
  "LiteRtLmConversation_Create env gives engine opts =
     (let sys = sys_arg opts; tools = list_arg (lo_tools_json opts) in
      if \<not> engine then (None, [])
      else if lo_constrained_tool_calls opts \<and> tools \<noteq> None
      then (if gives (CreateConstrained sys tools) then Some (new_litert_conv env False True) else None, [CreateConstrained sys tools])
      else if \<not> gives ConfigCreate then (None, [ConfigCreate])
      else let create = ConversationCreate sys tools (list_arg (lo_messages_json opts)) in
           if gives create then (Some (new_litert_conv env True False), [ConfigCreate, create])
           else (None, [ConfigCreate, create, ConfigDelete]))"

definition LiteRtLmConversation_Cancel :: "'c litert_env \<Rightarrow> 'c litert_conv \<Rightarrow> 'c litert_conv" where
  "LiteRtLmConversation_Cancel env c = c\<lparr>lc_cancelled := True, lc_channel := op_close (le_chan env) (lc_channel c)\<rparr>"

definition destroy_conversation :: "'c litert_env \<Rightarrow> 'c litert_conv \<Rightarrow> 'c litert_conv \<times> c_call list" where
  "destroy_conversation env c =
     ((LiteRtLmConversation_Cancel env c)\<lparr>lc_conv := False, lc_config := False\<rparr>,
      (if lc_conv c then [ConversationDelete] else []) @ (if lc_config c then [ConfigDelete] else []))"

text \<open>The response of the engine: no handle, or a handle with a string or without one.\<close>

definition SendMessageSync :: "string option option \<Rightarrow> 'c litert_conv \<Rightarrow> string status_or \<times> 'c litert_conv" where
  "SendMessageSync resp c =
     (if \<not> lc_conv c then (Inl (Status FailedPrecondition ''conversation not created''), c)
      else case resp of
        None \<Rightarrow> (Inl (Status Internal (if lc_constrained c then ''constrained send_message returned null'' else ''send_message returned null'')), c)
      | Some s \<Rightarrow> (let out = (case s of Some t \<Rightarrow> t | None \<Rightarrow> []) in (Inr out, c\<lparr>lc_accum := out\<rparr>)))"

definition chan_try_send :: "'c litert_env \<Rightarrow> chan_item \<Rightarrow> 'c litert_conv \<Rightarrow> 'c litert_conv" where
  "chan_try_send env x c = c\<lparr>lc_channel := snd (op_try_send (le_chan env) (lc_channel c) x)\<rparr>"

definition chan_close :: "'c litert_env \<Rightarrow> 'c litert_conv \<Rightarrow> 'c litert_conv" where
  "chan_close env c = c\<lparr>lc_channel := op_close (le_chan env) (lc_channel c)\<rparr>"

text \<open>\<open>rc\<close> is what starting the stream returns.\<close>

definition SendMessage :: "'c litert_env \<Rightarrow> int \<Rightarrow> 'c litert_conv \<Rightarrow> 'c litert_conv" where
  "SendMessage env rc c =
     (if \<not> lc_conv c \<or> lc_cancelled c then c
      else let c1 = c\<lparr>lc_accum := []\<rparr> in
           if rc \<noteq> 0 then chan_close env (chan_try_send env (StreamError ''Failed to start LiteRT-LM conversation stream'') c1)
           else c1)"

datatype next_token = NextToken string | NextThrow string | NextWaiting

text \<open>\<open>std::make_error_code(std::errc::io_error).message()\<close>.\<close>

definition io_error_message :: string where "io_error_message = ''Input/output error''"

definition next_of :: "string \<Rightarrow> string option \<Rightarrow> chan_item received \<Rightarrow> next_token" where
  "next_of pre closed_error r = (case r of
       Received (Token t) \<Rightarrow> NextToken t
     | Received (StreamError _) \<Rightarrow> NextThrow (pre @ io_error_message)
     | ChannelClosed \<Rightarrow> (case closed_error of None \<Rightarrow> NextToken [] | Some m \<Rightarrow> NextThrow (pre @ m))
     | NothingYet \<Rightarrow> NextWaiting)"

definition NextTokenAsync :: "'c litert_env \<Rightarrow> 'c litert_conv \<Rightarrow> next_token \<times> 'c litert_conv" where
  "NextTokenAsync env c =
     (let (r, ch) = op_receive (le_chan env) (lc_channel c)
      in (next_of ''LiteRT-LM conversation stream error: '' (le_closed_error env) r, c\<lparr>lc_channel := ch\<rparr>))"

definition FullResponseJson :: "'c litert_conv \<Rightarrow> string" where
  "FullResponseJson c = lc_accum c"

record stream_chunk =
  sk_error :: "string option"
  sk_text :: "string option"
  sk_final :: bool

definition chunk_job :: "stream_chunk \<Rightarrow> posted_job" where
  "chunk_job chunk = (case sk_error chunk of
       Some msg \<Rightarrow> PostError msg
     | None \<Rightarrow> PostToken (case sk_text chunk of Some t \<Rightarrow> t | None \<Rightarrow> []) (sk_final chunk))"

definition StreamCallback :: "stream_chunk \<Rightarrow> 'c litert_conv \<Rightarrow> 'c litert_conv" where
  "StreamCallback chunk c = (if lc_cancelled c then c else c\<lparr>lc_posted := lc_posted c @ [chunk_job chunk]\<rparr>)"

text \<open>A job the callback posted, run on the I/O thread.\<close>

fun run_job :: "'c litert_env \<Rightarrow> posted_job \<Rightarrow> 'c litert_conv \<Rightarrow> 'c litert_conv" where
  "run_job env (PostError msg) c = chan_close env (chan_try_send env (StreamError msg) c)"
| "run_job env (PostToken tok is_final) c =
     (let c1 = (if tok = [] then c else chan_try_send env (Token tok) (c\<lparr>lc_accum := lc_accum c @ tok\<rparr>))
      in if is_final then chan_try_send env (Token []) c1 else c1)"

definition run_posted :: "'c litert_env \<Rightarrow> 'c litert_conv \<Rightarrow> 'c litert_conv" where
  "run_posted env c = (case lc_posted c of [] \<Rightarrow> c | job # jobs \<Rightarrow> run_job env job (c\<lparr>lc_posted := jobs\<rparr>))"

section \<open>The chat conversation\<close>

text \<open>
  \<open>SendAsync\<close> is a coroutine with two suspension points, at the slot and at the next token. \<open>cc_hooked\<close> is the cancel token
  that carries the hook; \<open>cc_shown\<close> are the deltas handed to the token sink.
\<close>

datatype chat_phase = NoTurn | AwaitSlot bool | Decoding assembler | TurnOver "string status_or"

record 'c chat_conv =
  cc_conv :: "'c litert_conv"
  cc_constrained :: bool
  cc_special_tokens :: "string list"
  cc_hooked :: "nat option"
  cc_phase :: chat_phase
  cc_shown :: "string list"

definition chat_Cancel :: "'c litert_env \<Rightarrow> 'c chat_conv \<Rightarrow> 'c chat_conv" where
  "chat_Cancel env ch = ch\<lparr>cc_conv := LiteRtLmConversation_Cancel env (cc_conv ch)\<rparr>"

text \<open>A turn starts. \<open>cancelled\<close> tells whether the token \<open>tok\<close> is cancelled already, in which case a hook runs at once.\<close>

definition SendAsync_begin :: "'c litert_env \<Rightarrow> bool \<Rightarrow> nat \<Rightarrow> bool \<Rightarrow> 'c chat_conv \<Rightarrow> 'c chat_conv" where
  "SendAsync_begin env has_sink tok is_cancelled ch =
     (let ch1 = (if cc_hooked ch \<noteq> None then ch
                 else (if is_cancelled then chat_Cancel env else (\<lambda>x. x)) (ch\<lparr>cc_hooked := Some tok\<rparr>))
      in if is_cancelled then ch1\<lparr>cc_phase := TurnOver (Inl (Status Cancelled ''cancelled''))\<rparr>
         else ch1\<lparr>cc_phase := AwaitSlot has_sink\<rparr>)"

definition decode_reply :: "'c chat_conv \<Rightarrow> string status_or \<Rightarrow> string status_or" where
  "decode_reply ch r = (case r of Inl s \<Rightarrow> Inl s | Inr t \<Rightarrow> Inr (DecodeSpecialTokens t (cc_special_tokens ch)))"

text \<open>The slot was acquired: the whole turn without a sink, or the start of a streamed one.\<close>

definition SendAsync_locked :: "'c litert_env \<Rightarrow> int \<Rightarrow> string option option \<Rightarrow> bool \<Rightarrow> 'c chat_conv \<Rightarrow> 'c chat_conv" where
  "SendAsync_locked env rc resp has_sink ch =
     (if cc_constrained ch \<or> \<not> has_sink
      then let (r, c) = SendMessageSync resp (cc_conv ch) in ch\<lparr>cc_conv := c, cc_phase := TurnOver (decode_reply ch r)\<rparr>
      else ch\<lparr>cc_conv := SendMessage env rc (cc_conv ch), cc_phase := Decoding new_assembler\<rparr>)"

text \<open>One round of the token loop, from the wait for a token to the next.\<close>

definition SendAsync_next :: "'c litert_env \<Rightarrow> assembler \<Rightarrow> 'c chat_conv \<Rightarrow> 'c chat_conv" where
  "SendAsync_next env a ch =
     (case NextTokenAsync env (cc_conv ch) of
        (NextWaiting, _) \<Rightarrow> ch
      | (NextThrow _, c) \<Rightarrow> ch\<lparr>cc_conv := c, cc_phase := TurnOver (Inl (Status Internal ''litert-lm: streaming send failed mid-decode''))\<rparr>
      | (NextToken t, c) \<Rightarrow>
          if t = [] then ch\<lparr>cc_conv := c, cc_phase := TurnOver (decode_reply ch (Inr (Assembler_Canonical (le_dump env) a)))\<rparr>
          else let a' = Assembler_Feed (le_parse env) (le_dump env) a t
               in ch\<lparr>cc_conv := c, cc_phase := Decoding a', cc_shown := cc_shown ch @ drop (length (as_deltas a)) (as_deltas a')\<rparr>)"

text \<open>\<open>LiteRtLmChatBackend::CreateConversation\<close>; the special tokens are those of the engine, \<^const>\<open>None\<close> without one.\<close>

definition Litert_CreateConversation :: "'c litert_env \<Rightarrow> (c_call \<Rightarrow> bool) \<Rightarrow> string list option \<Rightarrow> litert_options \<Rightarrow> 'c chat_conv option" where
  "Litert_CreateConversation env gives engine opts =
     (case engine of
        None \<Rightarrow> None
      | Some tokens \<Rightarrow>
         (case fst (LiteRtLmConversation_Create env gives True opts) of
            None \<Rightarrow> None
          | Some c \<Rightarrow> Some \<lparr>cc_conv = c, cc_constrained = lo_constrained_tool_calls opts, cc_special_tokens = tokens,
                            cc_hooked = None, cc_phase = NoTurn, cc_shown = []\<rparr>))"

section \<open>The backend\<close>

datatype chat_event = EvChunk stream_chunk | EvIo | EvNext | EvCancel | EvTokenCancelled nat | EvSend bool nat bool
  | EvSlot int "string option option"

text \<open>What an event does to one conversation; the slot is the backend's. Events a conversation is not waiting for do nothing.\<close>

fun chat_step :: "'c litert_env \<Rightarrow> 'c chat_conv \<Rightarrow> chat_event \<Rightarrow> 'c chat_conv" where
  "chat_step env ch (EvChunk chunk) = ch\<lparr>cc_conv := StreamCallback chunk (cc_conv ch)\<rparr>"
| "chat_step env ch EvIo = ch\<lparr>cc_conv := run_posted env (cc_conv ch)\<rparr>"
| "chat_step env ch EvNext = (case cc_phase ch of Decoding a \<Rightarrow> SendAsync_next env a ch | _ \<Rightarrow> ch)"
| "chat_step env ch EvCancel = chat_Cancel env ch"
| "chat_step env ch (EvTokenCancelled tok) = (if cc_hooked ch = Some tok then chat_Cancel env ch else ch)"
| "chat_step env ch (EvSend has_sink tok is_cancelled) =
     (case cc_phase ch of AwaitSlot _ \<Rightarrow> ch | Decoding _ \<Rightarrow> ch | _ \<Rightarrow> SendAsync_begin env has_sink tok is_cancelled ch)"
| "chat_step env ch (EvSlot rc resp) = ch"

record ('c, 's) litert_backend =
  lb_slot :: 's
  lb_chats :: "'c chat_conv list"

definition new_backend :: "(bool, 's) channel_ops \<Rightarrow> (nat \<Rightarrow> 's) \<Rightarrow> ('c, 's) litert_backend" where
  "new_backend slots new_slot = \<lparr>lb_slot = snd (op_try_send slots (new_slot 1) True), lb_chats = []\<rparr>"

definition holds_slot :: "'c chat_conv \<Rightarrow> bool" where
  "holds_slot ch \<longleftrightarrow> (case cc_phase ch of Decoding _ \<Rightarrow> True | _ \<Rightarrow> False)"

text \<open>\<open>SlotRelease\<close>: the turn is over, so its slot goes back.\<close>

definition release :: "(bool, 's) channel_ops \<Rightarrow> 'c chat_conv \<Rightarrow> 's \<Rightarrow> 's" where
  "release slots ch slot = (if holds_slot ch then slot else snd (op_try_send slots slot True))"

definition acquire :: "'c litert_env \<Rightarrow> (bool, 's) channel_ops \<Rightarrow> int \<Rightarrow> string option option \<Rightarrow> 'c chat_conv \<Rightarrow> 's \<Rightarrow> 'c chat_conv \<times> 's" where
  "acquire env slots rc resp ch slot =
     (case cc_phase ch of
        AwaitSlot has_sink \<Rightarrow>
          (case op_receive slots slot of
             (NothingYet, _) \<Rightarrow> (ch, slot)
           | (ChannelClosed, slot1) \<Rightarrow> (ch\<lparr>cc_phase := TurnOver (Inl (Status Cancelled ''cancelled''))\<rparr>, slot1)
           | (Received _, slot1) \<Rightarrow> (let ch1 = SendAsync_locked env rc resp has_sink ch in (ch1, release slots ch1 slot1)))
      | _ \<Rightarrow> (ch, slot))"

datatype backend_event = Opened "string list option" litert_options "c_call \<Rightarrow> bool" | OnChat nat chat_event

definition chat_effect :: "'c litert_env \<Rightarrow> (bool, 's) channel_ops \<Rightarrow> chat_event \<Rightarrow> 'c chat_conv \<Rightarrow> 's \<Rightarrow> 'c chat_conv \<times> 's" where
  "chat_effect env slots ev ch slot = (case ev of
       EvSlot rc resp \<Rightarrow> acquire env slots rc resp ch slot
     | _ \<Rightarrow> (let ch1 = chat_step env ch ev in (ch1, if holds_slot ch then release slots ch1 slot else slot)))"

fun backend_step :: "'c litert_env \<Rightarrow> (bool, 's) channel_ops \<Rightarrow> ('c, 's) litert_backend \<Rightarrow> backend_event \<Rightarrow> ('c, 's) litert_backend" where
  "backend_step env slots b (Opened engine opts gives) =
     (case Litert_CreateConversation env gives engine opts of None \<Rightarrow> b | Some ch \<Rightarrow> b\<lparr>lb_chats := lb_chats b @ [ch]\<rparr>)"
| "backend_step env slots b (OnChat i ev) =
     (if i < length (lb_chats b)
      then let (ch1, slot1) = chat_effect env slots ev (lb_chats b ! i) (lb_slot b)
           in \<lparr>lb_slot = slot1, lb_chats = (lb_chats b)[i := ch1]\<rparr>
      else b)"

section \<open>The session\<close>

text \<open>\<open>LiteRtLmSession\<close>, the older wrapper: the end of its stream closes the channel.\<close>

record 'c litert_session =
  ls_session :: bool
  ls_channel :: 'c
  ls_aborted :: bool
  ls_posted :: "posted_job list"

definition new_session :: "'c litert_env \<Rightarrow> bool \<Rightarrow> 'c litert_session" where
  "new_session env session = \<lparr>ls_session = session, ls_channel = le_new_channel env 256, ls_aborted = False, ls_posted = []\<rparr>"

definition session_send :: "'c litert_env \<Rightarrow> chan_item \<Rightarrow> 'c litert_session \<Rightarrow> 'c litert_session" where
  "session_send env x s = s\<lparr>ls_channel := snd (op_try_send (le_chan env) (ls_channel s) x)\<rparr>"

definition session_close :: "'c litert_env \<Rightarrow> 'c litert_session \<Rightarrow> 'c litert_session" where
  "session_close env s = s\<lparr>ls_channel := op_close (le_chan env) (ls_channel s)\<rparr>"

definition Session_Start :: "'c litert_env \<Rightarrow> bool \<Rightarrow> int \<Rightarrow> 'c litert_session \<Rightarrow> 'c litert_session" where
  "Session_Start env input rc s =
     (if \<not> ls_session s then s
      else if \<not> input then session_close env (session_send env (StreamError ''Failed to create LiteRT-LM input data'') s)
      else if rc \<noteq> 0 then session_close env (session_send env (StreamError ''Failed to start LiteRT-LM stream'') s)
      else s)"

definition Session_NextTokenAsync :: "'c litert_env \<Rightarrow> 'c litert_session \<Rightarrow> next_token \<times> 'c litert_session" where
  "Session_NextTokenAsync env s =
     (let (r, ch) = op_receive (le_chan env) (ls_channel s)
      in (next_of ''LiteRT-LM stream error: '' (le_closed_error env) r, s\<lparr>ls_channel := ch\<rparr>))"

definition Session_Abort :: "'c litert_env \<Rightarrow> 'c litert_session \<Rightarrow> 'c litert_session" where
  "Session_Abort env s = session_close env (s\<lparr>ls_aborted := True, ls_session := False\<rparr>)"

definition Session_StreamCallback :: "stream_chunk \<Rightarrow> 'c litert_session \<Rightarrow> 'c litert_session" where
  "Session_StreamCallback chunk s = (if ls_aborted s then s else s\<lparr>ls_posted := ls_posted s @ [chunk_job chunk]\<rparr>)"

fun session_job :: "'c litert_env \<Rightarrow> posted_job \<Rightarrow> 'c litert_session \<Rightarrow> 'c litert_session" where
  "session_job env (PostError msg) s = session_close env (session_send env (StreamError msg) s)"
| "session_job env (PostToken tok is_final) s =
     (let s1 = session_send env (Token tok) s in if is_final then session_close env s1 else s1)"

end
