(* ===== verification/Litert_Props.thy ===== *)
theory Litert_Props
  imports Litert_Conversation
begin

text \<open>
  What the on-device backend promises: one conversation decodes at a time and the slot is never lost; a streamed turn that fits
  its channel is assembled from every chunk whatever the order of worker, I/O thread and coroutine; handles are returned. Then
  what it does not keep: tokens past the capacity of the channel are dropped, and the end of a turn with them.
\<close>

section \<open>Handles\<close>

text \<open>The handles that the calls of a log leave open, where only calls that gave a handle count.\<close>

definition opens :: "(c_call \<Rightarrow> bool) \<Rightarrow> c_call list \<Rightarrow> int" where
  "opens gives calls = (\<Sum>c\<leftarrow>calls. if c = ConversationDelete \<or> c = ConfigDelete then -1 else if gives c then 1 else 0)"

lemma Create_fails_closed:
  "LiteRtLmConversation_Create env gives engine opts = (None, calls) \<Longrightarrow> opens gives calls = 0"
  by (auto simp: LiteRtLmConversation_Create_def opens_def Let_def split: if_splits)

lemma Create_destroy_balanced:
  "LiteRtLmConversation_Create env gives engine opts = (Some c, calls) \<Longrightarrow> opens gives (calls @ snd (destroy_conversation env c)) = 0"
  by (auto simp: LiteRtLmConversation_Create_def opens_def Let_def destroy_conversation_def new_litert_conv_def split: if_splits)

section \<open>The slot\<close>

lemma filter_update_count:
  "i < length xs \<Longrightarrow> length (filter P (xs[i := y])) + of_bool (P (xs ! i)) = length (filter P xs) + of_bool (P y)"
proof (induction xs arbitrary: i)
  case (Cons x xs)
  then show ?case by (cases i) fastforce+
qed simp

definition slot_inv :: "('s \<Rightarrow> bool list) \<Rightarrow> ('s \<Rightarrow> bool) \<Rightarrow> ('c, 's) litert_backend \<Rightarrow> bool" where
  "slot_inv contents closed b \<longleftrightarrow> \<not> closed (lb_slot b) \<and> length (contents (lb_slot b)) + length (filter holds_slot (lb_chats b)) = 1"

lemma chat_step_holds:
  "\<not> holds_slot ch \<Longrightarrow> \<not> holds_slot (chat_step env ch ev)"
  by (cases ev; cases "cc_phase ch")
    (auto simp: holds_slot_def chat_Cancel_def SendAsync_begin_def Let_def)

lemma chat_effect_other:
  "\<nexists>rc resp. ev = EvSlot rc resp \<Longrightarrow>
    chat_effect env slots ev ch slot = (chat_step env ch ev, if holds_slot ch then release slots (chat_step env ch ev) slot else slot)"
  by (cases ev) (simp_all only: chat_effect_def Let_def chat_event.case, simp)

lemma release_fifo:
  assumes "fifo_channel 1 slots contents closed" "\<not> closed slot" "contents slot = []"
  shows "\<not> closed (release slots ch slot)" "length (contents (release slots ch slot)) + of_bool (holds_slot ch) = 1"
  using fifo_channelD[OF assms(1)] assms(2,3) by (auto simp: release_def)

lemma acquire_keeps_slot:
  assumes "fifo_channel 1 slots contents closed" "\<not> closed slot" "acquire env slots rc resp ch slot = (ch1, slot1)"
    "length (contents slot) \<le> 1"
  shows "\<not> closed slot1" "length (contents slot1) + of_bool (holds_slot ch1) = length (contents slot) + of_bool (holds_slot ch)"
proof -
  have "\<not> closed slot1 \<and> length (contents slot1) + of_bool (holds_slot ch1) = length (contents slot) + of_bool (holds_slot ch)"
  proof (cases "cc_phase ch")
    case (AwaitSlot has_sink)
    then have free: "\<not> holds_slot ch" by (simp add: holds_slot_def)
    show ?thesis
    proof (cases "contents slot")
      case Nil
      then obtain slot2 where "op_receive slots slot = (NothingYet, slot2)"
        using fifo_channelD(8)[OF assms(1)] assms(2) by (metis prod.collapse)
      then show ?thesis using assms AwaitSlot by (auto simp: acquire_def)
    next
      case (Cons x xs)
      obtain slot2 where slot2: "op_receive slots slot = (Received x, slot2)"
        using fifo_channelD(6)[OF assms(1) Cons] by (metis prod.collapse)
      then have "contents slot2 = []" "\<not> closed slot2"
        using fifo_channelD(9,10)[OF assms(1), of slot] Cons assms(2,4) by auto
      note release_fifo[OF assms(1) this(2,1), of ch1]
      moreover have "slot1 = release slots ch1 slot2" using assms(3) AwaitSlot slot2 by (auto simp: acquire_def Let_def)
      moreover have "length (contents slot) = 1" using assms(4) Cons by simp
      ultimately show ?thesis using free by simp
    qed
  qed (use assms in \<open>auto simp: acquire_def\<close>)
  then show "\<not> closed slot1" "length (contents slot1) + of_bool (holds_slot ch1) = length (contents slot) + of_bool (holds_slot ch)" by auto
qed

lemma backend_step_inv:
  assumes "fifo_channel 1 slots contents closed" "slot_inv contents closed b"
  shows "slot_inv contents closed (backend_step env slots b e)"
proof (cases e)
  case (Opened engine opts gives)
  then show ?thesis using assms(2)
    by (auto simp: slot_inv_def Litert_CreateConversation_def holds_slot_def split: option.splits)
next
  case (OnChat i ev)
  show ?thesis
  proof (cases "i < length (lb_chats b)")
    case True
    let ?ch = "lb_chats b ! i"
    obtain ch1 slot1 where eff: "chat_effect env slots ev ?ch (lb_slot b) = (ch1, slot1)" by fastforce
    then have step: "backend_step env slots b e = \<lparr>lb_slot = slot1, lb_chats = (lb_chats b)[i := ch1]\<rparr>"
      using True OnChat by simp
    have open_slot: "\<not> closed (lb_slot b)" "length (contents (lb_slot b)) \<le> 1" using assms(2) by (auto simp: slot_inv_def)
    have held: "contents (lb_slot b) = []" if "holds_slot ?ch"
    proof -
      have "?ch \<in> set (filter holds_slot (lb_chats b))" using that True by simp
      then have "0 < length (filter holds_slot (lb_chats b))" by (rule length_pos_if_in_set)
      then have "length (contents (lb_slot b)) = 0" using assms(2) unfolding slot_inv_def by linarith
      then show ?thesis by simp
    qed
    have "\<not> closed slot1 \<and> length (contents slot1) + of_bool (holds_slot ch1) = length (contents (lb_slot b)) + of_bool (holds_slot ?ch)"
    proof (cases "\<exists>rc resp. ev = EvSlot rc resp")
      case True
      then obtain rc resp where "acquire env slots rc resp ?ch (lb_slot b) = (ch1, slot1)" using eff by (auto simp: chat_effect_def)
      then show ?thesis using acquire_keeps_slot[OF assms(1) open_slot(1) _ open_slot(2)] by blast
    next
      case False
      then have "(ch1, slot1) = (chat_step env ?ch ev, if holds_slot ?ch then release slots (chat_step env ?ch ev) (lb_slot b) else lb_slot b)"
        using eff chat_effect_other[of ev env slots ?ch] by metis
      then show ?thesis
        using release_fifo[OF assms(1) open_slot(1) held, of "chat_step env ?ch ev"] chat_step_holds[of ?ch env ev] open_slot(1) held
        by (cases "holds_slot ?ch") simp_all
    qed
    then show ?thesis
      using assms(2) filter_update_count[OF True, of holds_slot ch1] step by (auto simp: slot_inv_def)
  next
    case False
    then show ?thesis using assms(2) OnChat by simp
  qed
qed

lemma backend_run_inv:
  assumes "fifo_channel 1 slots contents closed" "slot_inv contents closed b"
  shows "slot_inv contents closed (foldl (backend_step env slots) b es)"
  using assms(2) by (induction es arbitrary: b) (auto intro: backend_step_inv[OF assms(1)])

text \<open>
  C27. Over any history of opened conversations and events on them, at most one conversation of a backend is decoding, and when
  none is, the slot is free: every way out of a turn gives it back, so no conversation is locked out for good.
\<close>

theorem engine_slot_exclusive:
  assumes "fifo_channel 1 slots contents closed" "contents (new_slot 1) = []" "\<not> closed (new_slot 1)"
    and "b = foldl (backend_step env slots) (new_backend slots new_slot) es"
  shows "length (filter holds_slot (lb_chats b)) \<le> 1 \<and>
    (filter holds_slot (lb_chats b) = [] \<longleftrightarrow> (\<exists>x. fst (op_receive slots (lb_slot b)) = Received x))"
proof -
  have "slot_inv contents closed (new_backend slots new_slot)"
    using fifo_channelD[OF assms(1)] assms(2,3) by (simp add: slot_inv_def new_backend_def)
  then have inv: "slot_inv contents closed b" unfolding assms(4) by (rule backend_run_inv[OF assms(1)])
  then have "(filter holds_slot (lb_chats b) = []) = (\<exists>x. fst (op_receive slots (lb_slot b)) = Received x)"
    using fifo_channelD(6,8)[OF assms(1), of "lb_slot b"] by (cases "contents (lb_slot b)") (auto simp: slot_inv_def)
  then show ?thesis using inv by (simp add: slot_inv_def)
qed

section \<open>A streamed turn\<close>

fun job_items :: "posted_job \<Rightarrow> string list" where
  "job_items (PostError msg) = []"
| "job_items (PostToken tok is_final) = (if tok = [] then [] else [tok]) @ (if is_final then [[]] else [])"

fun is_token_job :: "posted_job \<Rightarrow> bool" where
  "is_token_job (PostError msg) = False"
| "is_token_job (PostToken tok is_final) = True"

definition assembled :: "'c litert_env \<Rightarrow> string list \<Rightarrow> assembler" where
  "assembled env texts = foldl (Assembler_Feed (le_parse env) (le_dump env)) new_assembler texts"

text \<open>
  The strings of a turn, \<open>whole\<close>, are at every moment those the coroutine has taken, those in the channel, those of the posted
  jobs and those the worker has not delivered yet, in this order. The last one is empty and ends the turn.
\<close>

definition turn_state :: "'c litert_env \<Rightarrow> string list \<Rightarrow> string list \<Rightarrow> string list \<Rightarrow> 'c chat_conv \<Rightarrow> bool" where
  "turn_state env shown eaten left ch = (case cc_phase ch of
       Decoding a \<Rightarrow> [] \<notin> set eaten \<and> a = assembled env eaten \<and> cc_shown ch = shown @ as_deltas a
     | TurnOver r \<Rightarrow> left = [] \<and> r = decode_reply ch (Inr (Assembler_Canonical (le_dump env) (assembled env (butlast eaten)))) \<and>
         cc_shown ch = shown @ as_deltas (assembled env (butlast eaten))
     | _ \<Rightarrow> False)"

definition turn_inv :: "'c litert_env \<Rightarrow> ('c \<Rightarrow> chan_item list) \<Rightarrow> ('c \<Rightarrow> bool) \<Rightarrow> string list \<Rightarrow> string list \<Rightarrow> posted_job list \<Rightarrow> 'c chat_conv \<Rightarrow> bool" where
  "turn_inv env contents closed shown whole future ch \<longleftrightarrow>
     \<not> lc_cancelled (cc_conv ch) \<and> \<not> closed (lc_channel (cc_conv ch)) \<and> list_all is_token_job (lc_posted (cc_conv ch)) \<and>
     (\<exists>eaten toks. contents (lc_channel (cc_conv ch)) = map Token toks \<and>
        eaten @ toks @ concat (map job_items (lc_posted (cc_conv ch) @ future)) = whole \<and>
        lc_accum (cc_conv ch) = concat (eaten @ toks) \<and>
        turn_state env shown eaten (toks @ concat (map job_items (lc_posted (cc_conv ch) @ future))) ch)"

lemma turn_state_conv [simp]: "turn_state env shown eaten left (ch\<lparr>cc_conv := c\<rparr>) = turn_state env shown eaten left ch"
  by (auto simp: turn_state_def decode_reply_def split: chat_phase.splits)

lemma run_job_items:
  assumes "fifo_channel 256 (le_chan env) contents closed" "is_token_job job" "\<not> closed (lc_channel c)"
    "length (contents (lc_channel c)) + length (job_items job) \<le> 256"
  shows "contents (lc_channel (run_job env job c)) = contents (lc_channel c) @ map Token (job_items job)"
    "\<not> closed (lc_channel (run_job env job c))" "lc_accum (run_job env job c) = lc_accum c @ concat (job_items job)"
    "lc_posted (run_job env job c) = lc_posted c" "lc_cancelled (run_job env job c) = lc_cancelled c"
  using assms(2-4) fifo_channelD[OF assms(1)]
  by (cases job; auto simp: chan_try_send_def Let_def split: if_splits)+

lemma Assembler_Feed_extends: "\<exists>ds. as_deltas (Assembler_Feed parse dump a t) = as_deltas a @ ds"
  by (auto simp: Assembler_Feed_def add_delta_def Let_def split: option.splits list.splits)

lemma first_end:
  assumes "eaten @ [] # rest = texts @ [[]]" "[] \<notin> set eaten" "[] \<notin> set texts"
  shows "eaten = texts \<and> rest = []"
  using assms
proof (induction eaten arbitrary: texts)
  case Nil
  then show ?case by (cases texts) auto
next
  case (Cons x eaten)
  then show ?case by (cases texts) auto
qed

lemma turn_io:
  assumes "fifo_channel 256 (le_chan env) contents closed" "length whole \<le> 256" "turn_inv env contents closed shown whole future ch"
  shows "turn_inv env contents closed shown whole future (chat_step env ch EvIo)"
proof (cases "lc_posted (cc_conv ch)")
  case Nil
  then show ?thesis using assms(3) by (simp add: run_posted_def)
next
  case (Cons job jobs)
  let ?c = "(cc_conv ch)\<lparr>lc_posted := jobs\<rparr>"
  from assms(3) obtain eaten toks where inv: "\<not> lc_cancelled (cc_conv ch)" "\<not> closed (lc_channel (cc_conv ch))"
      "list_all is_token_job (lc_posted (cc_conv ch))" "contents (lc_channel (cc_conv ch)) = map Token toks"
      "eaten @ toks @ concat (map job_items (lc_posted (cc_conv ch) @ future)) = whole"
      "lc_accum (cc_conv ch) = concat (eaten @ toks)"
      "turn_state env shown eaten (toks @ concat (map job_items (lc_posted (cc_conv ch) @ future))) ch"
    by (auto simp: turn_inv_def)
  have "length (contents (lc_channel ?c)) + length (job_items job) \<le> 256"
    using inv(4,5) Cons assms(2) by auto
  then have run: "contents (lc_channel (run_job env job ?c)) = map Token (toks @ job_items job)"
      "\<not> closed (lc_channel (run_job env job ?c))" "lc_accum (run_job env job ?c) = concat (eaten @ toks @ job_items job)"
      "lc_posted (run_job env job ?c) = jobs" "\<not> lc_cancelled (run_job env job ?c)"
    using run_job_items[OF assms(1), of job ?c] inv Cons by auto
  have step: "chat_step env ch EvIo = ch\<lparr>cc_conv := run_job env job ?c\<rparr>" using Cons by (simp add: run_posted_def)
  have "turn_state env shown eaten ((toks @ job_items job) @ concat (map job_items (jobs @ future))) (chat_step env ch EvIo)"
    using inv(7) Cons step by simp
  then show ?thesis
    unfolding turn_inv_def using inv(3,5) run Cons step
    by (intro conjI exI[of _ eaten] exI[of _ "toks @ job_items job"]) simp_all
qed

lemma turn_chunk:
  assumes "turn_inv env contents closed shown whole (chunk_job chunk # future) ch" "sk_error chunk = None"
  shows "turn_inv env contents closed shown whole future (chat_step env ch (EvChunk chunk))"
  using assms by (auto simp: turn_inv_def StreamCallback_def chunk_job_def)

lemma turn_next:
  assumes "fifo_channel 256 (le_chan env) contents closed" "turn_inv env contents closed shown (texts @ [[]]) future ch" "[] \<notin> set texts"
  shows "turn_inv env contents closed shown (texts @ [[]]) future (chat_step env ch EvNext)"
proof (cases "cc_phase ch")
  case (Decoding a)
  from assms(2) obtain eaten toks where inv: "\<not> lc_cancelled (cc_conv ch)" "\<not> closed (lc_channel (cc_conv ch))"
      "list_all is_token_job (lc_posted (cc_conv ch))" "contents (lc_channel (cc_conv ch)) = map Token toks"
      "eaten @ toks @ concat (map job_items (lc_posted (cc_conv ch) @ future)) = texts @ [[]]"
      "lc_accum (cc_conv ch) = concat (eaten @ toks)"
      "turn_state env shown eaten (toks @ concat (map job_items (lc_posted (cc_conv ch) @ future))) ch"
    by (auto simp: turn_inv_def)
  have st: "[] \<notin> set eaten" "a = assembled env eaten" "cc_shown ch = shown @ as_deltas a"
    using inv(7) Decoding by (simp_all add: turn_state_def)
  show ?thesis
  proof (cases toks)
    case Nil
    then have "fst (op_receive (le_chan env) (lc_channel (cc_conv ch))) = NothingYet"
      using fifo_channelD(8)[OF assms(1)] inv(2,4) by simp
    then have "chat_step env ch EvNext = ch"
      using Decoding by (simp add: SendAsync_next_def NextTokenAsync_def next_of_def case_prod_beta)
    then show ?thesis using assms(2) by simp
  next
    case (Cons t ts)
    let ?rest = "concat (map job_items (lc_posted (cc_conv ch) @ future))"
    obtain cn where recv: "op_receive (le_chan env) (lc_channel (cc_conv ch)) = (Received (Token t), cn)"
      using fifo_channelD(6)[OF assms(1), of "lc_channel (cc_conv ch)" "Token t" "map Token ts"] inv(4) Cons
      by (metis list.simps(9) prod.collapse)
    have cn: "contents cn = map Token ts" "\<not> closed cn"
      using fifo_channelD(9,10)[OF assms(1), of "lc_channel (cc_conv ch)"] recv inv(2,4) Cons by simp_all
    show ?thesis
    proof (cases "t = []")
      case True
      have "eaten @ [] # (ts @ ?rest) = texts @ [[]]" using inv(5) Cons True by simp
      then have "eaten = texts \<and> ts @ ?rest = []" using st(1) assms(3) by (rule first_end)
      moreover have "chat_step env ch EvNext = ch\<lparr>cc_conv := (cc_conv ch)\<lparr>lc_channel := cn\<rparr>,
          cc_phase := TurnOver (decode_reply ch (Inr (Assembler_Canonical (le_dump env) a)))\<rparr>"
        using Decoding recv True by (simp add: SendAsync_next_def NextTokenAsync_def next_of_def)
      ultimately show ?thesis
        unfolding turn_inv_def using inv cn st Cons True
        by (intro conjI exI[of _ "eaten @ [t]"] exI[of _ ts]) (simp_all add: turn_state_def decode_reply_def)
    next
      case False
      let ?a = "Assembler_Feed (le_parse env) (le_dump env) a t"
      obtain ds where ds: "as_deltas ?a = as_deltas a @ ds" using Assembler_Feed_extends by blast
      have "chat_step env ch EvNext = ch\<lparr>cc_conv := (cc_conv ch)\<lparr>lc_channel := cn\<rparr>, cc_phase := Decoding ?a,
          cc_shown := cc_shown ch @ ds\<rparr>"
        using Decoding recv False ds by (simp add: SendAsync_next_def NextTokenAsync_def next_of_def Let_def)
      moreover have "?a = assembled env (eaten @ [t])" using st(2) by (simp add: assembled_def)
      ultimately show ?thesis
        unfolding turn_inv_def using inv cn st Cons False ds
        by (intro conjI exI[of _ "eaten @ [t]"] exI[of _ ts]) (simp_all add: turn_state_def)
    qed
  qed
qed (use assms(2) in \<open>simp_all\<close>)

text \<open>One turn of the worker: chunks without errors, of which only the last is final.\<close>

definition chunk_text :: "stream_chunk \<Rightarrow> string" where
  "chunk_text chunk = (case sk_text chunk of Some t \<Rightarrow> t | None \<Rightarrow> [])"

definition whole_turn :: "stream_chunk list \<Rightarrow> bool" where
  "whole_turn chunks \<longleftrightarrow> chunks \<noteq> [] \<and> (\<forall>k\<in>set chunks. sk_error k = None) \<and> sk_final (last chunks) \<and>
     (\<forall>k\<in>set (butlast chunks). \<not> sk_final k)"

definition texts_of :: "stream_chunk list \<Rightarrow> string list" where
  "texts_of chunks = filter (\<lambda>t. t \<noteq> []) (map chunk_text chunks)"

fun chunks_in :: "chat_event list \<Rightarrow> stream_chunk list" where
  "chunks_in [] = []"
| "chunks_in (EvChunk k # es) = k # chunks_in es"
| "chunks_in (_ # es) = chunks_in es"

fun decoding_event :: "chat_event \<Rightarrow> bool" where
  "decoding_event (EvChunk k) = True"
| "decoding_event EvIo = True"
| "decoding_event EvNext = True"
| "decoding_event _ = False"

lemma chunks_in_replicate: "chunks_in (replicate n EvIo) = []" "chunks_in (replicate n EvNext) = []"
  by (induction n) simp_all

lemma whole_turn_items:
  assumes "whole_turn chunks"
  shows "concat (map job_items (map chunk_job chunks)) = texts_of chunks @ [[]]"
proof -
  have mid: "concat (map job_items (map chunk_job ks)) = texts_of ks" if "\<forall>k\<in>set ks. sk_error k = None \<and> \<not> sk_final k" for ks
    using that by (induction ks) (auto simp: texts_of_def chunk_job_def chunk_text_def)
  obtain ks k where ks: "chunks = ks @ [k]" using assms by (cases chunks rule: rev_cases) (auto simp: whole_turn_def)
  have "concat (map job_items (map chunk_job ks)) = texts_of ks" using mid[of ks] assms ks by (auto simp: whole_turn_def)
  then show ?thesis using assms ks by (auto simp: whole_turn_def texts_of_def chunk_job_def chunk_text_def)
qed

lemma turn_run:
  assumes "fifo_channel 256 (le_chan env) contents closed" "length texts < 256" "[] \<notin> set texts"
    and "turn_inv env contents closed shown (texts @ [[]]) (map chunk_job (chunks_in es) @ future) ch"
    and "list_all decoding_event es" "\<forall>k\<in>set (chunks_in es). sk_error k = None"
  shows "turn_inv env contents closed shown (texts @ [[]]) future (foldl (chat_step env) ch es)"
  using assms(4-6)
proof (induction es arbitrary: ch)
  case (Cons e es)
  have fits: "length (texts @ [[]]) \<le> 256" using assms(2) by simp
  have "turn_inv env contents closed shown (texts @ [[]]) (map chunk_job (chunks_in es) @ future) (chat_step env ch e)"
  proof (cases e)
    case (EvChunk k)
    then show ?thesis using turn_chunk[of env contents closed shown "texts @ [[]]" k] Cons.prems by simp
  next
    case EvIo
    then show ?thesis using turn_io[OF assms(1) fits] Cons.prems(1) by simp
  next
    case EvNext
    then show ?thesis using turn_next[OF assms(1) _ assms(3)] Cons.prems(1) by simp
  qed (use Cons.prems(2) in simp_all)
  moreover have "list_all decoding_event es" "\<forall>k\<in>set (chunks_in es). sk_error k = None"
    using Cons.prems by (auto split: chat_event.splits, cases e, simp_all)
  ultimately show ?case using Cons.IH[of "chat_step env ch e"] by simp
qed simp

text \<open>The rest of a turn once the worker is done: the posted jobs run, then the coroutine takes what is in the channel.\<close>

lemma run_job_posted: "lc_posted (run_job env job c) = lc_posted c"
  by (cases job) (simp_all add: chan_try_send_def chan_close_def Let_def)

lemma SendAsync_next_posted [simp]: "lc_posted (cc_conv (SendAsync_next env a ch)) = lc_posted (cc_conv ch)"
  by (auto simp: SendAsync_next_def NextTokenAsync_def Let_def split: prod.splits next_token.splits)

lemma posted_length:
  "list_all decoding_event es \<Longrightarrow>
    length (lc_posted (cc_conv (foldl (chat_step env) ch es))) \<le> length (lc_posted (cc_conv ch)) + length (chunks_in es)"
proof (induction es arbitrary: ch)
  case (Cons e es)
  have "length (lc_posted (cc_conv (chat_step env ch e))) + length (chunks_in es) \<le> length (lc_posted (cc_conv ch)) + length (chunks_in (e # es))"
    using Cons.prems
    by (cases e) (auto simp: StreamCallback_def run_posted_def run_job_posted split: list.splits chat_phase.splits)
  then show ?case using Cons.IH[of "chat_step env ch e"] Cons.prems by simp
qed simp

lemma io_drains: "length (lc_posted (cc_conv ch)) \<le> n \<Longrightarrow> lc_posted (cc_conv (foldl (chat_step env) ch (replicate n EvIo))) = []"
  by (induction n arbitrary: ch) (auto simp: run_posted_def run_job_posted split: list.splits)

lemma next_posted: "lc_posted (cc_conv (foldl (chat_step env) ch (replicate n EvNext))) = lc_posted (cc_conv ch)"
  by (induction n arbitrary: ch) (auto split: chat_phase.splits)

lemma special_tokens_kept: "cc_special_tokens (foldl (chat_step env) ch es) = cc_special_tokens ch"
proof (induction es arbitrary: ch)
  case (Cons e es)
  have "cc_special_tokens (chat_step env ch e) = cc_special_tokens ch"
    by (cases e)
      (auto simp: chat_Cancel_def SendAsync_begin_def SendAsync_next_def Let_def split: chat_phase.splits prod.splits next_token.splits)
  then show ?case using Cons by simp
qed simp

lemma next_takes:
  assumes "fifo_channel 256 (le_chan env) contents closed" "contents (lc_channel (cc_conv ch)) = map Token (t # ts)"
    "cc_phase ch = Decoding a"
  shows "contents (lc_channel (cc_conv (chat_step env ch EvNext))) = map Token ts"
proof -
  obtain cn where recv: "op_receive (le_chan env) (lc_channel (cc_conv ch)) = (Received (Token t), cn)"
    using fifo_channelD(6)[OF assms(1)] assms(2) by (metis list.simps(9) prod.collapse)
  then have "contents cn = map Token ts" using fifo_channelD(9)[OF assms(1), of "lc_channel (cc_conv ch)"] assms(2) by simp
  then show ?thesis using assms(3) recv by (simp add: SendAsync_next_def NextTokenAsync_def next_of_def Let_def)
qed

lemma next_drains:
  assumes "fifo_channel 256 (le_chan env) contents closed" "[] \<notin> set texts"
    and "turn_inv env contents closed shown (texts @ [[]]) [] ch" "lc_posted (cc_conv ch) = []"
    and "length (contents (lc_channel (cc_conv ch))) \<le> n"
  shows "\<exists>r. cc_phase (foldl (chat_step env) ch (replicate n EvNext)) = TurnOver r"
  using assms(3-5)
proof (induction n arbitrary: ch)
  case 0
  then show ?case using assms(2)
    by (cases "cc_phase ch") (auto simp: turn_inv_def turn_state_def)
next
  case (Suc n)
  have inv: "turn_inv env contents closed shown (texts @ [[]]) [] (chat_step env ch EvNext)"
    by (rule turn_next[OF assms(1) Suc.prems(1) assms(2)])
  have "length (contents (lc_channel (cc_conv (chat_step env ch EvNext)))) \<le> n"
  proof (cases "cc_phase ch")
    case (Decoding a)
    obtain toks where toks: "contents (lc_channel (cc_conv ch)) = map Token toks" using Suc.prems(1) by (auto simp: turn_inv_def)
    then show ?thesis
    proof (cases toks)
      case Nil
      then show ?thesis using Suc.prems(1,2) Decoding toks by (auto simp: turn_inv_def turn_state_def)
    next
      case (Cons t ts)
      then show ?thesis using next_takes[OF assms(1) _ Decoding, of t ts] toks Suc.prems(3) by simp
    qed
  next
    case (TurnOver r)
    then have "contents (lc_channel (cc_conv ch)) = []" using Suc.prems(1) by (auto simp: turn_inv_def turn_state_def)
    then show ?thesis using TurnOver by simp
  qed (use Suc.prems(1) in \<open>auto simp: turn_inv_def turn_state_def\<close>)
  moreover have "lc_posted (cc_conv (chat_step env ch EvNext)) = []"
    using Suc.prems(2) next_posted[of env ch 1] by simp
  ultimately show ?case using Suc.IH[OF inv] by simp
qed

text \<open>
  C26. A streamed turn of fewer than 256 pieces of text, whatever the order in which the engine's thread delivers them, the I/O
  thread runs the posted jobs and the coroutine takes tokens: once all of them are through, the turn is over, its reply and the
  text shown are assembled from every piece, in order, and the conversation is ready for the next turn.
\<close>

theorem streamed_turn_complete:
  assumes "fifo_channel 256 (le_chan env) contents closed"
    and "contents (lc_channel (cc_conv ch)) = []" "\<not> closed (lc_channel (cc_conv ch))"
    and "lc_conv (cc_conv ch)" "\<not> lc_cancelled (cc_conv ch)" "lc_posted (cc_conv ch) = []" "\<not> cc_constrained ch"
    and "list_all decoding_event es" "whole_turn (chunks_in es)" "length (texts_of (chunks_in es)) < 256"
    and "after = foldl (chat_step env) (SendAsync_locked env 0 resp True ch)
      (es @ replicate (length (chunks_in es)) EvIo @ replicate 256 EvNext)"
    and "reply = assembled env (texts_of (chunks_in es))"
  shows "cc_phase after = TurnOver (Inr (DecodeSpecialTokens (Assembler_Canonical (le_dump env) reply) (cc_special_tokens ch))) \<and>
    cc_shown after = cc_shown ch @ as_deltas reply \<and> FullResponseJson (cc_conv after) = concat (texts_of (chunks_in es)) \<and>
    contents (lc_channel (cc_conv after)) = [] \<and> \<not> closed (lc_channel (cc_conv after)) \<and> \<not> lc_cancelled (cc_conv after) \<and>
    lc_posted (cc_conv after) = []"
proof -
  let ?texts = "texts_of (chunks_in es)" and ?run = "foldl (chat_step env)"
  let ?n = "length (chunks_in es)" and ?start = "SendAsync_locked env 0 resp True ch"
  have start: "?start = ch\<lparr>cc_conv := (cc_conv ch)\<lparr>lc_accum := []\<rparr>, cc_phase := Decoding new_assembler\<rparr>"
    using assms(4,5,7) by (simp add: SendAsync_locked_def SendMessage_def)
  have no_end: "[] \<notin> set ?texts" by (simp add: texts_of_def)
  have ok: "\<forall>k\<in>set (chunks_in es). sk_error k = None" using assms(9) by (simp add: whole_turn_def)
  have "turn_inv env contents closed (cc_shown ch) (?texts @ [[]]) (map chunk_job (chunks_in es) @ []) ?start"
    unfolding start turn_inv_def using assms(2,3,5,6) whole_turn_items[OF assms(9)]
    by (intro conjI exI[of _ "[]"]) (simp_all add: turn_state_def assembled_def new_assembler_def)
  then have inv1: "turn_inv env contents closed (cc_shown ch) (?texts @ [[]]) [] (?run ?start es)"
    by (rule turn_run[OF assms(1,10) no_end _ assms(8) ok])
  let ?io = "?run (?run ?start es) (replicate ?n EvIo)"
  have inv2: "turn_inv env contents closed (cc_shown ch) (?texts @ [[]]) [] ?io"
    using turn_run[OF assms(1,10) no_end, of "cc_shown ch" "replicate ?n EvIo" "[]"] inv1 by (simp add: chunks_in_replicate list_all_iff)
  have "length (lc_posted (cc_conv (?run ?start es))) \<le> ?n"
    using posted_length[OF assms(8), of env ?start] start assms(6) by simp
  then have posted: "lc_posted (cc_conv ?io) = []" by (rule io_drains)
  have "length (contents (lc_channel (cc_conv ?io))) \<le> length (?texts @ [[]])"
    using inv2 by (auto simp: turn_inv_def dest: arg_cong[of _ _ length])
  then have "length (contents (lc_channel (cc_conv ?io))) \<le> 256" using assms(10) by simp
  then obtain r where over: "cc_phase (?run ?io (replicate 256 EvNext)) = TurnOver r"
    using next_drains[OF assms(1) no_end inv2 posted] by blast
  have inv3: "turn_inv env contents closed (cc_shown ch) (?texts @ [[]]) [] (?run ?io (replicate 256 EvNext))"
    using turn_run[OF assms(1,10) no_end, of "cc_shown ch" "replicate 256 EvNext" "[]"] inv2 by (simp add: chunks_in_replicate list_all_iff)
  have after: "after = ?run ?io (replicate 256 EvNext)" using assms(11) by simp
  have "cc_special_tokens after = cc_special_tokens ch" unfolding assms(11) by (simp add: special_tokens_kept start)
  then show ?thesis
    using inv3 over next_posted[of env ?io 256] posted unfolding after[symmetric] assms(12)
    by (auto simp: turn_inv_def turn_state_def decode_reply_def FullResponseJson_def)
qed

text \<open>A concrete environment: nothing parses, so every chunk is text.\<close>

definition plain_env :: "(chan_item list \<times> bool) litert_env" where
  "plain_env = \<lparr>le_parse = (\<lambda>s. None), le_dump = (\<lambda>j. ''reply''), le_chan = queue_channel 256, le_new_channel = (\<lambda>n. ([], False)),
     le_closed_error = Some ''Channel closed''\<rparr>"

definition plain_chat :: "(chan_item list \<times> bool) chat_conv" where
  "plain_chat = \<lparr>cc_conv = new_litert_conv plain_env True False, cc_constrained = False, cc_special_tokens = [''<eos>''],
     cc_hooked = Some 0, cc_phase = AwaitSlot True, cc_shown = []\<rparr>"

definition text_chunk :: "string \<Rightarrow> bool \<Rightarrow> stream_chunk" where
  "text_chunk t is_final = \<lparr>sk_error = None, sk_text = Some t, sk_final = is_final\<rparr>"

lemma plain_env_fifo: "fifo_channel 256 (le_chan plain_env) fst snd"
  by (simp add: plain_env_def queue_channel_fifo)

theorem streamed_turn_complete_witness:
  "cc_shown (foldl (chat_step plain_env) (SendAsync_locked plain_env 0 None True plain_chat)
     ([EvChunk (text_chunk ''he'' False), EvIo, EvChunk (text_chunk ''llo'' True), EvNext] @ replicate 2 EvIo @ replicate 256 EvNext)) =
   [''he'', ''llo'']"
proof -
  let ?es = "[EvChunk (text_chunk ''he'' False), EvIo, EvChunk (text_chunk ''llo'' True), EvNext]"
  have idle: "fst (lc_channel (cc_conv plain_chat)) = []" "\<not> snd (lc_channel (cc_conv plain_chat))" "lc_conv (cc_conv plain_chat)"
      "\<not> lc_cancelled (cc_conv plain_chat)" "lc_posted (cc_conv plain_chat) = []" "\<not> cc_constrained plain_chat" "cc_shown plain_chat = []"
    by (simp_all add: plain_chat_def plain_env_def new_litert_conv_def)
  have turn: "list_all decoding_event ?es" "whole_turn (chunks_in ?es)" "texts_of (chunks_in ?es) = [''he'', ''llo'']"
      "length (chunks_in ?es) = 2"
    by (simp_all add: whole_turn_def text_chunk_def texts_of_def chunk_text_def)
  have "length (texts_of (chunks_in ?es)) < 256" unfolding turn(3) by simp
  note done_turn = streamed_turn_complete[OF plain_env_fifo idle(1-6) turn(1,2) this refl refl, THEN conjunct2, THEN conjunct1]
  have "as_deltas (assembled plain_env [''he'', ''llo'']) = [''he'', ''llo'']" by code_simp
  with done_turn[of None] show ?thesis unfolding turn(3,4) idle(7) by (simp only: append_Nil)
qed

theorem engine_slot_exclusive_witness:
  "length (filter holds_slot (lb_chats (foldl (backend_step plain_env (queue_channel 1)) (new_backend (queue_channel 1) (\<lambda>n. ([], False)))
     [Opened (Some []) \<lparr>lo_system_message_json = [], lo_tools_json = [], lo_messages_json = [], lo_constrained_tool_calls = False\<rparr> (\<lambda>c. True),
      OnChat 0 (EvSend True 0 False), OnChat 0 (EvSlot 0 None)]))) \<le> 1"
  by (rule engine_slot_exclusive[OF queue_channel_fifo _ _ refl, THEN conjunct1]) simp_all

section \<open>What is not kept\<close>

text \<open>
  Nothing slows the engine down: a job finds the channel full and its item is dropped. When the texts of a turn fill the channel
  before the coroutine takes any, the end of the turn is dropped too, and the turn never ends, whatever happens next on the
  I/O thread; its slot stays taken.
\<close>

lemma run_job_drops:
  assumes "fifo_channel 256 (le_chan env) contents closed" "is_token_job job" "\<not> closed (lc_channel c)" "length (contents (lc_channel c)) \<le> 256"
  shows "contents (lc_channel (run_job env job c)) = take 256 (contents (lc_channel c) @ map Token (job_items job)) \<and>
    \<not> closed (lc_channel (run_job env job c))"
  using assms(2-4) fifo_channelD[OF assms(1)] by (cases job) (auto simp: chan_try_send_def Let_def take_Cons' split: if_splits)

lemma io_drops:
  assumes "fifo_channel 256 (le_chan env) contents closed" "list_all is_token_job (lc_posted (cc_conv ch))" "\<not> closed (lc_channel (cc_conv ch))"
    "length (contents (lc_channel (cc_conv ch))) \<le> 256" "length (lc_posted (cc_conv ch)) = n"
  shows "contents (lc_channel (cc_conv (foldl (chat_step env) ch (replicate n EvIo)))) =
      take 256 (contents (lc_channel (cc_conv ch)) @ map Token (concat (map job_items (lc_posted (cc_conv ch))))) \<and>
    \<not> closed (lc_channel (cc_conv (foldl (chat_step env) ch (replicate n EvIo)))) \<and>
    cc_phase (foldl (chat_step env) ch (replicate n EvIo)) = cc_phase ch"
  using assms(2-5)
proof (induction n arbitrary: ch)
  case (Suc n)
  then obtain job jobs where jobs: "lc_posted (cc_conv ch) = job # jobs" by (cases "lc_posted (cc_conv ch)") auto
  let ?c = "(cc_conv ch)\<lparr>lc_posted := jobs\<rparr>" and ?ch = "chat_step env ch EvIo"
  have ch: "?ch = ch\<lparr>cc_conv := run_job env job ?c\<rparr>" using jobs by (simp add: run_posted_def)
  have run: "contents (lc_channel (cc_conv ?ch)) = take 256 (contents (lc_channel (cc_conv ch)) @ map Token (job_items job))"
      "\<not> closed (lc_channel (cc_conv ?ch))" "lc_posted (cc_conv ?ch) = jobs" "cc_phase ?ch = cc_phase ch"
    using run_job_drops[OF assms(1), of job ?c] Suc.prems jobs unfolding ch by (simp_all add: run_job_posted)
  have tk: "take 256 (take 256 xs @ ys) = take 256 (xs @ ys)" for xs ys :: "chan_item list" by (simp add: min_def)
  have prems: "list_all is_token_job (lc_posted (cc_conv ?ch))" "length (contents (lc_channel (cc_conv ?ch))) \<le> 256"
      "length (lc_posted (cc_conv ?ch)) = n"
    using run(1,3) Suc.prems(1,4) jobs by simp_all
  have more: "foldl (chat_step env) ch (replicate (Suc n) EvIo) = foldl (chat_step env) ?ch (replicate n EvIo)" by simp
  show ?case using Suc.IH[OF prems(1) run(2) prems(2,3)] jobs
    unfolding more run(1,3,4) tk by (simp add: jobs del: take_append)
qed simp

lemma lost_end_never_ends:
  assumes "fifo_channel 256 (le_chan env) contents closed" "cc_phase ch = Decoding a" "\<not> closed (lc_channel (cc_conv ch))"
    "contents (lc_channel (cc_conv ch)) = map Token toks" "[] \<notin> set toks" "lc_posted (cc_conv ch) = []" "set es \<subseteq> {EvIo, EvNext}"
  shows "holds_slot (foldl (chat_step env) ch es)"
  using assms(2-7)
proof (induction es arbitrary: ch a toks)
  case Nil
  then show ?case by (simp add: holds_slot_def)
next
  case (Cons e es)
  show ?case
  proof (cases "e = EvNext \<and> toks \<noteq> []")
    case False
    have "chat_step env ch e = ch"
      using False Cons.prems fifo_channelD(8)[OF assms(1), of "lc_channel (cc_conv ch)"]
      by (auto simp: run_posted_def SendAsync_next_def NextTokenAsync_def next_of_def case_prod_beta)
    then show ?thesis using Cons.IH[OF Cons.prems(1-5)] Cons.prems(6) by simp
  next
    case True
    then obtain t ts where ts: "toks = t # ts" "t \<noteq> []" using Cons.prems(4) by (cases toks) auto
    obtain cn where recv: "op_receive (le_chan env) (lc_channel (cc_conv ch)) = (Received (Token t), cn)"
      using fifo_channelD(6)[OF assms(1)] Cons.prems(3) ts(1) by (metis list.simps(9) prod.collapse)
    let ?ch = "chat_step env ch EvNext"
    have "cc_phase ?ch = Decoding (Assembler_Feed (le_parse env) (le_dump env) a t)" "lc_channel (cc_conv ?ch) = cn"
      "lc_posted (cc_conv ?ch) = []"
      using recv Cons.prems(1,5) ts(2) by (simp_all add: SendAsync_next_def NextTokenAsync_def next_of_def Let_def)
    moreover have "\<not> closed cn" "contents cn = map Token ts"
      using fifo_channelD(9,10)[OF assms(1), of "lc_channel (cc_conv ch)"] recv Cons.prems(2,3) ts(1) by simp_all
    ultimately show ?thesis using Cons.IH[of ?ch _ ts] Cons.prems(4,6) ts True by auto
  qed
qed

lemma chunks_posted:
  "\<not> lc_cancelled (cc_conv ch) \<Longrightarrow> foldl (chat_step env) ch (map EvChunk ks) =
    ch\<lparr>cc_conv := (cc_conv ch)\<lparr>lc_posted := lc_posted (cc_conv ch) @ map chunk_job ks\<rparr>\<rparr>"
  by (induction ks arbitrary: ch) (simp_all add: StreamCallback_def)

lemma slow_consumer_loses_turn:
  assumes "fifo_channel 256 (le_chan env) contents closed"
    and "contents (lc_channel (cc_conv ch)) = []" "\<not> closed (lc_channel (cc_conv ch))"
    and "lc_conv (cc_conv ch)" "\<not> lc_cancelled (cc_conv ch)" "lc_posted (cc_conv ch) = []" "\<not> cc_constrained ch"
    and "whole_turn ks" "256 \<le> length (texts_of ks)" "set es \<subseteq> {EvIo, EvNext}"
  shows "holds_slot (foldl (chat_step env) (SendAsync_locked env 0 resp True ch) (map EvChunk ks @ replicate (length ks) EvIo @ es))"
proof -
  let ?start = "SendAsync_locked env 0 resp True ch"
  have start: "?start = ch\<lparr>cc_conv := (cc_conv ch)\<lparr>lc_accum := []\<rparr>, cc_phase := Decoding new_assembler\<rparr>"
    using assms(4,5,7) by (simp add: SendAsync_locked_def SendMessage_def)
  let ?full = "foldl (chat_step env) ?start (map EvChunk ks)"
  have full: "?full = ch\<lparr>cc_conv := (cc_conv ch)\<lparr>lc_accum := [], lc_posted := map chunk_job ks\<rparr>, cc_phase := Decoding new_assembler\<rparr>"
    using chunks_posted[of ?start env ks] assms(5,6) unfolding start by simp
  have "list_all is_token_job (map chunk_job ks)" using assms(8) by (auto simp: list_all_iff whole_turn_def chunk_job_def)
  moreover have "take 256 (map Token (concat (map job_items (map chunk_job ks)))) = map Token (take 256 (texts_of ks))"
    using whole_turn_items[OF assms(8)] assms(9) by (simp add: take_map)
  ultimately have stuck: "cc_phase (foldl (chat_step env) ?full (replicate (length ks) EvIo)) = Decoding new_assembler"
      "\<not> closed (lc_channel (cc_conv (foldl (chat_step env) ?full (replicate (length ks) EvIo))))"
      "contents (lc_channel (cc_conv (foldl (chat_step env) ?full (replicate (length ks) EvIo)))) = map Token (take 256 (texts_of ks))"
    using io_drops[OF assms(1), of ?full "length ks"] assms(2,3) full by simp_all
  have "[] \<notin> set (take 256 (texts_of ks))" by (auto simp: texts_of_def dest: in_set_takeD)
  moreover have "lc_posted (cc_conv (foldl (chat_step env) ?full (replicate (length ks) EvIo))) = []"
    by (rule io_drains) (simp add: full)
  ultimately show ?thesis using lost_end_never_ends[OF assms(1) stuck _ _ assms(10)] by simp
qed

text \<open>
  A cancelled stream does not report the cancellation: the closed channel reads as an error of the stream or as the end of the
  turn, never as \<open>Cancelled\<close>.
\<close>

lemma cancelled_stream_result:
  assumes "fifo_channel 256 (le_chan env) contents closed" "cc_phase ch = Decoding a" "contents (lc_channel (cc_conv ch)) = []"
  shows "cc_phase (chat_step env (chat_step env ch EvCancel) EvNext) = TurnOver (case le_closed_error env of
      None \<Rightarrow> Inr (DecodeSpecialTokens (Assembler_Canonical (le_dump env) a) (cc_special_tokens ch))
    | Some m \<Rightarrow> Inl (Status Internal ''litert-lm: streaming send failed mid-decode''))"
proof -
  let ?c = "op_close (le_chan env) (lc_channel (cc_conv ch))"
  have "fst (op_receive (le_chan env) ?c) = ChannelClosed"
    using fifo_channelD(7)[OF assms(1)] fifo_channelD(4,5)[OF assms(1)] assms(3) by simp
  then show ?thesis using assms(2)
    by (auto simp: chat_Cancel_def LiteRtLmConversation_Cancel_def SendAsync_next_def NextTokenAsync_def next_of_def
        decode_reply_def case_prod_beta split: option.splits)
qed

text \<open>Only the token of the first turn carries the hook: cancelling the token of a later turn does not reach the engine.\<close>

lemma later_token_not_hooked:
  assumes "cc_hooked ch = Some t" "tok \<noteq> t" "\<not> holds_slot ch"
  shows "chat_step env (chat_step env ch (EvSend has_sink tok False)) (EvTokenCancelled tok) = chat_step env ch (EvSend has_sink tok False)"
  using assms by (auto simp: SendAsync_begin_def split: chat_phase.splits)

text \<open>The coroutine can return while jobs that refer to the conversation are still posted.\<close>

lemma returns_with_jobs_posted:
  "foldl (chat_step plain_env) (SendAsync_locked plain_env 0 None True plain_chat) [EvChunk (text_chunk ''hi'' False), EvCancel, EvNext] = ch \<Longrightarrow>
    cc_phase ch = TurnOver (Inl (Status Internal ''litert-lm: streaming send failed mid-decode'')) \<and> lc_posted (cc_conv ch) = [PostToken ''hi'' False]"
  by (auto simp: plain_chat_def plain_env_def new_litert_conv_def SendAsync_locked_def SendMessage_def StreamCallback_def chunk_job_def
      text_chunk_def chat_Cancel_def LiteRtLmConversation_Cancel_def queue_channel_def SendAsync_next_def NextTokenAsync_def next_of_def)

text \<open>A session ends its stream by closing the channel, which its reader sees as an error unless a closed channel reads as aborted.\<close>

lemma session_end_throws:
  assumes "fifo_channel 256 (le_chan env) contents closed" "contents (ls_channel s) = []" "\<not> closed (ls_channel s)" "le_closed_error env = Some m"
  shows "fst (Session_NextTokenAsync env (snd (Session_NextTokenAsync env (session_job env (PostToken t True) s)))) = NextThrow (''LiteRT-LM stream error: '' @ m)"
  using fifo_channelD[OF assms(1)] assms(2-4)
  by (simp add: Session_NextTokenAsync_def session_send_def session_close_def next_of_def case_prod_beta Let_def)

end
