(* ===== verification/Jni_Bridge.thy ===== *)
theory Jni_Bridge
  imports Workflow_Runner Events Persist Cancel Channels Runner
begin

text \<open>
  The bindings for the JVM, \<open>src/jni/agentflow_jni.cc\<close>. The JVM is seen through what its calls answer; the state of a native call
  keeps the pending Java exception, the global references made and deleted, and whether a JNI function was used where the JNI
  specification leaves it undefined: while an exception is pending, or on a null object.
\<close>

section \<open>Cancel handles\<close>

text \<open>
  \<open>g_cancels\<close>: an id owns a source, and a source and the tokens taken from it share a state. The states are kept in a list and
  referred to by position, so that a token outlives its source.
\<close>

record 'cb jni_cancels =
  jc_sources :: "(64 word \<times> nat) list"
  jc_states :: "'cb cancel_state list"
  jc_next :: "64 word"

definition new_jni_cancels :: "'cb jni_cancels" where
  "new_jni_cancels = \<lparr>jc_sources = [], jc_states = [], jc_next = 1\<rparr>"

definition nativeNewCancel :: "'cb jni_cancels \<Rightarrow> 64 word \<times> 'cb jni_cancels" where
  "nativeNewCancel g =
     (jc_next g, g\<lparr>jc_sources := AList.update (jc_next g) (length (jc_states g)) (jc_sources g),
                   jc_states := jc_states g @ [new_cancel_state], jc_next := jc_next g + 1\<rparr>)"

text \<open>The second result are the callbacks that run.\<close>

definition nativeCancel :: "64 word \<Rightarrow> 'cb jni_cancels \<Rightarrow> 'cb jni_cancels \<times> 'cb list" where
  "nativeCancel cancel_id g = (case map_of (jc_sources g) cancel_id of
       None \<Rightarrow> (g, [])
     | Some p \<Rightarrow> (let (s, cbs) = CancelSource_Cancel (jc_states g ! p) in (g\<lparr>jc_states := (jc_states g)[p := s]\<rparr>, cbs)))"

definition nativeFreeCancel :: "64 word \<Rightarrow> 'cb jni_cancels \<Rightarrow> 'cb jni_cancels" where
  "nativeFreeCancel cancel_id g = g\<lparr>jc_sources := AList.delete cancel_id (jc_sources g)\<rparr>"

definition take_token :: "64 word \<Rightarrow> 'cb jni_cancels \<Rightarrow> nat option" where
  "take_token cancel_id g = (if cancel_id = 0 then None else map_of (jc_sources g) cancel_id)"

datatype jni_cancel_op = OpNew | OpCancel "64 word" | OpFree "64 word"

fun jni_cancel_step :: "'cb jni_cancels \<Rightarrow> jni_cancel_op \<Rightarrow> 'cb jni_cancels" where
  "jni_cancel_step g OpNew = snd (nativeNewCancel g)"
| "jni_cancel_step g (OpCancel i) = fst (nativeCancel i g)"
| "jni_cancel_step g (OpFree i) = nativeFreeCancel i g"

section \<open>The worker pool\<close>

datatype 'j pool_thread = Waiting | Running 'j | Exited

text \<open>\<open>wp_taken\<close> and \<open>wp_ran\<close> record the jobs in the order in which they were taken and in which they ended.\<close>

record 'j worker_pool =
  wp_jobs :: "'j list"
  wp_threads :: "'j pool_thread list"
  wp_shutdown :: bool
  wp_taken :: "'j list"
  wp_ran :: "'j list"

definition new_worker_pool :: "'j worker_pool" where
  "new_worker_pool = \<lparr>wp_jobs = [], wp_threads = [], wp_shutdown = False, wp_taken = [], wp_ran = []\<rparr>"

definition EnsureStarted :: "nat \<Rightarrow> 'j worker_pool \<Rightarrow> 'j worker_pool" where
  "EnsureStarted n p = (if wp_threads p \<noteq> [] then p else p\<lparr>wp_threads := replicate n Waiting\<rparr>)"

definition pool_Post :: "'j \<Rightarrow> 'j worker_pool \<Rightarrow> 'j worker_pool" where
  "pool_Post job p = p\<lparr>wp_jobs := wp_jobs p @ [job]\<rparr>"

definition pool_destroy :: "'j worker_pool \<Rightarrow> 'j worker_pool" where
  "pool_destroy p = p\<lparr>wp_shutdown := True\<rparr>"

text \<open>One round of a worker's loop: it takes a job or leaves, or the job it has taken ends. A worker with nothing to do waits.\<close>

definition worker_step :: "nat \<Rightarrow> 'j worker_pool \<Rightarrow> 'j worker_pool" where
  "worker_step i p =
     (if i < length (wp_threads p)
      then (case wp_threads p ! i of
              Waiting \<Rightarrow>
                (case wp_jobs p of
                   job # jobs \<Rightarrow> p\<lparr>wp_jobs := jobs, wp_threads := (wp_threads p)[i := Running job], wp_taken := wp_taken p @ [job]\<rparr>
                 | [] \<Rightarrow> if wp_shutdown p then p\<lparr>wp_threads := (wp_threads p)[i := Exited]\<rparr> else p)
            | Running job \<Rightarrow> p\<lparr>wp_threads := (wp_threads p)[i := Waiting], wp_ran := wp_ran p @ [job]\<rparr>
            | Exited \<Rightarrow> p)
      else p)"

datatype 'j pool_event = PoolStart nat | PoolPost 'j | PoolWorker nat | PoolDestroy

fun pool_step :: "'j worker_pool \<Rightarrow> 'j pool_event \<Rightarrow> 'j worker_pool" where
  "pool_step p (PoolStart n) = EnsureStarted n p"
| "pool_step p (PoolPost job) = pool_Post job p"
| "pool_step p (PoolWorker i) = worker_step i p"
| "pool_step p PoolDestroy = pool_destroy p"

section \<open>Host tools\<close>

text \<open>What the blocking call into the JVM comes to, on its worker.\<close>

datatype upcall = AttachFailed | ToolThrew | ToolReturnedNull | ToolReturned string | StringUnavailable

fun upcall_result :: "upcall \<Rightarrow> string" where
  "upcall_result AttachFailed = error_json ''jvm_attach_failed''"
| "upcall_result ToolThrew = error_json ''tool_impl_threw''"
| "upcall_result ToolReturnedNull = error_json ''null_result''"
| "upcall_result (ToolReturned s) = s"
| "upcall_result StringUnavailable = error_json ''null_result''"

text \<open>\<open>invoke\<close> posts the job and waits; \<^const>\<open>None\<close> when the completion channel was closed.\<close>

definition MakeHostTool :: "string \<Rightarrow> string \<Rightarrow> string \<Rightarrow> (string \<Rightarrow> string \<Rightarrow> 'w \<Rightarrow> upcall option \<times> 'w) \<Rightarrow> 'w tool" where
  "MakeHostTool name description params_schema invoke =
     NativeFnTool \<lparr>ts_name = name, ts_description = description, ts_params_json_schema = params_schema\<rparr>
       (\<lambda>args tool_call_id w. case invoke tool_call_id args w of
          (None, w') \<Rightarrow> (Inr (error_json ''cancelled''), w')
        | (Some u, w') \<Rightarrow> (Inr (upcall_result u), w'))"

section \<open>The JNI environment\<close>

datatype jobj = SignalObj | ToolObj nat

datatype ref_op = NewRef jobj | DeleteRef jobj

record jni_state =
  js_pending :: "string option"
  js_refs :: "ref_op list"
  js_misuse :: bool

definition new_jni_state :: jni_state where
  "new_jni_state = \<lparr>js_pending = None, js_refs = [], js_misuse = False\<rparr>"

text \<open>A JNI function that must not be called while an exception is pending; and one that may throw.\<close>

definition jni_fn :: "jni_state \<Rightarrow> jni_state" where
  "jni_fn st = st\<lparr>js_misuse := (js_misuse st \<or> js_pending st \<noteq> None)\<rparr>"

definition jni_try :: "string option \<Rightarrow> jni_state \<Rightarrow> jni_state" where
  "jni_try thrown st = (case thrown of None \<Rightarrow> jni_fn st | Some m \<Rightarrow> (jni_fn st)\<lparr>js_pending := Some m\<rparr>)"

definition c_str :: "string \<Rightarrow> string" where
  "c_str s = takeWhile (\<lambda>c. c \<noteq> CHR 0x00) s"

definition ThrowJava :: "string \<Rightarrow> jni_state \<Rightarrow> jni_state" where
  "ThrowJava msg st = (jni_fn st)\<lparr>js_pending := Some (c_str msg)\<rparr>"

definition lookup_member :: "string \<Rightarrow> bool \<Rightarrow> jni_state \<Rightarrow> jni_state" where
  "lookup_member err found st = jni_try (if found then None else Some err) st"

definition new_ref :: "jobj \<Rightarrow> jni_state \<Rightarrow> jni_state" where
  "new_ref obj st = (jni_fn st)\<lparr>js_refs := js_refs st @ [NewRef obj]\<rparr>"

definition delete_refs :: "jobj list \<Rightarrow> jni_state \<Rightarrow> jni_state" where
  "delete_refs objs st = st\<lparr>js_refs := js_refs st @ map DeleteRef objs\<rparr>"

datatype jni_result = JNull | JValue string

definition fail_java :: "string \<Rightarrow> jni_state \<Rightarrow> jni_result \<times> jni_state" where
  "fail_java msg st = (JNull, ThrowJava msg st)"

text \<open>The handlers at the end of every entry.\<close>

definition catch_exn :: "exn \<Rightarrow> jni_state \<Rightarrow> jni_result \<times> jni_state" where
  "catch_exn e st = fail_java (case exn_what e of Some m \<Rightarrow> m | None \<Rightarrow> ''unknown C++ exception'') st"

definition return_string :: "string \<Rightarrow> jni_state \<Rightarrow> jni_result \<times> jni_state" where
  "return_string s st = (JValue (c_str s), jni_fn st)"

section \<open>Trace events for the JVM\<close>

text \<open>\<open>has_events\<close> is false for a null callback object; \<open>thrown\<close> is what the callback throws.\<close>

definition call_events :: "bool \<Rightarrow> nat \<Rightarrow> string option \<Rightarrow> jni_state \<Rightarrow> jni_state" where
  "call_events has_events strings thrown st =
     (let st1 = (jni_fn ^^ strings) st
      in if has_events then jni_try thrown st1 else (jni_fn st1)\<lparr>js_misuse := True\<rparr>)"

definition JniEventEmitter_Emit :: "bool \<Rightarrow> string option \<Rightarrow> TraceEvent \<Rightarrow> jni_state \<Rightarrow> jni_state" where
  "JniEventEmitter_Emit has_events thrown ev st = (case te_payload ev of
       ToolCallPayload tool args tool_call_id \<Rightarrow> call_events has_events 3 thrown st
     | ToolReturnPayload tool res tool_call_id \<Rightarrow> call_events has_events 2 thrown st
     | _ \<Rightarrow> st)"

section \<open>The entries\<close>

text \<open>
  The world the entries run in: the loader's and the agent's environments, whether the engine can be created, the backend made
  from it, protobuf with the class \<open>TestState\<close>, and \<open>io.run()\<close>, which takes a runner that has just been started with a token to the
  state in which it leaves it and to the Java exception a callback has left pending.
\<close>

record ('m, 'f, 'w) jni_env =
  je_loader :: "('m, 'f) loader_env"
  je_base :: "('m, 'w) agent_build_spec"
  je_engine_create :: "string \<Rightarrow> bool"
  je_backend :: "string \<Rightarrow> 'w chat_backend_if"
  je_api :: "'m proto_api"
  je_is_test_state :: "'m \<Rightarrow> bool"
  je_new_test_state :: 'm
  je_io_run :: "'w built_agent \<Rightarrow> nat option \<Rightarrow> 'm runner \<Rightarrow> 'm runner \<times> string option"

definition default_loader_options :: loader_options where
  "default_loader_options = \<lparr>lo_max_json_bytes = 262144, lo_key_resolver = None, lo_require_signed = False\<rparr>"

definition jni_build_spec :: "('m, 'f, 'w) jni_env \<Rightarrow> string \<Rightarrow> 'w tool_registry \<Rightarrow> 'm workflow \<Rightarrow> bool \<Rightarrow> ('m, 'w) agent_build_spec" where
  "jni_build_spec env model_path host_tools flow streaming = (je_base env)\<lparr>
     bs_workflow := wf_spec flow, bs_agent_name := ws_main (wf_spec flow), bs_host_tools := host_tools,
     bs_tool_tiers := [], bs_tool_gate := None, bs_fail_closed_confirm := False, bs_tool_event := None,
     bs_backend := Some (je_backend env model_path), bs_backends := [], bs_emit := None,
     bs_input_field := ''user_query'', bs_output_field := ''assistant_reply'', bs_max_iter := 5,
     bs_stream := (bs_stream (je_base env))\<lparr>se_has_io := True,
       se_top_channel := (if streaming then se_top_channel (bs_stream (je_base env)) else None)\<rparr>\<rparr>"

text \<open>\<open>runAgent\<close>: an agent with the given prompt and no tools.\<close>

definition runAgent_config :: "('m, 'f, 'w) jni_env \<Rightarrow> string \<Rightarrow> string \<Rightarrow> bool \<Rightarrow> 'w built_agent" where
  "runAgent_config env model_path system_prompt constrained = \<lparr>
     ba_cfg = \<lparr>ac_configured = True, ac_system_prompt = system_prompt, ac_registry = None, ac_view = None, ac_max_iter = 5,
       ac_input_field = ''user_query'', ac_output_field = ''assistant_reply'', ac_tool_names = [], ac_extra_tools = []\<rparr>,
     ba_backend = Some (je_backend env model_path), ba_constrained_tool_calls = constrained, ba_max_output_tokens = 512,
     ba_stream_tokens = False\<rparr>"

definition read_strings :: "nat \<Rightarrow> jni_state \<Rightarrow> jni_state" where
  "read_strings n st = (jni_fn ^^ n) st"

text \<open>The graph every entry builds: the agent and a stub that ends it. \<open>StubNode\<close> waits, applies its body and takes a number.\<close>

definition agent_graph :: graph_builder where
  "agent_graph = AddEdge ''agent'' ''sink'' CondAll (AddNode \<lparr>node_id = ''sink'', node_kind = ''stub''\<rparr>
     (AddNode \<lparr>node_id = ''agent'', node_kind = ''agent''\<rparr> \<lparr>b_nodes = [], b_edges = []\<rparr>))"

record 'm stub_node =
  sn_delay :: bool
  sn_body :: "('m gstate \<Rightarrow> 'm gstate) option"
  sn_order :: "32 word"

text \<open>\<open>reads\<close> are what the token says at each poll until the delay is over; the counter is shared between stubs.\<close>

definition StubNode_Run :: "bool list \<Rightarrow> 'm stub_node \<Rightarrow> 32 word option \<Rightarrow> 'm gstate \<Rightarrow> 'm gstate \<times> 'm stub_node \<times> 32 word option" where
  "StubNode_Run reads n counter state =
     (if sn_delay n \<and> True \<in> set reads then (state, n, counter)
      else (case sn_body n of None \<Rightarrow> state | Some body \<Rightarrow> body state,
            (case counter of None \<Rightarrow> n | Some c \<Rightarrow> n\<lparr>sn_order := c\<rparr>),
            map_option (\<lambda>c. c + 1) counter))"

text \<open>A runner that has been given its initial state, and what is left of it after \<open>io.run()\<close>.\<close>

definition start_runner :: "('m, 'f, 'w) jni_env \<Rightarrow> string \<Rightarrow> 'm runner exn_or" where
  "start_runner env user_query =
     (case Build agent_graph of
        Inl e \<Rightarrow> Inl e
      | Inr g \<Rightarrow>
         (case Runner_Impl g Off False of
            Inl e \<Rightarrow> Inl e
          | Inr r \<Rightarrow> Inr (Run_boot (State_From (set_string (je_api env) (je_new_test_state env) ''user_query'' user_query)) r)))"

definition read_reply :: "('m, 'f, 'w) jni_env \<Rightarrow> 'm gstate \<Rightarrow> string exn_or" where
  "read_reply env out = (case State_As (je_api env) (je_is_test_state env) out of
       Inl e \<Rightarrow> Inl e
     | Inr m \<Rightarrow> Inr (get_string (je_api env) m ''assistant_reply''))"

text \<open>\<^const>\<open>None\<close> while the run has not returned.\<close>

definition run_outcome :: "('m, 'f, 'w) jni_env \<Rightarrow> 'm runner \<Rightarrow> string exn_or option" where
  "run_outcome env t = (case result t of
       None \<Rightarrow> None
     | Some (Inl e) \<Rightarrow> Some (Inl e)
     | Some (Inr out) \<Rightarrow> Some (read_reply env out))"

text \<open>\<open>runAgent\<close> and \<open>runJsonWorkflow\<close> wait for the future; a run that never returns is \<^const>\<open>None\<close>.\<close>

definition run_to_reply :: "('m, 'f, 'w) jni_env \<Rightarrow> 'w built_agent \<Rightarrow> string \<Rightarrow> jni_state \<Rightarrow> (jni_result \<times> jni_state) option" where
  "run_to_reply env built user_query st =
     (case start_runner env user_query of
        Inl e \<Rightarrow> Some (catch_exn e st)
      | Inr r \<Rightarrow> map_option (\<lambda>outcome. case outcome of Inl e \<Rightarrow> catch_exn e st | Inr reply \<Rightarrow> return_string reply st)
           (run_outcome env (fst (je_io_run env built None r))))"

definition runAgent :: "('m, 'f, 'w) jni_env \<Rightarrow> string \<Rightarrow> string \<Rightarrow> string \<Rightarrow> bool \<Rightarrow> jni_state \<Rightarrow> (jni_result \<times> jni_state) option" where
  "runAgent env model_path system_prompt user_query constrained st =
     (let st = read_strings 3 st in
      if \<not> je_engine_create env model_path then Some (fail_java ''LiteRtLmEngine::Create failed'' st)
      else run_to_reply env (runAgent_config env model_path system_prompt constrained) user_query st)"

text \<open>
  What the entries for workflows share: load, build, and the guard against an agent that is not in the roster. \<open>Inl\<close> is a way out
  with a Java exception to throw, \<open>Inr (Inl _)\<close> a C++ exception.
\<close>

definition prepare :: "('m, 'f, 'w) jni_env \<Rightarrow> string \<Rightarrow> 'w tool_registry \<Rightarrow> string \<Rightarrow> bool \<Rightarrow> string + 'w built_agent exn_or" where
  "prepare env model_path host_tools workflow_json streaming =
     (case Load (je_loader env) (Has host_tools) default_loader_options workflow_json of
        Inl s \<Rightarrow> Inl (message s)
      | Inr flow \<Rightarrow>
         (case BuildAgentNode (jni_build_spec env model_path host_tools flow streaming) of
            Inl e \<Rightarrow> Inr (Inl e)
          | Inr built \<Rightarrow>
              if ac_system_prompt (ba_cfg built) = [] \<and> ba_backend built = None then Inl ''main agent not in roster''
              else Inr (Inr built)))"

definition runJsonWorkflow :: "('m, 'f, 'w) jni_env \<Rightarrow> string \<Rightarrow> string \<Rightarrow> string \<Rightarrow> jni_state \<Rightarrow> (jni_result \<times> jni_state) option" where
  "runJsonWorkflow env model_path workflow_json user_query st =
     (let st = read_strings 3 st in
      if \<not> je_engine_create env model_path then Some (fail_java ''LiteRtLmEngine::Create failed'' st)
      else case prepare env model_path (new_tool_registry True) workflow_json False of
        Inl msg \<Rightarrow> Some (fail_java msg st)
      | Inr (Inl e) \<Rightarrow> Some (catch_exn e st)
      | Inr (Inr built) \<Rightarrow> run_to_reply env built user_query st)"

text \<open>The end of the entries with callbacks, which may have left an exception.\<close>

definition finish_run :: "string exn_or \<Rightarrow> string option \<Rightarrow> jni_state \<Rightarrow> jni_result \<times> jni_state" where
  "finish_run outcome thrown st =
     (let st = (case thrown of None \<Rightarrow> st | Some m \<Rightarrow> st\<lparr>js_pending := Some m\<rparr>) in
      case outcome of
        Inl e \<Rightarrow> catch_exn e st
      | Inr reply \<Rightarrow> if js_pending st \<noteq> None then (JNull, st) else return_string reply st)"

text \<open>\<open>globals\<close> are the references to delete after \<open>io.run()\<close>.\<close>

definition run_with_callbacks :: "('m, 'f, 'w) jni_env \<Rightarrow> 'w built_agent \<Rightarrow> nat option \<Rightarrow> string \<Rightarrow> jobj list \<Rightarrow> jni_state \<Rightarrow>
    (jni_result \<times> jni_state) option" where
  "run_with_callbacks env built tok user_query globals st =
     (case start_runner env user_query of
        Inl e \<Rightarrow> Some (catch_exn e st)
      | Inr r \<Rightarrow> (case je_io_run env built tok r of
          (t, thrown) \<Rightarrow> map_option (\<lambda>outcome. finish_run outcome thrown (delete_refs globals st)) (run_outcome env t)))"

text \<open>\<open>on_token\<close> is the callback object, with whether its method is found.\<close>

definition runJsonWorkflowStreaming ::
    "('m, 'f, 'w) jni_env \<Rightarrow> 'cb jni_cancels \<Rightarrow> string \<Rightarrow> string \<Rightarrow> string \<Rightarrow> bool option \<Rightarrow> 64 word \<Rightarrow> jni_state \<Rightarrow>
     (jni_result \<times> jni_state) option" where
  "runJsonWorkflowStreaming env cancels model_path workflow_json user_query on_token cancel_id st =
     (let st = read_strings 3 st;
          cancel_tok = take_token cancel_id cancels;
          st = (case on_token of None \<Rightarrow> st | Some found \<Rightarrow> lookup_member ''NoSuchMethodError'' found (jni_fn st))
      in if on_token = Some False then Some (fail_java ''callback missing onToken(String) method'' st)
         else if \<not> je_engine_create env model_path then Some (fail_java ''LiteRtLmEngine::Create failed'' st)
         else case prepare env model_path (new_tool_registry True) workflow_json True of
           Inl msg \<Rightarrow> Some (fail_java msg st)
         | Inr (Inl e) \<Rightarrow> Some (catch_exn e st)
         | Inr (Inr built) \<Rightarrow> run_with_callbacks env (built\<lparr>ba_constrained_tool_calls := False\<rparr>) cancel_tok user_query [] st)"

section \<open>The token stream\<close>

text \<open>
  The coroutines of a streaming run that meet in the run-wide channel. The run of the graph sends the deltas of the main agent and
  closes the channel at its end. Each call of the delegate tool has spawned a coroutine (\<open>delegate_tool.cc\<close>) that forwards what it
  receives from the channel of its sub-agent until the empty sentinel; nobody waits for it, so it may still be at work when the
  channel is closed, and its next send then fails and ends it. A send suspends while the channel is full and open. The consumer
  calls \<open>onToken\<close>; \<open>callback n\<close> is what the call number \<open>n\<close> throws. The lists are what is sent over the whole run; when a delta is
  generated and when a call of the delegate tool starts is part of the schedule.
\<close>

datatype stream_coroutine = GraphRun | SubAgentDrain nat | TokenConsumer

record 'c token_drain =
  td_to_send :: "string list"
  td_drains :: "string list list"
  td_channel :: 'c
  td_closed :: bool
  td_consuming :: bool
  td_delivered :: "string list"
  td_thrown :: "string option"

definition new_token_drain :: "(nat \<Rightarrow> 'c) \<Rightarrow> string list \<Rightarrow> string list list \<Rightarrow> 'c token_drain" where
  "new_token_drain new_channel deltas subs = \<lparr>td_to_send = deltas, td_drains = subs, td_channel = new_channel 4096, td_closed = False,
     td_consuming = True, td_delivered = [], td_thrown = None\<rparr>"

definition producer_step :: "(string, 'c) channel_ops \<Rightarrow> 'c token_drain \<Rightarrow> 'c token_drain" where
  "producer_step ops d =
     (if td_closed d then d
      else case td_to_send d of
        t # ts \<Rightarrow> (case op_try_send ops (td_channel d) t of
             (True, c) \<Rightarrow> d\<lparr>td_to_send := ts, td_channel := c\<rparr>
           | (False, _) \<Rightarrow> d)
      | [] \<Rightarrow> d\<lparr>td_channel := op_close ops (td_channel d), td_closed := True\<rparr>)"

definition forward_step :: "(string, 'c) channel_ops \<Rightarrow> nat \<Rightarrow> 'c token_drain \<Rightarrow> 'c token_drain" where
  "forward_step ops i d =
     (if length (td_drains d) \<le> i then d
      else case td_drains d ! i of
        [] \<Rightarrow> d
      | t # ts \<Rightarrow>
          if t = [] then d\<lparr>td_drains := (td_drains d)[i := []]\<rparr>
          else (case op_try_send ops (td_channel d) t of
             (True, c) \<Rightarrow> d\<lparr>td_drains := (td_drains d)[i := ts], td_channel := c\<rparr>
           | (False, _) \<Rightarrow> if td_closed d then d\<lparr>td_drains := (td_drains d)[i := []]\<rparr> else d))"

definition consumer_step :: "(string, 'c) channel_ops \<Rightarrow> (nat \<Rightarrow> string option) \<Rightarrow> 'c token_drain \<Rightarrow> 'c token_drain" where
  "consumer_step ops callback d =
     (if \<not> td_consuming d then d
      else case op_receive ops (td_channel d) of
        (NothingYet, _) \<Rightarrow> d
      | (ChannelClosed, c) \<Rightarrow> d\<lparr>td_channel := c, td_consuming := False\<rparr>
      | (Received tok, c) \<Rightarrow>
          (let thrown = callback (length (td_delivered d))
           in d\<lparr>td_channel := c, td_delivered := td_delivered d @ [c_str tok], td_thrown := thrown, td_consuming := (thrown = None)\<rparr>))"

fun drain_event :: "(string, 'c) channel_ops \<Rightarrow> (nat \<Rightarrow> string option) \<Rightarrow> 'c token_drain \<Rightarrow> stream_coroutine \<Rightarrow> 'c token_drain" where
  "drain_event ops callback d GraphRun = producer_step ops d"
| "drain_event ops callback d (SubAgentDrain i) = forward_step ops i d"
| "drain_event ops callback d TokenConsumer = consumer_step ops callback d"

text \<open>\<open>io.run()\<close> returns when all coroutines have ended.\<close>

definition io_run_returns :: "'c token_drain \<Rightarrow> bool" where
  "io_run_returns d \<longleftrightarrow> td_closed d \<and> \<not> td_consuming d \<and> list_all (\<lambda>ts. ts = []) (td_drains d)"

section \<open>Runs with host tools\<close>

datatype getter = GetterMissing | GetterThrows string | GetterNull | GetterGives string

definition read_field :: "getter \<Rightarrow> jni_state \<Rightarrow> string \<times> jni_state" where
  "read_field g st =
     (let st = lookup_member ''NoSuchMethodError'' (g \<noteq> GetterMissing) st in
      case g of
        GetterMissing \<Rightarrow> ([], st)
      | GetterThrows m \<Rightarrow> ([], jni_try (Some m) st)
      | GetterNull \<Rightarrow> ([], jni_fn st)
      | GetterGives s \<Rightarrow> (s, jni_fn (jni_fn st)))"

record 'w jvm_tool =
  jt_name :: getter
  jt_description :: getter
  jt_schema :: getter
  jt_has_invoke :: bool
  jt_invoke :: "string \<Rightarrow> string \<Rightarrow> 'w \<Rightarrow> upcall option \<times> 'w"

text \<open>The loop over the tools, from index \<open>i\<close>; \<open>globals\<close> are the references made so far. A null tool is skipped.\<close>

fun register_tools :: "nat \<Rightarrow> 'w jvm_tool option list \<Rightarrow> jobj list \<Rightarrow> 'w tool_registry \<Rightarrow> jni_state \<Rightarrow>
    ('w tool_registry option \<times> jobj list) \<times> jni_state" where
  "register_tools i [] globals reg st = ((Some reg, globals), st)"
| "register_tools i (None # ts) globals reg st = register_tools (Suc i) ts globals reg (jni_fn st)"
| "register_tools i (Some t # ts) globals reg st =
     (let st = jni_fn (jni_fn st);
          (name, st) = read_field (jt_name t) st;
          (description, st) = read_field (jt_description t) st;
          (schema, st) = read_field (jt_schema t) st;
          st = lookup_member ''NoSuchMethodError'' (jt_has_invoke t) st
      in if \<not> jt_has_invoke t then ((None, globals), st)
         else register_tools (Suc i) ts (globals @ [ToolObj i])
                (Register_tool (MakeHostTool name description schema (jt_invoke t)) reg) (new_ref (ToolObj i) st))"

text \<open>
  \<open>events\<close> tells whether the two callback methods are found, \<open>signal\<close> whether the field is; \<^const>\<open>None\<close> is a null object.
\<close>

definition resolve_events :: "(bool \<times> bool) option \<Rightarrow> jni_state \<Rightarrow> bool \<times> jni_state" where
  "resolve_events events st = (case events of
       None \<Rightarrow> (True, st)
     | Some (call, ret) \<Rightarrow>
         (call \<and> ret, lookup_member ''NoSuchMethodError'' ret (lookup_member ''NoSuchMethodError'' call (jni_fn st))))"

definition signal_globals :: "bool option \<Rightarrow> jobj list" where
  "signal_globals signal = (if signal = None then [] else [SignalObj])"

definition hold_signal :: "bool option \<Rightarrow> jni_state \<Rightarrow> jni_state" where
  "hold_signal signal st = (case signal of
       None \<Rightarrow> st
     | Some found \<Rightarrow> lookup_member ''NoSuchFieldError'' found (jni_fn (new_ref SignalObj st)))"

text \<open>From the registered tools on. The references are deleted on every way out but a C++ exception before the run.\<close>

definition run_with_tools :: "('m, 'f, 'w) jni_env \<Rightarrow> nat option \<Rightarrow> string \<Rightarrow> string \<Rightarrow> string \<Rightarrow> 'w tool_registry \<Rightarrow> jobj list \<Rightarrow> jni_state \<Rightarrow>
    (jni_result \<times> jni_state) option" where
  "run_with_tools env cancel_tok model_path workflow_json user_query host_tools globals st =
     (case prepare env model_path host_tools workflow_json False of
        Inl msg \<Rightarrow> Some (fail_java msg (delete_refs globals st))
      | Inr (Inl e) \<Rightarrow> Some (catch_exn e st)
      | Inr (Inr built) \<Rightarrow> run_with_callbacks env built cancel_tok user_query globals st)"

definition runJsonWorkflowConstrained :: "('m, 'f, 'w) jni_env \<Rightarrow> 'cb jni_cancels \<Rightarrow> string \<Rightarrow> string \<Rightarrow> 'w jvm_tool option list \<Rightarrow>
    bool option \<Rightarrow> string \<Rightarrow> (bool \<times> bool) option \<Rightarrow> 64 word \<Rightarrow> jni_state \<Rightarrow> (jni_result \<times> jni_state) option" where
  "runJsonWorkflowConstrained env cancels model_path workflow_json tools signal user_query events cancel_id st =
     (case resolve_events events (read_strings 3 st) of
        (False, st) \<Rightarrow> Some (fail_java ''callback missing onToolCall/onToolReturn methods'' st)
      | (True, st) \<Rightarrow>
         (let cancel_tok = take_token cancel_id cancels; st = hold_signal signal st; globals = signal_globals signal
          in if signal = Some False then Some (fail_java ''signal missing cancelled field'' (delete_refs globals st))
             else if \<not> je_engine_create env model_path
             then Some (fail_java ''LiteRtLmEngine::Create failed'' (delete_refs globals st))
             else case register_tools 0 tools [] (new_tool_registry True) (jni_fn st) of
               ((None, tool_globals), st) \<Rightarrow> Some (fail_java ''HostTool missing invoke method'' (delete_refs (tool_globals @ globals) st))
             | ((Some host_tools, tool_globals), st) \<Rightarrow>
                 run_with_tools env cancel_tok model_path workflow_json user_query host_tools (tool_globals @ globals) st))"

section \<open>Schema registries\<close>

text \<open>
  \<open>agentflow/jni/schema_registry_jni.cc\<close>: a handle is the address of a registry. Using one that was destroyed is undefined, which
  the model records as misuse.
\<close>

record 'p schema_handles =
  sh_live :: "(nat \<times> 'p) list"
  sh_next :: nat
  sh_jni :: jni_state

definition new_schema_handles :: "'p schema_handles" where
  "new_schema_handles = \<lparr>sh_live = [], sh_next = 1, sh_jni = new_jni_state\<rparr>"

definition nativeCreate :: "'p \<Rightarrow> 'p schema_handles \<Rightarrow> nat \<times> 'p schema_handles" where
  "nativeCreate empty_pool h = (sh_next h, h\<lparr>sh_live := AList.update (sh_next h) empty_pool (sh_live h), sh_next := Suc (sh_next h)\<rparr>)"

definition dangling :: "'p schema_handles \<Rightarrow> 'p schema_handles" where
  "dangling h = h\<lparr>sh_jni := (sh_jni h)\<lparr>js_misuse := True\<rparr>\<rparr>"

text \<open>Deleting a null pointer does nothing.\<close>

definition nativeDestroy :: "nat \<Rightarrow> 'p schema_handles \<Rightarrow> 'p schema_handles" where
  "nativeDestroy handle h = (if handle = 0 then h else if has_key (sh_live h) handle then h\<lparr>sh_live := AList.delete handle (sh_live h)\<rparr> else dangling h)"

definition ThrowIllegalState :: "string \<Rightarrow> jni_state \<Rightarrow> jni_state" where
  "ThrowIllegalState msg st = (jni_fn st)\<lparr>js_pending := Some (c_str msg)\<rparr>"

definition nativeLoadDescriptorSet :: "('p, 'f, 'm) dynamic_api \<Rightarrow> nat \<Rightarrow> string \<Rightarrow> 'p schema_handles \<Rightarrow> 'p schema_handles" where
  "nativeLoadDescriptorSet dyn handle fds h = (case map_of (sh_live h) handle of
       None \<Rightarrow> dangling h
     | Some pool \<Rightarrow>
         (let (r, pool') = LoadDescriptorSet dyn fds pool; h' = h\<lparr>sh_live := AList.update handle pool' (sh_live h)\<rparr>
          in case r of Inr _ \<Rightarrow> h' | Inl st \<Rightarrow> h'\<lparr>sh_jni := ThrowIllegalState (message st) (sh_jni h)\<rparr>))"

definition nativeHasType :: "('p, 'f, 'm) dynamic_api \<Rightarrow> nat \<Rightarrow> string \<Rightarrow> 'p schema_handles \<Rightarrow> bool \<times> 'p schema_handles" where
  "nativeHasType dyn handle full_type_name h = (case map_of (sh_live h) handle of
       None \<Rightarrow> (False, dangling h)
     | Some pool \<Rightarrow> ((case NewMessage dyn (c_str full_type_name) pool of Inr _ \<Rightarrow> True | Inl _ \<Rightarrow> False), h))"

end
