(* ===== verification/Jni_Props.thy ===== *)
theory Jni_Props
  imports Jni_Bridge "HOL-Library.Multiset" "HOL-Library.Sublist"
begin

text \<open>
  What the bindings promise a Kotlin caller: a handle cancels its own run and nothing else, upcall jobs run once each in the
  order they were posted, every token reaches the callback in order, an entry returns a string or throws, and the references of
  a run are given back. Each section ends with where the promise stops.
\<close>

section \<open>Cancel handles\<close>

text \<open>Ids are handed out in order, so an id tells the position of its state.\<close>

definition cancels_inv :: "'cb jni_cancels \<Rightarrow> bool" where
  "cancels_inv g \<longleftrightarrow> unat (jc_next g) = length (jc_states g) + 1 \<and>
     (\<forall>i p. map_of (jc_sources g) i = Some p \<longrightarrow> unat i = p + 1 \<and> p < length (jc_states g))"

lemmas cancel_op_defs = nativeNewCancel_def nativeCancel_def nativeFreeCancel_def CancelSource_Cancel_def new_cancel_state_def

lemma jni_cancel_step_length: "length (jc_states (jni_cancel_step g op)) \<le> length (jc_states g) + 1"
  by (cases op) (auto simp: cancel_op_defs Let_def split: option.splits)

lemma jni_cancel_step_inv:
  assumes "cancels_inv g" "length (jc_states g) + 2 < 2 ^ 64"
  shows "cancels_inv (jni_cancel_step g op)"
proof (cases op)
  case OpNew
  have "unat (jc_next g + 1) = length (jc_states g) + 2"
    using assms by (simp add: cancels_inv_def unat_word_ariths)
  then show ?thesis using assms(1) OpNew by (auto simp: cancels_inv_def cancel_op_defs update_conv' less_Suc_eq)
qed (use assms(1) in \<open>auto simp: cancels_inv_def cancel_op_defs delete_conv' Let_def split: option.splits if_splits\<close>)

lemma cancels_run_inv:
  "cancels_inv g \<Longrightarrow> length (jc_states g) + length ops + 1 < 2 ^ 64 \<Longrightarrow> cancels_inv (foldl jni_cancel_step g ops)"
proof (induction ops arbitrary: g)
  case (Cons op ops)
  then show ?case using jni_cancel_step_inv[of g op] jni_cancel_step_length[of g op] by simp
qed simp

lemma cancels_run_length: "length (jc_states (foldl jni_cancel_step g ops)) \<le> length (jc_states g) + length ops"
proof (induction ops arbitrary: g)
  case (Cons op ops)
  show ?case using Cons[of "jni_cancel_step g op"] jni_cancel_step_length[of g op] by simp
qed simp

lemma cancels_run_grows: "length (jc_states g) \<le> length (jc_states (foldl jni_cancel_step g ops))"
proof (induction ops arbitrary: g)
  case (Cons op ops)
  have "length (jc_states g) \<le> length (jc_states (jni_cancel_step g op))"
    by (cases op) (auto simp: cancel_op_defs Let_def split: option.splits)
  then show ?case using Cons[of "jni_cancel_step g op"] by simp
qed simp

text \<open>A freed id does not come back, and its state is out of reach.\<close>

lemma freed_state_kept:
  assumes "cancels_inv g" "length (jc_states g) + length ops + 1 < 2 ^ 64" "unat i = p + 1" "p < length (jc_states g)"
    "map_of (jc_sources g) i = None"
  shows "jc_states (foldl jni_cancel_step g ops) ! p = jc_states g ! p"
  using assms
proof (induction ops arbitrary: g)
  case (Cons op ops)
  let ?g = "jni_cancel_step g op"
  have fresh: "jc_next g \<noteq> i" using Cons.prems(1,3,4) by (auto simp: cancels_inv_def)
  have other: "q \<noteq> p" if "map_of (jc_sources g) j = Some q" for j q
    using that Cons.prems(1,3,5) unfolding cancels_inv_def by (metis add_right_cancel option.distinct(1) word_unat_eq_iff)
  have "jc_states ?g ! p = jc_states g ! p" "p < length (jc_states ?g)" "map_of (jc_sources ?g) i = None"
    using Cons.prems(4,5) fresh other
    by (cases op; auto simp: cancel_op_defs update_conv' delete_conv' nth_append Let_def split: option.splits)+
  moreover have "cancels_inv ?g" "length (jc_states ?g) + length ops + 1 < 2 ^ 64"
    using jni_cancel_step_inv[OF Cons.prems(1)] jni_cancel_step_length[of g op] Cons.prems(2) by simp_all
  ultimately show ?case using Cons.IH[of ?g] Cons.prems(3) by simp
qed simp

fun cancelled_before_free :: "64 word \<Rightarrow> jni_cancel_op list \<Rightarrow> bool" where
  "cancelled_before_free i [] = False"
| "cancelled_before_free i (op # ops) = (op = OpCancel i \<or> op \<noteq> OpFree i \<and> cancelled_before_free i ops)"

lemma jni_cancel_step_state:
  assumes "p < length (jc_states g)"
  shows "cancelled (jc_states (jni_cancel_step g op) ! p) \<longleftrightarrow>
    cancelled (jc_states g ! p) \<or> (\<exists>j. op = OpCancel j \<and> map_of (jc_sources g) j = Some p)"
proof (cases op)
  case (OpCancel j)
  then show ?thesis
  proof (cases "map_of (jc_sources g) j")
    case (Some q)
    then show ?thesis using OpCancel assms by (cases "q = p") (auto simp: cancel_op_defs Let_def)
  qed (simp add: cancel_op_defs)
qed (use assms in \<open>simp_all add: cancel_op_defs nth_append\<close>)

lemma handle_cancelled_run:
  assumes "cancels_inv g" "length (jc_states g) + length ops + 1 < 2 ^ 64" "map_of (jc_sources g) i = Some p"
  shows "cancelled (jc_states (foldl jni_cancel_step g ops) ! p) \<longleftrightarrow> cancelled (jc_states g ! p) \<or> cancelled_before_free i ops"
  using assms
proof (induction ops arbitrary: g)
  case (Cons op ops)
  let ?g = "jni_cancel_step g op"
  have p: "unat i = p + 1" "p < length (jc_states g)" using Cons.prems(1,3) by (auto simp: cancels_inv_def)
  have inv: "cancels_inv ?g" "length (jc_states ?g) + length ops + 1 < 2 ^ 64"
    using jni_cancel_step_inv[OF Cons.prems(1)] jni_cancel_step_length[of g op] Cons.prems(2) by simp_all
  have other: "q \<noteq> p" if "map_of (jc_sources g) j = Some q" "j \<noteq> i" for j q
    using that Cons.prems(1) p(1) unfolding cancels_inv_def by (metis add_right_cancel word_unat_eq_iff)
  show ?case
  proof (cases "op = OpFree i")
    case True
    then have "map_of (jc_sources ?g) i = None" "jc_states ?g = jc_states g" by (simp_all add: nativeFreeCancel_def delete_conv')
    then show ?thesis using freed_state_kept[OF inv p(1)] p(2) True by simp
  next
    case False
    have "jc_next g \<noteq> i" using Cons.prems(1) p by (auto simp: cancels_inv_def)
    then have "map_of (jc_sources ?g) i = Some p"
      using False Cons.prems(3) by (cases op) (auto simp: cancel_op_defs update_conv' delete_conv' Let_def split: option.splits)
    moreover have "cancelled (jc_states ?g ! p) \<longleftrightarrow> cancelled (jc_states g ! p) \<or> op = OpCancel i"
      using jni_cancel_step_state[OF p(2)] Cons.prems(3) other by metis
    ultimately show ?thesis using Cons.IH[OF inv] False by auto
  qed
qed simp

text \<open>
  Over any history of handles, a run that took the token of an id is cancelled exactly when that id is cancelled before it
  is freed; no other handle reaches it, and an id that was freed is never handed out again.
\<close>

lemma jni_cancel_isolated:
  assumes "length before + length later < 2 ^ 63" "g = foldl jni_cancel_step new_jni_cancels before" "take_token i g = Some p"
  shows "(cancelled (jc_states (foldl jni_cancel_step g later) ! p) \<longleftrightarrow> cancelled (jc_states g ! p) \<or> cancelled_before_free i later) \<and>
    i \<noteq> jc_next (foldl jni_cancel_step g later)"
proof
  have "cancels_inv (new_jni_cancels :: 'a jni_cancels)" by (simp add: cancels_inv_def new_jni_cancels_def)
  moreover have "length before + length later + 1 < 2 ^ 64" using assms(1) by simp
  ultimately have inv: "cancels_inv g" "length (jc_states g) + length later + 1 < 2 ^ 64"
    unfolding assms(2) using cancels_run_length[of "new_jni_cancels :: 'a jni_cancels" before]
    by (auto intro!: cancels_run_inv, simp_all add: new_jni_cancels_def)
  have src: "map_of (jc_sources g) i = Some p" using assms(3) by (simp add: take_token_def split: if_splits)
  show "cancelled (jc_states (foldl jni_cancel_step g later) ! p) \<longleftrightarrow> cancelled (jc_states g ! p) \<or> cancelled_before_free i later"
    by (rule handle_cancelled_run[OF inv src])
  have "cancels_inv (foldl jni_cancel_step g later)" by (rule cancels_run_inv[OF inv])
  moreover have "length (jc_states g) \<le> length (jc_states (foldl jni_cancel_step g later))" by (rule cancels_run_grows)
  ultimately show "i \<noteq> jc_next (foldl jni_cancel_step g later)" using inv(1) src
    by (fastforce simp: cancels_inv_def)
qed

section \<open>Upcall jobs\<close>

fun posted_in :: "'j pool_event list \<Rightarrow> 'j list" where
  "posted_in [] = []"
| "posted_in (PoolPost job # es) = job # posted_in es"
| "posted_in (_ # es) = posted_in es"

fun running_jobs :: "'j pool_thread list \<Rightarrow> 'j list" where
  "running_jobs [] = []"
| "running_jobs (Running job # ts) = job # running_jobs ts"
| "running_jobs (_ # ts) = running_jobs ts"

lemma running_jobs_update:
  "i < length ts \<Longrightarrow> mset (running_jobs (ts[i := t])) + mset (running_jobs [ts ! i]) = mset (running_jobs ts) + mset (running_jobs [t])"
proof (induction ts arbitrary: i)
  case (Cons u ts)
  have one: "mset (running_jobs (v # vs)) = mset (running_jobs [v]) + mset (running_jobs vs)" for v and vs :: "'a pool_thread list"
    by (cases v) simp_all
  show ?case
  proof (cases i)
    case 0
    then show ?thesis by (simp add: one[of t ts] one[of u ts])
  next
    case (Suc k)
    then show ?thesis using Cons.IH[of k] Cons.prems by (simp add: one[of u ts] one[of u "ts[k := t]"] add_ac)
  qed
qed simp

text \<open>
  Every job that was posted has been taken by one worker or waits in the queue, in the order of posting, and a job that was taken
  runs or has ended.
\<close>

definition pool_inv :: "'j list \<Rightarrow> 'j worker_pool \<Rightarrow> bool" where
  "pool_inv posted p \<longleftrightarrow> wp_taken p @ wp_jobs p = posted \<and> mset (wp_taken p) = mset (wp_ran p) + mset (running_jobs (wp_threads p))"

lemma running_jobs_replicate [simp]: "running_jobs (replicate n Waiting) = []"
  by (induction n) simp_all

lemma pool_step_inv:
  assumes "pool_inv posted p"
  shows "pool_inv (posted @ posted_in [e]) (pool_step p e)"
proof (cases e)
  case (PoolWorker i)
  show ?thesis
  proof (cases "i < length (wp_threads p)")
    case True
    then show ?thesis
      using assms PoolWorker running_jobs_update[OF True]
      by (cases "wp_threads p ! i"; cases "wp_jobs p")
        (auto simp: pool_inv_def worker_step_def union_ac)
  next
    case False
    then show ?thesis using assms PoolWorker by (simp add: worker_step_def)
  qed
qed (use assms in \<open>auto simp: pool_inv_def EnsureStarted_def pool_Post_def pool_destroy_def\<close>)

lemma posted_in_append: "posted_in (es @ fs) = posted_in es @ posted_in fs"
  by (induction es rule: posted_in.induct) simp_all

lemma upcall_jobs_run_once:
  assumes "p = foldl pool_step new_worker_pool es"
  shows "wp_taken p @ wp_jobs p = posted_in es \<and> mset (wp_taken p) = mset (wp_ran p) + mset (running_jobs (wp_threads p))"
proof -
  have "pool_inv (posted_in es) (foldl pool_step new_worker_pool es)"
  proof (induction es rule: rev_induct)
    case Nil
    then show ?case by (simp add: pool_inv_def new_worker_pool_def)
  next
    case (snoc e es)
    then show ?case using pool_step_inv[OF snoc, of e] by (simp add: posted_in_append)
  qed
  then show ?thesis using assms by (simp add: pool_inv_def)
qed

text \<open>Destroying the pool loses no job: workers leave only when the queue is empty.\<close>

lemma pool_destroy_drains:
  assumes "Exited \<notin> set (wp_threads p)" "posted_in es = []" "q = foldl pool_step p es"
    and "Exited \<in> set (wp_threads q)"
  shows "wp_jobs q = []"
proof -
  have "Exited \<in> set (wp_threads (foldl pool_step p es)) \<longrightarrow> wp_jobs (foldl pool_step p es) = []"
    using assms(2)
  proof (induction es rule: rev_induct)
    case Nil
    then show ?case using assms(1) by simp
  next
    case (snoc e es)
    let ?p = "foldl pool_step p es"
    have IH: "Exited \<in> set (wp_threads ?p) \<longrightarrow> wp_jobs ?p = []" using snoc by (simp add: posted_in_append)
    show ?case
    proof (cases e)
      case (PoolWorker i)
      show ?thesis
        using IH PoolWorker
        by (cases "wp_threads ?p ! i"; cases "wp_jobs ?p") (auto simp: worker_step_def dest!: set_update_subset_insert[THEN subsetD])
    qed (use IH snoc.prems in \<open>auto simp: EnsureStarted_def pool_destroy_def posted_in_append\<close>)
  qed
  then show ?thesis using assms(3,4) by simp
qed

section \<open>The token stream\<close>

text \<open>
  The items that went through the channel carry a ghost tag, the number of their source: 0 for the main agent, \<open>i + 1\<close> for the
  drain \<open>i\<close>. What was received, what is in the channel and what is still to be sent make up the source. A drain that ended early
  has given up the rest of its source.
\<close>

definition tagged :: "nat \<Rightarrow> (nat \<times> string) list \<Rightarrow> string list" where
  "tagged k xs = map snd (filter (\<lambda>p. fst p = k) xs)"

lemma tagged_append [simp]: "tagged k (xs @ ys) = tagged k xs @ tagged k ys"
  by (simp add: tagged_def)

lemma tagged_single [simp]: "tagged k [(l, t)] = (if l = k then [t] else [])"
  by (simp add: tagged_def)

lemma tagged_Nil [simp]: "tagged k [] = []"
  by (simp add: tagged_def)





























text \<open>
  A callback that throws ends the consumer only: the graph goes on sending, and once the channel is full it waits for ever. The
  native call does not return, so the exception is never seen.
\<close>

lemma throwing_callback_hangs:
  assumes "fifo_channel 4096 ops contents closed" "\<not> td_consuming d" "\<not> closed (td_channel d)" "\<not> td_closed d"
    and "4096 < length (contents (td_channel d)) + length (td_to_send d)"
    and "length (contents (td_channel d)) \<le> 4096"
  shows "\<not> io_run_returns (foldl (drain_event ops callback) d es)"
  using assms(2-6)
proof (induction es arbitrary: d)
  case Nil
  then show ?case by (simp add: io_run_returns_def)
next
  case (Cons e es)
  obtain t ts where ts: "td_to_send d = t # ts" using Cons.prems(4,5) by (cases "td_to_send d") auto
  have send: "closed (snd (op_try_send ops (td_channel d) u)) = closed (td_channel d)"
      "fst (op_try_send ops (td_channel d) u) = (length (contents (td_channel d)) < 4096)"
      "fst (op_try_send ops (td_channel d) u) \<Longrightarrow> contents (snd (op_try_send ops (td_channel d) u)) = contents (td_channel d) @ [u]" for u
    using fifo_channelD(1-3)[OF assms(1), of "td_channel d" u] Cons.prems(2) by simp_all
  let ?d = "drain_event ops callback d e"
  have "\<not> td_consuming ?d \<and> \<not> closed (td_channel ?d) \<and> \<not> td_closed ?d \<and>
      4096 < length (contents (td_channel ?d)) + length (td_to_send ?d) \<and> length (contents (td_channel ?d)) \<le> 4096"
  proof (cases e)
    case GraphRun
    obtain ok c where "op_try_send ops (td_channel d) t = (ok, c)" by fastforce
    then show ?thesis using Cons.prems ts send[of t] GraphRun by (cases ok) (auto simp: producer_step_def)
  next
    case (SubAgentDrain i)
    obtain ok c where o: "op_try_send ops (td_channel d) (hd (td_drains d ! i)) = (ok, c)" by fastforce
    then show ?thesis using Cons.prems send[of "hd (td_drains d ! i)"] SubAgentDrain
      by (cases "td_drains d ! i"; cases ok) (auto simp: forward_step_def)
  qed (use Cons.prems in \<open>simp add: consumer_step_def\<close>)
  then show ?case using Cons.IH[of ?d] by simp
qed

text \<open>
  Nobody waits for the forwarding coroutines: when the run of the graph is over first, the channel is closed and the deltas of a
  sub-agent that had not been forwarded are lost, although everything ends in order.
\<close>

lemma late_delta_lost:
  assumes "d = foldl (drain_event (queue_channel 4096) (\<lambda>n. None)) (new_token_drain (\<lambda>n. ([], False)) [''a''] [[''x'', []]])
    [GraphRun, GraphRun, SubAgentDrain 0, TokenConsumer, TokenConsumer]"
  shows "io_run_returns d \<and> td_thrown d = None \<and> td_delivered d = [''a'']"
  unfolding assms
  by (simp add: new_token_drain_def producer_step_def forward_step_def consumer_step_def queue_channel_def io_run_returns_def c_str_def)


section \<open>What an entry returns\<close>

named_theorems jni_simps

lemma jni_fn_simps [jni_simps, simp]:
  "js_pending (jni_fn st) = js_pending st" "js_refs (jni_fn st) = js_refs st"
  by (simp_all add: jni_fn_def)

lemma read_strings_simps [jni_simps, simp]:
  "js_pending (read_strings n st) = js_pending st" "js_refs (read_strings n st) = js_refs st"
  by (induction n) (simp_all add: read_strings_def)

lemma lookup_member_simps [jni_simps, simp]:
  "js_refs (lookup_member err found st) = js_refs st"
  "js_pending (lookup_member err found st) = (if found then js_pending st else Some err)"
  by (simp_all add: lookup_member_def jni_try_def)

lemma read_field_refs [simp]: "js_refs (snd (read_field g st)) = js_refs st"
  by (cases g) (simp_all add: read_field_def jni_try_def Let_def)

lemma delete_refs_simps [simp]:
  "js_refs (delete_refs objs st) = js_refs st @ map DeleteRef objs" "js_pending (delete_refs objs st) = js_pending st"
  by (simp_all add: delete_refs_def)

lemma new_ref_simps [simp]: "js_refs (new_ref obj st) = js_refs st @ [NewRef obj]" "js_pending (new_ref obj st) = js_pending st"
  by (simp_all add: new_ref_def)

definition answered :: "jni_result \<times> jni_state \<Rightarrow> bool" where
  "answered r \<longleftrightarrow> (fst r = JNull \<longleftrightarrow> js_pending (snd r) \<noteq> None)"

text \<open>The entry returns, with an answer.\<close>

definition entry_answers :: "(jni_result \<times> jni_state) option \<Rightarrow> bool" where
  "entry_answers r = (case r of Some a \<Rightarrow> answered a | None \<Rightarrow> False)"

lemma answered_simps [simp]:
  "answered (fail_java msg st)" "answered (catch_exn e st)" "js_pending st = None \<Longrightarrow> answered (return_string s st)" "answered (finish_run outcome thrown st)"
  by (auto simp: answered_def fail_java_def catch_exn_def ThrowJava_def return_string_def finish_run_def Let_def split: option.splits sum.splits)

lemma exit_refs [simp]:
  "js_refs (snd (fail_java msg st)) = js_refs st" "js_refs (snd (catch_exn e st)) = js_refs st"
  "js_refs (snd (return_string s st)) = js_refs st" "js_refs (snd (finish_run outcome thrown st)) = js_refs st"
  by (auto simp: fail_java_def catch_exn_def ThrowJava_def return_string_def finish_run_def Let_def split: option.splits sum.splits)

text \<open>The executor runs until the run of the graph has returned.\<close>

definition runs_end :: "('m, 'f, 'w) jni_env \<Rightarrow> bool" where
  "runs_end env \<longleftrightarrow> (\<forall>built tok r. result (fst (je_io_run env built tok r)) \<noteq> None)"

lemma run_outcome_Some: "result t \<noteq> None \<Longrightarrow> \<exists>outcome. run_outcome env t = Some outcome"
  by (auto simp: run_outcome_def split: sum.splits)

lemma start_runner_ok: "\<exists>r. start_runner env user_query = Inr r"
proof -
  have "case Build agent_graph of Inr g \<Rightarrow> True | Inl _ \<Rightarrow> False" by code_simp
  then show ?thesis by (auto simp: start_runner_def Runner_Impl_def split: sum.splits)
qed

lemma run_to_reply_answers:
  assumes "runs_end env" "js_pending st = None"
  shows "entry_answers (run_to_reply env built user_query st)"
proof -
  obtain r where r: "start_runner env user_query = Inr r" using start_runner_ok by blast
  obtain outcome where "run_outcome env (fst (je_io_run env built None r)) = Some outcome"
    using run_outcome_Some[of "fst (je_io_run env built None r)" env] assms(1) unfolding runs_end_def by blast
  then show ?thesis using r assms(2) by (cases outcome) (simp_all add: run_to_reply_def entry_answers_def)
qed

lemma run_with_callbacks_ends:
  assumes "runs_end env"
  shows "\<exists>outcome thrown. run_with_callbacks env built tok user_query globals st = Some (finish_run outcome thrown (delete_refs globals st))"
proof -
  obtain r where r: "start_runner env user_query = Inr r" using start_runner_ok by blast
  obtain t thrown where t: "je_io_run env built tok r = (t, thrown)" by fastforce
  then obtain outcome where "run_outcome env t = Some outcome"
    using run_outcome_Some[of t env] assms unfolding runs_end_def by (metis fst_conv)
  then show ?thesis using r t by (auto simp: run_with_callbacks_def)
qed

lemma run_with_callbacks_answers: "runs_end env \<Longrightarrow> entry_answers (run_with_callbacks env built tok user_query globals st)"
  using run_with_callbacks_ends[of env built tok user_query globals st] by (auto simp: entry_answers_def)

lemma entry_answers_Some [simp]: "entry_answers (Some a) = answered a"
  by (simp add: entry_answers_def)

lemma entries_answered:
  assumes "runs_end env" "js_pending st = None"
  shows "entry_answers (runAgent env model_path system_prompt user_query constrained st)"
    "entry_answers (runJsonWorkflow env model_path workflow_json user_query st)"
    "entry_answers (runJsonWorkflowStreaming env cancels model_path workflow_json user_query on_token cancel_id st)"
    "entry_answers (runJsonWorkflowConstrained env cancels model_path workflow_json tools signal user_query events cancel_id st)"
  using assms
  by (auto simp: runAgent_def runJsonWorkflow_def runJsonWorkflowStreaming_def runJsonWorkflowConstrained_def run_with_tools_def Let_def
      intro: run_to_reply_answers run_with_callbacks_answers split: sum.splits option.splits prod.splits bool.splits)

section \<open>References\<close>

lemma register_tools_refs:
  "register_tools i ts globals reg st = ((r, gs), st') \<Longrightarrow>
    \<exists>js. gs = globals @ map ToolObj js \<and> js_refs st' = js_refs st @ map (NewRef \<circ> ToolObj) js \<and> distinct js \<and> (\<forall>j\<in>set js. i \<le> j)"
proof (induction i ts globals reg st rule: register_tools.induct)
  case (1 i globals reg st)
  then show ?case by (intro exI[of _ "[]"]) auto
next
  case (2 i ts globals reg st)
  then show ?case by (fastforce dest: Suc_leD)
next
  case (3 i t ts globals reg st)
  show ?case
  proof (cases "jt_has_invoke t")
    case False
    then show ?thesis using 3(2) by (auto simp: Let_def case_prod_beta intro!: exI[of _ "[]"])
  next
    case True
    obtain name st1 where n: "read_field (jt_name t) (jni_fn (jni_fn st)) = (name, st1)" by fastforce
    obtain descr st2 where d: "read_field (jt_description t) st1 = (descr, st2)" by fastforce
    obtain schema st3 where c: "read_field (jt_schema t) st2 = (schema, st3)" by fastforce
    let ?st = "new_ref (ToolObj i) (lookup_member ''NoSuchMethodError'' True st3)"
    have refs: "js_refs ?st = js_refs st @ [NewRef (ToolObj i)]"
      using read_field_refs[of "jt_name t" "jni_fn (jni_fn st)"] read_field_refs[of "jt_description t" st1] read_field_refs[of "jt_schema t" st2]
      unfolding n d c by simp
    have run: "register_tools (Suc i) ts (globals @ [ToolObj i])
        (Register_tool (MakeHostTool name descr schema (jt_invoke t)) reg) ?st = ((r, gs), st')"
      using 3(2) True n d c by (simp add: Let_def)
    obtain js where js: "gs = (globals @ [ToolObj i]) @ map ToolObj js" "js_refs st' = js_refs ?st @ map (NewRef \<circ> ToolObj) js"
        "distinct js" "\<forall>j\<in>set js. Suc i \<le> j"
      using 3(1)[OF refl n[symmetric] refl d[symmetric] refl c[symmetric] refl refl _ ] run True by auto
    then show ?thesis using refs by (intro exI[of _ "i # js"]) auto
  qed
qed

text \<open>
  Only the default backend is registered, so a main agent that names one cannot be built; and since there is a default backend,
  the guard against an agent that is not in the roster never fires.
\<close>

lemma loaded_main_agent:
  assumes "Load env has opts text = Inr flow"
  obtains def where "FindAgent (wf_spec flow) (ws_main (wf_spec flow)) = Some def"
proof -
  have "declared (wf_spec flow) (ws_main (wf_spec flow))"
    using assms by (auto simp: Load_Inr_iff CheckReferences_iff)
  then have "FindAgent (wf_spec flow) (ws_main (wf_spec flow)) \<noteq> None"
    by (simp add: declared_def FindAgent_def has_key_def map_of_eq_None_iff)
  then show ?thesis using that by blast
qed

lemma prepare_cases:
  assumes "Load (je_loader env) (Has reg) default_loader_options text = Inr flow"
    "FindAgent (wf_spec flow) (ws_main (wf_spec flow)) = Some def"
  shows "ms_backend (ad_model def) = [] \<Longrightarrow> \<exists>built. prepare env path reg text streaming = Inr (Inr built)"
    "ms_backend (ad_model def) \<noteq> [] \<Longrightarrow> \<exists>e. prepare env path reg text streaming = Inr (Inl e)"
  using assms
  by (auto simp: prepare_def BuildAgentNode_def jni_build_spec_def ResolveBackend_def ResolveNamedBackend_def bind_status_def Let_def)

definition default_backend_only :: "('m, 'f, 'w) jni_env \<Rightarrow> string \<Rightarrow> bool" where
  "default_backend_only env text \<longleftrightarrow> (\<forall>has flow def. Load (je_loader env) has default_loader_options text = Inr flow \<longrightarrow>
     FindAgent (wf_spec flow) (ws_main (wf_spec flow)) = Some def \<longrightarrow> ms_backend (ad_model def) = [])"

lemma prepare_never_throws:
  assumes "default_backend_only env text" "prepare env path reg text streaming = Inr r"
  shows "\<exists>built. r = Inr built"
proof -
  obtain flow where flow: "Load (je_loader env) (Has reg) default_loader_options text = Inr flow"
    using assms(2) by (auto simp: prepare_def split: sum.splits)
  obtain def where def: "FindAgent (wf_spec flow) (ws_main (wf_spec flow)) = Some def" by (rule loaded_main_agent[OF flow])
  then have "ms_backend (ad_model def) = []" using assms(1) flow by (simp add: default_backend_only_def)
  from prepare_cases(1)[OF flow def this, of path streaming] show ?thesis using assms(2) by auto
qed

lemma run_with_tools_refs:
  assumes "runs_end env" "default_backend_only env text"
  shows "case run_with_tools env tok path text query reg globals st of
    Some a \<Rightarrow> js_refs (snd a) = js_refs st @ map DeleteRef globals | None \<Rightarrow> False"
proof (cases "prepare env path reg text False")
  case (Inr r)
  then obtain built where "r = Inr built" using prepare_never_throws[OF assms(2)] by blast
  then show ?thesis using Inr run_with_callbacks_ends[OF assms(1), of built tok query globals st] by (auto simp: run_with_tools_def)
qed (simp add: run_with_tools_def)

lemma setup_refs [simp]:
  "js_refs (snd (resolve_events events st)) = js_refs st"
  "js_refs (hold_signal signal st) = js_refs st @ map NewRef (signal_globals signal)"
  by (auto simp: resolve_events_def hold_signal_def signal_globals_def split: option.splits)

text \<open>The references of a run are the signal's and those of the tools that were registered.\<close>

lemma Constrained_refs:
  assumes "runs_end env" "default_backend_only env workflow_json"
    and "runJsonWorkflowConstrained env cancels model_path workflow_json tools signal user_query events cancel_id st = Some (res, st')"
  shows "\<exists>made given. js_refs st' = js_refs st @ map NewRef made @ map DeleteRef given \<and> distinct made \<and> mset given = mset made"
proof -
  obtain ok st1 where ev: "resolve_events events (read_strings 3 st) = (ok, st1)" by fastforce
  then have st1: "js_refs st1 = js_refs st" using setup_refs(1)[of events "read_strings 3 st"] by simp
  let ?st = "hold_signal signal st1" and ?gs = "signal_globals signal"
  have sig: "distinct ?gs" by (simp add: signal_globals_def)
  have exit_refs': "js_refs st' = js_refs s'" if "fail_java msg s' = (res, st')" for msg s'
    using exit_refs(1)[of msg s'] that by simp
  consider "\<not> ok" | "ok" "signal = Some False \<or> \<not> je_engine_create env model_path" | "ok" "signal \<noteq> Some False" "je_engine_create env model_path"
    by blast
  then show ?thesis
  proof cases
    case 1
    then have "js_refs st' = js_refs st" using assms(3) ev st1 by (auto simp: runJsonWorkflowConstrained_def dest: exit_refs')
    then show ?thesis by (intro exI[of _ "[]"]) simp
  next
    case 2
    then have "js_refs st' = js_refs st @ map NewRef ?gs @ map DeleteRef ?gs"
      using assms(3) ev st1 by (auto simp: runJsonWorkflowConstrained_def Let_def dest!: exit_refs' split: if_splits)
    then show ?thesis using sig by blast
  next
    case 3
    obtain reg tgs st2 where reg: "register_tools 0 tools [] (new_tool_registry True) (jni_fn ?st) = ((reg, tgs), st2)" by (metis prod.collapse)
    obtain js where js: "tgs = map ToolObj js" "js_refs st2 = js_refs ?st @ map (NewRef \<circ> ToolObj) js" "distinct js"
      using register_tools_refs[OF reg] by auto
    have "js_refs st' = js_refs st2 @ map DeleteRef (tgs @ ?gs)"
    proof (cases reg)
      case None
      then show ?thesis using assms(3) 3 ev reg by (auto simp: runJsonWorkflowConstrained_def Let_def dest!: exit_refs')
    next
      case (Some r)
      then show ?thesis
        using assms(3) 3 ev reg run_with_tools_refs[OF assms(1,2), where tok = "take_token cancel_id cancels" and path = model_path
            and query = user_query and reg = r and globals = "tgs @ ?gs" and st = st2]
        by (auto simp: runJsonWorkflowConstrained_def Let_def)
    qed
    then have "js_refs st' = js_refs st @ map NewRef (?gs @ map ToolObj js) @ map DeleteRef (map ToolObj js @ ?gs)"
      using st1 js by simp
    moreover have "distinct (?gs @ map ToolObj js)" using js(3) by (auto simp: signal_globals_def distinct_map inj_on_def)
    ultimately show ?thesis by (metis mset_append union_commute)
  qed
qed

text \<open>
  C39. When the executor brings the runs of its graphs to their end, every native entry returns, either a string with no Java
  exception pending, or null with one. A run with host tools whose main agent names no backend deletes, before it returns, each
  global reference it made, exactly once.
\<close>

theorem jni_entries_clean:
  assumes "runs_end env" "js_pending st = None"
  shows "entry_answers (runAgent env model_path system_prompt user_query constrained st) \<and>
    entry_answers (runJsonWorkflow env model_path workflow_json user_query st) \<and>
    entry_answers (runJsonWorkflowStreaming env cancels model_path workflow_json user_query on_token cancel_id st) \<and>
    entry_answers (runJsonWorkflowConstrained env cancels model_path workflow_json tools signal user_query events cancel_id st) \<and>
    (\<forall>res st'. default_backend_only env workflow_json \<and>
      runJsonWorkflowConstrained env cancels model_path workflow_json tools signal user_query events cancel_id st = Some (res, st') \<longrightarrow>
      (\<exists>made given. js_refs st' = js_refs st @ map NewRef made @ map DeleteRef given \<and> distinct made \<and> mset given = mset made))"
proof (intro conjI allI impI entries_answered[OF assms])
  fix res st'
  assume "default_backend_only env workflow_json \<and>
    runJsonWorkflowConstrained env cancels model_path workflow_json tools signal user_query events cancel_id st = Some (res, st')"
  then show "\<exists>made given. js_refs st' = js_refs st @ map NewRef made @ map DeleteRef given \<and> distinct made \<and> mset given = mset made"
    using Constrained_refs[OF assms(1)] by (elim conjE)
qed

definition test_api :: "string proto_api" where
  "test_api = \<lparr>has_string_field = (\<lambda>_ f. f = ''user_query'' \<or> f = ''assistant_reply''), get_string = (\<lambda>m _. m), set_string = (\<lambda>_ _ v. v),
     serialize = (\<lambda>m. m), parse_from = (\<lambda>_ s. Some s), type_name = (\<lambda>_. ''TestState'')\<rparr>"

definition sample_jni :: "(string, unit, sub_event list) jni_env" where
  "sample_jni = \<lparr>je_loader = \<lparr>le_parse = le_parse sample_env, le_dump = le_dump sample_env, le_hmac = le_hmac sample_env,
       le_encode_block = (\<lambda>m. m), le_base64 = Some, le_read_file = (\<lambda>_. None), le_parse_fds = (\<lambda>_. None), le_build_file = (\<lambda>_ _. True),
       le_file_name = (\<lambda>_. []), le_pool = (\<lambda>_ _. None)\<rparr>,
     je_base = sample_build, je_engine_create = (\<lambda>_. True), je_backend = (\<lambda>_. the (bs_backend sample_build)),
     je_api = test_api, je_is_test_state = (\<lambda>_. True), je_new_test_state = [],
     je_io_run = (\<lambda>built tok r. (r\<lparr>result := Some (Inr (State_From ''hello''))\<rparr>, None))\<rparr>"

definition clock_tool :: "sub_event list jvm_tool" where
  "clock_tool = \<lparr>jt_name = GetterGives ''clock'', jt_description = GetterNull, jt_schema = GetterNull, jt_has_invoke = True,
     jt_invoke = (\<lambda>cid args w. (Some (ToolReturned ''noon''), w))\<rparr>"

lemma sample_jni_backend: "default_backend_only sample_jni ''plain''"
proof -
  let ?ok = "\<lambda>s. (case FindAgent (normalize_version s) (ws_main (normalize_version s)) of Some d \<Rightarrow> ms_backend (ad_model d) = [] | None \<Rightarrow> False)"
  have "(case ParseRoot (le_dump sample_env) (JObj sample_members) of Inr s \<Rightarrow> ?ok s | Inl _ \<Rightarrow> False)" by code_simp
  then show ?thesis
    by (auto simp: default_backend_only_def Load_Inr_iff sample_jni_def sample_env_def split: sum.splits option.splits)
qed

theorem jni_entries_clean_witness:
  "\<exists>res st' made given. runJsonWorkflowConstrained sample_jni (new_jni_cancels :: unit jni_cancels) ''m'' ''plain'' [None, Some clock_tool]
       (Some True) ''q'' None 0 new_jni_state = Some (res, st') \<and>
     js_refs st' = map NewRef made @ map DeleteRef given \<and> distinct made \<and> mset given = mset made"
proof -
  let ?run = "runJsonWorkflowConstrained sample_jni (new_jni_cancels :: unit jni_cancels) ''m'' ''plain'' [None, Some clock_tool] (Some True) ''q'' None 0 new_jni_state"
  have ready: "runs_end sample_jni" "js_pending new_jni_state = None" "js_refs new_jni_state = []"
    by (simp_all add: runs_end_def sample_jni_def new_jni_state_def)
  note clean = jni_entries_clean[OF ready(1,2), of "''m''" "[]" "''q''" False "''plain''" "new_jni_cancels :: unit jni_cancels" None 0
    "[None, Some clock_tool]" "Some True" None]
  then obtain res st' where run: "?run = Some (res, st')" unfolding entry_answers_def by (cases ?run) auto
  with clean obtain made given where "js_refs st' = map NewRef made @ map DeleteRef given \<and> distinct made \<and> mset given = mset made"
    using sample_jni_backend ready(3) by auto
  with run show ?thesis by blast
qed

text \<open>A main agent that names a backend throws out of the entry with the references still held.\<close>

lemma named_backend_leaks:
  fixes env :: "('m, 'f, 'w) jni_env"
  assumes "Load (je_loader env) (Has (new_tool_registry True :: 'w tool_registry)) default_loader_options text = Inr flow"
    "FindAgent (wf_spec flow) (ws_main (wf_spec flow)) = Some def" "ms_backend (ad_model def) \<noteq> []" "je_engine_create env path"
  shows "\<exists>res st'. runJsonWorkflowConstrained env cancels path text [] (Some True) query (Some (True, True)) cid new_jni_state = Some (res, st') \<and>
    js_refs st' = [NewRef SignalObj]"
proof -
  obtain e where "prepare env path (new_tool_registry True) text False = Inr (Inl e)"
    using prepare_cases(2)[OF assms(1-3), of path False] by auto
  then show ?thesis using assms(4)
    by (simp add: runJsonWorkflowConstrained_def run_with_tools_def resolve_events_def hold_signal_def signal_globals_def Let_def
        new_jni_state_def catch_exn_def fail_java_def ThrowJava_def)
qed

section \<open>Misuse of the JNI\<close>

text \<open>
  Tool events reach the JVM through whatever state it is in: with no callback object the emitter calls through null, and after a
  callback has thrown the next tool event is delivered while its exception is pending. A missing getter has the same effect on
  the next lookup.
\<close>

lemma jni_fn_misuse: "js_misuse (jni_fn st) \<longleftrightarrow> js_misuse st \<or> js_pending st \<noteq> None"
  by (simp add: jni_fn_def)

lemma emit_misuses:
  assumes "te_payload ev = ToolCallPayload tool args cid"
  shows "js_misuse (JniEventEmitter_Emit False thrown ev st)"
    "js_misuse (JniEventEmitter_Emit has_events thrown ev (JniEventEmitter_Emit True (Some m) ev st))"
  using assms
  by (simp_all add: JniEventEmitter_Emit_def call_events_def jni_try_def numeral_3_eq_3 jni_fn_misuse Let_def split: option.splits)

lemma missing_getter_misuses: "js_misuse (snd (read_field g (snd (read_field GetterMissing st))))"
  by (cases g) (simp_all add: read_field_def lookup_member_def jni_try_def jni_fn_misuse Let_def)

section \<open>Graph and registries\<close>

text \<open>The graph of an entry compiles to two joined nodes with the agent as its only entry.\<close>

lemma agent_graph_builds:
  "\<exists>g. Build agent_graph = Inr g \<and> map node_id (g_nodes g) = [''agent'', ''sink''] \<and> g_entries g = [''agent''] \<and>
    g_edges g = [\<lparr>edge_from = ''agent'', edge_to = ''sink'', edge_group = 0, edge_cond = CondAll\<rparr>]"
proof -
  have "case Build agent_graph of Inr g \<Rightarrow> map node_id (g_nodes g) = [''agent'', ''sink''] \<and> g_entries g = [''agent''] \<and>
    g_edges g = [\<lparr>edge_from = ''agent'', edge_to = ''sink'', edge_group = 0, edge_cond = CondAll\<rparr>] | Inl _ \<Rightarrow> False"
    by code_simp
  then show ?thesis by (auto split: sum.splits)
qed

text \<open>What a set adds to the registry of one handle is seen through that handle only.\<close>

lemma handles_apart:
  assumes "handle \<noteq> other"
  shows "nativeHasType dyn other t (nativeLoadDescriptorSet dyn handle fds h) =
    (fst (nativeHasType dyn other t h), snd (nativeHasType dyn other t (nativeLoadDescriptorSet dyn handle fds h)))"
  using assms
  by (auto simp: nativeHasType_def nativeLoadDescriptorSet_def dangling_def update_conv' Let_def case_prod_beta split: option.splits sum.splits)

end
