(* ===== verification/Tavily.thy ===== *)
theory Tavily
  imports Tools Https_Client Skill_Utf8
begin

text \<open>
  The two web tools of the deep-search host, \<open>src/examples/deep-search/tavily_tools.cc\<close>: native tools that post to a service over
  the library's HTTP client and give the model a trimmed copy of the answer. Here the JSON printer may throw, as it does on a
  string that is not UTF-8. \<open>post\<close> is the client's \<open>Post\<close>.
\<close>

section \<open>Requests\<close>

definition kTavilyBase :: string where
  "kTavilyBase = ''https://api.tavily.com''"

definition MakeRequest :: "string \<Rightarrow> string \<Rightarrow> string \<Rightarrow> http_request" where
  "MakeRequest path body api_key = \<lparr>hr_url = kTavilyBase @ path, hr_body = body,
     hr_headers = [(''Content-Type'', ''application/json''), (''Authorization'', ''Bearer '' @ api_key)]\<rparr>"

text \<open>Posting a body and reading the results out of the answer; what both tools do between their requests and their answers.\<close>

definition parse_results :: "json_parser \<Rightarrow> string \<Rightarrow> (json \<times> json list) option" where
  "parse_results parse resp = (case parse resp of
       None \<Rightarrow> None
     | Some parsed \<Rightarrow> map_option (\<lambda>rs. (parsed, rs)) (jarray parsed ''results''))"

definition tavily_post :: "json_parser \<Rightarrow> (json \<Rightarrow> string exn_or) \<Rightarrow> (http_request \<Rightarrow> 'w \<Rightarrow> string status_or \<times> 'w) \<Rightarrow> string \<Rightarrow> string \<Rightarrow>
    json \<Rightarrow> (json \<Rightarrow> json list \<Rightarrow> json) \<Rightarrow> 'w \<Rightarrow> string exn_or \<times> 'w" where
  "tavily_post parse dump post api_key path body answer w =
     (case dump body of
        Inl e \<Rightarrow> (Inl e, w)
      | Inr text \<Rightarrow>
         (case post (MakeRequest path text api_key) w of
            (Inl _, w') \<Rightarrow> (Inr (error_json ''http_error''), w')
          | (Inr resp, w') \<Rightarrow>
             (case parse_results parse resp of
                None \<Rightarrow> (Inr (error_json ''bad_response''), w')
              | Some (parsed, results) \<Rightarrow> (dump (answer parsed results), w'))))"

text \<open>\<open>item[k] = v\<close> on a null item makes it an object; with no field found it stays null.\<close>

definition make_item :: "(string \<times> string option) list \<Rightarrow> json" where
  "make_item kvs = (let found = List.map_filter (\<lambda>(k, v). map_option (\<lambda>s. (k, JStr s)) v) kvs
     in if found = [] then JNull else jobj found)"

section \<open>Search\<close>

definition search_schema :: tool_schema where
  "search_schema = \<lparr>ts_name = ''tavily_search'',
     ts_description = ''Search the web via Tavily. Returns title, url and content for each result.'',
     ts_params_json_schema = ''{\"type\":\"object\",\"properties\":{\"query\":{\"type\":\"string\"}},\"required\":[\"query\"]}''\<rparr>"

definition search_item :: "json \<Rightarrow> json" where
  "search_item r = make_item (map (\<lambda>k. (k, jstring r k)) [''title'', ''url'', ''content''])"

definition tavily_search :: "json_parser \<Rightarrow> (json \<Rightarrow> string exn_or) \<Rightarrow> (http_request \<Rightarrow> 'w \<Rightarrow> string status_or \<times> 'w) \<Rightarrow> string \<Rightarrow> 'w invocation" where
  "tavily_search parse dump post api_key args_json cid w =
     (let query = (case parse args_json of Some args \<Rightarrow> (case jstring args ''query'' of Some q \<Rightarrow> q | None \<Rightarrow> []) | None \<Rightarrow> [])
      in if query = [] then (Inr (error_json ''bad_args''), w)
         else tavily_post parse dump post api_key ''/search''
                (jobj [(''query'', JStr query), (''max_results'', JInt 5), (''search_depth'', JStr ''basic'')])
                (\<lambda>parsed results. JArr (map search_item (filter is_object results))) w)"

definition MakeTavilySearchTool :: "json_parser \<Rightarrow> (json \<Rightarrow> string exn_or) \<Rightarrow> (http_request \<Rightarrow> 'w \<Rightarrow> string status_or \<times> 'w) \<Rightarrow> string \<Rightarrow> 'w tool" where
  "MakeTavilySearchTool parse dump post api_key = NativeFnTool search_schema (tavily_search parse dump post api_key)"

section \<open>Extract\<close>

definition extract_schema :: tool_schema where
  "extract_schema = \<lparr>ts_name = ''tavily_extract'',
     ts_description = ''Read web pages via Tavily. Provide up to 20 URLs in one call; they are fetched server-side. Returns {url, raw_content} entries.'',
     ts_params_json_schema = ''{\"type\":\"object\",\"properties\":{\"urls\":{\"type\":\"array\",\"items\":{\"type\":\"string\"}}},\"required\":[\"urls\"]}''\<rparr>"

fun collect_urls :: "json list \<Rightarrow> string list \<Rightarrow> string list" where
  "collect_urls [] urls = urls"
| "collect_urls (u # us) urls =
     (let urls = (case as_string u of Some s \<Rightarrow> urls @ [s] | None \<Rightarrow> urls)
      in if length urls \<ge> 20 then urls else collect_urls us urls)"

definition trim_page :: "string \<Rightarrow> string" where
  "trim_page raw = (if length raw > 6000 then take 6000 raw else raw)"

definition extract_item :: "json \<Rightarrow> json" where
  "extract_item r = make_item [(''url'', jstring r ''url''), (''raw_content'', map_option trim_page (jstring r ''raw_content''))]"

definition extract_answer :: "json \<Rightarrow> json list \<Rightarrow> json" where
  "extract_answer parsed results =
     (let out = jobj [(''results'', JArr (map extract_item (filter is_object results)))]
      in case jarray parsed ''failed_results'' of Some failed \<Rightarrow> jput ''failed_results'' (JArr failed) out | None \<Rightarrow> out)"

definition tavily_extract :: "json_parser \<Rightarrow> (json \<Rightarrow> string exn_or) \<Rightarrow> (http_request \<Rightarrow> 'w \<Rightarrow> string status_or \<times> 'w) \<Rightarrow> string \<Rightarrow> 'w invocation" where
  "tavily_extract parse dump post api_key args_json cid w =
     (case (case parse args_json of Some args \<Rightarrow> jarray args ''urls'' | None \<Rightarrow> None) of
        None \<Rightarrow> (Inr (error_json ''bad_args''), w)
      | Some us \<Rightarrow>
         (let urls = collect_urls us []
          in if urls = [] then (Inr (error_json ''bad_args''), w)
             else tavily_post parse dump post api_key ''/extract''
                    (jobj [(''urls'', JArr (map JStr urls)), (''extract_depth'', JStr ''basic''), (''format'', JStr ''markdown'')])
                    extract_answer w))"

definition MakeTavilyExtractTool :: "json_parser \<Rightarrow> (json \<Rightarrow> string exn_or) \<Rightarrow> (http_request \<Rightarrow> 'w \<Rightarrow> string status_or \<times> 'w) \<Rightarrow> string \<Rightarrow> 'w tool" where
  "MakeTavilyExtractTool parse dump post api_key = NativeFnTool extract_schema (tavily_extract parse dump post api_key)"

section \<open>What is asked and what is answered\<close>

lemma collect_urls_take:
  "length urls < 20 \<Longrightarrow> collect_urls us urls = take 20 (urls @ List.map_filter as_string us)"
proof (induction us arbitrary: urls)
  case (Cons u us)
  show ?case
  proof (cases "as_string u")
    case None
    then show ?thesis using Cons by (simp add: List.map_filter_simps)
  next
    case (Some s)
    have "20 - length urls = 1" if "19 \<le> length urls" using that Cons.prems by simp
    then show ?thesis using Some Cons.IH[of "urls @ [s]"] Cons.prems by (auto simp: List.map_filter_simps Let_def)
  qed
qed (simp add: List.map_filter_simps)

text \<open>The service is asked for the first twenty strings of the list, and for nothing when there is none.\<close>

lemma extract_asks:
  assumes "parse args = Some j" "jarray j ''urls'' = Some us" "urls = take 20 (List.map_filter as_string us)"
  shows "tavily_extract parse dump post key args cid w =
    (if urls = [] then (Inr (error_json ''bad_args''), w)
     else tavily_post parse dump post key ''/extract''
       (jobj [(''urls'', JArr (map JStr urls)), (''extract_depth'', JStr ''basic''), (''format'', JStr ''markdown'')]) extract_answer w)"
  using assms collect_urls_take[of "[]" us] by (simp add: tavily_extract_def Let_def)

text \<open>A page is given to the model up to 6000 bytes, from the start.\<close>

lemma extract_pages_bounded:
  "jstring (extract_item r) ''raw_content'' = map_option trim_page (jstring r ''raw_content'')" "length (trim_page raw) \<le> 6000" "prefix (trim_page raw) raw"
  by (auto simp: extract_item_def make_item_def List.map_filter_simps jstring_def jobj_def trim_page_def take_is_prefix
      split: option.splits json.splits)

section \<open>Pages cut inside a character\<close>

fun well_encoded :: "json \<Rightarrow> bool" where
  "well_encoded (JStr s) = IsValidUtf8 s"
| "well_encoded (JArr xs) = list_all well_encoded xs"
| "well_encoded (JObj m) = list_all (\<lambda>kv. IsValidUtf8 (fst kv) \<and> well_encoded (snd kv)) m"
| "well_encoded _ = True"

lemma well_encoded_jfind: "well_encoded j \<Longrightarrow> jfind j k = Some v \<Longrightarrow> well_encoded v"
  by (cases j) (fastforce simp: list_all_iff dest: map_of_SomeD)+

lemma extract_results: "jfind (extract_answer parsed results) ''results'' = Some (JArr (map extract_item (filter is_object results)))"
  by (simp add: extract_answer_def Let_def jobj_def split: option.splits)

text \<open>
  Trimming counts bytes. A page whose byte 6000 falls inside a character becomes a string that is not UTF-8, on which the printer
  throws: the tool answers nothing although the page and its request were fine.
\<close>

lemma cut_page_throws:
  assumes strict: "\<And>j. \<not> well_encoded j \<Longrightarrow> \<exists>e. dump j = Inl e"
    and "dump body = Inr text" "post (MakeRequest path text key) w = (Inr resp, w')" "parse_results parse resp = Some (parsed, results)"
    and r: "r \<in> set results" "jstring r ''raw_content'' = Some raw" "\<not> IsValidUtf8 (trim_page raw)"
  shows "\<exists>e. tavily_post parse dump post key path body extract_answer w = (Inl e, w')"
proof -
  have "is_object r" using r(2) by (cases r) (auto simp: jstring_def)
  have "jstring (extract_item r) ''raw_content'' = Some (trim_page raw)" using extract_pages_bounded(1)[of r] r(2) by simp
  then have "jfind (extract_item r) ''raw_content'' = Some (JStr (trim_page raw))" by (simp add: jstring_Some_iff)
  then have "\<not> well_encoded (extract_item r)" using well_encoded_jfind[of "extract_item r"] r(3) by fastforce
  then have "\<not> well_encoded (JArr (map extract_item (filter is_object results)))"
    using r(1) \<open>is_object r\<close> by (auto simp: list_all_iff)
  then have "\<not> well_encoded (extract_answer parsed results)" using well_encoded_jfind[OF _ extract_results] by blast
  then show ?thesis using strict assms(2-4) by (fastforce simp: tavily_post_def)
qed

lemma cut_page_example:
  assumes "Suc n = 6000" "raw = replicate n (CHR ''a'') @ [CHR 0xC3, CHR 0xA9]"
  shows "IsValidUtf8 raw" "\<not> IsValidUtf8 (trim_page raw)"
proof -
  have plain: "IsValidUtf8 (replicate k (CHR ''a'') @ s) = IsValidUtf8 s" for k s
  proof (induction k)
    case (Suc k)
    have "byte_val (CHR ''a'') < 0x80" by code_simp
    then show ?case using Suc by (simp add: IsValidUtf8.simps(2))
  qed simp
  have "IsValidUtf8 (utf8_encode 0xE9)" unfolding valid_iff by (rule exI[of _ "[0xE9]"]) (simp add: scalar_value_def)
  moreover have "utf8_encode 0xE9 = [CHR 0xC3, CHR 0xA9]" by (simp add: utf8_encode_def utf8_bytes_def char_of_def bit_Suc_0_iff)
  moreover have "\<not> IsValidUtf8 [CHR 0xC3]"
    by (simp add: IsValidUtf8.simps(2) lead_info_def byte_val_def)
  moreover have "trim_page raw = replicate n (CHR ''a'') @ [CHR 0xC3]"
    by (simp add: assms(2) trim_page_def flip: assms(1))
  ultimately show "IsValidUtf8 raw" "\<not> IsValidUtf8 (trim_page raw)" unfolding assms(2) by (simp_all only: plain not_False_eq_True)
qed

end
