(* ===== verification/Spec2Isabelle.thy ===== *)
theory Spec2Isabelle
  imports Cancel Runner_Props Https_Props Workflow_Registry Openai_Conversation Workflow_Runner Skill_Tools Mcp_Pool
    Team_Node Persist Events Litert_Props Jni_Props Tavily
begin

text \<open>
  AgentFlow is a C++ library that runs graphs of agent nodes. A host builds a graph of nodes and hands it to a
  runner, which launches the nodes as coroutines, passes states along the edges, writes checkpoints and can
  resume from one. Agent nodes talk to a model through a conversation, local or remote, and dispatch the tools
  the model calls. Workflows are JSON documents that declare agents, their tools and who may delegate to whom;
  a loader validates and verifies them and a registry keeps their versions. This library models these parts
  and proves what each promises. All paths below are under \<open>src/agentflow\<close> unless they begin with \<open>src\<close>.

  \<^bold>\<open>Foundations.\<close>
  \<^item> \<open>Prelude\<close>: the result types of the C++ code (\<open>absl::Status\<close>, exceptions), loops that stop at an error, byte
    strings with \<open>find\<close>, decimal rendering, association lists for the standard containers, and the locales the
    components instantiate: \<open>keyed_store\<close>, \<open>stream_decoder\<close> and \<open>fallible_decoder\<close>, \<open>invariant_system\<close> and
    \<open>ranked_system\<close>, \<open>refinement\<close>.
  \<^item> \<open>Json_Value\<close>: the values of \<open>nlohmann::json\<close> and the accessors the sources call, with what each does on a
    value of the wrong kind. The JSON parser and printer are parameters everywhere; \<open>counting_parse\<close> and
    \<open>counting_dump\<close> are an instance of what the theorems ask of them.

  \<^bold>\<open>Core.\<close>
  \<^item> \<open>Cancel\<close>: \<open>core/cancel.{h,cc}\<close>, cancellation source, token and callbacks.
  \<^item> \<open>Graph_State\<close>: \<open>core/state.{h,cc}\<close>, the protobuf or JSON state and its dotted field access.
  \<^item> \<open>Graph\<close>: \<open>core/graph.{h,cc}\<close> and \<open>core/edge.h\<close>, the builder with its compile checks.
  \<^item> \<open>Runner\<close>: \<open>core/runner.{h,cc}\<close> as a step relation. A step is one uninterrupted stretch of the strand: a
    launch, the start of a node's coroutine, its end with fan-out and checkpoint, the exit of the main loop; the
    executor is the order of steps. \<open>Runner_Exec\<close> is the same relation as an executable function.
  \<^item> \<open>Runner_Safety\<close> (invariants of every run), \<open>Runner_Live\<close> (progress, errors, cancellation), \<open>Runner_Dag\<close>
    (termination and completeness on graphs of joins, with a rank), \<open>Runner_Flow\<close> (where inputs come from),
    \<open>Runner_Resume\<close> (checkpoints and resuming), \<open>Runner_Compose\<close> (what a run computes from what its nodes compute),
    \<open>Runner_Props\<close> (the properties with concrete schedules).

  \<^bold>\<open>Network.\<close>
  \<^item> \<open>Http_Parse\<close> and \<open>Http_Props\<close>: \<open>net/http_parse.{h,cc}\<close>, URLs, response heads, the chunked decoder and the two
    event framers. The decoders interpret the decoder locales, so cutting the input differently changes nothing.

  \<^item> \<open>Https_Client\<close> and \<open>Https_Props\<close>: \<open>net/https_client.{h,cc}\<close>, requests, connections and the driver that feeds what is read to the
    parsers. A response arrives whole however the network cuts it; the last section has what is wrongly taken for the end of one.
  \<^item> \<open>Channels\<close>: what \<open>asio\<close> documents of its channels, a hypothesis of the properties that rest on them.

  \<^bold>\<open>Workflows.\<close>
  \<^item> \<open>Template\<close>: \<open>workflow/json_path.{h,cc}\<close> and \<open>workflow/template_engine.{h,cc}\<close>.
  \<^item> \<open>Workflow_Spec\<close>, \<open>Workflow_Check\<close>, \<open>Workflow_Loader\<close>: \<open>workflow/workflow_loader.{h,cc}\<close> in the order of its passes:
    reading the spec, resource limits, references, templates and the iterative search for delegation cycles,
    the canonical form and its signature, and \<open>Load\<close> itself; \<open>Workflow_Props\<close> has the properties.
  \<^item> \<open>Workflow_Registry\<close>: \<open>workflow/workflow_registry.{h,cc}\<close>, refining a map from name and version.

  \<^bold>\<open>Inference.\<close>
  \<^item> \<open>Message_Map\<close>: \<open>inference/openai/message_map.{h,cc}\<close> and \<open>token_usage.h\<close>; \<open>Stream_Accumulator\<close>:
    \<open>inference/openai/stream_accumulator.{h,cc}\<close>; \<open>Message_Props\<close> and \<open>Schema_Props\<close> hold their lemmas.
  \<^item> \<open>Openai_Conversation\<close>: \<open>inference/openai/openai_chat_backend.{h,cc}\<close>, the history, the retry loop and the images.
  \<^item> \<open>Litert_Conversation\<close> and \<open>Litert_Props\<close>: \<open>inference/litert_lm_*\<close>, the on-device backend. The engine's thread, the I/O thread and
    the coroutines interleave as events; a turn's strings are at every moment split between coroutine, channel, posted jobs and
    engine, which gives completeness of turns that fit the channel and the loss of those that do not.
  \<^item> \<open>Canonical_Message\<close>: \<open>inference/canonical_message.{h,cc}\<close> and \<open>inference/special_token_probe.{h,cc}\<close>.

  \<^bold>\<open>Tools and nodes.\<close>
  \<^item> \<open>Tools\<close>: \<open>tools/tool_registry\<close>, \<open>mcp_tool_adapter\<close>, \<open>gated_tool\<close>, \<open>invocation_tool_view\<close>, \<open>native_fn_tool\<close>.
  \<^item> \<open>Agent_Node\<close>: \<open>nodes/agent_node\<close>, \<open>llm_node\<close>, \<open>router_node\<close>, \<open>aggregator_node\<close>.
  \<^item> \<open>Team_Node\<close>: \<open>nodes/team_node\<close>. Members take turns as a router or a moderator model says, which refines a relation of
    turns, or run at once and are gathered in the order of the members.

  \<^bold>\<open>Delegation.\<close>
  \<^item> \<open>Delegation\<close>: \<open>workflow/sub_agent_runtime.{h,cc}\<close>. \<open>RunAsync\<close> is a recursive function that terminates because the depth
    grows to a bound; its events obey the grammar \<open>sub_span\<close> of nested spans.
  \<^item> \<open>Workflow_Runner\<close>: \<open>workflow/delegate_tool.{h,cc}\<close> and \<open>workflow/workflow_runner.{h,cc}\<close>, the tools an agent gets to delegate
    with and the configuration it is built from.

  \<^bold>\<open>Skills.\<close>
  \<^item> \<open>Skill_Utf8\<close>, \<open>Skill\<close>, \<open>Skill_Library\<close>, \<open>Skill_Tools\<close>: \<open>skills/*\<close>, the UTF-8 validator against an encoder, manifests and
    their names, the merge of the skill directories into a keyed store, and the two tools with the confinement of paths.

  \<^bold>\<open>MCP.\<close>
  \<^item> \<open>Mcp_Http\<close> and \<open>Mcp_Http_Props\<close>: \<open>tools/mcp_http_codec.{h,cc}\<close> and the HTTP transport of \<open>tools/mcp_client.cc\<close> as a
    transition system: the calls that share a client are cut at their POSTs and waits, and every order of calls, answers,
    shutdowns and reader steps is a run. A ghost log relates each result to its request; the reader of the notification stream
    runs against any sequence of streams.
  \<^item> \<open>Mcp_Stdio\<close> and \<open>Mcp_Stdio_Props\<close>: the stdio transport of \<open>mcp_client.cc\<close> as a transition system. An event is a call, a
    completion of a read or write, or the resumption of a coroutine; the properties hold for every order of events.
  \<^item> \<open>Mcp_Pool\<close>: \<open>tools/mcp_client_pool.{h,cc}\<close>, what its key tells apart and who shares a client.

  \<^bold>\<open>Outputs.\<close>
  \<^item> \<open>Persist\<close>: \<open>persist/*\<close> and \<open>dynamic/*\<close>, checkpoints in files and the states they are resumed into.
  \<^item> \<open>Events\<close>: \<open>core/event.{h,cc}\<close> and \<open>observability/*\<close>, the events of the runner and of delegations as they are emitted,
    fanned out and logged.

  \<^bold>\<open>Host bindings.\<close>
  \<^item> \<open>Jni_Bridge\<close> and \<open>Jni_Props\<close>: \<open>src/jni/agentflow_jni.cc\<close>, \<open>jni/schema_registry_jni.cc\<close> and \<open>core/stub_node.h\<close>. The native
    entries are functions of what the JVM answers and of the state in which \<open>io.run()\<close> leaves the runner, \<^const>\<open>None\<close> when it does
    not return; the state of a call keeps the pending Java exception, the global references and misuse of the JNI. Cancel handles
    and upcall workers are transition systems; the token stream is the run of the graph, the forwarding coroutines of the
    delegate calls and the consumer over one channel.
  \<^item> \<open>Tavily\<close>: \<open>src/examples/deep-search/tavily_tools.cc\<close>, the web tools of the deep-search host, with the pages they cut.

  \<^bold>\<open>Across the parts.\<close> This theory holds the properties that span components: a remote turn from the message to the socket
  (\<open>Openai_Conversation\<close> over \<open>Https_Client\<close>), recovery from a crash (\<open>Runner\<close>, \<open>Persist\<close>), and a native call from the query to the
  answer Java gets (\<open>Jni_Bridge\<close>, \<open>Runner_Compose\<close>, \<open>Agent_Node\<close>).

  \<^bold>\<open>Modelling choices.\<close> A \<open>std::string\<close> is a list of bytes. Fixed-width integers are words where the code can wrap
  (counters in JSON, signatures, token limits); sizes are natural numbers. A protobuf map, whose iteration
  order is unspecified, is an association list; the theorems hold for any order. Loops that the code bounds
  recurse on the bound (\<open>max_retries\<close>, \<open>max_iter\<close>), the others have a termination proof; nothing runs on
  fuel. Operations under a mutex are functions on the guarded state. Coroutines between two suspension points
  are atomic; where several run, their order is an argument or part of the step relation. The JSON printer
  is total, but in \<open>Tavily\<close>: elsewhere its exception on invalid UTF-8 is not modelled.

  \<^bold>\<open>Not modelled.\<close> The tool calls of one agent turn run one after the other in an order the executor chooses, not cut at their
  suspension points; the tool event callback of an invocation does not throw; \<open>NewStringUTF\<close> succeeds and gives back the bytes up
  to the first NUL, so a null result and the modified UTF-8 of characters beyond the BMP are left out. Child processes, sockets, TLS, files, the JVM, the inference engine, protobuf, YAML and the JSON text format are outside the
  repository and are parameters; \<open>core/node.h\<close> and \<open>core/token_channel.h\<close> only declare. The \<open>main\<close> programs under
  \<open>src/examples\<close> and the tests call the library and add no logic of their own.
\<close>

section \<open>A remote turn\<close>

text \<open>An attempt whose request goes over a connection: the payloads and the status are what \<open>PostSse\<close> delivers.\<close>

definition https_attempt :: "string \<Rightarrow> connection \<Rightarrow> http_request \<Rightarrow> attempt \<Rightarrow> attempt" where
  "https_attempt ca_path cx req a = a\<lparr>att_frames := snd (Https_PostSse ca_path cx req), att_status := fst (Https_PostSse ca_path cx req)\<rparr>"

text \<open>
  C6. A turn with a remote model, from the message to the socket and back: when the server answers the first request with a
  stream of event frames, however the network cuts it and whether it is chunked or not, the conversation posts that one request,
  shows the text deltas of exactly these payloads in order, and answers with the message accumulated from them.
\<close>

theorem remote_turn_over_https:
  assumes "ToOpenAiMessages (se_parse env) (se_dump env) msg = Inr (Inr incoming)" "repair_loop (messages @ incoming) = (repaired, None)"
    and "length (CollectImageRefKeys repaired) \<le> 20" "0 < oo_max_retries (se_options env)"
    and "resolve_images (se_has_resolver env) (att_urls a) repaired = Inr wire"
    and "BuildRequestBody (se_parse env) (se_dump env) (oo_model (se_options env)) (se_conv env) wire True
      (oo_strict_tools (se_options env)) = Inr body"
    and "\<not> att_cancelled_before a" "atts 0 = https_attempt ca_path cx (make_request env body) a"
    and "serves ca_path (make_request env body) cx ps rest" "ok_head ht head" "concat ps = ht @ answer" "\<forall>ls\<in>set fs. sendable ls"
    and "stream = concat (map sse_frame fs) @ (if signed_off then done_frame else [])"
    and "chunked head \<and> (\<forall>c\<in>set cs. c \<noteq> [] \<and> int (length c) < 2 ^ 64) \<and> answer = encode_body cs \<and> stream = concat cs \<or>
      \<not> chunked head \<and> answer = stream \<and> (signed_off \<or> peer_closed rest)"
    and "feed_all (se_parse env) (new_accumulator (oo_provider (se_options env))) (map (join_with [LF]) fs) = (acc, deltas)"
  shows "SendAsync env atts msg messages =
    record_reply env repaired
      \<lparr>sl_requests = [make_request env body], sl_tokens = (if se_has_sink env then filter (\<lambda>d. d \<noteq> []) deltas else [])\<rparr>
      (Canonical (se_dump env) acc)"
proof -
  have post: "Https_PostSse ca_path cx (make_request env body) = (Inr (), map (join_with [LF]) fs)"
    by (rule post_sse_delivers_payloads[OF assms(9-14)])
  then have reply: "stream_reply env (atts 0) = (acc, filter (\<lambda>d. d \<noteq> []) deltas)" "att_status (atts 0) = Inr ()"
      "att_urls (atts 0) = att_urls a" "\<not> att_cancelled_before (atts 0)"
    using assms(7,8,15) by (simp_all add: stream_reply_def https_attempt_def)
  obtain k where "nat (oo_max_retries (se_options env)) = Suc k" using assms(4) by (metis gr0_implies_Suc zero_less_nat_eq)
  then show ?thesis using assms(1-3,5,6) reply by (simp add: SendAsync_def Let_def)
qed

definition wire_env :: send_env where
  "wire_env = \<lparr>se_parse = (\<lambda>s. if s = ''turn'' then Some (JObj [(''content'', JStr ''go''), (''role'', JStr ''user'')])
       else if s = ''delta'' then Some (JObj [(''choices'', JArr [JObj [(''delta'', JObj [(''content'', JStr ''hi'')])]])]) else None),
     se_dump = (\<lambda>j. ''json''),
     se_options = \<lparr>oo_base_url = ''http://h'', oo_api_key = [], oo_model = ''m'', oo_provider = kOpenAi, oo_max_retries = 2, oo_strict_tools = False\<rparr>,
     se_conv = \<lparr>co_system_message_json = [], co_tools_json = [], co_max_output_tokens = 16, co_constrained_tool_calls = False\<rparr>,
     se_has_resolver = False, se_has_sink = True\<rparr>"

definition wire_pieces :: "string list" where
  "wire_pieces = [plain_head @ ''data: de'', ''lta'' @ [LF], [LF]]"

definition wire_attempts :: "nat \<Rightarrow> attempt" where
  "wire_attempts i = https_attempt [] (arrives wire_pieces) (make_request wire_env ''json'')
     \<lparr>att_cancelled_before = False, att_urls = (\<lambda>_. Inr []), att_frames = [], att_status = Inr (), att_cancelled_after = False\<rparr>"

definition wire_history :: "json list" where
  "wire_history = [JObj [(''content'', JStr ''go''), (''role'', JStr ''user'')]]"

theorem remote_turn_over_https_witness:
  "sl_tokens (fst (snd (SendAsync wire_env wire_attempts ''turn'' []))) = [''hi'']"
proof -
  let ?env = wire_env and ?req = "make_request wire_env ''json''"
  let ?a = "\<lparr>att_cancelled_before = False, att_urls = (\<lambda>_. Inr []), att_frames = [], att_status = Inr (), att_cancelled_after = False\<rparr>"
  let ?head = "\<lparr>status_code_of = 200, headers = [], head_bytes = 19, chunked = False, content_length = -1\<rparr>"
  have url: "\<exists>url. ParseUrl (hr_url ?req) = Inr url \<and> \<not> tls url"
    by (rule exI[of _ "\<lparr>host = ''h'', port = ''80'', target = ''/chat/completions'', tls = False\<rparr>"]) code_simp
  then have served: "serves [] ?req (arrives wire_pieces) wire_pieces []"
    by (auto simp: serves_def arrives_def quiet_def wire_pieces_def)
  have turn: "ToOpenAiMessages (se_parse ?env) (se_dump ?env) ''turn'' = Inr (Inr wire_history)"
      "repair_loop ([] @ wire_history) = (wire_history, None)" "length (CollectImageRefKeys wire_history) \<le> 20"
      "0 < oo_max_retries (se_options ?env)"
    by code_simp+
  have request: "resolve_images (se_has_resolver ?env) (att_urls ?a) wire_history = Inr wire_history"
      "BuildRequestBody (se_parse ?env) (se_dump ?env) (oo_model (se_options ?env)) (se_conv ?env) wire_history True
        (oo_strict_tools (se_options ?env)) = Inr ''json''"
      "\<not> att_cancelled_before ?a" "wire_attempts 0 = https_attempt [] (arrives wire_pieces) ?req ?a"
    by (code_simp, code_simp, simp, simp add: wire_attempts_def)
  have answer: "concat wire_pieces = plain_head @ concat (map sse_frame [[''delta'']])" "\<forall>ls\<in>set [[''delta'']]. sendable ls"
      "concat (map sse_frame [[''delta'']]) = concat (map sse_frame [[''delta'']]) @ (if False then done_frame else [])"
    by (code_simp, code_simp, simp)
  have framing: "chunked ?head \<and> (\<forall>c\<in>set []. c \<noteq> [] \<and> int (length c) < 2 ^ 64) \<and>
        concat (map sse_frame [[''delta'']]) = encode_body [] \<and> concat (map sse_frame [[''delta'']]) = concat [] \<or>
      \<not> chunked ?head \<and> concat (map sse_frame [[''delta'']]) = concat (map sse_frame [[''delta'']]) \<and> (False \<or> peer_closed [])"
    by (simp add: peer_closed_def)
  obtain acc where fed: "feed_all (se_parse ?env) (new_accumulator (oo_provider (se_options ?env))) (map (join_with [LF]) [[''delta'']]) = (acc, [''hi''])"
  proof -
    have "snd (feed_all (se_parse ?env) (new_accumulator (oo_provider (se_options ?env))) (map (join_with [LF]) [[''delta'']])) = [''hi'']"
      by code_simp
    then show ?thesis using that by (metis prod.collapse)
  qed
  have "fst (snd (record_reply e m l c)) = l" for e m l c
    by (simp add: record_reply_def split: sum.splits)
  moreover have "se_has_sink ?env" by (simp add: wire_env_def)
  ultimately show ?thesis
    using remote_turn_over_https[where atts = wire_attempts and signed_off = False and cs = "[]", OF turn request served example_heads(2) answer(1,2,3) framing fed] by simp
qed

section \<open>Recovery\<close>

text \<open>
  C3. Recovery from a crash, for acyclic graphs all of whose nodes wait for all their predecessors. Take any moment of a run of
  such a graph, a checkpoint it had written that contains every entry node of the graph, a protobuf encoding that reads back,
  and a file the writer reported as written and into which every byte went: the next process reads back that very
  checkpoint, and its nodes are the first the old run completed. A run resumed from it that returns a state without having
  been cancelled launches every other node exactly once and none of the checkpoint's again, and completes the graph.
\<close>

theorem crash_recovery:
  assumes first: "run_of b pol w s api dump es g t" and joins: "all_joins g" and acyc: "acyclic (edge_rel g)"
    and cp: "cp \<in> set (checkpoints t)" "set (g_entries g) \<subseteq> set (cp_completed_nodes cp)"
    and codec: "encode cp = Some bytes" "decode bytes = Some cp"
    and written: "FileCheckpointWriter_Write encode disk path cp fs = (Inr (), fs')" "length bytes \<le> dk_written disk"
    and fresh: "Runner_Impl g pol' w' = Inr r0" and resume: "Resume api parse cp tgt r0 = Inr r"
    and again: "runner_run api dump True r es' t'" "result t' = Some (Inr out)" "\<not> cancel_flag t'"
  shows "ReadCheckpointFromFile decode err path fs' = Inr cp \<and> prefix (cp_completed_nodes cp) (completed_node_ids t) \<and>
    completed_node_ids t' = cp_completed_nodes cp @ completed_by es' \<and> distinct (completed_node_ids t') \<and>
    set (completed_node_ids t') = set (node_ids g) \<and>
    (\<forall>v\<in>set (node_ids g). count_list es' (ELaunch v) = (if v \<in> set (cp_completed_nodes cp) then 0 else 1))"
proof -
  note taken = checkpoint_resumable[OF first joins cp]
  have "Build b = Inr g" using first by (simp add: run_of_def)
  then have "completed_node_ids t' = cp_completed_nodes cp @ completed_by es' \<and> distinct (completed_node_ids t') \<and>
      set (completed_node_ids t') = set (node_ids g) \<and>
      (\<forall>v\<in>set (node_ids g). count_list es' (ELaunch v) = (if v \<in> set (cp_completed_nodes cp) then 0 else 1))"
    using resume_completes_rest[OF _ joins acyc fresh resume _ again] taken by blast
  moreover have "ReadCheckpointFromFile decode err path fs' = Inr cp"
    using Write_cases(1)[OF written(1)] written(2) codec taken by (auto simp: ReadCheckpointFromFile_def)
  ultimately show ?thesis using taken by blast
qed

definition demo_saved :: file_system where
  "demo_saved = snd (FileCheckpointWriter_Write (\<lambda>_. Some ''x'') good_disk ''c'' demo_cp Map.empty)"

definition demo_recovered :: "string runner" where
  "demo_recovered = the (exec_run demo_api demo_dump True resumed_schedule demo_resumed)"

theorem crash_recovery_witness:
  "ReadCheckpointFromFile (\<lambda>_. Some demo_cp) [] ''c'' demo_saved = Inr demo_cp \<and>
   set (completed_node_ids demo_recovered) = set (node_ids demo_graph)"
proof -
  note first = demo_run[OF demo_full_ok, folded demo_end_def]
  have cp: "demo_cp \<in> set (checkpoints (demo_end AfterEachNode))" "set (g_entries demo_graph) \<subseteq> set (cp_completed_nodes demo_cp)"
    by code_simp+
  have saved: "FileCheckpointWriter_Write (\<lambda>_. Some ''x'') good_disk ''c'' demo_cp Map.empty = (Inr (), demo_saved)"
      "length ''x'' \<le> dk_written good_disk"
    by (simp_all add: demo_saved_def FileCheckpointWriter_Write_def good_disk_def Let_def)
  have fresh: "Runner_Impl demo_graph Off True = Inr demo_fresh" by (simp add: demo_fresh_def Runner_Impl_def)
  have "ok_of (Resume demo_api no_parse demo_cp (FromMessage (Some [])) demo_fresh)" by code_simp
  note resume = ok_ofE[OF this, folded demo_resumed_def]
  have "\<not> Option.is_none (exec_run demo_api demo_dump True resumed_schedule demo_resumed)" by code_simp
  note again = exec_run_the[OF this, folded demo_recovered_def]
  have "returned_ok demo_recovered" by code_simp
  then obtain out where out: "result demo_recovered = Some (Inr out)" by (rule returned_okE)
  have "\<not> cancel_flag demo_recovered" by code_simp
  from crash_recovery[OF first demo_joins demo_acyclic cp refl refl saved fresh resume again out this]
  show ?thesis by blast
qed

section \<open>A native call\<close>

text \<open>
  What the nodes of a native call do: \<open>agent\<close> is an \<open>AgentNode\<close> with the built configuration, started in the world \<open>w\<close>; \<open>sink\<close> is
  a stub with neither delay, body nor counter.
\<close>

definition sink_stub :: "'m stub_node" where
  "sink_stub = \<lparr>sn_delay = False, sn_body = None, sn_order = -1\<rparr>"

definition entry_behaviour :: "'m proto_api \<Rightarrow> 'w agent_env \<Rightarrow> 'w built_agent \<Rightarrow> 'w \<Rightarrow> 'm behaviour" where
  "entry_behaviour api aenv built w v inp out \<longleftrightarrow>
     (if v = ''agent'' then out = (case fst (AgentNode_Run api aenv (ba_cfg built) inp w) of Inr s \<Rightarrow> Returned s | Inl e \<Rightarrow> Threw e)
      else out = Returned (fst (StubNode_Run [] sink_stub None inp)))"

text \<open>What protobuf documents of the string fields of a generated class.\<close>

definition test_state_api :: "'m proto_api \<Rightarrow> ('m \<Rightarrow> bool) \<Rightarrow> bool" where
  "test_state_api api is_a \<longleftrightarrow> (\<forall>m f v. is_a m \<and> (f = ''user_query'' \<or> f = ''assistant_reply'') \<longrightarrow>
     has_string_field api m f \<and> is_a (set_string api m f v) \<and> get_string api (set_string api m f v) f = v)"

lemma agent_graph_run:
  assumes "Build agent_graph = Inr g" "computed g s (entry_behaviour api aenv built w) out"
  shows "\<exists>o'. entry_behaviour api aenv built w ''agent'' (Clone s) (Returned o') \<and> out = Clone o'"
proof -
  have g: "g_entries g = [''agent'']" "g_edges g = [\<lparr>edge_from = ''agent'', edge_to = ''sink'', edge_group = 0, edge_cond = CondAll\<rparr>]"
    using agent_graph_builds assms(1) by auto
  have ends: "edge_from e = ''agent'' \<and> edge_to e = ''sink''" if "e \<in> set (g_edges g)" for e
    using that by (simp add: g(2))
  have agent: "inp = Clone s" if "fed g s beh ''agent'' inp" for inp beh
    using that by (rule fedE) (auto dest!: ends)
  have sink: "\<exists>o'. beh ''agent'' (Clone s) (Returned o') \<and> inp = Clone o'" if "fed g s beh v inp" "v \<noteq> ''agent''" for v inp beh
    using that(1) by (rule fedE) (use that(2) g(1) ends agent in auto)
  obtain v inp o' where v: "\<not> has_outgoing g v" "fed g s (entry_behaviour api aenv built w) v inp"
      "entry_behaviour api aenv built w v inp (Returned o')" "out = Clone o'"
    using assms(2) by (auto simp: computed_def)
  have "v \<noteq> ''agent''" using v(1) by (auto simp: has_outgoing_def g)
  then show ?thesis using sink[OF v(2)] v(3,4)
    by (auto simp: entry_behaviour_def StubNode_Run_def sink_stub_def Clone_Clone)
qed

lemma agent_graph_dag:
  assumes "Build agent_graph = Inr g"
  shows "all_joins g" "acyclic (edge_rel g)"
proof -
  have "case Build agent_graph of Inr g \<Rightarrow> all_joins g | Inl _ \<Rightarrow> False" by code_simp
  then show "all_joins g" using assms by simp
  have "edge_rel g = {(''agent'', ''sink'')}" using agent_graph_builds assms by (auto simp: edge_rel_def)
  then show "acyclic (edge_rel g)" by (simp add: acyclic_insert wf_acyclic)
qed

lemma prepared_config:
  assumes "prepare env path reg text streaming = Inr (Inr built)"
  shows "ac_configured (ba_cfg built)" "ac_input_field (ba_cfg built) = ''user_query''"
    "ac_output_field (ba_cfg built) = ''assistant_reply''" "ac_max_iter (ba_cfg built) = 5"
  using assms
  by (auto simp: prepare_def BuildAgentNode_def jni_build_spec_def base_config_def ResolveBackend_def ResolveNamedBackend_def
      bind_status_def Let_def split: sum.splits option.splits if_splits)

text \<open>
  C5. A native call from end to end. When the executor has run the graph of \<open>runAgent\<close> or \<open>runJsonWorkflow\<close> to its end without
  cancellation, the nodes being an \<open>AgentNode\<close> with the configuration the entry built and a stub, the Java caller gets the
  answer that the agent's loop of at most five rounds found for the query it passed in, as a C string.
\<close>

theorem java_gets_answer:
  assumes entry: "entry = runAgent env path prompt query constrained st \<and> built = runAgent_config env path prompt constrained \<or>
      entry = runJsonWorkflow env path doc query st \<and> prepare env path (new_tool_registry True) doc False = Inr (Inr built)"
    and env: "je_engine_create env path" "test_state_api (je_api env) (je_is_test_state env)" "je_is_test_state env (je_new_test_state env)"
    and run: "start_runner env query = Inr r" "exec_run (je_api env) dump False es r = Some t"
      "obeys (je_api env) dump (entry_behaviour (je_api env) aenv built w) r es"
    and io: "fst (je_io_run env built None r) = t" "result t = Some (Inr out)" "\<not> cancel_flag t"
    and agent: "\<not> ae_cancelled aenv w" "BuildToolsJson aenv (ba_cfg built) = Inr tools"
      "ae_create aenv (BuildSystemMessageJson (ae_dump aenv) (ac_system_prompt (ba_cfg built))) tools w = (True, w1)"
      "agent_loop aenv (ba_cfg built) 5 0 (BuildUserMessageJson (ae_dump aenv) query) w1 = (Inr answer, sent, w2)" "answer \<noteq> []"
  shows "entry = Some (JValue (c_str answer), jni_fn (read_strings 3 st))"
proof -
  let ?api = "je_api env" and ?m = "set_string (je_api env) (je_new_test_state env) ''user_query'' query"
  have cfg: "ac_configured (ba_cfg built)" "ac_input_field (ba_cfg built) = ''user_query''"
      "ac_output_field (ba_cfg built) = ''assistant_reply''" "ac_max_iter (ba_cfg built) = 5"
    using entry prepared_config[of env path "new_tool_registry True" doc False built] by (auto simp: runAgent_config_def)
  have m: "je_is_test_state env ?m" "has_string_field ?api ?m ''user_query''" "get_string ?api ?m ''user_query'' = query"
      "has_string_field ?api ?m ''assistant_reply''" "je_is_test_state env (set_string ?api ?m ''assistant_reply'' answer)"
      "get_string ?api (set_string ?api ?m ''assistant_reply'' answer) ''assistant_reply'' = answer"
    using env(2,3) by (simp_all add: test_state_api_def)
  obtain g r0 where g: "Build agent_graph = Inr g" "Runner_Impl g Off False = Inr r0" "r = Run_boot (State_From ?m) r0"
    using run(1) by (auto simp: start_runner_def split: sum.splits)
  have shape: "all_joins g" "acyclic (edge_rel g)" using agent_graph_dag[OF g(1)] by blast+
  have comp: "computed g (State_From ?m) (entry_behaviour ?api aenv built w) out"
    using dag_run_computed[OF g(1,2) _ _ shape io(2,3)] run(2,3) unfolding g(3) by blast
  obtain o' where o': "entry_behaviour ?api aenv built w ''agent'' (Clone (State_From ?m)) (Returned o')" "out = Clone o'"
    using agent_graph_run[OF g(1) comp] by auto
  have "ReadStringField ?api (ae_dump aenv) (Clone (State_From ?m)) ''user_query'' = query"
    using m(2,3) by (simp add: ReadStringField_def State_From_def State_def ReadProtoField_def Clone_def)
  then have "fst (AgentNode_Run ?api aenv (ba_cfg built) (Clone (State_From ?m)) w) =
      Inr (WriteStringField ?api (Clone (State_From ?m)) ''assistant_reply'' answer)"
    using agent cfg by (simp add: AgentNode_Run_def)
  then have "o' = WriteStringField ?api (Clone (State_From ?m)) ''assistant_reply'' answer"
    using o'(1) by (simp add: entry_behaviour_def)
  then have "State_As ?api (je_is_test_state env) out = Inr (set_string ?api ?m ''assistant_reply'' answer)"
    using As_WriteStringField[of ?api "je_is_test_state env" "Clone (State_From ?m)" ?m] m o'(2) by simp
  then have "run_outcome env t = Some (Inr answer)" using io(2) m(6) by (simp add: run_outcome_def read_reply_def)
  then have "run_to_reply env built query s' = Some (return_string answer s')" for s'
    using run(1) io(1) by (simp add: run_to_reply_def)
  then show ?thesis using entry env(1) by (auto simp: runAgent_def runJsonWorkflow_def return_string_def)
qed

definition reply_schedule :: "string runner_event list" where
  "reply_schedule = [ELaunch ''agent'', EBegin ''agent'', EFinish ''agent'' (Returned (State_From ''hello'')) uncancelled 0,
     ELaunch ''sink'', EBegin ''sink'', EFinish ''sink'' (Returned (State_From ''hello'')) uncancelled 0, EReturn]"

definition reply_jni :: "(string, unit, sub_event list) jni_env" where
  "reply_jni = sample_jni\<lparr>je_io_run := (\<lambda>built tok r. (the (exec_run test_api demo_dump False reply_schedule r), None))\<rparr>"

definition greeter :: "sub_event list agent_env" where
  "greeter = \<lparr>ae_parse = no_parse, ae_dump = demo_dump, ae_dump_lenient = demo_dump, ae_cancelled = (\<lambda>_. False),
     ae_create = (\<lambda>_ _ w. (True, w)), ae_describe = [], ae_send = (\<lambda>_ w. (Inr (Inr ''hello''), w)), ae_tool_call = (\<lambda>_ _ _ w. w),
     ae_tool_return = (\<lambda>_ _ _ w. w), ae_order = (\<lambda>_ n. [0..<n])\<rparr>"

definition reply_start :: "string runner" where
  "reply_start = (case start_runner reply_jni ''hi'' of Inr r \<Rightarrow> r)"

definition reply_end :: "string runner" where
  "reply_end = the (exec_run test_api demo_dump False reply_schedule reply_start)"

lemma agent_graph_produced:
  assumes "Build agent_graph = Inr g" "produced g s es v inp"
  shows "v = ''agent'' \<and> inp = Clone s \<or> v = ''sink'' \<and> (\<exists>o' c now. EFinish ''agent'' (Returned o') c now \<in> set es \<and> inp = Clone o')"
proof -
  have g: "g_entries g = [''agent'']" "g_edges g = [\<lparr>edge_from = ''agent'', edge_to = ''sink'', edge_group = 0, edge_cond = CondAll\<rparr>]"
    using agent_graph_builds assms(1) by auto
  show ?thesis using assms(2) by (auto simp: produced_def g)
qed

lemma reply_inputs:
  assumes "reply_schedule = es1 @ EFinish v out c now # es2" "exec_run test_api demo_dump False es1 reply_start = Some s"
    "(v, Started, inp) \<in> set (coroutines s)"
  shows "entry_behaviour test_api greeter (runAgent_config reply_jni ''m'' [] False) [] v inp out"
proof -
  obtain g r0 where g: "Build agent_graph = Inr g" "Runner_Impl g Off False = Inr r0" "reply_start = Run_boot (State_From ''hi'') r0"
    using start_runner_ok[of reply_jni "''hi''"]
    by (auto simp: reply_start_def start_runner_def reply_jni_def sample_jni_def test_api_def split: sum.splits)
  note b = booted_run[OF g(1,2) assms(2)[unfolded g(3)]]
  have "produced g (State_From ''hi'') es1 v inp"
    using flow_inv_run[OF b(2,1)] assms(3) by (auto simp: flow_inv_def inbox_def)
  note inp = agent_graph_produced[OF g(1) this]
  have "EFinish v out c now \<in> set reply_schedule" "set es1 \<subseteq> set reply_schedule" unfolding assms(1) by auto
  then have out: "out = Returned (State_From ''hello'')" "EFinish ''agent'' (Returned o') c' now' \<in> set es1 \<Longrightarrow> o' = State_From ''hello''" for o' c' now'
    by (auto simp: reply_schedule_def)
  have clone: "Clone (State_From m) = State_From m" for m :: string by (simp add: Clone_def State_From_def State_def)
  from inp consider "v = ''agent''" "inp = State_From ''hi''" | "v = ''sink''" "inp = State_From ''hello''"
    using out(2) clone by auto
  then show ?thesis
  proof cases
    case 1
    then show ?thesis
      by (simp add: out(1) entry_behaviour_def AgentNode_Run_def greeter_def runAgent_config_def BuildToolsJson_def no_parse_def
          eval_nat_numeral WriteStringField_def WriteProtoField_def State_From_def State_def test_api_def)
  next
    case 2
    then show ?thesis by (simp add: out(1) entry_behaviour_def StubNode_Run_def sink_stub_def)
  qed
qed

theorem java_gets_answer_witness:
  "runAgent reply_jni ''m'' [] ''hi'' False new_jni_state = Some (JValue ''hello'', jni_fn (read_strings 3 new_jni_state))"
proof -
  let ?built = "runAgent_config reply_jni ''m'' [] False"
  have env: "je_engine_create reply_jni ''m''" "test_state_api (je_api reply_jni) (je_is_test_state reply_jni)"
      "je_is_test_state reply_jni (je_new_test_state reply_jni)"
    by (simp_all add: reply_jni_def sample_jni_def test_api_def test_state_api_def)
  have api: "je_api reply_jni = test_api" by (simp add: reply_jni_def sample_jni_def)
  have start: "start_runner reply_jni ''hi'' = Inr reply_start"
    using start_runner_ok[of reply_jni "''hi''"] by (auto simp: reply_start_def)
  have ran: "exec_run (je_api reply_jni) demo_dump False reply_schedule reply_start = Some reply_end"
  proof -
    have "\<not> Option.is_none (exec_run test_api demo_dump False reply_schedule reply_start)" by code_simp
    then show ?thesis by (auto simp: api reply_end_def Option.is_none_def)
  qed
  have obeyed: "obeys (je_api reply_jni) demo_dump (entry_behaviour (je_api reply_jni) greeter ?built []) reply_start reply_schedule"
    by (rule obeysI[OF ran]) (use reply_inputs in \<open>auto simp: api\<close>)
  have io: "fst (je_io_run reply_jni ?built None reply_start) = reply_end" by (simp add: reply_jni_def reply_end_def)
  have "returned_ok reply_end" "\<not> cancel_flag reply_end" by code_simp+
  then obtain out where out: "result reply_end = Some (Inr out)" "\<not> cancel_flag reply_end" by (auto elim: returned_okE)
  have agent: "\<not> ae_cancelled greeter []" "BuildToolsJson greeter (ba_cfg ?built) = Inr ''[]''"
      "ae_create greeter (BuildSystemMessageJson (ae_dump greeter) (ac_system_prompt (ba_cfg ?built))) ''[]'' [] = (True, [])"
      "agent_loop greeter (ba_cfg ?built) 5 0 (BuildUserMessageJson (ae_dump greeter) ''hi'') [] = (Inr ''hello'', [[]], [])" "''hello'' \<noteq> []"
    by (simp_all add: greeter_def runAgent_config_def BuildToolsJson_def BuildUserMessageJson_def demo_dump_def no_parse_def eval_nat_numeral)
  have "c_str ''hello'' = ''hello''" by (simp add: c_str_def)
  then show ?thesis
    using java_gets_answer[OF disjI1[OF conjI[OF refl refl]] env start ran obeyed io out agent] by simp
qed

end
